(* ===== verification/Prelude.thy ===== *)
theory Prelude
  imports Main "HOL-Library.Word"
begin

text \<open>
  Shared vocabulary of the development: decimal rendering of integers (the \<open>toString\<close> of a
  \<open>bigint\<close>), majorities of a finite membership list, and the list facts about prefixes that
  the log arguments of every later theory use, and the operations of a \<open>Map\<close> as an association list in
  insertion order.  The collection \<open>core_simps\<close> holds rewrite rules of the consensus core and of the
  loops of the storage adapters.
\<close>

named_theorems core_simps
  "field by field effect of the operations of the consensus core"

type_synonym bytes = "8 word list"

section \<open>Decimal rendering\<close>

definition digit_char :: "nat \<Rightarrow> char" where
  "digit_char d = char_of (48 + d)"

fun nat_to_string :: "nat \<Rightarrow> string" where
  "nat_to_string n =
     (if n < 10 then [digit_char n] else nat_to_string (n div 10) @ [digit_char (n mod 10)])"

declare nat_to_string.simps [simp del]

definition bigint_to_string :: "int \<Rightarrow> string" where
  "bigint_to_string i =
     (if i < 0 then ''-'' @ nat_to_string (nat (- i)) else nat_to_string (nat i))"

section \<open>Majorities\<close>

definition majority :: "'a list \<Rightarrow> 'a set \<Rightarrow> bool" where
  "majority ms Q \<longleftrightarrow> Q \<subseteq> set ms \<and> length ms div 2 + 1 \<le> card Q"

lemma majority_subset: "majority ms Q \<Longrightarrow> Q \<subseteq> set ms"
  by (simp add: majority_def)

lemma majority_finite: "majority ms Q \<Longrightarrow> finite Q"
  by (auto simp: majority_def intro: finite_subset)

lemma majority_mono: "majority ms Q \<Longrightarrow> Q \<subseteq> R \<Longrightarrow> R \<subseteq> set ms \<Longrightarrow> majority ms R"
  by (auto simp: majority_def dest: card_mono [OF finite_subset [OF _ finite_set]])

lemma majority_intersect:
  assumes "majority ms Q" and "majority ms R"
  shows "\<exists>x. x \<in> Q \<and> x \<in> R"
proof (rule ccontr)
  assume "\<not> ?thesis"
  then have disj: "Q \<inter> R = {}" by auto
  have fin: "finite Q" "finite R" using assms by (auto intro: majority_finite)
  have "card Q + card R = card (Q \<union> R)"
    using fin disj by (simp add: card_Un_disjoint)
  also have "\<dots> \<le> card (set ms)"
    using assms by (intro card_mono) (auto simp: majority_def)
  also have "\<dots> \<le> length ms" by (rule card_length)
  finally have "card Q + card R \<le> length ms" .
  moreover have "length ms div 2 + 1 \<le> card Q" "length ms div 2 + 1 \<le> card R"
    using assms by (simp_all add: majority_def)
  ultimately show False by linarith
qed

lemma majority_nonempty: "majority ms Q \<Longrightarrow> \<exists>x. x \<in> Q"
  using majority_intersect by blast

section \<open>Prefixes\<close>

lemma take_eq_mono:
  assumes "take n xs = take n ys" and "m \<le> n"
  shows "take m xs = take m ys"
proof -
  have "take m (take n xs) = take m (take n ys)" using assms(1) by simp
  then show ?thesis using assms(2) by (simp add: min_def)
qed

lemma take_eq_nth:
  assumes "take n xs = take n ys" and "i < n"
    and "i < length xs"
  shows "i < length ys \<and> xs ! i = ys ! i"
proof -
  have "i < length (take n ys)" using assms by (metis length_take min_less_iff_conj)
  then have "i < length ys" by simp
  moreover have "take n xs ! i = take n ys ! i" using assms(1) by simp
  ultimately show ?thesis using assms(2) by simp
qed

lemma take_eq_length:
  "take n xs = take n ys \<Longrightarrow> n \<le> length xs \<Longrightarrow> n \<le> length ys"
  by (metis length_take min.absorb2 min.cobounded1)

section \<open>Maps in insertion order\<close>

text \<open>\<open>Map\<close> operations on association lists in insertion order.\<close>

definition map_set :: "'k \<Rightarrow> 'v \<Rightarrow> ('k \<times> 'v) list \<Rightarrow> ('k \<times> 'v) list" where
  "map_set k v xs =
     (if map_of xs k = None then xs @ [(k, v)]
      else map (\<lambda>(q, w). if q = k then (q, v) else (q, w)) xs)"

definition map_delete :: "'k \<Rightarrow> ('k \<times> 'v) list \<Rightarrow> ('k \<times> 'v) list" where
  "map_delete k xs = filter (\<lambda>(q, w). q \<noteq> k) xs"

lemma map_set_of [simp]: "map_of (map_set k v xs) = (map_of xs)(k \<mapsto> v)"
proof
  fix q
  have "map_of (map (\<lambda>(q, w). if q = k then (q, v) else (q, w)) xs) q =
      (if q = k \<and> map_of xs k \<noteq> None then Some v else map_of xs q)"
    by (induction xs) auto
  then show "map_of (map_set k v xs) q = ((map_of xs)(k \<mapsto> v)) q"
    by (auto simp: map_set_def map_add_def split: option.splits)
qed

lemma map_delete_of [simp]: "map_of (map_delete k xs) = (map_of xs)(k := None)"
proof
  show "map_of (map_delete k xs) q = ((map_of xs)(k := None)) q" for q
    by (induction xs) (auto simp: map_delete_def)
qed

lemma map_fst_update: "map fst (map (\<lambda>(q, w). if q = k then (q, v) else (q, w)) xs) = map fst xs"
  by (induction xs) auto

lemma map_set_keys: "set (map fst (map_set k v xs)) = insert k (set (map fst xs))"
proof (cases "map_of xs k = None")
  case True
  then show ?thesis by (simp add: map_set_def)
next
  case False
  then have "k \<in> set (map fst xs)" by (simp add: map_of_eq_None_iff)
  then show ?thesis using False by (simp add: map_set_def map_fst_update del: set_map map_map) (rule insert_absorb [symmetric])
qed

lemma map_delete_keys: "set (map fst (map_delete k xs)) = set (map fst xs) - {k}"
  by (auto simp: map_delete_def image_iff)

lemma map_set_distinct:
  assumes "distinct (map fst xs)"
  shows "distinct (map fst (map_set k v xs))"
proof (cases "map_of xs k = None")
  case True
  then show ?thesis using assms by (simp add: map_set_def map_of_eq_None_iff)
next
  case False
  then have "map fst (map_set k v xs) = map fst xs" by (auto simp: map_set_def)
  then show ?thesis using assms by simp
qed

lemma map_delete_distinct: "distinct (map fst xs) \<Longrightarrow> distinct (map fst (map_delete k xs))"
  by (induction xs) (auto simp: map_delete_def)

end
