(* ===== verification/RaftTypes.thy ===== *)
theory RaftTypes
  imports Prelude
begin

text \<open>
  The data model of \<open>packages/raft-core/src/types.ts\<close>, the error classes of \<open>errors.ts\<close> and the
  persistence batch of \<open>contracts.ts\<close>.  A \<open>bigint\<close> is an \<^typ>\<open>int\<close>, an optional property is an
  \<open>option\<close>, a \<open>Uint8Array\<close> is a list of 8-bit words, a branded string is a \<^typ>\<open>string\<close>.  The
  discriminated union \<open>RaftMessage\<close> is one record with the fields of \<open>MessageBase\<close> and a body
  with one constructor per message type.  An error class is a constructor of \<open>raft_error\<close>
  carrying the message; \<open>PlainError\<close> stands for \<open>throw new Error(\<dots>)\<close>.
\<close>

type_synonym node_id = string
type_synonym cluster_id = string

definition PROTOCOL_VERSION :: int where
  "PROTOCOL_VERSION = 1"

section \<open>Errors\<close>

datatype raft_error =
    PlainError string
  | NotLeaderError "node_id option"
  | NoKnownLeaderError string
  | NoQuorumError string
  | ProposalTimeoutError string
  | CommandIdConflictError string
  | NodeStoppedError string
  | StorageError string
  | TransportError string
  | StateMachineError string
  | ProtocolError string

text \<open>The message each error instance carries, \<open>NotLeaderError\<close> deriving it from its hint.\<close>

fun error_message :: "raft_error \<Rightarrow> string" where
  "error_message (NotLeaderError None) = ''node is not the leader''"
| "error_message (NotLeaderError (Some l)) = ''node is not the leader; leader is '' @ l"
| "error_message (PlainError m) = m"
| "error_message (NoKnownLeaderError m) = m"
| "error_message (NoQuorumError m) = m"
| "error_message (ProposalTimeoutError m) = m"
| "error_message (CommandIdConflictError m) = m"
| "error_message (NodeStoppedError m) = m"
| "error_message (StorageError m) = m"
| "error_message (TransportError m) = m"
| "error_message (StateMachineError m) = m"
| "error_message (ProtocolError m) = m"

section \<open>Identifiers\<close>

definition is_alnum :: "char \<Rightarrow> bool" where
  "is_alnum c \<longleftrightarrow>
     (let n = of_char c :: nat in
       (65 \<le> n \<and> n \<le> 90) \<or> (97 \<le> n \<and> n \<le> 122) \<or> (48 \<le> n \<and> n \<le> 57))"

definition is_id_char :: "char \<Rightarrow> bool" where
  "is_id_char c \<longleftrightarrow> is_alnum c \<or> c = CHR ''.'' \<or> c = CHR ''_'' \<or> c = CHR ''-''"

text \<open>The regular expression shared by \<open>nodeId\<close> and \<open>clusterId\<close>: one alphanumeric character
  followed by at most 127 identifier characters.\<close>

fun valid_id :: "string \<Rightarrow> bool" where
  "valid_id [] = False"
| "valid_id (c # cs) = (is_alnum c \<and> length cs \<le> 127 \<and> list_all is_id_char cs)"

definition nodeId :: "string \<Rightarrow> raft_error + node_id" where
  "nodeId value = (if \<not> valid_id value then Inl (PlainError ''invalid node ID'') else Inr value)"

definition clusterId :: "string \<Rightarrow> raft_error + cluster_id" where
  "clusterId value =
     (if \<not> valid_id value then Inl (PlainError ''invalid cluster ID'') else Inr value)"

section \<open>Persistent data\<close>

datatype role = Follower | Candidate | Leader

datatype entry_type = Command | Configuration | Noop

record hard_state =
  hs_currentTerm :: int
  hs_votedFor :: "node_id option"
  hs_commitIndex :: int

record log_entry =
  le_index :: int
  le_term :: int
  le_type :: entry_type
  le_payload :: bytes
  le_commandId :: "string option"

record snapshot =
  sn_formatVersion :: int
  sn_clusterId :: cluster_id
  sn_lastIncludedIndex :: int
  sn_lastIncludedTerm :: int
  sn_members :: "node_id list"
  sn_data :: bytes
  sn_checksum :: string

record persisted_raft_state =
  ps_hardState :: hard_state
  ps_entries :: "log_entry list"
  ps_snapshot :: "snapshot option"
  ps_appliedIndex :: int

record persist_batch =
  pb_hardState :: "hard_state option"
  pb_truncateFrom :: "int option"
  pb_entries :: "log_entry list"
  pb_snapshot :: "snapshot option"
  pb_appliedIndex :: "int option"

section \<open>Messages and events\<close>

datatype message_body =
    RequestVoteRequest (mb_lastLogIndex: int) (mb_lastLogTerm: int)
  | RequestVoteResponse (mb_voteGranted: bool)
  | AppendEntriesRequest (mb_prevLogIndex: int) (mb_prevLogTerm: int)
      (mb_entries: "log_entry list") (mb_leaderCommit: int)
  | AppendEntriesResponse (mb_success: bool) (mb_matchIndex: int) (mb_rejectHint: int)

record raft_message =
  m_protocolVersion :: int
  m_clusterId :: cluster_id
  m_from :: node_id
  m_to :: node_id
  m_term :: int
  m_body :: message_body

datatype raft_event =
    ElectionTimeout int
  | HeartbeatTimeout
  | MessageEvent raft_message
  | Propose string bytes

record raft_ready =
  rd_id :: int
  rd_hardState :: "hard_state option"
  rd_truncateFrom :: "int option"
  rd_unstableEntries :: "log_entry list"
  rd_snapshot :: "snapshot option"
  rd_outboundMessages :: "raft_message list"
  rd_committedEntries :: "log_entry list"

record raft_status =
  st_nodeId :: node_id
  st_clusterId :: cluster_id
  st_role :: role
  st_currentTerm :: int
  st_leaderId :: "node_id option"
  st_lastLogIndex :: int
  st_commitIndex :: int
  st_appliedIndex :: int
  st_snapshotIndex :: int

record raft_core_options =
  co_nodeId :: node_id
  co_clusterId :: cluster_id
  co_members :: "node_id list"
  co_electionTimeout :: int
  co_heartbeatInterval :: int
  co_maxMessageBytes :: "int option"
  co_persisted :: "persisted_raft_state option"

section \<open>Contiguous index runs\<close>

text \<open>A list of entries whose indexes count up from \<open>b\<close>: the shape every log, batch and
  replication payload of the program is supposed to have.\<close>

fun contiguous :: "int \<Rightarrow> log_entry list \<Rightarrow> bool" where
  "contiguous b [] = True"
| "contiguous b (e # es) = (le_index e = b \<and> contiguous (b + 1) es)"

lemma contiguous_append [simp]:
  "contiguous b (xs @ ys) = (contiguous b xs \<and> contiguous (b + int (length xs)) ys)"
  by (induction xs arbitrary: b) (auto simp: algebra_simps)

lemma contiguous_nth: "contiguous b es \<Longrightarrow> i < length es \<Longrightarrow> le_index (es ! i) = b + int i"
  by (induction es arbitrary: b i) (auto simp: nth_Cons split: nat.splits)

lemma contiguous_take: "contiguous b es \<Longrightarrow> contiguous b (take n es)"
  by (metis append_take_drop_id contiguous_append)

lemma contiguous_drop:
  "contiguous b es \<Longrightarrow> n \<le> length es \<Longrightarrow> contiguous (b + int n) (drop n es)"
  by (metis append_take_drop_id contiguous_append length_take min.absorb2)

lemma contiguous_bounds:
  "contiguous b es \<Longrightarrow> e \<in> set es \<Longrightarrow> b \<le> le_index e \<and> le_index e < b + int (length es)"
  by (metis contiguous_nth in_set_conv_nth add_increasing2 add_strict_left_mono le_numeral_extra(3)
      of_nat_0_le_iff of_nat_less_iff order_refl)

lemma contiguous_filter_less:
  "contiguous b es \<Longrightarrow> filter (\<lambda>e. le_index e < j) es = take (nat (j - b)) es"
proof (induction es arbitrary: b)
  case Nil
  then show ?case by simp
next
  case (Cons e es)
  have IH: "filter (\<lambda>e. le_index e < j) es = take (nat (j - (b + 1))) es"
    using Cons by simp
  show ?case
  proof (cases "b < j")
    case True
    then have "nat (j - b) = Suc (nat (j - (b + 1)))" by linarith
    then show ?thesis using True Cons.prems IH by simp
  next
    case False
    then show ?thesis using Cons.prems IH by simp
  qed
qed

lemma contiguous_filter_ge:
  "contiguous b es \<Longrightarrow> filter (\<lambda>e. j \<le> le_index e) es = drop (nat (j - b)) es"
proof (induction es arbitrary: b)
  case Nil
  then show ?case by simp
next
  case (Cons e es)
  have IH: "filter (\<lambda>e. j \<le> le_index e) es = drop (nat (j - (b + 1))) es"
    using Cons by simp
  show ?case
  proof (cases "b < j")
    case True
    then have "nat (j - b) = Suc (nat (j - (b + 1)))" by linarith
    then show ?thesis using True Cons.prems IH by simp
  next
    case False
    then show ?thesis using Cons.prems IH by simp
  qed
qed

lemma contiguous_find:
  assumes "contiguous b es"
  shows "find (\<lambda>e. le_index e = j) es =
    (if b \<le> j \<and> j < b + int (length es) then Some (es ! nat (j - b)) else None)"
  using assms
proof (induction es arbitrary: b)
  case Nil
  then show ?case by simp
next
  case (Cons e es)
  show ?case
  proof (cases "j = b")
    case True
    then show ?thesis using Cons.prems by simp
  next
    case False
    then have IH: "find (\<lambda>e. le_index e = j) es =
      (if b + 1 \<le> j \<and> j < b + 1 + int (length es) then Some (es ! nat (j - (b + 1))) else None)"
      using Cons by simp
    have "b + 1 \<le> j \<Longrightarrow> nat (j - b) = Suc (nat (j - (b + 1)))" by linarith
    then show ?thesis using False Cons.prems IH by auto
  qed
qed

lemma contiguous_last: "contiguous b es \<Longrightarrow> es \<noteq> [] \<Longrightarrow> le_index (last es) = b + int (length es) - 1"
  by (induction es arbitrary: b) auto

end
