(* ===== verification/RaftCore.thy ===== *)
theory RaftCore
  imports RaftTypes
begin

text \<open>
  The consensus core, class \<open>RaftCore\<close> of \<open>packages/raft-core/src/raft.ts\<close>.  The private fields
  of the class are the record \<open>raft_core\<close> (\<open>#memberSet\<close> is the set of \<open>rc_members\<close>); \<open>#progress\<close>,
  a \<open>Map\<close>, is an association list in insertion order; \<open>#votes\<close>, a \<open>Set\<close>, is a set.

  A method that may throw returns the pair of the object as the method leaves it and either
  the error or the result, so that what an exception leaves behind is part of the model: the
  class assigns its fields before it throws and nothing rolls them back.  The mutable
  \<open>Effects\<close> argument is returned as the result.
\<close>

section \<open>State\<close>

record peer_progress =
  pp_nextIndex :: int
  pp_matchIndex :: int

record effects =
  ef_hardState :: "hard_state option"
  ef_truncateFrom :: "int option"
  ef_entries :: "log_entry list"
  ef_snapshot :: "snapshot option"
  ef_messages :: "raft_message list"

record raft_core =
  rc_nodeId :: node_id
  rc_clusterId :: cluster_id
  rc_members :: "node_id list"
  rc_maxMessageBytes :: int
  rc_role :: role
  rc_leaderId :: "node_id option"
  rc_currentTerm :: int
  rc_votedFor :: "node_id option"
  rc_commitIndex :: int
  rc_appliedIndex :: int
  rc_snapshot :: "snapshot option"
  rc_entries :: "log_entry list"
  rc_votes :: "node_id set"
  rc_progress :: "(node_id \<times> peer_progress) list"
  rc_readySequence :: int
  rc_outstanding :: "raft_ready option"

type_synonym 'a outcome = "raft_core \<times> (raft_error + 'a)"

text \<open>Sequencing: an exception skips the rest of the method and keeps the object as it is.\<close>

fun and_then :: "'a outcome \<Rightarrow> (raft_core \<Rightarrow> 'a \<Rightarrow> 'b outcome) \<Rightarrow> 'b outcome" where
  "and_then (c, Inl e) k = (c, Inl e)"
| "and_then (c, Inr x) k = k c x"

definition no_effects :: effects where
  "no_effects = \<lparr>ef_hardState = None, ef_truncateFrom = None, ef_entries = [],
     ef_snapshot = None, ef_messages = []\<rparr>"

definition push_messages :: "raft_message list \<Rightarrow> effects \<Rightarrow> effects" where
  "push_messages ms eff = eff\<lparr>ef_messages := ef_messages eff @ ms\<rparr>"

section \<open>Reading the log\<close>

definition entryAt :: "raft_core \<Rightarrow> int \<Rightarrow> log_entry option" where
  "entryAt c index = find (\<lambda>e. le_index e = index) (rc_entries c)"

definition snapshotIndex :: "raft_core \<Rightarrow> int" where
  "snapshotIndex c = (case rc_snapshot c of None \<Rightarrow> 0 | Some s \<Rightarrow> sn_lastIncludedIndex s)"

definition termAt :: "raft_core \<Rightarrow> int \<Rightarrow> int option" where
  "termAt c index =
     (if index = 0 then Some 0
      else case rc_snapshot c of
        Some s \<Rightarrow> (if sn_lastIncludedIndex s = index then Some (sn_lastIncludedTerm s)
                   else map_option le_term (entryAt c index))
      | None \<Rightarrow> map_option le_term (entryAt c index))"

definition lastLogIndex :: "raft_core \<Rightarrow> int" where
  "lastLogIndex c =
     (if rc_entries c \<noteq> [] then le_index (last (rc_entries c)) else snapshotIndex c)"

definition termAt_or_0 :: "raft_core \<Rightarrow> int \<Rightarrow> int" where
  "termAt_or_0 c index = (case termAt c index of None \<Rightarrow> 0 | Some t \<Rightarrow> t)"

definition hardState :: "raft_core \<Rightarrow> hard_state" where
  "hardState c = \<lparr>hs_currentTerm = rc_currentTerm c, hs_votedFor = rc_votedFor c,
     hs_commitIndex = rc_commitIndex c\<rparr>"

definition peers :: "raft_core \<Rightarrow> node_id list" where
  "peers c = filter (\<lambda>m. m \<noteq> rc_nodeId c) (rc_members c)"

definition hasQuorum :: "raft_core \<Rightarrow> nat \<Rightarrow> bool" where
  "hasQuorum c count \<longleftrightarrow> length (rc_members c) div 2 + 1 \<le> count"

definition status :: "raft_core \<Rightarrow> raft_status" where
  "status c = \<lparr>st_nodeId = rc_nodeId c, st_clusterId = rc_clusterId c, st_role = rc_role c,
     st_currentTerm = rc_currentTerm c, st_leaderId = rc_leaderId c,
     st_lastLogIndex = lastLogIndex c, st_commitIndex = rc_commitIndex c,
     st_appliedIndex = rc_appliedIndex c, st_snapshotIndex = snapshotIndex c\<rparr>"

section \<open>The assertion of the class\<close>

fun log_gap :: "int \<Rightarrow> log_entry list \<Rightarrow> bool" where
  "log_gap expected [] = False"
| "log_gap expected (e # es) = (if le_index e \<noteq> expected then True else log_gap (expected + 1) es)"

definition assertInvariants :: "raft_core \<Rightarrow> raft_error option" where
  "assertInvariants c =
     (let boundary = snapshotIndex c in
      if log_gap (boundary + 1) (rc_entries c)
      then Some (PlainError ''invariant: log indexes must be contiguous'')
      else if rc_commitIndex c < boundary \<or> lastLogIndex c < rc_commitIndex c
      then Some (PlainError ''invariant: commit index outside the log'')
      else if rc_commitIndex c < rc_appliedIndex c
      then Some (PlainError ''invariant: applied index exceeds commit index'')
      else if rc_currentTerm c < 0
      then Some (PlainError ''invariant: current term is negative'')
      else None)"

section \<open>Sending\<close>

definition envelope :: "raft_core \<Rightarrow> node_id \<Rightarrow> message_body \<Rightarrow> raft_message" where
  "envelope c to b = \<lparr>m_protocolVersion = PROTOCOL_VERSION, m_clusterId = rc_clusterId c,
     m_from = rc_nodeId c, m_to = to, m_term = rc_currentTerm c, m_body = b\<rparr>"

definition appendFor :: "raft_core \<Rightarrow> node_id \<Rightarrow> raft_error + raft_message" where
  "appendFor c peer =
     (case map_of (rc_progress c) peer of
        None \<Rightarrow> Inl (PlainError ''missing leader progress'')
      | Some progress \<Rightarrow>
          let prevLogIndex = pp_nextIndex progress - 1;
              es = filter (\<lambda>e. pp_nextIndex progress \<le> le_index e) (rc_entries c)
          in Inr (envelope c peer (AppendEntriesRequest prevLogIndex (termAt_or_0 c prevLogIndex)
                    es (rc_commitIndex c))))"

fun broadcast_to :: "raft_core \<Rightarrow> node_id list \<Rightarrow> effects \<Rightarrow> raft_error + effects" where
  "broadcast_to c [] eff = Inr eff"
| "broadcast_to c (p # ps) eff =
     (case appendFor c p of
        Inl e \<Rightarrow> Inl e
      | Inr m \<Rightarrow> broadcast_to c ps (push_messages [m] eff))"

definition broadcastAppend :: "raft_core \<Rightarrow> effects \<Rightarrow> effects outcome" where
  "broadcastAppend c eff = (c, broadcast_to c (peers c) eff)"

definition appendResponse :: "raft_core \<Rightarrow> node_id \<Rightarrow> bool \<Rightarrow> int \<Rightarrow> int \<Rightarrow> raft_message" where
  "appendResponse c to ok match hint = envelope c to (AppendEntriesResponse ok match hint)"

definition appendLocal :: "entry_type \<Rightarrow> bytes \<Rightarrow> string option \<Rightarrow> raft_core \<Rightarrow> effects
    \<Rightarrow> raft_core \<times> effects" where
  "appendLocal ty payload commandId c eff =
     (let full = \<lparr>le_index = lastLogIndex c + 1, le_term = rc_currentTerm c, le_type = ty,
            le_payload = payload, le_commandId = commandId\<rparr>
      in (c\<lparr>rc_entries := rc_entries c @ [full]\<rparr>, eff\<lparr>ef_entries := ef_entries eff @ [full]\<rparr>))"

section \<open>Commitment by the leader\<close>

text \<open>\<open>replicated\<close> counts the leader and every peer whose \<open>matchIndex\<close> has reached the index.\<close>

definition replicated :: "raft_core \<Rightarrow> int \<Rightarrow> nat" where
  "replicated c index =
     1 + length (filter (\<lambda>(p, progress). index \<le> pp_matchIndex progress) (rc_progress c))"

function commit_scan :: "raft_core \<Rightarrow> int \<Rightarrow> int option" where
  "commit_scan c index =
     (if rc_commitIndex c < index
      then if termAt c index \<noteq> Some (rc_currentTerm c) then commit_scan c (index - 1)
           else if hasQuorum c (replicated c index) then Some index
           else commit_scan c (index - 1)
      else None)"
  by pat_completeness auto
termination
  by (relation "measure (\<lambda>(c, index). nat (index - rc_commitIndex c))") auto

declare commit_scan.simps [simp del]

definition advanceLeaderCommit :: "raft_core \<Rightarrow> effects \<Rightarrow> raft_core \<times> effects \<times> bool" where
  "advanceLeaderCommit c eff =
     (if rc_role c \<noteq> Leader then (c, eff, False)
      else case commit_scan c (lastLogIndex c) of
        None \<Rightarrow> (c, eff, False)
      | Some index \<Rightarrow>
          let c' = c\<lparr>rc_commitIndex := index\<rparr>
          in (c', eff\<lparr>ef_hardState := Some (hardState c')\<rparr>, True))"

section \<open>Role changes\<close>

definition becomeLeader :: "raft_core \<Rightarrow> effects \<Rightarrow> effects outcome" where
  "becomeLeader c eff =
     (let c1 = c\<lparr>rc_role := Leader, rc_leaderId := Some (rc_nodeId c), rc_progress := []\<rparr>;
          nextIndex = lastLogIndex c1 + 1;
          c2 = c1\<lparr>rc_progress :=
             map (\<lambda>p. (p, \<lparr>pp_nextIndex = nextIndex, pp_matchIndex = 0\<rparr>)) (peers c1)\<rparr>;
          (c3, eff1) = appendLocal Noop [] None c2 eff
      in and_then (broadcastAppend c3 eff1)
           (\<lambda>c4 eff2. case advanceLeaderCommit c4 eff2 of (c5, eff3, _) \<Rightarrow> (c5, Inr eff3)))"

definition becomeFollower :: "int \<Rightarrow> node_id option \<Rightarrow> raft_core \<Rightarrow> effects
    \<Rightarrow> raft_core \<times> effects" where
  "becomeFollower term leaderId c eff =
     (let termChanged = rc_currentTerm c < term;
          c1 = (if termChanged then c\<lparr>rc_currentTerm := term, rc_votedFor := None\<rparr> else c);
          eff1 = (if termChanged then eff\<lparr>ef_hardState := Some (hardState c1)\<rparr> else eff)
      in (c1\<lparr>rc_role := Follower, rc_leaderId := leaderId, rc_votes := {}, rc_progress := []\<rparr>,
          eff1))"

definition startElection :: "raft_core \<Rightarrow> effects \<Rightarrow> effects outcome" where
  "startElection c eff =
     (let c1 = c\<lparr>rc_role := Candidate, rc_leaderId := None,
             rc_currentTerm := rc_currentTerm c + 1, rc_votedFor := Some (rc_nodeId c),
             rc_votes := {rc_nodeId c}\<rparr>;
          eff1 = eff\<lparr>ef_hardState := Some (hardState c1)\<rparr>;
          lastIndex = lastLogIndex c1;
          lastTerm = termAt_or_0 c1 lastIndex;
          eff2 = push_messages
             (map (\<lambda>p. envelope c1 p (RequestVoteRequest lastIndex lastTerm)) (peers c1)) eff1
      in if hasQuorum c1 (card (rc_votes c1)) then becomeLeader c1 eff2 else (c1, Inr eff2))"

section \<open>Message handlers\<close>

definition handleVoteRequest :: "raft_message \<Rightarrow> int \<Rightarrow> int \<Rightarrow> raft_core \<Rightarrow> effects
    \<Rightarrow> raft_core \<times> effects" where
  "handleVoteRequest m candidateIndex candidateTerm c eff =
     (let localLastIndex = lastLogIndex c;
          localLastTerm = termAt_or_0 c localLastIndex;
          upToDate = (localLastTerm < candidateTerm \<or>
             (candidateTerm = localLastTerm \<and> localLastIndex \<le> candidateIndex));
          granted = (m_term m = rc_currentTerm c \<and>
             (rc_votedFor c = None \<or> rc_votedFor c = Some (m_from m)) \<and> upToDate);
          c1 = (if granted
                then c\<lparr>rc_role := Follower, rc_leaderId := None, rc_votedFor := Some (m_from m)\<rparr>
                else c);
          eff1 = (if granted then eff\<lparr>ef_hardState := Some (hardState c1)\<rparr> else eff)
      in (c1, push_messages [envelope c1 (m_from m) (RequestVoteResponse granted)] eff1))"

definition handleVoteResponse :: "raft_message \<Rightarrow> bool \<Rightarrow> raft_core \<Rightarrow> effects
    \<Rightarrow> effects outcome" where
  "handleVoteResponse m granted c eff =
     (if m_term m < rc_currentTerm c \<or> rc_role c \<noteq> Candidate then (c, Inr eff)
      else if m_term m = rc_currentTerm c \<and> granted
      then let c1 = c\<lparr>rc_votes := insert (m_from m) (rc_votes c)\<rparr>
           in if hasQuorum c1 (card (rc_votes c1)) then becomeLeader c1 eff else (c1, Inr eff)
      else (c, Inr eff))"

text \<open>The loop over \<open>message.entries\<close>: the arguments after the object are \<open>truncateFrom\<close> and
  \<open>appended\<close>.\<close>

definition conflicts :: "raft_core \<Rightarrow> log_entry \<Rightarrow> bool" where
  "conflicts c incoming =
     (case entryAt c (le_index incoming) of
        None \<Rightarrow> False
      | Some existing \<Rightarrow> le_term existing \<noteq> le_term incoming)"

fun append_loop :: "raft_core \<Rightarrow> int option \<Rightarrow> log_entry list \<Rightarrow> log_entry list
    \<Rightarrow> (int option \<times> log_entry list) outcome" where
  "append_loop c trunc appended [] = (c, Inr (trunc, appended))"
| "append_loop c trunc appended (incoming # rest) =
     (if conflicts c incoming \<and> le_index incoming \<le> rc_commitIndex c
      then (c, Inl (PlainError ''invariant: attempted to overwrite committed entry''))
      else
        let c1 = (if conflicts c incoming
                  then c\<lparr>rc_entries := filter (\<lambda>e. le_index e < le_index incoming) (rc_entries c)\<rparr>
                  else c);
            trunc1 = (if conflicts c incoming then Some (le_index incoming) else trunc)
        in if entryAt c1 (le_index incoming) = None
           then if le_index incoming \<noteq> lastLogIndex c1 + 1
                then (c1, Inl (ProtocolError ''non-contiguous AppendEntries payload''))
                else append_loop (c1\<lparr>rc_entries := rc_entries c1 @ [incoming]\<rparr>) trunc1
                       (appended @ [incoming]) rest
           else append_loop c1 trunc1 appended rest)"

definition minBigInt :: "int \<Rightarrow> int \<Rightarrow> int" where
  "minBigInt left right = (if left < right then left else right)"

definition maxBigInt :: "int \<Rightarrow> int \<Rightarrow> int" where
  "maxBigInt left right = (if right < left then left else right)"

definition handleAppendRequest :: "raft_message \<Rightarrow> int \<Rightarrow> int \<Rightarrow> log_entry list \<Rightarrow> int
    \<Rightarrow> raft_core \<Rightarrow> effects \<Rightarrow> effects outcome" where
  "handleAppendRequest m prevIndex prevTerm es leaderCommit c eff =
     (if m_term m < rc_currentTerm c
      then (c, Inr (push_messages
             [appendResponse c (m_from m) False 0 (lastLogIndex c + 1)] eff))
      else
        let (c1, eff1) = becomeFollower (m_term m) (Some (m_from m)) c eff
        in if termAt c1 prevIndex \<noteq> Some prevTerm
           then let hint = (if lastLogIndex c1 < prevIndex then lastLogIndex c1 + 1 else prevIndex)
                in (c1, Inr (push_messages [appendResponse c1 (m_from m) False 0 hint] eff1))
           else and_then (append_loop c1 None [] es)
             (\<lambda>c2 (trunc, appended).
                let eff2 = (case trunc of None \<Rightarrow> eff1
                            | Some i \<Rightarrow> eff1\<lparr>ef_truncateFrom := Some i\<rparr>);
                    eff3 = eff2\<lparr>ef_entries := ef_entries eff2 @ appended\<rparr>;
                    oldCommit = rc_commitIndex c2;
                    c3 = (if rc_commitIndex c2 < leaderCommit
                          then c2\<lparr>rc_commitIndex := minBigInt leaderCommit (lastLogIndex c2)\<rparr>
                          else c2);
                    eff4 = (if rc_commitIndex c3 \<noteq> oldCommit
                            then eff3\<lparr>ef_hardState := Some (hardState c3)\<rparr> else eff3);
                    matched = (if es \<noteq> [] then le_index (last es) else prevIndex)
                in (c3, Inr (push_messages
                      [appendResponse c3 (m_from m) True matched (matched + 1)] eff4))))"

definition set_progress :: "node_id \<Rightarrow> peer_progress \<Rightarrow> raft_core \<Rightarrow> raft_core" where
  "set_progress peer p c =
     c\<lparr>rc_progress := map (\<lambda>(q, x). if q = peer then (q, p) else (q, x)) (rc_progress c)\<rparr>"

definition push_append :: "node_id \<Rightarrow> raft_core \<Rightarrow> effects \<Rightarrow> effects outcome" where
  "push_append peer c eff =
     (case appendFor c peer of
        Inl e \<Rightarrow> (c, Inl e)
      | Inr m \<Rightarrow> (c, Inr (push_messages [m] eff)))"

definition handleAppendResponse :: "raft_message \<Rightarrow> bool \<Rightarrow> int \<Rightarrow> int \<Rightarrow> raft_core \<Rightarrow> effects
    \<Rightarrow> effects outcome" where
  "handleAppendResponse m ok match hint c eff =
     (if m_term m < rc_currentTerm c \<or> rc_role c \<noteq> Leader then (c, Inr eff)
      else case map_of (rc_progress c) (m_from m) of
        None \<Rightarrow> (c, Inr eff)
      | Some progress \<Rightarrow>
          if ok
          then let newMatch = (if pp_matchIndex progress < match then match
                               else pp_matchIndex progress);
                   c1 = set_progress (m_from m)
                     \<lparr>pp_nextIndex = newMatch + 1, pp_matchIndex = newMatch\<rparr> c;
                   (c2, eff1, commitAdvanced) = advanceLeaderCommit c1 eff
               in and_then (if commitAdvanced then broadcastAppend c2 eff1 else (c2, Inr eff1))
                    (\<lambda>c3 eff2. if newMatch + 1 \<le> lastLogIndex c3
                               then push_append (m_from m) c3 eff2 else (c3, Inr eff2))
          else let c1 = set_progress (m_from m)
                     (progress\<lparr>pp_nextIndex :=
                        maxBigInt 1 (minBigInt (pp_nextIndex progress - 1) hint)\<rparr>) c
               in push_append (m_from m) c1 eff)"

definition handleMessage :: "raft_message \<Rightarrow> raft_core \<Rightarrow> effects \<Rightarrow> effects outcome" where
  "handleMessage m c eff =
     (if m_protocolVersion m \<noteq> PROTOCOL_VERSION
      then (c, Inl (ProtocolError ''unsupported protocol version''))
      else if m_clusterId m \<noteq> rc_clusterId c
      then (c, Inl (ProtocolError ''cross-cluster message rejected''))
      else if m_to m \<noteq> rc_nodeId c \<or> m_from m \<notin> set (rc_members c)
      then (c, Inl (ProtocolError ''message peer identity rejected''))
      else
        let (c1, eff1) = (if rc_currentTerm c < m_term m
                          then becomeFollower (m_term m) None c eff else (c, eff))
        in case m_body m of
             RequestVoteRequest i t \<Rightarrow>
               (case handleVoteRequest m i t c1 eff1 of (c2, eff2) \<Rightarrow> (c2, Inr eff2))
           | RequestVoteResponse granted \<Rightarrow> handleVoteResponse m granted c1 eff1
           | AppendEntriesRequest i t es lc \<Rightarrow> handleAppendRequest m i t es lc c1 eff1
           | AppendEntriesResponse ok match hint \<Rightarrow>
               handleAppendResponse m ok match hint c1 eff1)"

section \<open>The public operations\<close>

definition committedEntries :: "raft_core \<Rightarrow> log_entry list" where
  "committedEntries c =
     filter (\<lambda>e. rc_appliedIndex c < le_index e \<and> le_index e \<le> rc_commitIndex c) (rc_entries c)"

definition makeReady :: "raft_core \<Rightarrow> effects \<Rightarrow> raft_core \<times> raft_ready option" where
  "makeReady c eff =
     (if ef_hardState eff = None \<and> ef_truncateFrom eff = None \<and> ef_entries eff = [] \<and>
         ef_snapshot eff = None \<and> ef_messages eff = [] \<and> committedEntries c = []
      then (c, None)
      else
        let ready = \<lparr>rd_id = rc_readySequence c + 1, rd_hardState = ef_hardState eff,
              rd_truncateFrom = ef_truncateFrom eff, rd_unstableEntries = ef_entries eff,
              rd_snapshot = ef_snapshot eff, rd_outboundMessages = ef_messages eff,
              rd_committedEntries = committedEntries c\<rparr>
        in (c\<lparr>rc_readySequence := rc_readySequence c + 1, rc_outstanding := Some ready\<rparr>,
            Some ready))"

definition propose_event :: "string \<Rightarrow> bytes \<Rightarrow> raft_core \<Rightarrow> effects \<Rightarrow> effects outcome" where
  "propose_event commandId payload c eff =
     (if rc_role c \<noteq> Leader then (c, Inl (PlainError ''not leader''))
      else if length commandId = 0 \<or> 256 < length commandId
      then (c, Inl (ProtocolError ''command ID length is invalid''))
      else if rc_maxMessageBytes c < int (length payload)
      then (c, Inl (ProtocolError ''command payload exceeds configured maximum''))
      else
        let (c1, eff1) = appendLocal Command payload (Some commandId) c eff
        in and_then (broadcastAppend c1 eff1)
             (\<lambda>c2 eff2. case advanceLeaderCommit c2 eff2 of (c3, eff3, _) \<Rightarrow> (c3, Inr eff3)))"

definition dispatch :: "raft_event \<Rightarrow> raft_core \<Rightarrow> effects outcome" where
  "dispatch event c =
     (case event of
        ElectionTimeout _ \<Rightarrow>
          (if rc_role c \<noteq> Leader then startElection c no_effects else (c, Inr no_effects))
      | HeartbeatTimeout \<Rightarrow>
          (if rc_role c = Leader then broadcastAppend c no_effects else (c, Inr no_effects))
      | MessageEvent m \<Rightarrow> handleMessage m c no_effects
      | Propose commandId payload \<Rightarrow> propose_event commandId payload c no_effects)"

definition core_step :: "raft_event \<Rightarrow> raft_core \<Rightarrow> raft_ready option outcome" where
  "core_step event c =
     (if rc_outstanding c \<noteq> None
      then (c, Inl (PlainError ''advance the outstanding Ready before stepping again''))
      else and_then (dispatch event c)
        (\<lambda>c1 eff. case assertInvariants c1 of
            Some e \<Rightarrow> (c1, Inl e)
          | None \<Rightarrow> (case makeReady c1 eff of (c2, ready) \<Rightarrow> (c2, Inr ready))))"

definition advance :: "int \<Rightarrow> raft_core \<Rightarrow> unit outcome" where
  "advance readyId c =
     (case rc_outstanding c of
        None \<Rightarrow> (c, Inl (PlainError (''unknown Ready id '' @ bigint_to_string readyId)))
      | Some outstanding \<Rightarrow>
          if rd_id outstanding \<noteq> readyId
          then (c, Inl (PlainError (''unknown Ready id '' @ bigint_to_string readyId)))
          else
            let committed = rd_committedEntries outstanding;
                c1 = (if committed \<noteq> []
                      then c\<lparr>rc_appliedIndex := le_index (last committed)\<rparr> else c);
                c2 = c1\<lparr>rc_outstanding := None\<rparr>
            in (case assertInvariants c2 of Some e \<Rightarrow> (c2, Inl e) | None \<Rightarrow> (c2, Inr ())))"

definition new_RaftCore :: "raft_core_options \<Rightarrow> raft_error + raft_core" where
  "new_RaftCore opts =
     (if length (co_members opts) \<notin> {1, 3, 5}
      then Inl (PlainError ''cluster size must be 1, 3, or 5'')
      else if co_nodeId opts \<notin> set (co_members opts)
      then Inl (PlainError ''members must contain local node'')
      else if card (set (co_members opts)) \<noteq> length (co_members opts)
      then Inl (PlainError ''members must be unique'')
      else if co_electionTimeout opts \<le> co_heartbeatInterval opts
      then Inl (PlainError ''election timeout must exceed heartbeat interval'')
      else
        let fresh = \<lparr>rc_nodeId = co_nodeId opts, rc_clusterId = co_clusterId opts,
              rc_members = co_members opts,
              rc_maxMessageBytes =
                (case co_maxMessageBytes opts of None \<Rightarrow> 4 * 1024 * 1024 | Some n \<Rightarrow> n),
              rc_role = Follower, rc_leaderId = None, rc_currentTerm = 0, rc_votedFor = None,
              rc_commitIndex = 0, rc_appliedIndex = 0, rc_snapshot = None, rc_entries = [],
              rc_votes = {}, rc_progress = [], rc_readySequence = 0, rc_outstanding = None\<rparr>;
            c = (case co_persisted opts of
                   None \<Rightarrow> fresh
                 | Some p \<Rightarrow> fresh\<lparr>rc_currentTerm := hs_currentTerm (ps_hardState p),
                     rc_votedFor := hs_votedFor (ps_hardState p),
                     rc_commitIndex := hs_commitIndex (ps_hardState p),
                     rc_appliedIndex := ps_appliedIndex p,
                     rc_snapshot := ps_snapshot p,
                     rc_entries := ps_entries p\<rparr>)
        in (case assertInvariants c of Some e \<Rightarrow> Inl e | None \<Rightarrow> Inr c))"

end
