(* ===== verification/AppendLoop.thy ===== *)
theory AppendLoop
  imports RaftCore
begin

text \<open>
  A functional specification of the loop of \<open>#handleAppendRequest\<close>: a log that agrees with the
  payload term by term keeps its entries, and the first disagreement replaces the rest of the
  log.  The loop itself is \<open>append_loop\<close> of theory \<open>RaftCore\<close>; the lemmas here give its result,
  error cases included, for a contiguous log and a contiguous payload.
\<close>

section \<open>The specification\<close>

text \<open>How many leading entries of the payload the log already holds.\<close>

fun agreement :: "log_entry list \<Rightarrow> log_entry list \<Rightarrow> nat" where
  "agreement (x # xs) (e # es) = (if le_term x = le_term e then Suc (agreement xs es) else 0)"
| "agreement _ _ = 0"

fun overlay :: "log_entry list \<Rightarrow> log_entry list \<Rightarrow> log_entry list" where
  "overlay [] es = es"
| "overlay (x # xs) [] = x # xs"
| "overlay (x # xs) (e # es) = (if le_term x = le_term e then x # overlay xs es else e # es)"

definition has_conflict :: "log_entry list \<Rightarrow> log_entry list \<Rightarrow> bool" where
  "has_conflict xs es \<longleftrightarrow> agreement xs es < length es \<and> agreement xs es < length xs"

lemma agreement_Nil [simp]: "agreement xs [] = 0" "agreement [] es = 0"
  by (cases xs) simp_all

lemma overlay_Nil [simp]: "overlay xs [] = xs"
  by (cases xs) simp_all

lemma agreement_le: "agreement xs es \<le> length xs" "agreement xs es \<le> length es"
  by (induction xs es rule: agreement.induct) auto

lemma agreement_nth:
  "i < agreement xs es \<Longrightarrow> le_term (xs ! i) = le_term (es ! i)"
  by (induction xs es arbitrary: i rule: agreement.induct)
    (auto simp: nth_Cons split: nat.splits if_splits)

lemma agreement_conflict:
  "has_conflict xs es \<Longrightarrow>
    le_term (xs ! agreement xs es) \<noteq> le_term (es ! agreement xs es)"
  unfolding has_conflict_def
  by (induction xs es rule: agreement.induct) (auto split: if_splits)

lemma overlay_no_conflict:
  "\<not> has_conflict xs es \<Longrightarrow> overlay xs es = xs @ drop (length xs) es"
  unfolding has_conflict_def
  by (induction xs es rule: overlay.induct) (auto split: if_splits)

lemma overlay_conflict:
  "has_conflict xs es \<Longrightarrow> overlay xs es = take (agreement xs es) xs @ drop (agreement xs es) es"
  unfolding has_conflict_def
  by (induction xs es rule: overlay.induct) (auto split: if_splits)

lemma no_conflict_agreement:
  "\<not> has_conflict xs es \<Longrightarrow> agreement xs es = min (length xs) (length es)"
  unfolding has_conflict_def
  using agreement_le [of xs es] by (simp add: min_def not_less) linarith

lemma length_overlay_ge: "length es \<le> length (overlay xs es)"
  by (induction xs es rule: overlay.induct) auto

lemma overlay_contiguous:
  "contiguous b xs \<Longrightarrow> contiguous b es \<Longrightarrow> contiguous b (overlay xs es)"
  by (induction xs es arbitrary: b rule: overlay.induct) auto

section \<open>The assertion as contiguity\<close>

lemma log_gap_contiguous [simp]: "log_gap b es = (\<not> contiguous b es)"
  by (induction es arbitrary: b) auto

text \<open>The index range of the log of a core whose log is contiguous.\<close>

lemma lastLogIndex_eq:
  "contiguous (snapshotIndex c + 1) (rc_entries c) \<Longrightarrow>
    lastLogIndex c = snapshotIndex c + int (length (rc_entries c))"
  by (cases "rc_entries c = []") (simp_all add: lastLogIndex_def contiguous_last)

lemma entryAt_eq:
  "contiguous (snapshotIndex c + 1) (rc_entries c) \<Longrightarrow>
    entryAt c j =
      (if snapshotIndex c < j \<and> j \<le> snapshotIndex c + int (length (rc_entries c))
       then Some (rc_entries c ! nat (j - snapshotIndex c - 1)) else None)"
  by (auto simp: entryAt_def contiguous_find algebra_simps)

section \<open>The loop meets the specification\<close>

lemma snapshotIndex_entries [simp]: "snapshotIndex (c\<lparr>rc_entries := es\<rparr>) = snapshotIndex c"
  by (simp add: snapshotIndex_def)

lemma append_loop_fresh:
  assumes "contiguous (snapshotIndex c + 1) (rc_entries c)"
    and "contiguous (snapshotIndex c + 1 + int (length (rc_entries c))) es"
  shows "append_loop c trunc appended es =
    (c\<lparr>rc_entries := rc_entries c @ es\<rparr>, Inr (trunc, appended @ es))"
  using assms
proof (induction es arbitrary: c appended)
  case Nil
  then show ?case by simp
next
  case (Cons e es)
  let ?c = "c\<lparr>rc_entries := rc_entries c @ [e]\<rparr>"
  have none: "entryAt c (le_index e) = None" and last: "le_index e = lastLogIndex c + 1"
    using Cons.prems by (auto simp: entryAt_eq lastLogIndex_eq)
  have "append_loop ?c trunc (appended @ [e]) es =
      (?c\<lparr>rc_entries := rc_entries ?c @ es\<rparr>, Inr (trunc, (appended @ [e]) @ es))"
    using Cons.prems by (intro Cons.IH) (auto simp: algebra_simps)
  then show ?case using none last by (simp add: conflicts_def)
qed

text \<open>The value the loop returns from position \<open>p\<close> of the log on.\<close>

definition append_result :: "raft_core \<Rightarrow> nat \<Rightarrow> int option \<Rightarrow> log_entry list \<Rightarrow> log_entry list
    \<Rightarrow> (int option \<times> log_entry list) outcome" where
  "append_result c p trunc appended es =
    (let old = drop p (rc_entries c); k = agreement old es;
         at = snapshotIndex c + 1 + int (p + k)
     in if has_conflict old es \<and> at \<le> rc_commitIndex c
        then (c, Inl (PlainError ''invariant: attempted to overwrite committed entry''))
        else (c\<lparr>rc_entries := take p (rc_entries c) @ overlay old es\<rparr>,
              Inr (if has_conflict old es then Some at else trunc, appended @ drop k es)))"

lemma append_result_skip:
  assumes "p < length (rc_entries c)" and "le_term (rc_entries c ! p) = le_term e"
  shows "append_result c p trunc appended (e # es) = append_result c (Suc p) trunc appended es"
proof -
  have old: "drop p (rc_entries c) = rc_entries c ! p # drop (Suc p) (rc_entries c)"
    using assms(1) by (simp add: Cons_nth_drop_Suc)
  have tk: "take (Suc p) (rc_entries c) = take p (rc_entries c) @ [rc_entries c ! p]"
    using assms(1) by (simp add: take_Suc_conv_app_nth)
  show ?thesis
    using assms(2) unfolding append_result_def old tk
    by (simp add: has_conflict_def Let_def algebra_simps)
qed

lemma append_loop_spec:
  assumes "contiguous (snapshotIndex c + 1) (rc_entries c)"
    and "p \<le> length (rc_entries c)"
    and "contiguous (snapshotIndex c + 1 + int p) es"
  shows "append_loop c trunc appended es = append_result c p trunc appended es"
  using assms
proof (induction es arbitrary: p)
  case Nil
  then show ?case by (simp add: append_result_def has_conflict_def)
next
  case (Cons e es)
  let ?b = "snapshotIndex c" and ?L = "rc_entries c"
  have idx: "le_index e = ?b + 1 + int p"
    and rest: "contiguous (?b + 1 + int p + 1) es"
    using Cons.prems(3) by simp_all
  show ?case
  proof (cases "p < length ?L")
    case False
    then have "p = length ?L" using Cons.prems by simp
    then show ?thesis
      using Cons.prems append_loop_fresh [of c "e # es" trunc appended]
      by (simp add: append_result_def has_conflict_def)
  next
    case True
    have ex: "entryAt c (le_index e) = Some (?L ! p)"
      using Cons.prems(1) True by (simp add: entryAt_eq idx)
    show ?thesis
    proof (cases "le_term (?L ! p) = le_term e")
      case same: True
      have "append_loop c trunc appended (e # es) = append_loop c trunc appended es"
        using ex same by (simp add: conflicts_def)
      also have "\<dots> = append_result c (Suc p) trunc appended es"
        using Cons.prems True rest by (intro Cons.IH) (simp_all add: algebra_simps)
      finally show ?thesis using append_result_skip [OF True same] by simp
    next
      case diff: False
      have conf: "conflicts c e" using ex diff by (simp add: conflicts_def)
      have old: "drop p ?L = ?L ! p # drop (Suc p) ?L"
        using True by (simp add: Cons_nth_drop_Suc)
      have hc: "has_conflict (drop p ?L) (e # es)" "agreement (drop p ?L) (e # es) = 0"
        "overlay (drop p ?L) (e # es) = e # es"
        using diff unfolding old by (simp_all add: has_conflict_def)
      show ?thesis
      proof (cases "le_index e \<le> rc_commitIndex c")
        case True
        then show ?thesis using conf hc idx by (simp add: append_result_def)
      next
        case False
        let ?c = "c\<lparr>rc_entries := take p ?L\<rparr>"
        have cut: "filter (\<lambda>x. le_index x < le_index e) ?L = take p ?L"
          using contiguous_filter_less [OF Cons.prems(1)] by (simp add: idx)
        have cc: "contiguous (snapshotIndex ?c + 1) (rc_entries ?c)"
          using Cons.prems(1) by (simp add: contiguous_take)
        have len: "length (rc_entries ?c) = p" using \<open>p < length ?L\<close> by simp
        have "append_loop c trunc appended (e # es)
            = append_loop ?c (Some (le_index e)) appended (e # es)"
          using conf False cut cc len
          by (simp add: entryAt_eq lastLogIndex_eq idx conflicts_def)
        also have "\<dots> = (?c\<lparr>rc_entries := rc_entries ?c @ e # es\<rparr>,
            Inr (Some (le_index e), appended @ e # es))"
          using cc Cons.prems(3) len by (intro append_loop_fresh) simp_all
        finally show ?thesis using hc False idx by (simp add: append_result_def)
      qed
    qed
  qed
qed

end
