(* ===== verification/CoreSteps.thy ===== *)
theory CoreSteps
  imports AppendLoop
begin

text \<open>
  Every event the core handles is a sequence of elementary moves: follow a term, start an
  election, take office, append, send, commit, vote, count a vote, accept entries, record an
  acknowledgement.  \<open>micro\<close> is the relation of these moves on the object and its pending
  effects; \<open>dispatch_micros\<close> shows that a dispatched event that returns is a run of them.  The
  properties of the core and its refinement of the protocol are then proved move by move.
\<close>

section \<open>The pieces of the methods\<close>

definition begin_election :: "raft_core \<Rightarrow> effects \<Rightarrow> raft_core \<times> effects" where
  "begin_election c eff =
     (let c1 = c\<lparr>rc_role := Candidate, rc_leaderId := None,
             rc_currentTerm := rc_currentTerm c + 1, rc_votedFor := Some (rc_nodeId c),
             rc_votes := {rc_nodeId c}\<rparr>
      in (c1, push_messages
             (map (\<lambda>p. envelope c1 p (RequestVoteRequest (lastLogIndex c1)
                (termAt_or_0 c1 (lastLogIndex c1)))) (peers c1))
             (eff\<lparr>ef_hardState := Some (hardState c1)\<rparr>)))"

definition take_office :: "raft_core \<Rightarrow> effects \<Rightarrow> raft_core \<times> effects" where
  "take_office c eff =
     (let c1 = c\<lparr>rc_role := Leader, rc_leaderId := Some (rc_nodeId c), rc_progress := []\<rparr>;
          c2 = c1\<lparr>rc_progress :=
             map (\<lambda>p. (p, \<lparr>pp_nextIndex = lastLogIndex c1 + 1, pp_matchIndex = 0\<rparr>)) (peers c1)\<rparr>
      in appendLocal Noop [] None c2 eff)"

definition finish_append :: "raft_message \<Rightarrow> int \<Rightarrow> log_entry list \<Rightarrow> int \<Rightarrow> int option
    \<Rightarrow> log_entry list \<Rightarrow> raft_core \<Rightarrow> effects \<Rightarrow> raft_core \<times> effects" where
  "finish_append m prevIndex es leaderCommit trunc appended c eff =
     (let c1 = (if rc_commitIndex c < leaderCommit
                then c\<lparr>rc_commitIndex := minBigInt leaderCommit (lastLogIndex c)\<rparr> else c);
          eff1 = (case trunc of None \<Rightarrow> eff | Some i \<Rightarrow> eff\<lparr>ef_truncateFrom := Some i\<rparr>);
          eff2 = eff1\<lparr>ef_entries := ef_entries eff1 @ appended\<rparr>;
          eff3 = (if rc_commitIndex c1 \<noteq> rc_commitIndex c
                  then eff2\<lparr>ef_hardState := Some (hardState c1)\<rparr> else eff2);
          matched = (if es \<noteq> [] then le_index (last es) else prevIndex)
      in (c1, push_messages [appendResponse c1 (m_from m) True matched (matched + 1)] eff3))"

definition accepts :: "raft_core \<Rightarrow> raft_message \<Rightarrow> bool" where
  "accepts c m \<longleftrightarrow> m_protocolVersion m = PROTOCOL_VERSION \<and> m_clusterId m = rc_clusterId c \<and>
     m_to m = rc_nodeId c \<and> m_from m \<in> set (rc_members c)"

definition acknowledged :: "bool \<Rightarrow> int \<Rightarrow> int \<Rightarrow> peer_progress \<Rightarrow> peer_progress" where
  "acknowledged ok match hint p =
     (if ok
      then let newMatch = (if pp_matchIndex p < match then match else pp_matchIndex p)
           in \<lparr>pp_nextIndex = newMatch + 1, pp_matchIndex = newMatch\<rparr>
      else p\<lparr>pp_nextIndex := maxBigInt 1 (minBigInt (pp_nextIndex p - 1) hint)\<rparr>)"

lemma startElection_pieces:
  "startElection c eff =
     (case begin_election c eff of (c1, eff2) \<Rightarrow>
        if hasQuorum c1 (card (rc_votes c1)) then becomeLeader c1 eff2 else (c1, Inr eff2))"
  by (simp add: startElection_def begin_election_def Let_def)

lemma becomeLeader_pieces:
  "becomeLeader c eff =
     (case take_office c eff of (c3, eff1) \<Rightarrow>
        and_then (broadcastAppend c3 eff1)
          (\<lambda>c4 eff2. case advanceLeaderCommit c4 eff2 of (c5, eff3, _) \<Rightarrow> (c5, Inr eff3)))"
  by (simp add: becomeLeader_def take_office_def Let_def)

lemma handleAppendRequest_pieces:
  "handleAppendRequest m i t es lc c eff =
     (if m_term m < rc_currentTerm c
      then (c, Inr (push_messages [appendResponse c (m_from m) False 0 (lastLogIndex c + 1)] eff))
      else case becomeFollower (m_term m) (Some (m_from m)) c eff of (c1, eff1) \<Rightarrow>
        if termAt c1 i \<noteq> Some t
        then (c1, Inr (push_messages [appendResponse c1 (m_from m) False 0
               (if lastLogIndex c1 < i then lastLogIndex c1 + 1 else i)] eff1))
        else and_then (append_loop c1 None [] es)
          (\<lambda>c2 (trunc, appended).
             case finish_append m i es lc trunc appended c2 eff1 of (c3, eff2) \<Rightarrow> (c3, Inr eff2)))"
  by (simp add: handleAppendRequest_def finish_append_def Let_def split: prod.split)

section \<open>The moves\<close>

inductive micro :: "raft_event \<Rightarrow> raft_core \<Rightarrow> effects \<Rightarrow> raft_core \<Rightarrow> effects \<Rightarrow> bool"
  for ev where
  follow: "rc_currentTerm c \<le> t \<Longrightarrow> becomeFollower t l c e = (c', e') \<Longrightarrow> micro ev c e c' e'"
| campaign: "rc_role c \<noteq> Leader \<Longrightarrow> begin_election c e = (c', e') \<Longrightarrow> micro ev c e c' e'"
| win: "rc_role c = Candidate \<Longrightarrow> hasQuorum c (card (rc_votes c)) \<Longrightarrow>
    take_office c e = (c', e') \<Longrightarrow> micro ev c e c' e'"
| extend: "rc_role c = Leader \<Longrightarrow> appendLocal ty payload cid c e = (c', e') \<Longrightarrow>
    micro ev c e c' e'"
| replicate: "rc_role c = Leader \<Longrightarrow> p \<in> set (peers c) \<Longrightarrow> appendFor c p = Inr m \<Longrightarrow>
    micro ev c e c (push_messages [m] e)"
| commit: "rc_role c = Leader \<Longrightarrow> commit_scan c (lastLogIndex c) = Some i \<Longrightarrow>
    c' = c\<lparr>rc_commitIndex := i\<rparr> \<Longrightarrow>
    micro ev c e c' (e\<lparr>ef_hardState := Some (hardState c')\<rparr>)"
| vote: "ev = MessageEvent m \<Longrightarrow> accepts c m \<Longrightarrow> m_body m = RequestVoteRequest i t \<Longrightarrow>
    m_term m \<le> rc_currentTerm c \<Longrightarrow> handleVoteRequest m i t c e = (c', e') \<Longrightarrow>
    micro ev c e c' e'"
| tally: "ev = MessageEvent m \<Longrightarrow> accepts c m \<Longrightarrow> m_body m = RequestVoteResponse True \<Longrightarrow>
    m_term m = rc_currentTerm c \<Longrightarrow> rc_role c = Candidate \<Longrightarrow>
    micro ev c e (c\<lparr>rc_votes := insert (m_from m) (rc_votes c)\<rparr>) e"
| refuse: "ev = MessageEvent m \<Longrightarrow> accepts c m \<Longrightarrow>
    micro ev c e c (push_messages [appendResponse c (m_from m) False x h] e)"
| accept: "ev = MessageEvent m \<Longrightarrow> accepts c m \<Longrightarrow> m_body m = AppendEntriesRequest i t es lc \<Longrightarrow>
    m_term m = rc_currentTerm c \<Longrightarrow> rc_role c = Follower \<Longrightarrow> termAt c i = Some t \<Longrightarrow>
    ef_truncateFrom e = None \<Longrightarrow> ef_entries e = [] \<Longrightarrow>
    append_loop c None [] es = (c2, Inr (trunc, appended)) \<Longrightarrow>
    finish_append m i es lc trunc appended c2 e = (c', e') \<Longrightarrow> micro ev c e c' e'"
| ack: "ev = MessageEvent m \<Longrightarrow> accepts c m \<Longrightarrow>
    m_body m = AppendEntriesResponse ok match hint \<Longrightarrow> m_term m = rc_currentTerm c \<Longrightarrow>
    rc_role c = Leader \<Longrightarrow> map_of (rc_progress c) (m_from m) = Some p \<Longrightarrow>
    micro ev c e (set_progress (m_from m) (acknowledged ok match hint p) c) e"

inductive micros :: "raft_event \<Rightarrow> raft_core \<Rightarrow> effects \<Rightarrow> raft_core \<Rightarrow> effects \<Rightarrow> bool"
  for ev where
  none: "micros ev c e c e"
| more: "micros ev c e c1 e1 \<Longrightarrow> micro ev c1 e1 c2 e2 \<Longrightarrow> micros ev c e c2 e2"

lemma micros_trans:
  "micros ev c1 e1 c2 e2 \<Longrightarrow> micros ev c e c1 e1 \<Longrightarrow> micros ev c e c2 e2"
  by (induction rule: micros.induct) (auto intro: micros.intros)

lemma micros_single: "micro ev c e c' e' \<Longrightarrow> micros ev c e c' e'"
  by (rule micros.more [OF micros.none])

section \<open>Every dispatched event is a run of moves\<close>

lemma broadcast_micros:
  assumes "broadcast_to c ps e = Inr e'" and "rc_role c = Leader" and "set ps \<subseteq> set (peers c)"
  shows "micros ev c e c e'"
  using assms
proof (induction ps arbitrary: e)
  case Nil
  then show ?case by (auto intro: micros.none)
next
  case (Cons p ps)
  then obtain m where m: "appendFor c p = Inr m"
    and rest: "broadcast_to c ps (push_messages [m] e) = Inr e'"
    by (auto split: sum.splits)
  have "micros ev c (push_messages [m] e) c e'" using Cons rest by auto
  moreover have "micro ev c e c (push_messages [m] e)"
    using Cons.prems m by (auto intro: micro.replicate)
  ultimately show ?case by (blast intro: micros_trans micros_single)
qed

lemma broadcastAppend_micros:
  "broadcastAppend c e = (c', Inr e') \<Longrightarrow> rc_role c = Leader \<Longrightarrow> micros ev c e c' e'"
  by (auto simp: broadcastAppend_def intro: broadcast_micros)

lemma advance_micros:
  assumes "advanceLeaderCommit c e = (c', e', b)"
  shows "micros ev c e c' e'"
proof (cases "rc_role c = Leader \<and> (\<exists>i. commit_scan c (lastLogIndex c) = Some i)")
  case True
  then show ?thesis using assms
    by (auto simp: advanceLeaderCommit_def Let_def intro!: micros_single micro.commit)
next
  case False
  then show ?thesis using assms
    by (auto simp: advanceLeaderCommit_def intro: micros.none split: if_splits option.splits)
qed

lemma and_then_Inr:
  "and_then r k = (c', Inr x) \<longleftrightarrow> (\<exists>c y. r = (c, Inr y) \<and> k c y = (c', Inr x))"
  by (cases r; cases "snd r") auto

lemma broadcast_advance_micros:
  assumes "and_then (broadcastAppend c e)
      (\<lambda>c2 e2. case advanceLeaderCommit c2 e2 of (c3, e3, _) \<Rightarrow> (c3, Inr e3)) = (c', Inr e')"
    and "rc_role c = Leader"
  shows "micros ev c e c' e'"
proof -
  obtain c2 e2 where "broadcastAppend c e = (c2, Inr e2)"
    and k: "(case advanceLeaderCommit c2 e2 of (c3, e3, _) \<Rightarrow> (c3, Inr e3))
      = (c', (Inr e' :: raft_error + effects))"
    using assms(1) by (auto simp: and_then_Inr)
  obtain c3 e3 b where "advanceLeaderCommit c2 e2 = (c3, e3, b)" by (metis prod_cases3)
  with k have adv: "advanceLeaderCommit c2 e2 = (c', e', b)" by simp
  have "micros ev c e c2 e2"
    using \<open>broadcastAppend c e = (c2, Inr e2)\<close> assms(2) broadcastAppend_micros by blast
  then show ?thesis using advance_micros [OF adv] by (blast intro: micros_trans)
qed

lemma becomeLeader_micros:
  assumes "becomeLeader c e = (c', Inr e')" and "rc_role c = Candidate"
    and "hasQuorum c (card (rc_votes c))"
  shows "micros ev c e c' e'"
proof -
  obtain c3 e1 where off: "take_office c e = (c3, e1)" by fastforce
  then have "rc_role c3 = Leader"
    by (auto simp: take_office_def appendLocal_def Let_def)
  then have "micros ev c3 e1 c' e'"
    using assms(1) off broadcast_advance_micros by (simp add: becomeLeader_pieces)
  moreover have "micro ev c e c3 e1" using assms off by (blast intro: micro.win)
  ultimately show ?thesis by (blast intro: micros_trans micros_single)
qed

lemma startElection_micros:
  assumes "startElection c e = (c', Inr e')" and "rc_role c \<noteq> Leader"
  shows "micros ev c e c' e'"
proof -
  obtain c1 e1 where b: "begin_election c e = (c1, e1)" by fastforce
  then have role: "rc_role c1 = Candidate" by (auto simp: begin_election_def Let_def)
  have first: "micros ev c e c1 e1" using b assms(2) by (blast intro: micros_single micro.campaign)
  show ?thesis
  proof (cases "hasQuorum c1 (card (rc_votes c1))")
    case True
    then have "micros ev c1 e1 c' e'"
      using assms(1) b role becomeLeader_micros by (simp add: startElection_pieces)
    then show ?thesis using first by (blast intro: micros_trans)
  next
    case False
    then show ?thesis using assms(1) b first by (simp add: startElection_pieces)
  qed
qed

lemma handleVoteResponse_micros:
  assumes "handleVoteResponse m granted c e = (c', Inr e')" and "ev = MessageEvent m"
    and "accepts c m" and "m_body m = RequestVoteResponse granted"
  shows "micros ev c e c' e'"
proof (cases "m_term m = rc_currentTerm c \<and> rc_role c = Candidate \<and> granted")
  case True
  let ?c = "c\<lparr>rc_votes := insert (m_from m) (rc_votes c)\<rparr>"
  have one: "micros ev c e ?c e"
    using True assms by (intro micros_single micro.tally) auto
  show ?thesis
  proof (cases "hasQuorum ?c (card (rc_votes ?c))")
    case q: True
    then have "micros ev ?c e c' e'"
      using assms(1) True becomeLeader_micros by (simp add: handleVoteResponse_def Let_def)
    then show ?thesis using one by (blast intro: micros_trans)
  next
    case False
    then show ?thesis using assms(1) True one by (simp add: handleVoteResponse_def Let_def)
  qed
next
  case False
  then show ?thesis using assms(1)
    by (auto simp: handleVoteResponse_def Let_def intro: micros.none split: if_splits)
qed

lemma becomeFollower_fields [core_simps]:
  assumes "becomeFollower t l c e = (c', e')"
  shows "rc_role c' = Follower" "rc_nodeId c' = rc_nodeId c" "rc_members c' = rc_members c"
    "rc_clusterId c' = rc_clusterId c" "rc_currentTerm c' = max t (rc_currentTerm c)"
    "rc_entries c' = rc_entries c" "rc_snapshot c' = rc_snapshot c"
    "rc_commitIndex c' = rc_commitIndex c" "rc_appliedIndex c' = rc_appliedIndex c"
    "rc_votedFor c' = (if rc_currentTerm c < t then None else rc_votedFor c)"
    "rc_outstanding c' = rc_outstanding c" "rc_progress c' = []" "rc_votes c' = {}"
    "ef_truncateFrom e' = ef_truncateFrom e" "ef_entries e' = ef_entries e"
    "ef_messages e' = ef_messages e" "ef_snapshot e' = ef_snapshot e"
    "ef_hardState e' = (if rc_currentTerm c < t then Some (hardState c') else ef_hardState e)"
  using assms by (auto simp: becomeFollower_def Let_def hardState_def)

lemma handleAppendRequest_micros:
  assumes "handleAppendRequest m i t es lc c e = (c', Inr e')" and "ev = MessageEvent m"
    and "accepts c m" and "m_body m = AppendEntriesRequest i t es lc"
    and "ef_truncateFrom e = None" and "ef_entries e = []"
  shows "micros ev c e c' e'"
proof (cases "m_term m < rc_currentTerm c")
  case True
  then show ?thesis using assms
    by (auto simp: handleAppendRequest_pieces intro: micros_single micro.refuse)
next
  case False
  obtain c1 e1 where f: "becomeFollower (m_term m) (Some (m_from m)) c e = (c1, e1)" by fastforce
  note c1 = becomeFollower_fields [OF f]
  have acc: "accepts c1 m" using assms(3) by (simp add: accepts_def c1)
  have first: "micros ev c e c1 e1"
    using False f by (intro micros_single micro.follow) auto
  show ?thesis
  proof (cases "termAt c1 i = Some t")
    case True
    then obtain c2 trunc app where loop: "append_loop c1 None [] es = (c2, Inr (trunc, app))"
      and k: "(case finish_append m i es lc trunc app c2 e1 of (c3, e2) \<Rightarrow> (c3, Inr e2))
        = (c', (Inr e' :: raft_error + effects))"
      using assms(1) False f by (auto simp: handleAppendRequest_pieces and_then_Inr)
    then have fin: "finish_append m i es lc trunc app c2 e1 = (c', e')"
      by (cases "finish_append m i es lc trunc app c2 e1") simp
    have "micro ev c1 e1 c' e'"
      using True loop fin acc False assms(2,4,5,6)
      by (intro micro.accept [of ev m]) (auto simp: c1 max_def)
    then show ?thesis using first by (blast intro: micros.more)
  next
    case ne: False
    then have "micro ev c1 e1 c' e'"
      using assms(1,2) False f acc by (auto simp: handleAppendRequest_pieces intro: micro.refuse)
    then show ?thesis using first by (blast intro: micros.more)
  qed
qed

lemma advanceLeaderCommit_fields [core_simps]:
  assumes "advanceLeaderCommit c e = (c', e', b)"
  shows "rc_role c' = rc_role c" "rc_nodeId c' = rc_nodeId c" "rc_members c' = rc_members c"
    "rc_entries c' = rc_entries c" "rc_snapshot c' = rc_snapshot c"
    "rc_currentTerm c' = rc_currentTerm c" "rc_votedFor c' = rc_votedFor c"
    "rc_progress c' = rc_progress c"
  using assms by (auto simp: advanceLeaderCommit_def Let_def split: if_splits option.splits)

lemma push_append_micros:
  assumes "push_append p c e = (c', Inr e')" and "rc_role c = Leader" and "p \<in> set (peers c)"
  shows "micros ev c e c' e'"
  using assms
  by (auto simp: push_append_def intro!: micros_single intro: micro.replicate split: sum.splits)

lemma set_progress_simps [simp]:
  "rc_role (set_progress q p c) = rc_role c" "peers (set_progress q p c) = peers c"
  "rc_currentTerm (set_progress q p c) = rc_currentTerm c"
  "rc_entries (set_progress q p c) = rc_entries c" "rc_snapshot (set_progress q p c) = rc_snapshot c"
  "rc_nodeId (set_progress q p c) = rc_nodeId c" "rc_members (set_progress q p c) = rc_members c"
  "rc_votes (set_progress q p c) = rc_votes c"
  "rc_votedFor (set_progress q p c) = rc_votedFor c"
  "rc_commitIndex (set_progress q p c) = rc_commitIndex c"
  "rc_appliedIndex (set_progress q p c) = rc_appliedIndex c"
  "rc_clusterId (set_progress q p c) = rc_clusterId c"
  "rc_outstanding (set_progress q p c) = rc_outstanding c"
  "map fst (rc_progress (set_progress q p c)) = map fst (rc_progress c)"
  "hardState (set_progress q p c) = hardState c"
  "snapshotIndex (set_progress q p c) = snapshotIndex c"
  "lastLogIndex (set_progress q p c) = lastLogIndex c"
  "entryAt (set_progress q p c) i = entryAt c i"
  by (auto simp: set_progress_def peers_def hardState_def snapshotIndex_def lastLogIndex_def
      entryAt_def)

lemma termAt_set_progress [simp]: "termAt (set_progress q p c) i = termAt c i"
  by (cases "rc_snapshot c") (simp_all add: termAt_def)

lemma handleAppendResponse_micros:
  assumes "handleAppendResponse m ok match hint c e = (c', Inr e')" and "ev = MessageEvent m"
    and "accepts c m" and "m_body m = AppendEntriesResponse ok match hint"
    and "m_term m \<le> rc_currentTerm c" and "rc_role c = Leader \<Longrightarrow> map fst (rc_progress c) = peers c"
  shows "micros ev c e c' e'"
proof (cases "m_term m < rc_currentTerm c \<or> rc_role c \<noteq> Leader \<or>
    map_of (rc_progress c) (m_from m) = None")
  case True
  then have "c' = c \<and> e' = e"
    using assms(1) by (elim disjE) (simp_all add: handleAppendResponse_def split: if_splits)
  then show ?thesis by (auto intro: micros.none)
next
  case False
  then obtain p where p: "map_of (rc_progress c) (m_from m) = Some p"
    and tm: "m_term m = rc_currentTerm c" and role: "rc_role c = Leader"
    using assms(5) by auto
  have peer: "m_from m \<in> set (peers c)"
    using p by (metis assms(6) [OF role] list.set_map map_of_SomeD fst_conv image_eqI)
  let ?c = "set_progress (m_from m) (acknowledged ok match hint p) c"
  have first: "micros ev c e ?c e"
    using p tm role assms by (intro micros_single) (rule micro.ack, auto)
  show ?thesis
  proof (cases ok)
    case False
    then have "push_append (m_from m) ?c e = (c', Inr e')"
      using assms(1) p tm role by (simp add: handleAppendResponse_def acknowledged_def)
    then have "micros ev ?c e c' e'" using role peer by (intro push_append_micros) auto
    then show ?thesis using first by (rule micros_trans)
  next
    case True
    let ?n = "if pp_matchIndex p < match then match else pp_matchIndex p"
    obtain c2 e1 b where adv: "advanceLeaderCommit ?c e = (c2, e1, b)" by (metis prod_cases3)
    note c2 = advanceLeaderCommit_fields [OF adv]
    have all: "and_then (if b then broadcastAppend c2 e1 else (c2, Inr e1))
        (\<lambda>c3 e2. if ?n + 1 \<le> lastLogIndex c3 then push_append (m_from m) c3 e2 else (c3, Inr e2))
        = (c', Inr e')"
      using assms(1) p tm role True adv
      by (simp add: handleAppendResponse_def acknowledged_def Let_def)
    then obtain c3 e2 where bc: "(if b then broadcastAppend c2 e1 else (c2, Inr e1)) = (c3, Inr e2)"
      and ps: "(if ?n + 1 \<le> lastLogIndex c3 then push_append (m_from m) c3 e2 else (c3, Inr e2))
         = (c', Inr e')"
      by (auto simp: and_then_Inr)
    have c3: "c3 = c2" using bc by (auto simp: broadcastAppend_def split: if_splits)
    have peers3: "peers c3 = peers c" by (simp add: c3 peers_def c2)
    have s1: "micros ev ?c e c2 e1" by (rule advance_micros [OF adv])
    have s2: "micros ev c2 e1 c3 e2"
      using bc role broadcastAppend_micros [of c2 e1 c3 e2]
      by (auto simp: c2 intro: micros.none split: if_splits)
    have s3: "micros ev c3 e2 c' e'"
      using ps role peer push_append_micros [of "m_from m" c3 e2 c' e']
      by (auto simp: c3 c2 peers3 [unfolded c3] intro: micros.none split: if_splits)
    show ?thesis by (rule micros_trans [OF s3 micros_trans [OF s2 micros_trans [OF s1 first]]])
  qed
qed

text \<open>The progress table of a leader lists exactly its peers.\<close>

definition leader_table :: "raft_core \<Rightarrow> bool" where
  "leader_table c \<longleftrightarrow> (rc_role c = Leader \<longrightarrow> map fst (rc_progress c) = peers c)"

lemma handleMessage_micros:
  assumes "handleMessage m c no_effects = (c', Inr e')" and "leader_table c"
  shows "micros (MessageEvent m) c no_effects c' e'"
proof -
  have acc: "accepts c m"
    using assms(1) by (auto simp: handleMessage_def accepts_def split: if_splits)
  obtain c1 e1 where ce: "(if rc_currentTerm c < m_term m
      then becomeFollower (m_term m) None c no_effects else (c, no_effects)) = (c1, e1)"
    by fastforce
  have first: "micros (MessageEvent m) c no_effects c1 e1"
    using ce
    by (auto intro: micros.none micros_single micro.follow [OF less_imp_le] split: if_splits)
  have acc1: "accepts c1 m"
    using ce acc by (auto simp: accepts_def becomeFollower_fields split: if_splits)
  have tm: "m_term m \<le> rc_currentTerm c1"
    using ce by (auto simp: becomeFollower_fields split: if_splits)
  have tab: "rc_role c1 = Leader \<Longrightarrow> map fst (rc_progress c1) = peers c1"
    using ce assms(2) by (auto simp: leader_table_def becomeFollower_fields split: if_splits)
  have eff: "ef_truncateFrom e1 = None" "ef_entries e1 = []"
    using ce by (auto simp: becomeFollower_fields no_effects_def split: if_splits)
  have body: "(case m_body m of
             RequestVoteRequest i t \<Rightarrow>
               (case handleVoteRequest m i t c1 e1 of (c2, eff2) \<Rightarrow> (c2, Inr eff2))
           | RequestVoteResponse granted \<Rightarrow> handleVoteResponse m granted c1 e1
           | AppendEntriesRequest i t es lc \<Rightarrow> handleAppendRequest m i t es lc c1 e1
           | AppendEntriesResponse ok match hint \<Rightarrow> handleAppendResponse m ok match hint c1 e1)
         = (c', Inr e')"
    using assms(1) acc ce by (simp add: handleMessage_def accepts_def split: if_splits)
  have "micros (MessageEvent m) c1 e1 c' e'"
  proof (cases "m_body m")
    case (RequestVoteRequest i t)
    then have "handleVoteRequest m i t c1 e1 = (c', e')"
      using body by (cases "handleVoteRequest m i t c1 e1") simp
    then show ?thesis
      using RequestVoteRequest acc1 tm by (intro micros_single micro.vote) auto
  next
    case (RequestVoteResponse g)
    then show ?thesis using body acc1 handleVoteResponse_micros by simp
  next
    case (AppendEntriesRequest i t es lc)
    then show ?thesis using body acc1 eff handleAppendRequest_micros by simp
  next
    case (AppendEntriesResponse ok match hint)
    then show ?thesis using body acc1 tm tab handleAppendResponse_micros by simp
  qed
  then show ?thesis using first by (rule micros_trans)
qed

lemma propose_micros:
  assumes "propose_event cid pl c e = (c', Inr e')"
  shows "micros ev c e c' e'"
proof -
  have role: "rc_role c = Leader" using assms by (auto simp: propose_event_def split: if_splits)
  obtain c1 e1 where loc: "appendLocal Command pl (Some cid) c e = (c1, e1)" by fastforce
  have "rc_role c1 = Leader" using loc role by (auto simp: appendLocal_def Let_def)
  then have "micros ev c1 e1 c' e'"
    using assms loc role broadcast_advance_micros
    by (auto simp: propose_event_def split: if_splits)
  moreover have "micro ev c e c1 e1" using role loc by (rule micro.extend)
  ultimately show ?thesis by (blast intro: micros_trans micros_single)
qed

theorem dispatch_micros:
  assumes "dispatch ev c = (c', Inr e')" and "leader_table c"
  shows "micros ev c no_effects c' e'"
proof (cases ev)
  case (ElectionTimeout n)
  then show ?thesis using assms
    by (auto simp: dispatch_def intro: startElection_micros micros.none split: if_splits)
next
  case HeartbeatTimeout
  then show ?thesis using assms
    by (auto simp: dispatch_def intro: broadcastAppend_micros micros.none split: if_splits)
next
  case (MessageEvent m)
  then show ?thesis using assms handleMessage_micros by (simp add: dispatch_def)
next
  case (Propose cid pl)
  then show ?thesis using assms propose_micros by (simp add: dispatch_def)
qed

end
