(* ===== verification/CoreFacts.thy ===== *)
theory CoreFacts
  imports CoreSteps
begin

text \<open>
  The class invariant of the core and what every event keeps: well-formedness, the monotonicity
  of term and commit index, one vote per term, an append-only log for a leader, and the
  agreement of the emitted effects with the state change they have to make durable.
\<close>

section \<open>Effect of the pieces, field by field\<close>

lemma begin_election_fields:
  assumes "begin_election c e = (c', e')"
  shows "rc_role c' = Candidate" "rc_currentTerm c' = rc_currentTerm c + 1"
    "rc_votedFor c' = Some (rc_nodeId c)" "rc_votes c' = {rc_nodeId c}"
    "rc_nodeId c' = rc_nodeId c" "rc_members c' = rc_members c" "rc_clusterId c' = rc_clusterId c"
    "rc_entries c' = rc_entries c" "rc_snapshot c' = rc_snapshot c"
    "rc_commitIndex c' = rc_commitIndex c" "rc_appliedIndex c' = rc_appliedIndex c"
    "rc_outstanding c' = rc_outstanding c" "rc_progress c' = rc_progress c"
    "ef_truncateFrom e' = ef_truncateFrom e" "ef_entries e' = ef_entries e"
    "ef_hardState e' = Some (hardState c')" "ef_snapshot e' = ef_snapshot e"
    "ef_messages e' = ef_messages e @ map (\<lambda>p. envelope c' p (RequestVoteRequest (lastLogIndex c')
        (termAt_or_0 c' (lastLogIndex c')))) (peers c')"
  using assms by (auto simp: begin_election_def Let_def push_messages_def)

definition noop_entry :: "raft_core \<Rightarrow> log_entry" where
  "noop_entry c = \<lparr>le_index = lastLogIndex c + 1, le_term = rc_currentTerm c, le_type = Noop,
     le_payload = [], le_commandId = None\<rparr>"

lemma take_office_fields:
  assumes "take_office c e = (c', e')"
  shows "rc_role c' = Leader" "rc_currentTerm c' = rc_currentTerm c"
    "rc_votedFor c' = rc_votedFor c" "rc_votes c' = rc_votes c"
    "rc_nodeId c' = rc_nodeId c" "rc_members c' = rc_members c" "rc_clusterId c' = rc_clusterId c"
    "rc_entries c' = rc_entries c @ [noop_entry c]" "rc_snapshot c' = rc_snapshot c"
    "rc_commitIndex c' = rc_commitIndex c" "rc_appliedIndex c' = rc_appliedIndex c"
    "rc_outstanding c' = rc_outstanding c"
    "rc_progress c' = map (\<lambda>p. (p, \<lparr>pp_nextIndex = lastLogIndex c + 1, pp_matchIndex = 0\<rparr>)) (peers c)"
    "ef_truncateFrom e' = ef_truncateFrom e" "ef_entries e' = ef_entries e @ [noop_entry c]"
    "ef_hardState e' = ef_hardState e" "ef_snapshot e' = ef_snapshot e"
    "ef_messages e' = ef_messages e"
  using assms
  by (auto simp: take_office_def Let_def appendLocal_def noop_entry_def lastLogIndex_def
      snapshotIndex_def peers_def)

lemma appendLocal_fields:
  assumes "appendLocal ty pl cid c e = (c', e')"
  shows "c' = c\<lparr>rc_entries := rc_entries c @ [\<lparr>le_index = lastLogIndex c + 1,
      le_term = rc_currentTerm c, le_type = ty, le_payload = pl, le_commandId = cid\<rparr>]\<rparr>"
    "e' = e\<lparr>ef_entries := ef_entries e @ [\<lparr>le_index = lastLogIndex c + 1,
      le_term = rc_currentTerm c, le_type = ty, le_payload = pl, le_commandId = cid\<rparr>]\<rparr>"
  using assms by (simp_all add: appendLocal_def Let_def)

text \<open>The guard under which \<open>#handleVoteRequest\<close> grants.\<close>

definition grants_vote :: "raft_core \<Rightarrow> raft_message \<Rightarrow> int \<Rightarrow> int \<Rightarrow> bool" where
  "grants_vote c m i t \<longleftrightarrow>
     m_term m = rc_currentTerm c \<and> (rc_votedFor c = None \<or> rc_votedFor c = Some (m_from m)) \<and>
     (termAt_or_0 c (lastLogIndex c) < t \<or>
      (t = termAt_or_0 c (lastLogIndex c) \<and> lastLogIndex c \<le> i))"

lemma handleVoteRequest_eq:
  "handleVoteRequest m i t c e =
     (if grants_vote c m i t
      then let c1 = c\<lparr>rc_role := Follower, rc_leaderId := None, rc_votedFor := Some (m_from m)\<rparr>
           in (c1, push_messages [envelope c1 (m_from m) (RequestVoteResponse True)]
                     (e\<lparr>ef_hardState := Some (hardState c1)\<rparr>))
      else (c, push_messages [envelope c (m_from m) (RequestVoteResponse False)] e))"
  unfolding handleVoteRequest_def Let_def grants_vote_def [symmetric] by simp

lemma finish_append_fields:
  assumes "finish_append m i es lc trunc appended c e = (c', e')"
  shows "rc_role c' = rc_role c" "rc_currentTerm c' = rc_currentTerm c"
    "rc_votedFor c' = rc_votedFor c" "rc_votes c' = rc_votes c" "rc_progress c' = rc_progress c"
    "rc_nodeId c' = rc_nodeId c" "rc_members c' = rc_members c" "rc_clusterId c' = rc_clusterId c"
    "rc_entries c' = rc_entries c" "rc_snapshot c' = rc_snapshot c"
    "rc_commitIndex c' = (if rc_commitIndex c < lc then min lc (lastLogIndex c) else rc_commitIndex c)"
    "rc_appliedIndex c' = rc_appliedIndex c" "rc_outstanding c' = rc_outstanding c"
    "ef_truncateFrom e' = (if trunc = None then ef_truncateFrom e else trunc)"
    "ef_entries e' = ef_entries e @ appended" "ef_snapshot e' = ef_snapshot e"
    "ef_hardState e' = (if rc_commitIndex c' = rc_commitIndex c then ef_hardState e
        else Some (hardState c'))"
    "ef_messages e' = ef_messages e @ [appendResponse c' (m_from m) True
        (if es \<noteq> [] then le_index (last es) else i)
        ((if es \<noteq> [] then le_index (last es) else i) + 1)]"
  using assms
  by (auto simp: finish_append_def Let_def minBigInt_def push_messages_def hardState_def min_def
      split: option.splits if_splits)

section \<open>Well-formedness\<close>

definition core_wf :: "raft_core \<Rightarrow> bool" where
  "core_wf c \<longleftrightarrow> assertInvariants c = None \<and> 0 \<le> snapshotIndex c \<and>
     distinct (rc_members c) \<and> rc_nodeId c \<in> set (rc_members c) \<and>
     leader_table c \<and> rc_votes c \<subseteq> set (rc_members c)"

text \<open>The part of the assertion that speaks about the log, in terms of positions.\<close>

definition log_ok :: "raft_core \<Rightarrow> bool" where
  "log_ok c \<longleftrightarrow> contiguous (snapshotIndex c + 1) (rc_entries c) \<and>
     snapshotIndex c \<le> rc_commitIndex c \<and> rc_commitIndex c \<le> lastLogIndex c"

lemma assertInvariants_None:
  "assertInvariants c = None \<longleftrightarrow>
     log_ok c \<and> rc_appliedIndex c \<le> rc_commitIndex c \<and> 0 \<le> rc_currentTerm c"
  by (auto simp: assertInvariants_def log_ok_def Let_def)

lemma same_log:
  assumes "rc_entries c' = rc_entries c" and "rc_snapshot c' = rc_snapshot c"
  shows "lastLogIndex c' = lastLogIndex c" and "snapshotIndex c' = snapshotIndex c"
    and "entryAt c' i = entryAt c i" and "termAt c' i = termAt c i"
    and "termAt_or_0 c' i = termAt_or_0 c i"
proof -
  show snap: "snapshotIndex c' = snapshotIndex c" by (simp add: snapshotIndex_def assms)
  show "lastLogIndex c' = lastLogIndex c" by (simp add: lastLogIndex_def assms snap)
  show ent: "entryAt c' i = entryAt c i" by (simp add: entryAt_def assms)
  show "termAt c' i = termAt c i"
    by (cases "rc_snapshot c") (simp_all add: termAt_def assms ent)
  then show "termAt_or_0 c' i = termAt_or_0 c i" by (simp add: termAt_or_0_def)
qed

lemma log_ok_cong:
  assumes "rc_entries c' = rc_entries c" and "rc_snapshot c' = rc_snapshot c"
    and "rc_commitIndex c' = rc_commitIndex c"
  shows "log_ok c' \<longleftrightarrow> log_ok c"
  by (simp add: log_ok_def assms same_log [OF assms(1,2)])

lemma lastLogIndex_snoc [simp]:
  "lastLogIndex (c\<lparr>rc_entries := es @ [x]\<rparr>) = le_index x"
  by (simp add: lastLogIndex_def)

text \<open>The log after the loop has cut it at a conflict above the commit index.\<close>

lemma truncate_log_ok:
  assumes "log_ok c" and "conflicts c e" and "\<not> le_index e \<le> rc_commitIndex c"
  shows "log_ok (c\<lparr>rc_entries := filter (\<lambda>x. le_index x < le_index e) (rc_entries c)\<rparr>)"
    (is "log_ok ?c")
proof -
  let ?b = "snapshotIndex c"
  have cont: "contiguous (?b + 1) (rc_entries c)" using assms(1) by (simp add: log_ok_def)
  have at: "?b < le_index e" "le_index e \<le> ?b + int (length (rc_entries c))"
    using assms(2) cont by (auto simp: conflicts_def entryAt_eq split: option.splits if_splits)
  have cut: "rc_entries ?c = take (nat (le_index e - ?b - 1)) (rc_entries c)"
    using contiguous_filter_less [OF cont] by (simp add: algebra_simps)
  have cont1: "contiguous (snapshotIndex ?c + 1) (rc_entries ?c)"
    using cont cut by (simp add: contiguous_take)
  have "lastLogIndex ?c = le_index e - 1"
    using at cut lastLogIndex_eq [OF cont1] by (simp add: min_def)
  then show ?thesis using assms cont1 by (simp add: log_ok_def)
qed

text \<open>The loop keeps the log contiguous and above the commit index for every payload, also
  when it throws half way.\<close>

lemma append_loop_log_ok:
  assumes "append_loop c trunc appended es = (c', r)" and "log_ok c"
  shows "log_ok c' \<and> rc_commitIndex c' = rc_commitIndex c \<and> (\<exists>xs. c' = c\<lparr>rc_entries := xs\<rparr>)"
  using assms
proof (induction c trunc appended es rule: append_loop.induct)
  case (1 c trunc appended)
  then show ?case by (auto intro: exI [of _ "rc_entries c"])
next
  case (2 c trunc appended e es)
  define c1 where "c1 = (if conflicts c e
      then c\<lparr>rc_entries := filter (\<lambda>x. le_index x < le_index e) (rc_entries c)\<rparr> else c)"
  show ?case
  proof (cases "conflicts c e \<and> le_index e \<le> rc_commitIndex c")
    case True
    then show ?thesis using "2.prems" by (auto intro: exI [of _ "rc_entries c"])
  next
    case ok: False
    have c1: "log_ok c1 \<and> rc_commitIndex c1 = rc_commitIndex c \<and> (\<exists>xs. c1 = c\<lparr>rc_entries := xs\<rparr>)"
      using truncate_log_ok ok "2.prems"(2)
      by (auto simp: c1_def intro: exI [of _ "rc_entries c"])
    then obtain xs where xs: "c1 = c\<lparr>rc_entries := xs\<rparr>" by blast
    define trunc1 where "trunc1 = (if conflicts c e then Some (le_index e) else trunc)"
    have run: "append_loop c trunc appended (e # es) =
      (if entryAt c1 (le_index e) = None
       then if le_index e \<noteq> lastLogIndex c1 + 1
            then (c1, Inl (ProtocolError ''non-contiguous AppendEntries payload''))
            else append_loop (c1\<lparr>rc_entries := rc_entries c1 @ [e]\<rparr>) trunc1 (appended @ [e]) es
       else append_loop c1 trunc1 appended es)"
      by (simp only: append_loop.simps ok if_False Let_def c1_def trunc1_def)
    show ?thesis
    proof (cases "entryAt c1 (le_index e) = None")
      case True
      show ?thesis
      proof (cases "le_index e = lastLogIndex c1 + 1")
        case True
        let ?c = "c1\<lparr>rc_entries := rc_entries c1 @ [e]\<rparr>"
        have "log_ok ?c"
          using c1 True by (auto simp: log_ok_def lastLogIndex_eq)
        moreover have "append_loop ?c trunc1 (appended @ [e]) es = (c', r)"
          by (metis "2.prems"(1) run True \<open>entryAt c1 (le_index e) = None\<close>)
        ultimately obtain ys where ys: "log_ok c'" "rc_commitIndex c' = rc_commitIndex ?c"
            "c' = ?c\<lparr>rc_entries := ys\<rparr>"
          using "2.IH"(1) [OF ok c1_def trunc1_def \<open>entryAt c1 (le_index e) = None\<close>] True by blast
        have "c' = c\<lparr>rc_entries := ys\<rparr>" unfolding ys(3) xs by simp
        then show ?thesis using ys(1,2) c1 by (intro conjI exI) simp_all
      next
        case False
        then have "c' = c1" by (metis "2.prems"(1) run True prod.inject)
        then show ?thesis using c1 by blast
      qed
    next
      case False
      then have "append_loop c1 trunc1 appended es = (c', r)"
        by (metis "2.prems"(1) run)
      then obtain ys where ys: "log_ok c'" "rc_commitIndex c' = rc_commitIndex c1"
          "c' = c1\<lparr>rc_entries := ys\<rparr>"
        using "2.IH"(2) [OF ok c1_def trunc1_def False] c1 by blast
      have "c' = c\<lparr>rc_entries := ys\<rparr>" unfolding ys(3) xs by simp
      then show ?thesis using ys(1,2) c1 by (intro conjI exI) simp_all
    qed
  qed
qed

text \<open>What the loop leaves untouched, and where a successful prefix check places the payload.\<close>

lemma append_loop_frame:
  assumes "append_loop c trunc appended es = (c', r)" and "log_ok c"
  shows "rc_role c' = rc_role c" "rc_currentTerm c' = rc_currentTerm c"
    "rc_votedFor c' = rc_votedFor c" "rc_votes c' = rc_votes c" "rc_progress c' = rc_progress c"
    "rc_nodeId c' = rc_nodeId c" "rc_members c' = rc_members c" "rc_clusterId c' = rc_clusterId c"
    "rc_snapshot c' = rc_snapshot c" "rc_commitIndex c' = rc_commitIndex c"
    "rc_appliedIndex c' = rc_appliedIndex c" "rc_outstanding c' = rc_outstanding c"
    "snapshotIndex c' = snapshotIndex c" "peers c' = peers c"
proof -
  obtain xs where xs: "c' = c\<lparr>rc_entries := xs\<rparr>"
    using append_loop_log_ok [OF assms] by blast
  show "rc_role c' = rc_role c" "rc_currentTerm c' = rc_currentTerm c"
    "rc_votedFor c' = rc_votedFor c" "rc_votes c' = rc_votes c" "rc_progress c' = rc_progress c"
    "rc_nodeId c' = rc_nodeId c" "rc_members c' = rc_members c" "rc_clusterId c' = rc_clusterId c"
    "rc_snapshot c' = rc_snapshot c" "rc_commitIndex c' = rc_commitIndex c"
    "rc_appliedIndex c' = rc_appliedIndex c" "rc_outstanding c' = rc_outstanding c"
    "snapshotIndex c' = snapshotIndex c" "peers c' = peers c"
    unfolding xs by (simp_all add: peers_def)
qed

lemma termAt_Some:
  assumes "termAt c i = Some t" and "log_ok c"
  shows "i = 0 \<or> (snapshotIndex c \<le> i \<and> i \<le> lastLogIndex c)"
proof (rule ccontr)
  assume no: "\<not> ?thesis"
  have cont: "contiguous (snapshotIndex c + 1) (rc_entries c)" using assms(2) by (simp add: log_ok_def)
  have "entryAt c i \<noteq> None"
    using assms(1) no lastLogIndex_eq [OF cont]
    by (auto simp: termAt_def snapshotIndex_def split: option.splits if_splits)
  then show False using no lastLogIndex_eq [OF cont] by (auto simp: entryAt_eq [OF cont] split: if_splits)
qed

text \<open>The identity of a node, its snapshot and its applied position are not touched by a move.\<close>

lemma micro_frame:
  assumes "micro ev c e c' e'" and "log_ok c"
  shows "rc_nodeId c' = rc_nodeId c \<and> rc_clusterId c' = rc_clusterId c \<and>
    rc_members c' = rc_members c \<and> rc_snapshot c' = rc_snapshot c \<and>
    rc_appliedIndex c' = rc_appliedIndex c \<and> rc_outstanding c' = rc_outstanding c \<and>
    ef_snapshot e' = ef_snapshot e"
  using assms
proof (induction rule: micro.induct)
  case (follow c t l e c' e')
  then show ?case by (simp add: becomeFollower_fields)
next
  case (campaign c e c' e')
  then show ?case by (simp add: begin_election_fields)
next
  case (win c e c' e')
  then show ?case by (simp add: take_office_fields)
next
  case (extend c ty payload cid e c' e')
  then show ?case using appendLocal_fields [OF extend(2)] by simp
next
  case (vote m c i t e c' e')
  then show ?case by (auto simp: handleVoteRequest_eq Let_def push_messages_def split: if_splits)
next
  case (accept m c i t es lc e c2 trunc appended c' e')
  then show ?case by (simp add: finish_append_fields append_loop_frame)
qed (simp_all add: push_messages_def)

lemma replicated_bound_quorum: "replicated c i \<le> 1 + length (rc_progress c)"
  by (simp add: replicated_def)

text \<open>What the leader scan finds: a committed index lies above the old commit index, inside the
  log, belongs to the current term and is held by a majority.\<close>

lemma commit_scan_Some:
  assumes "commit_scan c start = Some i"
  shows "rc_commitIndex c < i \<and> i \<le> start \<and> termAt c i = Some (rc_currentTerm c) \<and>
    hasQuorum c (replicated c i)"
  using assms
proof (induction c start rule: commit_scan.induct)
  case (1 c index)
  have run: "(if rc_commitIndex c < index
      then if termAt c index \<noteq> Some (rc_currentTerm c) then commit_scan c (index - 1)
           else if hasQuorum c (replicated c index) then Some index
           else commit_scan c (index - 1)
      else None) = Some i"
    using "1.prems" by (simp only: commit_scan.simps [of c index])
  show ?case
    using run "1.IH" by (simp split: if_splits)
qed

lemma commit_scan_max:
  assumes "commit_scan c start = r" and "rc_commitIndex c < j" and "j \<le> start"
    and "termAt c j = Some (rc_currentTerm c)" and "hasQuorum c (replicated c j)"
  shows "\<exists>i. r = Some i \<and> j \<le> i"
  using assms
proof (induction c start rule: commit_scan.induct)
  case (1 c index)
  show ?case
  proof (cases "termAt c index = Some (rc_currentTerm c) \<and> hasQuorum c (replicated c index)")
    case True
    then show ?thesis using "1.prems" by (auto simp: commit_scan.simps [of c index])
  next
    case False
    then have ne: "j \<noteq> index" using "1.prems" by auto
    have run: "commit_scan c (index - 1) = r"
      using "1.prems" False by (auto simp: commit_scan.simps [of c index] split: if_splits)
    show ?thesis
    proof (cases "termAt c index = Some (rc_currentTerm c)")
      case True
      with False have "\<not> hasQuorum c (replicated c index)" by simp
      then show ?thesis using "1.IH"(2) True ne run "1.prems" by simp
    next
      case no: False
      then show ?thesis using "1.IH"(1) ne run "1.prems" by simp
    qed
  qed
qed

end
