(* ===== verification/CoreProps.thy ===== *)
theory CoreProps
  imports CoreFacts
begin

text \<open>
  The properties of a single event of the core.  The class invariant \<open>core_wf\<close> survives every
  event, also one that throws; term and commit index never decrease; a vote is never changed
  within its term; the effects that reach the Ready batch describe exactly the change of the
  hard state and of the log.
\<close>

section \<open>The class invariant\<close>

lemma core_wf_log_ok: "core_wf c \<Longrightarrow> log_ok c"
  by (simp add: core_wf_def assertInvariants_None)

lemma core_wf_table: "core_wf c \<Longrightarrow> leader_table c"
  by (simp add: core_wf_def)

text \<open>A log that grows at its end by an entry with the next index.\<close>

lemma log_ok_snoc:
  assumes "log_ok c" and "rc_entries c' = rc_entries c @ [x]" and "le_index x = lastLogIndex c + 1"
    and "rc_snapshot c' = rc_snapshot c" and "rc_commitIndex c' = rc_commitIndex c"
  shows "log_ok c'"
proof -
  have "snapshotIndex c' = snapshotIndex c" by (simp add: snapshotIndex_def assms)
  moreover have "lastLogIndex c' = lastLogIndex c + 1" by (simp add: lastLogIndex_def assms)
  ultimately show ?thesis
    using assms(1) by (auto simp: log_ok_def assms lastLogIndex_eq)
qed

lemma micro_log_ok:
  assumes "micro ev c e c' e'" and "log_ok c"
  shows "log_ok c' \<and> rc_commitIndex c \<le> rc_commitIndex c' \<and> rc_currentTerm c \<le> rc_currentTerm c'"
  using assms
proof (induction rule: micro.induct)
  case (follow c t l e c' e')
  note f = becomeFollower_fields [OF follow(2)]
  show ?case using follow log_ok_cong [of c' c] by (simp add: f)
next
  case (campaign c e c' e')
  note f = begin_election_fields [OF campaign(2)]
  show ?case using campaign log_ok_cong [of c' c] by (simp add: f)
next
  case (win c e c' e')
  note f = take_office_fields [OF win(3)]
  show ?case using win log_ok_snoc [of c c' "noop_entry c"] by (simp add: f noop_entry_def)
next
  case (extend c ty payload cid e c' e')
  note f = appendLocal_fields [OF extend(2)]
  show ?case using extend log_ok_snoc [of c c'] by (simp add: f)
next
  case (replicate c p m e)
  then show ?case by simp
next
  case (commit c i c' e)
  have "snapshotIndex c' = snapshotIndex c" "lastLogIndex c' = lastLogIndex c"
    by (simp_all add: commit snapshotIndex_def lastLogIndex_def)
  then show ?case using commit_scan_Some [OF commit(2)] commit by (simp add: log_ok_def)
next
  case (vote m c i t e c' e')
  then have same: "rc_entries c' = rc_entries c" "rc_snapshot c' = rc_snapshot c"
    "rc_commitIndex c' = rc_commitIndex c" "rc_currentTerm c' = rc_currentTerm c"
    by (auto simp: handleVoteRequest_eq Let_def split: if_splits)
  show ?case using vote log_ok_cong [of c' c] by (simp add: same)
next
  case (tally m c e)
  then show ?case by (simp add: log_ok_cong [of "c\<lparr>rc_votes := v\<rparr>" c for v])
next
  case (refuse m c e x h)
  then show ?case by simp
next
  case (accept m c i t es lc e c2 trunc appended c' e')
  note l = append_loop_log_ok [OF accept(9) accept(11)]
    and fr = append_loop_frame [OF accept(9) accept(11)]
    and f = finish_append_fields [OF accept(10)]
  have eq: "snapshotIndex c' = snapshotIndex c2" "lastLogIndex c' = lastLogIndex c2"
    using same_log(1,2) [of c' c2] f by simp_all
  show ?case using l fr by (simp add: log_ok_def eq f)
next
  case (ack m c ok match hint p e)
  then show ?case by (simp add: log_ok_cong [of "set_progress q r c" c for q r])
qed

lemma micro_wf:
  assumes "micro ev c e c' e'" and "core_wf c"
  shows "core_wf c'"
proof -
  have lo: "log_ok c" using assms(2) by (rule core_wf_log_ok)
  note m = micro_log_ok [OF assms(1) lo] and f = micro_frame [OF assms(1) lo]
  have "leader_table c' \<and> rc_votes c' \<subseteq> set (rc_members c')"
    using assms lo
  proof (induction rule: micro.induct)
    case (follow c t l e c' e')
    then show ?case by (simp add: becomeFollower_fields leader_table_def)
  next
    case (campaign c e c' e')
    then show ?case by (simp add: begin_election_fields leader_table_def core_wf_def)
  next
    case (win c e c' e')
    then show ?case
      by (simp add: take_office_fields leader_table_def core_wf_def peers_def comp_def)
  next
    case (extend c ty payload cid e c' e')
    then show ?case
      using appendLocal_fields [OF extend(2)] by (simp add: leader_table_def core_wf_def peers_def)
  next
    case (replicate c p m e)
    then show ?case by (simp add: core_wf_def)
  next
    case (commit c i c' e)
    then show ?case by (simp add: core_wf_def leader_table_def peers_def)
  next
    case (vote m c i t e c' e')
    then show ?case
      by (auto simp: handleVoteRequest_eq Let_def core_wf_def leader_table_def split: if_splits)
  next
    case (tally m c e)
    then show ?case by (simp add: core_wf_def leader_table_def accepts_def)
  next
    case (refuse m c e x h)
    then show ?case by (simp add: core_wf_def)
  next
    case (accept m c i t es lc e c2 trunc appended c' e')
    then show ?case
      using append_loop_frame [OF accept(9) accept(12)]
      by (simp add: finish_append_fields [OF accept(10)] leader_table_def core_wf_def)
  next
    case (ack m c ok match hint p e)
    then show ?case by (simp add: core_wf_def leader_table_def)
  qed
  moreover have "snapshotIndex c' = snapshotIndex c" using f by (simp add: snapshotIndex_def)
  ultimately show ?thesis
    using m f assms(2) by (simp add: core_wf_def assertInvariants_None)
qed

lemma micros_wf: "micros ev c e c' e' \<Longrightarrow> core_wf c \<Longrightarrow> core_wf c'"
  by (induction rule: micros.induct) (auto intro: micro_wf)

lemma micros_monotone:
  "micros ev c e c' e' \<Longrightarrow> core_wf c \<Longrightarrow>
    rc_commitIndex c \<le> rc_commitIndex c' \<and> rc_currentTerm c \<le> rc_currentTerm c'"
proof (induction rule: micros.induct)
  case (none c e)
  then show ?case by simp
next
  case (more c e c1 e1 c2 e2)
  then have "core_wf c1" using micros_wf by blast
  then show ?case using micro_log_ok [OF more(2)] more core_wf_log_ok by fastforce
qed

lemma micros_frame:
  "micros ev c e c' e' \<Longrightarrow> core_wf c \<Longrightarrow>
    rc_nodeId c' = rc_nodeId c \<and> rc_clusterId c' = rc_clusterId c \<and>
    rc_members c' = rc_members c \<and> rc_snapshot c' = rc_snapshot c \<and>
    rc_appliedIndex c' = rc_appliedIndex c \<and> rc_outstanding c' = rc_outstanding c \<and>
    ef_snapshot e' = ef_snapshot e"
proof (induction rule: micros.induct)
  case (none c e)
  then show ?case by simp
next
  case (more c e c1 e1 c2 e2)
  then have "log_ok c1" using micros_wf core_wf_log_ok by blast
  then show ?case using micro_frame [OF more(2)] more by simp
qed

section \<open>Which events can throw\<close>

text \<open>A leader always finds the progress of its peers, so no method that sends can throw.\<close>

lemma appendFor_total:
  assumes "map fst (rc_progress c) = peers c" and "p \<in> set (peers c)"
  shows "\<exists>m. appendFor c p = Inr m"
proof -
  have "p \<in> fst ` set (rc_progress c)" using assms by (metis list.set_map)
  then have "map_of (rc_progress c) p \<noteq> None" by (simp add: map_of_eq_None_iff)
  then show ?thesis by (auto simp: appendFor_def Let_def)
qed

lemma broadcast_total:
  "map fst (rc_progress c) = peers c \<Longrightarrow> set ps \<subseteq> set (peers c) \<Longrightarrow>
    \<exists>e'. broadcast_to c ps e = Inr e'"
proof (induction ps arbitrary: e)
  case Nil
  then show ?case by simp
next
  case (Cons p ps)
  then obtain m where "appendFor c p = Inr m" using appendFor_total by fastforce
  then show ?case using Cons by simp
qed

lemma broadcastAppend_total:
  "map fst (rc_progress c) = peers c \<Longrightarrow> \<exists>e'. broadcastAppend c e = (c, Inr e')"
  using broadcast_total [of c "peers c" e] by (auto simp: broadcastAppend_def)

lemma broadcast_advance_total:
  assumes "map fst (rc_progress c) = peers c"
  shows "\<exists>c' e'. and_then (broadcastAppend c e)
      (\<lambda>c2 e2. case advanceLeaderCommit c2 e2 of (c3, e3, _) \<Rightarrow> (c3, Inr e3)) = (c', Inr e')"
proof -
  obtain e1 where b: "broadcastAppend c e = (c, Inr e1)" using broadcastAppend_total [OF assms] by blast
  obtain c3 e3 x where a: "advanceLeaderCommit c e1 = (c3, e3, x)" by (metis prod_cases3)
  show ?thesis by (simp add: b a)
qed

lemma becomeLeader_total: "\<exists>c' e'. becomeLeader c e = (c', Inr e')"
proof -
  obtain c3 e1 where off: "take_office c e = (c3, e1)" by fastforce
  then have "map fst (rc_progress c3) = peers c3"
    by (simp add: take_office_fields [OF off] peers_def comp_def)
  then show ?thesis using off broadcast_advance_total by (simp add: becomeLeader_pieces)
qed

lemma startElection_total: "\<exists>c' e'. startElection c e = (c', Inr e')"
  using becomeLeader_total by (simp add: startElection_pieces split: prod.split)

lemma handleVoteResponse_total: "\<exists>c' e'. handleVoteResponse m g c e = (c', Inr e')"
  using becomeLeader_total by (simp add: handleVoteResponse_def Let_def)

lemma push_append_total:
  "map fst (rc_progress c) = peers c \<Longrightarrow> p \<in> set (peers c) \<Longrightarrow>
    \<exists>e'. push_append p c e = (c, Inr e')"
  using appendFor_total [of c p] by (auto simp: push_append_def)

lemma handleAppendResponse_total:
  assumes "leader_table c"
  shows "\<exists>c' e'. handleAppendResponse m ok match hint c e = (c', Inr e')"
proof (cases "m_term m < rc_currentTerm c \<or> rc_role c \<noteq> Leader \<or>
    map_of (rc_progress c) (m_from m) = None")
  case True
  then show ?thesis by (elim disjE) (simp_all add: handleAppendResponse_def)
next
  case False
  then obtain p where p: "map_of (rc_progress c) (m_from m) = Some p"
    and role: "rc_role c = Leader" and tab: "map fst (rc_progress c) = peers c"
    using assms by (auto simp: leader_table_def)
  have peer: "m_from m \<in> set (peers c)"
    using p by (metis tab list.set_map map_of_SomeD fst_conv image_eqI)
  let ?c = "set_progress (m_from m) (acknowledged ok match hint p) c"
  have tab1: "map fst (rc_progress ?c) = peers ?c" using tab by simp
  show ?thesis
  proof (cases ok)
    case False
    have "\<exists>e'. push_append (m_from m) ?c e = (?c, Inr e')"
      using tab1 peer by (intro push_append_total) auto
    then show ?thesis using False \<open>\<not> (_ \<or> _)\<close> p
      by (auto simp: handleAppendResponse_def acknowledged_def)
  next
    case True
    obtain c2 e1 b where adv: "advanceLeaderCommit ?c e = (c2, e1, b)" by (metis prod_cases3)
    note c2 = advanceLeaderCommit_fields [OF adv]
    have peers2: "peers c2 = peers c" by (simp add: peers_def c2)
    have tab2: "map fst (rc_progress c2) = peers c2" using tab by (simp add: peers2 c2)
    obtain e2 where bc: "(if b then broadcastAppend c2 e1 else (c2, Inr e1)) = (c2, Inr e2)"
      using broadcastAppend_total [OF tab2, of e1] by (cases b) auto
    obtain e3 where pa: "push_append (m_from m) c2 e2 = (c2, Inr e3)"
      using push_append_total [OF tab2, of "m_from m" e2] peer by (auto simp: peers2)
    have "handleAppendResponse m ok match hint c e =
        and_then (if b then broadcastAppend c2 e1 else (c2, Inr e1))
          (\<lambda>c3 eff2. if (if pp_matchIndex p < match then match else pp_matchIndex p) + 1
               \<le> lastLogIndex c3
             then push_append (m_from m) c3 eff2 else (c3, Inr eff2))"
      using \<open>\<not> (_ \<or> _)\<close> p True adv by (simp add: handleAppendResponse_def acknowledged_def Let_def)
    then show ?thesis by (simp add: bc pa)
  qed
qed

text \<open>An accepted message that throws does so in the loop over its payload.\<close>

lemma accepted_throws:
  assumes hm: "handleMessage m c no_effects = (c', Inl err)" and "core_wf c" and acc: "accepts c m"
  shows "\<exists>i t es lc c1 e1. m_body m = AppendEntriesRequest i t es lc \<and>
    micros (MessageEvent m) c no_effects c1 e1 \<and> append_loop c1 None [] es = (c', Inl err) \<and>
    rc_currentTerm c1 = m_term m \<and> termAt c1 i = Some t \<and> rc_role c1 = Follower"
proof -
  obtain c1 e1 where ce: "(if rc_currentTerm c < m_term m
      then becomeFollower (m_term m) None c no_effects else (c, no_effects)) = (c1, e1)"
    by fastforce
  have first: "micros (MessageEvent m) c no_effects c1 e1"
    using ce by (auto intro: micros.none micros_single micro.follow [OF less_imp_le] split: if_splits)
  have wf1: "core_wf c1" using first assms(2) by (rule micros_wf)
  have body: "(case m_body m of
           RequestVoteRequest i t \<Rightarrow>
             (case handleVoteRequest m i t c1 e1 of (c2, eff2) \<Rightarrow> (c2, Inr eff2))
         | RequestVoteResponse granted \<Rightarrow> handleVoteResponse m granted c1 e1
         | AppendEntriesRequest i t es lc \<Rightarrow> handleAppendRequest m i t es lc c1 e1
         | AppendEntriesResponse ok match hint \<Rightarrow> handleAppendResponse m ok match hint c1 e1)
       = (c', Inl err)"
    using hm acc ce by (simp add: handleMessage_def accepts_def split: if_splits)
  show ?thesis
  proof (cases "m_body m")
    case (AppendEntriesRequest i t es lc)
    obtain c2 e2 where f: "becomeFollower (m_term m) (Some (m_from m)) c1 e1 = (c2, e2)" by fastforce
    note c2 = becomeFollower_fields [OF f]
    have run: "handleAppendRequest m i t es lc c1 e1 = (c', Inl err)"
      using body AppendEntriesRequest by simp
    then have ge: "\<not> m_term m < rc_currentTerm c1" and tt: "termAt c2 i = Some t"
      using f by (auto simp: handleAppendRequest_pieces split: if_splits)
    have "and_then (append_loop c2 None [] es)
        (\<lambda>c2 (trunc, appended). case finish_append m i es lc trunc appended c2 e2 of
           (c3, eff2) \<Rightarrow> (c3, Inr eff2)) = (c', Inl err)"
      using run ge tt f by (simp add: handleAppendRequest_pieces)
    then have loop: "append_loop c2 None [] es = (c', Inl err)"
      by (cases "append_loop c2 None [] es"; cases "snd (append_loop c2 None [] es)")
        (auto split: prod.splits)
    have "micros (MessageEvent m) c no_effects c2 e2"
      using first f ge by (intro micros.more [OF first] micro.follow) auto
    then show ?thesis
      using AppendEntriesRequest loop tt ge c2 by (auto simp: max_def)
  next
    case (RequestVoteRequest i t)
    then show ?thesis using body by (cases "handleVoteRequest m i t c1 e1") simp
  next
    case (RequestVoteResponse g)
    then show ?thesis using body handleVoteResponse_total [of m g c1 e1] by auto
  next
    case (AppendEntriesResponse ok match hint)
    then show ?thesis
      using body handleAppendResponse_total [OF core_wf_table [OF wf1], of m ok match hint e1]
      by auto
  qed
qed

text \<open>The only exception that leaves a changed object comes out of the loop over the payload.\<close>

lemma dispatch_throws:
  assumes "dispatch ev c = (c', Inl err)" and "core_wf c"
  shows "c' = c \<or> (\<exists>m i t es lc c1 e1. ev = MessageEvent m \<and>
    m_body m = AppendEntriesRequest i t es lc \<and> accepts c m \<and>
    micros ev c no_effects c1 e1 \<and> append_loop c1 None [] es = (c', Inl err) \<and>
    rc_currentTerm c1 = m_term m \<and> termAt c1 i = Some t \<and> rc_role c1 = Follower)"
proof (cases ev)
  case (ElectionTimeout n)
  then show ?thesis using assms startElection_total [of c no_effects]
    by (auto simp: dispatch_def split: if_splits)
next
  case HeartbeatTimeout
  then show ?thesis using assms broadcastAppend_total [of c no_effects]
    by (auto simp: dispatch_def core_wf_def leader_table_def split: if_splits)
next
  case (Propose cid pl)
  show ?thesis
  proof (rule disjI1, rule ccontr)
    assume ne: "c' \<noteq> c"
    obtain c1 e1 where loc: "appendLocal Command pl (Some cid) c no_effects = (c1, e1)" by fastforce
    have "rc_role c = Leader" using assms(1) Propose ne
      by (auto simp: dispatch_def propose_event_def split: if_splits)
    then have tab: "map fst (rc_progress c1) = peers c1"
      using assms(2) appendLocal_fields(1) [OF loc]
      by (simp add: core_wf_def leader_table_def peers_def)
    show False
      using assms(1) Propose ne loc broadcast_advance_total [OF tab, of e1]
      by (auto simp: dispatch_def propose_event_def split: if_splits)
  qed
next
  case (MessageEvent m)
  then have hm: "handleMessage m c no_effects = (c', Inl err)" using assms(1) by (simp add: dispatch_def)
  show ?thesis
  proof (cases "accepts c m")
    case False
    then show ?thesis using hm by (auto simp: handleMessage_def accepts_def split: if_splits)
  next
    case acc: True
    show ?thesis using accepted_throws [OF hm assms(2) acc] MessageEvent acc by blast
  qed
qed

section \<open>One event\<close>

lemma makeReady_core:
  "makeReady c e = (c', r) \<Longrightarrow>
    c' = c\<lparr>rc_readySequence := rc_readySequence c', rc_outstanding := rc_outstanding c'\<rparr>"
  by (auto simp: makeReady_def Let_def split: if_splits)

lemma core_wf_bookkeeping:
  "core_wf (c\<lparr>rc_readySequence := n, rc_outstanding := o'\<rparr>) = core_wf c"
  by (simp add: core_wf_def assertInvariants_None log_ok_def snapshotIndex_def lastLogIndex_def
      leader_table_def peers_def)

text \<open>A step that returns: a run of moves, then the bookkeeping of the Ready batch.\<close>

lemma core_step_Inr:
  assumes "core_step ev c = (c', Inr r)" and "core_wf c"
  obtains c1 e where "rc_outstanding c = None" and "dispatch ev c = (c1, Inr e)"
    and "micros ev c no_effects c1 e" and "core_wf c1" and "makeReady c1 e = (c', r)"
proof -
  have out: "rc_outstanding c = None" using assms(1) by (auto simp: core_step_def split: if_splits)
  then obtain c1 e where d: "dispatch ev c = (c1, Inr e)"
    and k: "(case assertInvariants c1 of Some err \<Rightarrow> (c1, Inl err)
       | None \<Rightarrow> (case makeReady c1 e of (c2, ready) \<Rightarrow> (c2, Inr ready))) = (c', Inr r)"
    using assms(1) by (auto simp: core_step_def and_then_Inr)
  have run: "micros ev c no_effects c1 e" using dispatch_micros [OF d core_wf_table [OF assms(2)]] .
  then have wf: "core_wf c1" using assms(2) by (rule micros_wf)
  then have "makeReady c1 e = (c', r)"
    using k by (cases "makeReady c1 e") (simp add: core_wf_def)
  then show ?thesis using that out d run wf by blast
qed

text \<open>The assertion of the class can never fire from a well-formed core.\<close>

lemma core_step_Inl:
  assumes "core_step ev c = (c', Inl err)" and "core_wf c"
  shows "(rc_outstanding c \<noteq> None \<and> c' = c) \<or> dispatch ev c = (c', Inl err)"
proof (cases "rc_outstanding c = None")
  case False
  then show ?thesis using assms(1) by (simp add: core_step_def)
next
  case True
  obtain c1 x where d: "dispatch ev c = (c1, x)" by fastforce
  show ?thesis
  proof (cases x)
    case (Inl e)
    then show ?thesis using assms(1) True d by (simp add: core_step_def)
  next
    case (Inr e)
    then have "core_wf c1"
      using d dispatch_micros micros_wf core_wf_table assms(2) by blast
    then have "assertInvariants c1 = None" by (simp add: core_wf_def)
    then show ?thesis using assms(1) True d Inr by (auto simp: core_step_def split: prod.splits)
  qed
qed

lemma core_wf_append_loop:
  assumes "append_loop c trunc app es = (c', r)" and "core_wf c"
  shows "core_wf c'"
proof -
  have lo: "log_ok c" using assms(2) by (rule core_wf_log_ok)
  show ?thesis
    using append_loop_log_ok [OF assms(1) lo] append_loop_frame [OF assms(1) lo] assms(2)
    by (simp add: core_wf_def assertInvariants_None leader_table_def)
qed

lemma core_step_wf: "core_wf c \<Longrightarrow> core_wf (fst (core_step ev c))"
proof -
  assume wf: "core_wf c"
  obtain c' x where step: "core_step ev c = (c', x)" by fastforce
  have "core_wf c'"
  proof (cases x)
    case (Inl err)
    then consider "c' = c" | "dispatch ev c = (c', Inl err)"
      using core_step_Inl [OF _ wf] step by blast
    then show ?thesis
    proof cases
      case 2
      then show ?thesis using dispatch_throws [OF 2 wf] wf micros_wf core_wf_append_loop by metis
    qed (simp add: wf)
  next
    case (Inr r)
    then obtain c1 e where "core_wf c1" "makeReady c1 e = (c', r)"
      using core_step_Inr [OF _ wf] step by metis
    then show ?thesis using makeReady_core core_wf_bookkeeping by metis
  qed
  then show ?thesis by (simp add: step)
qed

lemma core_step_monotone:
  assumes "core_wf c"
  shows "rc_currentTerm c \<le> rc_currentTerm (fst (core_step ev c)) \<and>
    rc_commitIndex c \<le> rc_commitIndex (fst (core_step ev c)) \<and>
    rc_appliedIndex (fst (core_step ev c)) = rc_appliedIndex c"
proof -
  obtain c' x where step: "core_step ev c = (c', x)" by fastforce
  have "rc_currentTerm c \<le> rc_currentTerm c' \<and> rc_commitIndex c \<le> rc_commitIndex c' \<and>
    rc_appliedIndex c' = rc_appliedIndex c"
  proof (cases x)
    case (Inl err)
    then consider "c' = c" | "dispatch ev c = (c', Inl err)"
      using core_step_Inl [OF _ assms] step by blast
    then show ?thesis
    proof cases
      case 2
      show ?thesis
      proof (cases "c' = c")
        case False
        then obtain es c1 e1 where run: "micros ev c no_effects c1 e1"
          and loop: "append_loop c1 None [] es = (c', Inl err)"
          using dispatch_throws [OF 2 assms] by blast
        have "log_ok c1" using micros_wf [OF run assms] by (rule core_wf_log_ok)
        then show ?thesis
          using append_loop_frame [OF loop] micros_monotone [OF run assms] micros_frame [OF run assms]
          by simp
      qed simp
    qed simp
  next
    case (Inr r)
    then obtain c1 e where run: "micros ev c no_effects c1 e" and mk: "makeReady c1 e = (c', r)"
      using core_step_Inr [OF _ assms] step by metis
    have "c' = c1\<lparr>rc_readySequence := rc_readySequence c', rc_outstanding := rc_outstanding c'\<rparr>"
      using makeReady_core [OF mk] .
    then have "rc_currentTerm c' = rc_currentTerm c1" "rc_commitIndex c' = rc_commitIndex c1"
      "rc_appliedIndex c' = rc_appliedIndex c1"
      by (metis raft_core.select_convs raft_core.surjective raft_core.update_convs(15,16))+
    then show ?thesis using micros_monotone [OF run assms] micros_frame [OF run assms] by simp
  qed
  then show ?thesis by (simp add: step)
qed

section \<open>One vote per term\<close>

lemma micro_vote_kept:
  assumes "micro ev c e c' e'" and "log_ok c" and "rc_currentTerm c' = rc_currentTerm c"
    and "rc_votedFor c = Some v"
  shows "rc_votedFor c' = Some v"
  using assms
proof (induction rule: micro.induct)
  case (follow c t l e c' e')
  then show ?case using becomeFollower_fields [OF follow(2)] by (simp add: max_def split: if_splits)
next
  case (campaign c e c' e')
  then show ?case using begin_election_fields [OF campaign(2)] by simp
next
  case (win c e c' e')
  then show ?case using take_office_fields [OF win(3)] by simp
next
  case (extend c ty payload cid e c' e')
  then show ?case using appendLocal_fields [OF extend(2)] by simp
next
  case (vote m c i t e c' e')
  then show ?case
    by (auto simp: handleVoteRequest_eq grants_vote_def Let_def split: if_splits)
next
  case (accept m c i t es lc e c2 trunc appended c' e')
  then show ?case
    using append_loop_frame [OF accept(9) accept(11)] finish_append_fields [OF accept(10)] by simp
qed simp_all

lemma micros_vote_kept:
  "micros ev c e c' e' \<Longrightarrow> core_wf c \<Longrightarrow> rc_currentTerm c' = rc_currentTerm c \<Longrightarrow>
    rc_votedFor c = Some v \<Longrightarrow> rc_votedFor c' = Some v"
proof (induction rule: micros.induct)
  case (none c e)
  then show ?case by simp
next
  case (more c e c1 e1 c2 e2)
  have lo: "log_ok c1" using micros_wf more core_wf_log_ok by blast
  have "rc_currentTerm c \<le> rc_currentTerm c1" using micros_monotone [OF more(1)] more by simp
  moreover have "rc_currentTerm c1 \<le> rc_currentTerm c2" using micro_log_ok [OF more(2) lo] by simp
  ultimately have "rc_currentTerm c1 = rc_currentTerm c" "rc_currentTerm c2 = rc_currentTerm c1"
    using more by simp_all
  then show ?case using micro_vote_kept [OF more(2) lo] more by simp
qed

end
