(* ===== verification/ReadyTrack.thy ===== *)
theory ReadyTrack
  imports CoreProps
begin

text \<open>
  The effects of an event against the state change it made.  The storage adapters apply the
  Ready batch of an event and nothing else, so a hard state or a log change that is missing from
  the batch is a change that a crash undoes: these lemmas show that the batch describes both
  exactly, that entries up to the commit index are never touched, and that a leader only appends.
\<close>

section \<open>Payloads with consecutive indexes\<close>

definition event_wf :: "raft_event \<Rightarrow> bool" where
  "event_wf ev = (case ev of
     MessageEvent m \<Rightarrow> (case m_body m of
        AppendEntriesRequest i t es lc \<Rightarrow> contiguous (i + 1) es | _ \<Rightarrow> True)
   | _ \<Rightarrow> True)"

lemma event_wf_append:
  "event_wf (MessageEvent m) \<Longrightarrow> m_body m = AppendEntriesRequest i t es lc \<Longrightarrow>
    contiguous (i + 1) es"
  by (simp add: event_wf_def)

text \<open>The result of the loop for an accepted payload, in terms of the specification.\<close>

lemma accept_result:
  assumes "append_loop c None [] es = (c2, Inr (trunc, appended))" and "log_ok c"
    and "0 \<le> snapshotIndex c" and "termAt c i = Some t" and "contiguous (i + 1) es"
  obtains (empty) "es = []" and "c2 = c" and "trunc = None" and "appended = []"
  | (spliced) p where "i = snapshotIndex c + int p" and "p \<le> length (rc_entries c)"
      and "append_result c p None [] es = (c2, Inr (trunc, appended))"
proof (cases "es = []")
  case True
  then show ?thesis using assms(1) empty by simp
next
  case False
  have cont: "contiguous (snapshotIndex c + 1) (rc_entries c)" using assms(2) by (simp add: log_ok_def)
  note last = lastLogIndex_eq [OF cont]
  obtain e rest where es: "es = e # rest" using False by (cases es) auto
  have "snapshotIndex c \<le> i"
  proof (rule ccontr)
    assume lt: "\<not> snapshotIndex c \<le> i"
    then have "i = 0" using termAt_Some [OF assms(4,2)] by simp
    then have idx: "le_index e = 1" using assms(5) es by simp
    then have "entryAt c 1 = None" using lt \<open>i = 0\<close> by (simp add: entryAt_eq [OF cont])
    moreover have "lastLogIndex c + 1 \<noteq> 1" using lt \<open>i = 0\<close> last by simp
    ultimately show False using assms(1) idx by (simp add: es conflicts_def)
  qed
  then obtain p where p: "i = snapshotIndex c + int p" by (metis zle_iff_zadd)
  have len: "p \<le> length (rc_entries c)"
    using termAt_Some [OF assms(4,2)] assms(3) p last by auto
  have "append_loop c None [] es = append_result c p None [] es"
    using append_loop_spec [OF cont len] assms(5) p by (simp add: algebra_simps)
  then show ?thesis using spliced p len assms(1) by simp
qed

lemma append_result_Inr:
  assumes "append_result c p None [] es = (c2, Inr (trunc, appended))"
    and "contiguous (snapshotIndex c + 1) (rc_entries c)" and "p \<le> length (rc_entries c)"
  shows "c2 = c\<lparr>rc_entries := take p (rc_entries c) @ overlay (drop p (rc_entries c)) es\<rparr>"
    and "take p (rc_entries c) @ overlay (drop p (rc_entries c)) es =
      (case trunc of None \<Rightarrow> rc_entries c
       | Some at \<Rightarrow> filter (\<lambda>e. le_index e < at) (rc_entries c)) @ appended"
    and "\<forall>at. trunc = Some at \<longrightarrow> rc_commitIndex c < at"
proof -
  let ?L = "rc_entries c" and ?b = "snapshotIndex c"
  let ?old = "drop p ?L"
  let ?k = "agreement ?old es"
  have ok: "\<not> (has_conflict ?old es \<and> ?b + 1 + int (p + ?k) \<le> rc_commitIndex c)"
    and c2: "c2 = c\<lparr>rc_entries := take p ?L @ overlay ?old es\<rparr>"
    and tr: "trunc = (if has_conflict ?old es then Some (?b + 1 + int (p + ?k)) else None)"
    and ap: "appended = drop ?k es"
    using assms(1) by (auto simp: append_result_def Let_def split: if_splits)
  show "c2 = c\<lparr>rc_entries := take p ?L @ overlay ?old es\<rparr>" by (fact c2)
  show "\<forall>at. trunc = Some at \<longrightarrow> rc_commitIndex c < at" using ok tr by auto
  show "take p ?L @ overlay ?old es = (case trunc of None \<Rightarrow> ?L
       | Some at \<Rightarrow> filter (\<lambda>e. le_index e < at) ?L) @ appended"
  proof (cases "has_conflict ?old es")
    case True
    have "filter (\<lambda>e. le_index e < ?b + 1 + int (p + ?k)) ?L = take (p + ?k) ?L"
      using contiguous_filter_less [OF assms(2)] by (simp add: nat_int_add)
    then show ?thesis using True tr ap by (simp add: overlay_conflict take_add)
  next
    case False
    then show ?thesis
      using tr ap no_conflict_agreement [OF False] by (simp add: overlay_no_conflict min_def)
  qed
qed

section \<open>The batch describes the change\<close>

definition hard_tracked :: "raft_core \<Rightarrow> raft_core \<Rightarrow> effects \<Rightarrow> bool" where
  "hard_tracked c0 c e \<longleftrightarrow>
     (case ef_hardState e of None \<Rightarrow> hardState c = hardState c0 | Some h \<Rightarrow> hardState c = h)"

definition log_after :: "int option \<Rightarrow> log_entry list \<Rightarrow> log_entry list \<Rightarrow> log_entry list" where
  "log_after trunc new old =
     (case trunc of None \<Rightarrow> old | Some at \<Rightarrow> filter (\<lambda>e. le_index e < at) old) @ new"

definition log_tracked :: "raft_core \<Rightarrow> raft_core \<Rightarrow> effects \<Rightarrow> bool" where
  "log_tracked c0 c e \<longleftrightarrow>
     rc_entries c = log_after (ef_truncateFrom e) (ef_entries e) (rc_entries c0) \<and>
     (\<forall>at. ef_truncateFrom e = Some at \<longrightarrow> rc_commitIndex c0 < at)"

lemma log_tracked_snoc:
  "log_tracked c0 c e \<Longrightarrow> rc_entries c' = rc_entries c @ [x] \<Longrightarrow>
    ef_entries e' = ef_entries e @ [x] \<Longrightarrow> ef_truncateFrom e' = ef_truncateFrom e \<Longrightarrow>
    log_tracked c0 c' e'"
  by (simp add: log_tracked_def log_after_def)

lemma log_tracked_same:
  "log_tracked c0 c e \<Longrightarrow> rc_entries c' = rc_entries c \<Longrightarrow>
    ef_entries e' = ef_entries e \<Longrightarrow> ef_truncateFrom e' = ef_truncateFrom e \<Longrightarrow>
    log_tracked c0 c' e'"
  by (simp add: log_tracked_def)

lemma hardState_cong:
  "rc_currentTerm c' = rc_currentTerm c \<Longrightarrow> rc_votedFor c' = rc_votedFor c \<Longrightarrow>
    rc_commitIndex c' = rc_commitIndex c \<Longrightarrow> hardState c' = hardState c"
  by (simp add: hardState_def)

lemma hard_tracked_same:
  "hard_tracked c0 c e \<Longrightarrow> hardState c' = hardState c \<Longrightarrow> ef_hardState e' = ef_hardState e \<Longrightarrow>
    hard_tracked c0 c' e'"
  by (simp add: hard_tracked_def split: option.splits)

lemma hard_tracked_new: "ef_hardState e' = Some (hardState c') \<Longrightarrow> hard_tracked c0 c' e'"
  by (simp add: hard_tracked_def)

lemma micro_tracked:
  assumes "micro ev c e c' e'" and "core_wf c" and "event_wf ev"
    and "hard_tracked c0 c e" and "log_tracked c0 c e" and "rc_commitIndex c0 \<le> rc_commitIndex c"
  shows "hard_tracked c0 c' e' \<and> log_tracked c0 c' e'"
  using assms
proof (induction rule: micro.induct)
  case (follow c t l e c' e')
  note f = becomeFollower_fields [OF follow(2)]
  have "\<not> rc_currentTerm c < t \<Longrightarrow> hardState c' = hardState c"
    using follow(1) by (intro hardState_cong) (simp_all add: f)
  then show ?case
    using follow f log_tracked_same [of c0 c e c' e'] hard_tracked_same [of c0 c e c' e']
      hard_tracked_new [of e' c' c0]
    by (cases "rc_currentTerm c < t") simp_all
next
  case (campaign c e c' e')
  note f = begin_election_fields [OF campaign(2)]
  then show ?case
    using campaign log_tracked_same [of c0 c e c' e'] hard_tracked_new [of e' c' c0] by simp
next
  case (win c e c' e')
  note f = take_office_fields [OF win(3)]
  have "hardState c' = hardState c" by (intro hardState_cong) (simp_all add: f)
  then show ?case
    using win f log_tracked_snoc [of c0 c e c' "noop_entry c" e'] hard_tracked_same [of c0 c e c' e'] by simp
next
  case (extend c ty payload cid e c' e')
  note f = appendLocal_fields [OF extend(2)]
  have "hardState c' = hardState c" by (intro hardState_cong) (simp_all add: f)
  then show ?case
    using extend log_tracked_snoc [of c0 c e c' _ e'] hard_tracked_same [of c0 c e c' e']
    by (simp add: f)
next
  case (replicate c p m e)
  then show ?case
    using log_tracked_same [of c0 c e c "push_messages [m] e"]
    by (simp add: push_messages_def hard_tracked_def)
next
  case (commit c i c' e)
  then show ?case
    using log_tracked_same [of c0 c e c' "e\<lparr>ef_hardState := Some (hardState c')\<rparr>"]
    by (simp add: hard_tracked_def)
next
  case (vote m c i t e c' e')
  then show ?case
    using log_tracked_same [of c0 c e c' e']
    by (auto simp: handleVoteRequest_eq Let_def push_messages_def hard_tracked_def split: if_splits)
next
  case (tally m c e)
  then show ?case
    using log_tracked_same [of c0 c e "c\<lparr>rc_votes := insert (m_from m) (rc_votes c)\<rparr>" e]
      hardState_cong [of "c\<lparr>rc_votes := insert (m_from m) (rc_votes c)\<rparr>" c]
      hard_tracked_same [of c0 c e "c\<lparr>rc_votes := insert (m_from m) (rc_votes c)\<rparr>" e]
    by simp
next
  case (refuse m c e x h)
  then show ?case
    using log_tracked_same [of c0 c e c "push_messages [appendResponse c (m_from m) False x h] e"]
    by (simp add: push_messages_def hard_tracked_def)
next
  case (ack m c ok match hint p e)
  then show ?case
    using log_tracked_same [of c0 c e "set_progress (m_from m) (acknowledged ok match hint p) c" e]
      hard_tracked_same [of c0 c e "set_progress (m_from m) (acknowledged ok match hint p) c" e]
    by simp
next
  case (accept m c i t es lc e c2 trunc appended c' e')
  note f = finish_append_fields [OF accept(10)]
  have lo: "log_ok c" using accept by (simp add: core_wf_log_ok)
  note fr = append_loop_frame [OF accept(9) lo]
  have cont: "contiguous (i + 1) es" using accept event_wf_append by blast
  have hard: "hard_tracked c0 c' e'"
  proof (cases "rc_commitIndex c' = rc_commitIndex c2")
    case True
    then have "hardState c' = hardState c" using f fr by (intro hardState_cong) simp_all
    then show ?thesis using accept(13) f True hard_tracked_same [of c0 c e c' e'] by simp
  next
    case False
    then show ?thesis using f by (intro hard_tracked_new) simp
  qed
  have old: "rc_entries c = rc_entries c0"
    using accept(7,8,14) by (simp add: log_tracked_def log_after_def)
  have le: "rc_commitIndex c0 \<le> rc_commitIndex c" using accept by simp
  have snap: "0 \<le> snapshotIndex c" using accept(11) by (simp add: core_wf_def)
  from accept_result [OF accept(9) lo snap accept(6) cont]
  have "log_tracked c0 c' e'"
  proof cases
    case 1
    then show ?thesis using accept f by (simp add: log_tracked_def log_after_def)
  next
    case (2 p)
    have lc: "contiguous (snapshotIndex c + 1) (rc_entries c)" using lo by (simp add: log_ok_def)
    note r = append_result_Inr [OF 2(3) lc 2(2)]
    have "rc_entries c2 = log_after trunc appended (rc_entries c)"
      using r(1,2) by (simp add: log_after_def)
    then have "rc_entries c2 = log_after trunc appended (rc_entries c0)" by (simp only: old)
    then show ?thesis using r(3) le accept(7,8) f by (auto simp: log_tracked_def)
  qed
  then show ?case using hard by simp
qed

lemma micros_tracked:
  "micros ev c e c' e' \<Longrightarrow> core_wf c \<Longrightarrow> event_wf ev \<Longrightarrow>
    hard_tracked c c e \<Longrightarrow> log_tracked c c e \<Longrightarrow> hard_tracked c c' e' \<and> log_tracked c c' e'"
proof (induction rule: micros.induct)
  case (none c e)
  then show ?case by simp
next
  case (more c e c1 e1 c2 e2)
  have "core_wf c1" using micros_wf more by blast
  moreover have "rc_commitIndex c \<le> rc_commitIndex c1" using micros_monotone more by blast
  ultimately show ?case using micro_tracked [OF more(2)] more by blast
qed

lemma tracked_start: "hard_tracked c c no_effects" "log_tracked c c no_effects"
  by (simp_all add: hard_tracked_def log_tracked_def log_after_def no_effects_def)

section \<open>Committed entries are never touched\<close>

definition committed_log :: "int \<Rightarrow> raft_core \<Rightarrow> log_entry list" where
  "committed_log k c = filter (\<lambda>e. le_index e \<le> k) (rc_entries c)"

lemma committed_log_snoc:
  "k < le_index x \<Longrightarrow> filter (\<lambda>e. le_index e \<le> k) (es @ [x]) = filter (\<lambda>e. le_index e \<le> k) es"
  by simp

lemma append_loop_committed:
  assumes "append_loop c trunc appended es = (c', r)" and "log_ok c" and "k \<le> rc_commitIndex c"
  shows "committed_log k c' = committed_log k c"
  using assms
proof (induction c trunc appended es rule: append_loop.induct)
  case (1 c trunc appended)
  then show ?case by simp
next
  case (2 c trunc appended e es)
  define c1 where "c1 = (if conflicts c e
      then c\<lparr>rc_entries := filter (\<lambda>x. le_index x < le_index e) (rc_entries c)\<rparr> else c)"
  define trunc1 where "trunc1 = (if conflicts c e then Some (le_index e) else trunc)"
  show ?case
  proof (cases "conflicts c e \<and> le_index e \<le> rc_commitIndex c")
    case True
    then show ?thesis using "2.prems" by auto
  next
    case ok: False
    have run: "append_loop c trunc appended (e # es) =
      (if entryAt c1 (le_index e) = None
       then if le_index e \<noteq> lastLogIndex c1 + 1
            then (c1, Inl (ProtocolError ''non-contiguous AppendEntries payload''))
            else append_loop (c1\<lparr>rc_entries := rc_entries c1 @ [e]\<rparr>) trunc1 (appended @ [e]) es
       else append_loop c1 trunc1 appended es)"
      by (simp only: append_loop.simps ok if_False Let_def c1_def trunc1_def)
    have lo1: "log_ok c1" using truncate_log_ok ok "2.prems"(2) by (auto simp: c1_def)
    have keep: "committed_log k c1 = committed_log k c" and ci: "rc_commitIndex c1 = rc_commitIndex c"
      using ok "2.prems"(3) by (auto simp: c1_def committed_log_def intro!: filter_cong)
    show ?thesis
    proof (cases "entryAt c1 (le_index e) = None")
      case none: True
      show ?thesis
      proof (cases "le_index e = lastLogIndex c1 + 1")
        case True
        let ?c = "c1\<lparr>rc_entries := rc_entries c1 @ [e]\<rparr>"
        have lo2: "log_ok ?c" using log_ok_snoc [OF lo1, of ?c e] True by simp
        have "append_loop ?c trunc1 (appended @ [e]) es = (c', r)"
          by (metis "2.prems"(1) run True none)
        then have "committed_log k c' = committed_log k ?c"
          using "2.IH"(1) [OF ok c1_def trunc1_def none _ _ lo2] True "2.prems"(3) ci by simp
        also have "\<dots> = committed_log k c1"
          using True lo1 "2.prems"(3) ci by (simp add: committed_log_def log_ok_def)
        finally show ?thesis using keep by simp
      next
        case False
        then have "c' = c1" by (metis "2.prems"(1) run none prod.inject)
        then show ?thesis using keep by simp
      qed
    next
      case False
      then have "append_loop c1 trunc1 appended es = (c', r)" by (metis "2.prems"(1) run)
      then show ?thesis
        using "2.IH"(2) [OF ok c1_def trunc1_def False _ lo1] "2.prems"(3) ci keep by simp
    qed
  qed
qed

end
