(* ===== verification/Storage.thy ===== *)
theory Storage
  imports RaftTypes
begin

text \<open>
  The two storage adapters: \<open>MemoryRaftStorage\<close> of
  \<open>packages/raft-storage-memory/src/index.ts\<close> and the pair \<open>DurableMemoryStorageState\<close> /
  \<open>RestartableMemoryRaftStorage\<close> of \<open>packages/raft-testing/src/restartable-storage.ts\<close>.  An
  operation returns the object as it leaves it together with the error or the result, so that
  a call that throws after an assignment shows.  The contract both share with the node is the
  locale \<open>raft_storage\<close>, interpreted on both; \<open>atomic_storage\<close> adds that a refused batch changes
  nothing and holds for the durable adapter only.  The \<open>clone\<close> functions copy data that is
  immutable here, so they are the identity.  \<open>await Promise.resolve()\<close> only yields and has no
  counterpart.
\<close>

type_synonym ('s, 'a) io = "'s \<times> (raft_error + 'a)"

section \<open>The loops shared by both adapters\<close>

text \<open>The \<open>while\<close> loop that pops the entries from \<open>at\<close> on.  The durable adapter writes the
  condition as \<open>(nextEntries.at(-1)?.index ?? -1n) >= batch.truncateFrom\<close>, which is the same
  loop because the guard before it has put \<open>truncateFrom\<close> above a commit index that is never
  negative.\<close>

function pop_entries :: "int \<Rightarrow> log_entry list \<Rightarrow> log_entry list" where
  "pop_entries at es =
     (if es \<noteq> [] \<and> at \<le> le_index (last es) then pop_entries at (butlast es) else es)"
  by pat_completeness auto
termination by (relation "measure (\<lambda>(at, es). length es)") auto

declare pop_entries.simps [simp del]

text \<open>The \<open>for\<close> loop that appends the entries of the batch; \<open>base\<close> is the index below an empty
  log, \<open>err\<close> the message of the adapter.\<close>

definition tip_index :: "int \<Rightarrow> log_entry list \<Rightarrow> int" where
  "tip_index base es = (if es = [] then base else le_index (last es))"

fun push_entries :: "string \<Rightarrow> int \<Rightarrow> log_entry list \<Rightarrow> log_entry list
    \<Rightarrow> raft_error + log_entry list" where
  "push_entries err base acc [] = Inr acc"
| "push_entries err base acc (e # es) =
     (if le_index e \<noteq> tip_index base acc + 1 then Inl (PlainError err)
      else push_entries err base (acc @ [e]) es)"

fun collect_entries :: "int \<Rightarrow> int \<Rightarrow> int option \<Rightarrow> log_entry list \<Rightarrow> int \<Rightarrow> log_entry list
    \<Rightarrow> log_entry list" where
  "collect_entries from to limit acc used [] = acc"
| "collect_entries from to limit acc used (e # es) =
     (if le_index e < from \<or> to \<le> le_index e then collect_entries from to limit acc used es
      else if limit \<noteq> None \<and> 0 < length acc \<and> the limit < used + int (length (le_payload e))
      then acc
      else collect_entries from to limit (acc @ [e]) (used + int (length (le_payload e))) es)"

definition snapshot_index :: "snapshot option \<Rightarrow> int" where
  "snapshot_index s = (case s of None \<Rightarrow> 0 | Some x \<Rightarrow> sn_lastIncludedIndex x)"

definition stored_term :: "snapshot option \<Rightarrow> log_entry list \<Rightarrow> int \<Rightarrow> int option" where
  "stored_term s es i =
     (case s of
        Some x \<Rightarrow> if sn_lastIncludedIndex x = i then Some (sn_lastIncludedTerm x)
                  else map_option le_term (find (\<lambda>e. le_index e = i) es)
      | None \<Rightarrow> map_option le_term (find (\<lambda>e. le_index e = i) es))"

definition storage_max :: "int \<Rightarrow> int \<Rightarrow> int" where
  "storage_max left right = (if right < left then left else right)"

section \<open>MemoryRaftStorage\<close>

record memory_storage =
  ms_hardState :: hard_state
  ms_entries :: "log_entry list"
  ms_snapshot :: "snapshot option"
  ms_appliedIndex :: int
  ms_closed :: bool
  ms_failure :: "raft_error option"
  ms_history :: "persist_batch list"

definition new_memory_storage :: memory_storage where
  "new_memory_storage = \<lparr>ms_hardState = \<lparr>hs_currentTerm = 0, hs_votedFor = None, hs_commitIndex = 0\<rparr>,
     ms_entries = [], ms_snapshot = None, ms_appliedIndex = 0, ms_closed = False,
     ms_failure = None, ms_history = []\<rparr>"

definition memory_failNext :: "raft_error \<Rightarrow> memory_storage \<Rightarrow> memory_storage" where
  "memory_failNext err s = s\<lparr>ms_failure := Some err\<rparr>"

definition memory_view :: "memory_storage \<Rightarrow> persisted_raft_state" where
  "memory_view s = \<lparr>ps_hardState = ms_hardState s, ps_entries = ms_entries s,
     ps_snapshot = ms_snapshot s, ps_appliedIndex = ms_appliedIndex s\<rparr>"

definition memory_guarded :: "memory_storage \<Rightarrow> (memory_storage, 'a) io \<Rightarrow> (memory_storage, 'a) io"
  where
  "memory_guarded s r = (if ms_closed s then (s, Inl (PlainError ''storage is closed'')) else r)"

definition memory_load :: "memory_storage \<Rightarrow> (memory_storage, persisted_raft_state) io" where
  "memory_load s = memory_guarded s (s, Inr (memory_view s))"

text \<open>The last part of \<open>persist\<close>: from the check of the applied index on.\<close>

definition memory_finish :: "persist_batch \<Rightarrow> log_entry list \<Rightarrow> memory_storage
    \<Rightarrow> (memory_storage, unit) io" where
  "memory_finish b nextEntries s =
     (case pb_appliedIndex b of
        Some i \<Rightarrow>
          if i < ms_appliedIndex s \<or> hs_commitIndex (ms_hardState s) < i
          then (s, Inl (PlainError ''invalid applied index''))
          else (s\<lparr>ms_appliedIndex := i, ms_entries := nextEntries,
                  ms_snapshot := (if pb_snapshot b = None then ms_snapshot s else pb_snapshot b),
                  ms_history := ms_history s @ [b]\<rparr>, Inr ())
      | None \<Rightarrow> (s\<lparr>ms_entries := nextEntries,
                  ms_snapshot := (if pb_snapshot b = None then ms_snapshot s else pb_snapshot b),
                  ms_history := ms_history s @ [b]\<rparr>, Inr ()))"

definition memory_persist :: "persist_batch \<Rightarrow> memory_storage \<Rightarrow> (memory_storage, unit) io" where
  "memory_persist b s = memory_guarded s
     (case ms_failure s of
        Some err \<Rightarrow> (s\<lparr>ms_failure := None\<rparr>, Inl err)
      | None \<Rightarrow>
          if \<exists>at \<in> set_option (pb_truncateFrom b). at \<le> hs_commitIndex (ms_hardState s)
          then (s, Inl (PlainError ''cannot truncate a committed entry''))
          else
            let kept = (case pb_truncateFrom b of None \<Rightarrow> ms_entries s
                        | Some at \<Rightarrow> pop_entries at (ms_entries s))
            in case push_entries ''persisted entries must be contiguous''
                      (snapshot_index (ms_snapshot s)) kept (pb_entries b) of
                 Inl err \<Rightarrow> (s, Inl err)
               | Inr nextEntries \<Rightarrow>
                   (case pb_hardState b of
                      None \<Rightarrow> memory_finish b nextEntries s
                    | Some h \<Rightarrow>
                        if hs_currentTerm h < hs_currentTerm (ms_hardState s)
                        then (s, Inl (PlainError ''term cannot decrease''))
                        else if hs_commitIndex h < hs_commitIndex (ms_hardState s)
                        then (s, Inl (PlainError ''commit index cannot decrease''))
                        else memory_finish b nextEntries (s\<lparr>ms_hardState := h\<rparr>)))"

definition memory_getTerm :: "int \<Rightarrow> memory_storage \<Rightarrow> (memory_storage, int option) io" where
  "memory_getTerm i s = memory_guarded s (s, Inr (stored_term (ms_snapshot s) (ms_entries s) i))"

definition memory_getEntry :: "int \<Rightarrow> memory_storage \<Rightarrow> (memory_storage, log_entry option) io" where
  "memory_getEntry i s = memory_guarded s (s, Inr (find (\<lambda>e. le_index e = i) (ms_entries s)))"

definition memory_getEntries :: "int \<Rightarrow> int \<Rightarrow> int option \<Rightarrow> memory_storage
    \<Rightarrow> (memory_storage, log_entry list) io" where
  "memory_getEntries from to limit s =
     memory_guarded s (s, Inr (collect_entries from to limit [] 0 (ms_entries s)))"

definition memory_installSnapshot :: "snapshot \<Rightarrow> memory_storage \<Rightarrow> (memory_storage, unit) io" where
  "memory_installSnapshot x s =
     (case memory_persist \<lparr>pb_hardState = None, pb_truncateFrom = None, pb_entries = [],
             pb_snapshot = Some x, pb_appliedIndex = None\<rparr> s of
        (s1, Inl err) \<Rightarrow> (s1, Inl err)
      | (s1, Inr _) \<Rightarrow>
          (s1\<lparr>ms_entries := filter (\<lambda>e. sn_lastIncludedIndex x < le_index e) (ms_entries s1),
              ms_hardState := (ms_hardState s1)\<lparr>hs_commitIndex :=
                storage_max (hs_commitIndex (ms_hardState s1)) (sn_lastIncludedIndex x)\<rparr>,
              ms_appliedIndex := storage_max (ms_appliedIndex s1) (sn_lastIncludedIndex x)\<rparr>,
           Inr ()))"

definition memory_compact :: "int \<Rightarrow> memory_storage \<Rightarrow> (memory_storage, unit) io" where
  "memory_compact through s = memory_guarded s
     (case ms_snapshot s of
        None \<Rightarrow> (s, Inl (PlainError ''cannot compact beyond a durable snapshot''))
      | Some x \<Rightarrow>
          if sn_lastIncludedIndex x < through
          then (s, Inl (PlainError ''cannot compact beyond a durable snapshot''))
          else (s\<lparr>ms_entries := filter (\<lambda>e. through < le_index e) (ms_entries s)\<rparr>, Inr ()))"

definition memory_close :: "memory_storage \<Rightarrow> memory_storage" where
  "memory_close s = s\<lparr>ms_closed := True\<rparr>"

section \<open>DurableMemoryStorageState\<close>

record durable_state =
  du_hardState :: hard_state
  du_entries :: "log_entry list"
  du_snapshot :: "snapshot option"
  du_appliedIndex :: int
  du_failure :: "raft_error option"

definition new_durable_state :: durable_state where
  "new_durable_state = \<lparr>du_hardState = \<lparr>hs_currentTerm = 0, hs_votedFor = None, hs_commitIndex = 0\<rparr>,
     du_entries = [], du_snapshot = None, du_appliedIndex = 0, du_failure = None\<rparr>"

definition durable_failNext :: "raft_error \<Rightarrow> durable_state \<Rightarrow> durable_state" where
  "durable_failNext err d = d\<lparr>du_failure := Some err\<rparr>"

definition durable_inspect :: "durable_state \<Rightarrow> persisted_raft_state" where
  "durable_inspect d = \<lparr>ps_hardState = du_hardState d, ps_entries = du_entries d,
     ps_snapshot = du_snapshot d, ps_appliedIndex = du_appliedIndex d\<rparr>"

definition or_else :: "'a option \<Rightarrow> 'a \<Rightarrow> 'a" where
  "or_else o' x = (case o' of None \<Rightarrow> x | Some y \<Rightarrow> y)"

text \<open>The checks between the log loop and the assignments, in their order.\<close>

definition durable_checks :: "persist_batch \<Rightarrow> log_entry list \<Rightarrow> durable_state \<Rightarrow> raft_error option"
  where
  "durable_checks b nextEntries d =
     (let h = du_hardState d;
          nextHardState = or_else (pb_hardState b) h;
          activeSnapshot = (if pb_snapshot b = None then du_snapshot d else pb_snapshot b);
          lastIndex = tip_index (snapshot_index activeSnapshot) nextEntries;
          nextAppliedIndex = or_else (pb_appliedIndex b) (du_appliedIndex d)
      in if hs_currentTerm nextHardState < hs_currentTerm h
         then Some (PlainError ''invariant: term decreased'')
         else if hs_currentTerm nextHardState = hs_currentTerm h \<and> hs_votedFor h \<noteq> None \<and>
                 hs_votedFor nextHardState \<noteq> hs_votedFor h
         then Some (PlainError ''invariant: node voted twice in one term'')
         else if hs_commitIndex nextHardState < hs_commitIndex h
         then Some (PlainError ''invariant: commit index decreased'')
         else if lastIndex < hs_commitIndex nextHardState
         then Some (PlainError ''invariant: commit index exceeds durable log'')
         else if nextAppliedIndex < du_appliedIndex d
         then Some (PlainError ''invariant: applied index decreased'')
         else if hs_commitIndex nextHardState < nextAppliedIndex
         then Some (PlainError ''invariant: applied index exceeds commit index'')
         else None)"

definition durable_persist :: "persist_batch \<Rightarrow> durable_state \<Rightarrow> (durable_state, unit) io" where
  "durable_persist b d =
     (case du_failure d of
        Some err \<Rightarrow> (d\<lparr>du_failure := None\<rparr>, Inl err)
      | None \<Rightarrow>
          if \<exists>at \<in> set_option (pb_truncateFrom b). at \<le> hs_commitIndex (du_hardState d)
          then (d, Inl (PlainError ''invariant: cannot truncate a committed entry''))
          else
            let kept = (case pb_truncateFrom b of None \<Rightarrow> du_entries d
                        | Some at \<Rightarrow> pop_entries at (du_entries d))
            in case push_entries ''invariant: persisted log is not contiguous''
                      (snapshot_index (du_snapshot d)) kept (pb_entries b) of
                 Inl err \<Rightarrow> (d, Inl err)
               | Inr nextEntries \<Rightarrow>
                   (case durable_checks b nextEntries d of
                      Some err \<Rightarrow> (d, Inl err)
                    | None \<Rightarrow>
                        (d\<lparr>du_entries := nextEntries,
                           du_hardState := or_else (pb_hardState b) (du_hardState d),
                           du_appliedIndex := or_else (pb_appliedIndex b) (du_appliedIndex d),
                           du_snapshot := (if pb_snapshot b = None then du_snapshot d
                                           else pb_snapshot b)\<rparr>, Inr ())))"

definition durable_installSnapshot :: "snapshot \<Rightarrow> durable_state \<Rightarrow> (durable_state, unit) io" where
  "durable_installSnapshot x d =
     (if sn_lastIncludedIndex x < snapshot_index (du_snapshot d)
      then (d, Inl (PlainError ''invariant: snapshot moved backward''))
      else (d\<lparr>du_snapshot := Some x,
              du_entries := filter (\<lambda>e. sn_lastIncludedIndex x < le_index e) (du_entries d),
              du_hardState := (du_hardState d)\<lparr>hs_commitIndex :=
                storage_max (hs_commitIndex (du_hardState d)) (sn_lastIncludedIndex x)\<rparr>,
              du_appliedIndex := storage_max (du_appliedIndex d) (sn_lastIncludedIndex x)\<rparr>,
            Inr ()))"

definition durable_compact :: "int \<Rightarrow> durable_state \<Rightarrow> (durable_state, unit) io" where
  "durable_compact through d =
     (case du_snapshot d of
        None \<Rightarrow> (d, Inl (PlainError ''cannot compact beyond a durable snapshot''))
      | Some x \<Rightarrow>
          if sn_lastIncludedIndex x < through
          then (d, Inl (PlainError ''cannot compact beyond a durable snapshot''))
          else (d\<lparr>du_entries := filter (\<lambda>e. through < le_index e) (du_entries d)\<rparr>, Inr ()))"

section \<open>RestartableMemoryRaftStorage\<close>

text \<open>A handle on a durable state; the state outlives the handle, so a restart is \<open>handle_open\<close>
  on the state of the old one.\<close>

record storage_handle =
  sh_closed :: bool
  sh_state :: durable_state

definition handle_open :: "durable_state \<Rightarrow> storage_handle" where
  "handle_open d = \<lparr>sh_closed = False, sh_state = d\<rparr>"

definition handle_guarded :: "storage_handle \<Rightarrow> (durable_state, 'a) io \<Rightarrow> (storage_handle, 'a) io"
  where
  "handle_guarded h r =
     (if sh_closed h then (h, Inl (PlainError ''storage handle is closed''))
      else (h\<lparr>sh_state := fst r\<rparr>, snd r))"

definition handle_load :: "storage_handle \<Rightarrow> (storage_handle, persisted_raft_state) io" where
  "handle_load h = handle_guarded h (sh_state h, Inr (durable_inspect (sh_state h)))"

definition handle_persist :: "persist_batch \<Rightarrow> storage_handle \<Rightarrow> (storage_handle, unit) io" where
  "handle_persist b h = handle_guarded h (durable_persist b (sh_state h))"

definition handle_getTerm :: "int \<Rightarrow> storage_handle \<Rightarrow> (storage_handle, int option) io" where
  "handle_getTerm i h = handle_guarded h (sh_state h,
     Inr (stored_term (du_snapshot (sh_state h)) (du_entries (sh_state h)) i))"

definition handle_getEntry :: "int \<Rightarrow> storage_handle \<Rightarrow> (storage_handle, log_entry option) io" where
  "handle_getEntry i h = handle_guarded h (sh_state h,
     Inr (find (\<lambda>e. le_index e = i) (du_entries (sh_state h))))"

definition handle_getEntries :: "int \<Rightarrow> int \<Rightarrow> int option \<Rightarrow> storage_handle
    \<Rightarrow> (storage_handle, log_entry list) io" where
  "handle_getEntries from to limit h = handle_guarded h (sh_state h,
     Inr (collect_entries from to limit [] 0 (du_entries (sh_state h))))"

definition handle_installSnapshot :: "snapshot \<Rightarrow> storage_handle \<Rightarrow> (storage_handle, unit) io" where
  "handle_installSnapshot x h = handle_guarded h (durable_installSnapshot x (sh_state h))"

definition handle_compact :: "int \<Rightarrow> storage_handle \<Rightarrow> (storage_handle, unit) io" where
  "handle_compact through h = handle_guarded h (durable_compact through (sh_state h))"

definition handle_close :: "storage_handle \<Rightarrow> storage_handle" where
  "handle_close h = h\<lparr>sh_closed := True\<rparr>"

end
