(* ===== verification/StorageContract.thy ===== *)
theory StorageContract
  imports Storage
begin

text \<open>
  What a storage adapter promises, stated on the persisted state a \<open>load\<close> would return:
  which batches it accepts, what it then holds, and (for the durable adapter) that a refused
  batch changes nothing and an accepted one never takes back a term, a vote, the commit index
  or a committed entry.  Both adapters are instances of the first contract, the durable one of
  the second.
\<close>

section \<open>The contract\<close>

definition kept_entries :: "persist_batch \<Rightarrow> persisted_raft_state \<Rightarrow> log_entry list" where
  "kept_entries b p = (case pb_truncateFrom b of None \<Rightarrow> ps_entries p
     | Some at \<Rightarrow> filter (\<lambda>e. le_index e < at) (ps_entries p))"

definition batch_hard :: "persist_batch \<Rightarrow> persisted_raft_state \<Rightarrow> hard_state" where
  "batch_hard b p = or_else (pb_hardState b) (ps_hardState p)"

definition batch_applied :: "persist_batch \<Rightarrow> persisted_raft_state \<Rightarrow> int" where
  "batch_applied b p = or_else (pb_appliedIndex b) (ps_appliedIndex p)"

definition apply_batch :: "persist_batch \<Rightarrow> persisted_raft_state \<Rightarrow> persisted_raft_state" where
  "apply_batch b p = \<lparr>ps_hardState = batch_hard b p,
     ps_entries = kept_entries b p @ pb_entries b,
     ps_snapshot = (if pb_snapshot b = None then ps_snapshot p else pb_snapshot b),
     ps_appliedIndex = batch_applied b p\<rparr>"

definition batch_ok :: "persist_batch \<Rightarrow> persisted_raft_state \<Rightarrow> bool" where
  "batch_ok b p \<longleftrightarrow>
     (let h = ps_hardState p; h' = batch_hard b p; base = snapshot_index (ps_snapshot p) in
      (\<forall>at \<in> set_option (pb_truncateFrom b). hs_commitIndex h < at) \<and>
      contiguous (tip_index base (kept_entries b p) + 1) (pb_entries b) \<and>
      pb_snapshot b = None \<and>
      hs_currentTerm h \<le> hs_currentTerm h' \<and>
      (hs_currentTerm h' = hs_currentTerm h \<longrightarrow> hs_votedFor h = None \<or>
        hs_votedFor h' = hs_votedFor h) \<and>
      hs_commitIndex h \<le> hs_commitIndex h' \<and>
      hs_commitIndex h' \<le> tip_index base (kept_entries b p @ pb_entries b) \<and>
      ps_appliedIndex p \<le> batch_applied b p \<and> batch_applied b p \<le> hs_commitIndex h')"

definition view_ok :: "persisted_raft_state \<Rightarrow> bool" where
  "view_ok p \<longleftrightarrow> contiguous (snapshot_index (ps_snapshot p) + 1) (ps_entries p) \<and>
     hs_commitIndex (ps_hardState p) \<le> tip_index (snapshot_index (ps_snapshot p)) (ps_entries p) \<and>
     snapshot_index (ps_snapshot p) \<le> hs_commitIndex (ps_hardState p) \<and>
     0 \<le> snapshot_index (ps_snapshot p) \<and>
     ps_appliedIndex p \<le> hs_commitIndex (ps_hardState p)"

definition committed_part :: "persisted_raft_state \<Rightarrow> int \<Rightarrow> log_entry list" where
  "committed_part p k = filter (\<lambda>e. le_index e \<le> k) (ps_entries p)"

definition safe_change :: "persisted_raft_state \<Rightarrow> persisted_raft_state \<Rightarrow> bool" where
  "safe_change p p' \<longleftrightarrow>
     (let h = ps_hardState p; h' = ps_hardState p' in
      hs_currentTerm h \<le> hs_currentTerm h' \<and>
      (hs_currentTerm h' = hs_currentTerm h \<longrightarrow> hs_votedFor h \<noteq> None \<longrightarrow>
        hs_votedFor h' = hs_votedFor h) \<and>
      hs_commitIndex h \<le> hs_commitIndex h' \<and> ps_appliedIndex p \<le> ps_appliedIndex p' \<and>
      committed_part p' (hs_commitIndex h) = committed_part p (hs_commitIndex h))"

locale raft_storage =
  fixes persist :: "persist_batch \<Rightarrow> 's \<Rightarrow> ('s, unit) io"
    and load :: "'s \<Rightarrow> ('s, persisted_raft_state) io"
    and view :: "'s \<Rightarrow> persisted_raft_state"
    and ready :: "'s \<Rightarrow> bool"
  assumes load_view: "ready s \<Longrightarrow> load s = (s, Inr (view s))"
    and persist_accepts: "ready s \<Longrightarrow> view_ok (view s) \<Longrightarrow> batch_ok b (view s) \<Longrightarrow>
      \<exists>s'. persist b s = (s', Inr ()) \<and> ready s' \<and> view s' = apply_batch b (view s)"

locale atomic_storage = raft_storage persist load view ready
  for persist :: "persist_batch \<Rightarrow> 's \<Rightarrow> ('s, unit) io"
    and load :: "'s \<Rightarrow> ('s, persisted_raft_state) io"
    and view :: "'s \<Rightarrow> persisted_raft_state"
    and ready :: "'s \<Rightarrow> bool" +
  assumes persist_refuses: "persist b s = (s', Inl err) \<Longrightarrow> view s' = view s"
    and persist_checks: "persist b s = (s', Inr x) \<Longrightarrow> view_ok (view s) \<Longrightarrow>
      pb_snapshot b = None \<Longrightarrow> batch_ok b (view s) \<and> view s' = apply_batch b (view s)"

section \<open>The loops\<close>

lemma pop_entries_contiguous [core_simps]:
  "contiguous b es \<Longrightarrow> pop_entries at es = filter (\<lambda>e. le_index e < at) es"
proof (induction es rule: rev_induct)
  case Nil
  then show ?case by (simp add: pop_entries.simps)
next
  case (snoc e es)
  show ?case
  proof (cases "at \<le> le_index e")
    case True
    then have "pop_entries at (es @ [e]) = pop_entries at es" by (subst pop_entries.simps) simp
    then show ?thesis using snoc True by simp
  next
    case False
    then have keep: "pop_entries at (es @ [e]) = es @ [e]" by (subst pop_entries.simps) simp
    have "\<forall>x \<in> set es. le_index x < at"
      using snoc.prems False contiguous_bounds [of b es] by fastforce
    then show ?thesis using keep False by (simp add: filter_id_conv)
  qed
qed

lemma tip_index_snoc [simp]: "tip_index base (es @ [e]) = le_index e"
  by (simp add: tip_index_def)

lemma tip_index_contiguous:
  "contiguous (base + 1) es \<Longrightarrow> tip_index base es = base + int (length es)"
  by (simp add: tip_index_def contiguous_last)

lemma push_entries_eq [core_simps]:
  "push_entries err base acc es =
    (if contiguous (tip_index base acc + 1) es then Inr (acc @ es) else Inl (PlainError err))"
  by (induction es arbitrary: acc) auto

lemma kept_contiguous:
  "contiguous b (ps_entries p) \<Longrightarrow> contiguous b (kept_entries p' p)"
  by (auto simp: kept_entries_def contiguous_filter_less contiguous_take split: option.splits)

section \<open>An accepted batch\<close>

lemma apply_batch_view_ok:
  assumes "view_ok p" and "batch_ok b p"
  shows "view_ok (apply_batch b p)"
proof -
  let ?base = "snapshot_index (ps_snapshot p)"
  have k: "contiguous (?base + 1) (kept_entries b p)"
    using assms(1) kept_contiguous by (auto simp: view_ok_def)
  then have "contiguous (?base + 1) (kept_entries b p @ pb_entries b)"
    using assms(2) tip_index_contiguous [OF k] by (simp add: batch_ok_def Let_def algebra_simps)
  then show ?thesis
    using assms by (simp add: view_ok_def apply_batch_def batch_ok_def Let_def)
qed

lemma apply_batch_safe:
  assumes "view_ok p" and "batch_ok b p"
  shows "safe_change p (apply_batch b p)"
proof -
  let ?base = "snapshot_index (ps_snapshot p)" and ?c = "hs_commitIndex (ps_hardState p)"
  have k: "contiguous (?base + 1) (kept_entries b p)"
    using assms(1) kept_contiguous by (auto simp: view_ok_def)
  have tip: "?c \<le> tip_index ?base (kept_entries b p)"
  proof (cases "pb_truncateFrom b")
    case None
    then show ?thesis using assms(1) by (simp add: kept_entries_def view_ok_def)
  next
    case (Some at)
    have cont: "contiguous (?base + 1) (ps_entries p)" using assms(1) by (simp add: view_ok_def)
    have "kept_entries b p = take (nat (at - (?base + 1))) (ps_entries p)"
      using Some contiguous_filter_less [OF cont] by (simp add: kept_entries_def)
    moreover have "?c < at" using assms(2) Some by (simp add: batch_ok_def Let_def)
    ultimately show ?thesis
      using assms(1) tip_index_contiguous [OF k] tip_index_contiguous [OF cont]
      by (auto simp: view_ok_def min_def)
  qed
  have old: "filter (\<lambda>e. le_index e \<le> ?c) (kept_entries b p) = filter (\<lambda>e. le_index e \<le> ?c) (ps_entries p)"
    using assms(2)
    by (auto simp: kept_entries_def batch_ok_def Let_def split: option.splits intro!: filter_cong)
  have new: "filter (\<lambda>e. le_index e \<le> ?c) (pb_entries b) = []"
  proof -
    have "contiguous (tip_index ?base (kept_entries b p) + 1) (pb_entries b)"
      using assms(2) by (simp add: batch_ok_def Let_def)
    then have "\<forall>x \<in> set (pb_entries b). ?c < le_index x"
      using tip contiguous_bounds by fastforce
    then show ?thesis by (simp add: filter_empty_conv not_le)
  qed
  have "committed_part (apply_batch b p) ?c = committed_part p ?c"
    using old new by (simp add: committed_part_def apply_batch_def)
  then show ?thesis
    using assms(2) by (auto simp: safe_change_def apply_batch_def batch_ok_def Let_def)
qed

lemma safe_change_refl: "safe_change p p"
  by (simp add: safe_change_def)

lemma safe_change_trans:
  assumes "safe_change p q" and "safe_change q r"
  shows "safe_change p r"
proof -
  let ?c = "hs_commitIndex (ps_hardState p)" and ?d = "hs_commitIndex (ps_hardState q)"
  have le: "?c \<le> ?d" using assms(1) by (simp add: safe_change_def Let_def)
  have restrict: "filter (\<lambda>e. le_index e \<le> ?c) (filter (\<lambda>e. le_index e \<le> ?d) xs) =
      filter (\<lambda>e. le_index e \<le> ?c) xs" for xs
    using le by (induction xs) auto
  have "committed_part r ?d = committed_part q ?d" "committed_part q ?c = committed_part p ?c"
    using assms by (simp_all add: safe_change_def Let_def)
  then have "committed_part r ?c = committed_part p ?c"
    unfolding committed_part_def by (metis restrict)
  then show ?thesis
    using assms unfolding safe_change_def Let_def by fastforce
qed

context raft_storage
begin

lemma persist_keeps:
  assumes "ready s" and "view_ok (view s)" and "batch_ok b (view s)" and "persist b s = (s', r)"
  shows "r = Inr () \<and> ready s' \<and> view_ok (view s') \<and> view s' = apply_batch b (view s)"
  using persist_accepts [OF assms(1-3)] assms apply_batch_view_ok by auto

end

text \<open>Whatever batches are offered to an atomic storage, accepted or refused, nothing durable is
  taken back.\<close>

fun persist_all :: "(persist_batch \<Rightarrow> 's \<Rightarrow> ('s, unit) io) \<Rightarrow> persist_batch list \<Rightarrow> 's \<Rightarrow> 's" where
  "persist_all persist [] s = s"
| "persist_all persist (b # bs) s = persist_all persist bs (fst (persist b s))"

context atomic_storage
begin

lemma persist_safe:
  assumes "view_ok (view s)" and "pb_snapshot b = None"
  shows "view_ok (view (fst (persist b s))) \<and> safe_change (view s) (view (fst (persist b s)))"
proof -
  obtain s' r where p: "persist b s = (s', r)" by fastforce
  show ?thesis
  proof (cases r)
    case (Inl err)
    then show ?thesis using persist_refuses [of b s s' err] p assms safe_change_refl by simp
  next
    case (Inr x)
    then have "batch_ok b (view s) \<and> view s' = apply_batch b (view s)"
      using persist_checks [of b s s' x] p assms by simp
    then show ?thesis using p assms apply_batch_view_ok apply_batch_safe by simp
  qed
qed

lemma persist_all_safe:
  "view_ok (view s) \<Longrightarrow> \<forall>b \<in> set bs. pb_snapshot b = None \<Longrightarrow>
    view_ok (view (persist_all persist bs s)) \<and> safe_change (view s) (view (persist_all persist bs s))"
proof (induction bs arbitrary: s)
  case Nil
  then show ?case by (simp add: safe_change_refl)
next
  case (Cons b bs)
  then have "view_ok (view (fst (persist b s))) \<and> safe_change (view s) (view (fst (persist b s)))"
    using persist_safe by simp
  then show ?case using Cons safe_change_trans by fastforce
qed

end

section \<open>The adapters meet the contract\<close>

definition memory_ready :: "memory_storage \<Rightarrow> bool" where
  "memory_ready s \<longleftrightarrow> \<not> ms_closed s \<and> ms_failure s = None"

definition handle_ready :: "storage_handle \<Rightarrow> bool" where
  "handle_ready h \<longleftrightarrow> \<not> sh_closed h \<and> du_failure (sh_state h) = None"

definition handle_view :: "storage_handle \<Rightarrow> persisted_raft_state" where
  "handle_view h = durable_inspect (sh_state h)"

lemma or_else_simps [simp]: "or_else None x = x" "or_else (Some y) x = y"
  by (simp_all add: or_else_def)

lemma view_simps [simp]:
  "ps_hardState (memory_view s) = ms_hardState s" "ps_entries (memory_view s) = ms_entries s"
  "ps_snapshot (memory_view s) = ms_snapshot s" "ps_appliedIndex (memory_view s) = ms_appliedIndex s"
  "ps_hardState (durable_inspect d) = du_hardState d" "ps_entries (durable_inspect d) = du_entries d"
  "ps_snapshot (durable_inspect d) = du_snapshot d"
  "ps_appliedIndex (durable_inspect d) = du_appliedIndex d"
  by (simp_all add: memory_view_def durable_inspect_def)

lemma kept_pop:
  "view_ok p \<Longrightarrow> (case pb_truncateFrom b of None \<Rightarrow> ps_entries p
    | Some at \<Rightarrow> pop_entries at (ps_entries p)) = kept_entries b p"
  by (auto simp: kept_entries_def view_ok_def pop_entries_contiguous split: option.splits)

lemma memory_persist_accepts:
  assumes "memory_ready s" and "view_ok (memory_view s)" and "batch_ok b (memory_view s)"
  shows "\<exists>s'. memory_persist b s = (s', Inr ()) \<and> memory_ready s' \<and>
    memory_view s' = apply_batch b (memory_view s)"
proof -
  let ?p = "memory_view s"
  have kept: "(case pb_truncateFrom b of None \<Rightarrow> ms_entries s
      | Some at \<Rightarrow> pop_entries at (ms_entries s)) = kept_entries b ?p"
    using kept_pop [OF assms(2), of b] by (simp only: view_simps)
  have cont: "contiguous (tip_index (snapshot_index (ms_snapshot s)) (kept_entries b ?p) + 1) (pb_entries b)"
    using assms(3) by (simp add: batch_ok_def Let_def)
  have cut: "\<not> (\<exists>at \<in> set_option (pb_truncateFrom b). at \<le> hs_commitIndex (ms_hardState s))"
    using assms(3) by (force simp: batch_ok_def Let_def)
  have h: "\<not> hs_currentTerm (batch_hard b ?p) < hs_currentTerm (ms_hardState s)"
    "\<not> hs_commitIndex (batch_hard b ?p) < hs_commitIndex (ms_hardState s)"
    "pb_snapshot b = None" "\<not> batch_applied b ?p < ms_appliedIndex s"
    "\<not> hs_commitIndex (batch_hard b ?p) < batch_applied b ?p"
    using assms(3) by (simp_all add: batch_ok_def Let_def)
  have run: "memory_persist b s =
      (case pb_hardState b of None \<Rightarrow> memory_finish b (kept_entries b ?p @ pb_entries b) s
       | Some h \<Rightarrow> if hs_currentTerm h < hs_currentTerm (ms_hardState s)
           then (s, Inl (PlainError ''term cannot decrease''))
           else if hs_commitIndex h < hs_commitIndex (ms_hardState s)
           then (s, Inl (PlainError ''commit index cannot decrease''))
           else memory_finish b (kept_entries b ?p @ pb_entries b) (s\<lparr>ms_hardState := h\<rparr>))"
    using assms(1) cut cont
    unfolding memory_persist_def memory_guarded_def memory_ready_def kept
    by (simp add: push_entries_eq Let_def)
  show ?thesis
    using h assms(1) unfolding run
    by (cases "pb_hardState b"; cases "pb_appliedIndex b")
      (simp_all add: memory_finish_def memory_ready_def memory_view_def apply_batch_def
        batch_hard_def batch_applied_def)
qed

interpretation memory: raft_storage memory_persist memory_load memory_view memory_ready
  by unfold_locales
    (simp add: memory_load_def memory_guarded_def memory_ready_def, rule memory_persist_accepts)

lemma durable_checks_None:
  assumes "pb_snapshot b = None" and that: "p = durable_inspect d"
  shows "durable_checks b (kept_entries b p @ pb_entries b) d = None \<and>
      (\<forall>at \<in> set_option (pb_truncateFrom b). hs_commitIndex (du_hardState d) < at) \<and>
      contiguous (tip_index (snapshot_index (du_snapshot d)) (kept_entries b p) + 1) (pb_entries b)
    \<longleftrightarrow> batch_ok b p"
  unfolding that durable_checks_def batch_ok_def Let_def durable_inspect_def batch_hard_def
    batch_applied_def
  using assms by (auto simp: not_less)

lemma durable_persist_eq:
  assumes "view_ok (durable_inspect d)" and "pb_snapshot b = None" and "du_failure d = None"
  shows "batch_ok b (durable_inspect d) \<Longrightarrow> \<exists>d'. durable_persist b d = (d', Inr ()) \<and>
      du_failure d' = None \<and> durable_inspect d' = apply_batch b (durable_inspect d)"
    and "durable_persist b d = (d', Inr x) \<Longrightarrow> batch_ok b (durable_inspect d)"
proof -
  let ?p = "durable_inspect d"
  have kept: "(case pb_truncateFrom b of None \<Rightarrow> du_entries d
      | Some at \<Rightarrow> pop_entries at (du_entries d)) = kept_entries b ?p"
    using kept_pop [OF assms(1), of b] by (simp only: view_simps)
  note ok = durable_checks_None [OF assms(2) refl, of d]
  note run = durable_persist_def [of b d, unfolded kept assms(3) Let_def option.case push_entries_eq]
  show "\<exists>d'. durable_persist b d = (d', Inr ()) \<and>
      du_failure d' = None \<and> durable_inspect d' = apply_batch b ?p" if "batch_ok b ?p"
  proof -
    have "\<not> (\<exists>at \<in> set_option (pb_truncateFrom b). at \<le> hs_commitIndex (du_hardState d))"
      using that ok by force
    then show ?thesis
      using that ok assms(2,3) unfolding run
      by (simp add: durable_inspect_def apply_batch_def batch_hard_def batch_applied_def)
  qed
  show "batch_ok b ?p" if "durable_persist b d = (d', Inr x)"
    using that unfolding run ok [symmetric]
    by (auto split: if_splits sum.splits option.splits simp: not_le)
qed

interpretation durable: atomic_storage handle_persist handle_load handle_view handle_ready
proof unfold_locales
  fix h :: storage_handle
  assume "handle_ready h"
  then show "handle_load h = (h, Inr (handle_view h))"
    by (simp add: handle_load_def handle_guarded_def handle_ready_def handle_view_def)
next
  fix h :: storage_handle and b
  assume r: "handle_ready h" "view_ok (handle_view h)" "batch_ok b (handle_view h)"
  have snap: "pb_snapshot b = None" using r(3) by (simp add: batch_ok_def Let_def)
  have f: "\<not> sh_closed h" "du_failure (sh_state h) = None" using r(1) by (simp_all add: handle_ready_def)
  obtain d' where "durable_persist b (sh_state h) = (d', Inr ())" "du_failure d' = None"
    "durable_inspect d' = apply_batch b (durable_inspect (sh_state h))"
    using durable_persist_eq(1) [OF _ snap f(2)] r(2,3) by (auto simp: handle_view_def)
  then show "\<exists>s'. handle_persist b h = (s', Inr ()) \<and> handle_ready s' \<and>
      handle_view s' = apply_batch b (handle_view h)"
    using f by (simp add: handle_persist_def handle_guarded_def handle_ready_def handle_view_def)
next
  fix h h' :: storage_handle and b err
  assume "handle_persist b h = (h', Inl err)"
  then show "handle_view h' = handle_view h"
    by (auto simp: handle_persist_def handle_guarded_def handle_view_def durable_persist_def
        durable_inspect_def Let_def split: if_splits option.splits sum.splits)
next
  fix h h' :: storage_handle and b x
  assume p: "handle_persist b h = (h', Inr x)" and v: "view_ok (handle_view h)"
    and snap: "pb_snapshot b = None"
  have c: "\<not> sh_closed h" and r: "durable_persist b (sh_state h) = (sh_state h', Inr x)"
    using p by (auto simp: handle_persist_def handle_guarded_def prod_eq_iff split: if_splits)
  have f: "du_failure (sh_state h) = None"
    using r by (auto simp: durable_persist_def split: option.splits)
  have ok: "batch_ok b (handle_view h)"
    using durable_persist_eq(2) [OF _ snap f r] v by (simp add: handle_view_def)
  then show "batch_ok b (handle_view h) \<and> handle_view h' = apply_batch b (handle_view h)"
    using durable_persist_eq(1) [OF _ snap f] v r by (auto simp: handle_view_def)
qed

end
