(* ===== verification/Durability.thy ===== *)
theory Durability
  imports ReadyTrack StorageContract
begin

text \<open>
  The Ready batch against the storage contract.  \<open>core_image c\<close> is what the storage of a node has to
  hold for the core \<open>c\<close>; \<open>ready_batch\<close> is the batch \<open>#processReady\<close> of \<open>raft-node/src/node.ts\<close>
  builds.  When the storage holds the image of the core before an event, it accepts the batch of
  the event and then holds the image of the core after it.
\<close>

definition core_image :: "raft_core \<Rightarrow> persisted_raft_state" where
  "core_image c = \<lparr>ps_hardState = hardState c, ps_entries = rc_entries c, ps_snapshot = rc_snapshot c,
     ps_appliedIndex = rc_appliedIndex c\<rparr>"

definition ready_batch :: "raft_ready \<Rightarrow> persist_batch" where
  "ready_batch r = \<lparr>pb_hardState = rd_hardState r, pb_truncateFrom = rd_truncateFrom r,
     pb_entries = rd_unstableEntries r, pb_snapshot = rd_snapshot r, pb_appliedIndex = None\<rparr>"

definition applied_batch :: "int \<Rightarrow> persist_batch" where
  "applied_batch i = \<lparr>pb_hardState = None, pb_truncateFrom = None, pb_entries = [],
     pb_snapshot = None, pb_appliedIndex = Some i\<rparr>"

lemma image_simps [simp]:
  "ps_hardState (core_image c) = hardState c" "ps_entries (core_image c) = rc_entries c"
  "ps_snapshot (core_image c) = rc_snapshot c" "ps_appliedIndex (core_image c) = rc_appliedIndex c"
  by (simp_all add: core_image_def)

lemma hardState_simps [simp]:
  "hs_currentTerm (hardState c) = rc_currentTerm c" "hs_votedFor (hardState c) = rc_votedFor c"
  "hs_commitIndex (hardState c) = rc_commitIndex c"
  by (simp_all add: hardState_def)

lemma snapshot_index_core: "snapshot_index (rc_snapshot c) = snapshotIndex c"
  by (simp add: snapshot_index_def snapshotIndex_def)

lemma tip_index_core: "tip_index (snapshotIndex c) (rc_entries c) = lastLogIndex c"
  by (simp add: tip_index_def lastLogIndex_def)

lemma image_view_ok: "core_wf c \<Longrightarrow> view_ok (core_image c)"
  using core_wf_log_ok [of c]
  by (simp add: view_ok_def snapshot_index_core tip_index_core log_ok_def core_wf_def
      assertInvariants_None)

lemma image_bookkeeping [simp]:
  "core_image (c\<lparr>rc_readySequence := x, rc_outstanding := y\<rparr>) = core_image c"
  by (simp add: core_image_def hardState_def)

text \<open>The effects of a run of moves, read as a batch.\<close>

lemma moves_batch:
  assumes run: "micros ev c no_effects c' e" and wf: "core_wf c" and ev: "event_wf ev"
    and b: "pb_hardState b = ef_hardState e" "pb_truncateFrom b = ef_truncateFrom e"
      "pb_entries b = ef_entries e" "pb_snapshot b = ef_snapshot e" "pb_appliedIndex b = None"
  shows "batch_ok b (core_image c) \<and> apply_batch b (core_image c) = core_image c'"
proof -
  have t: "hard_tracked c c' e" "log_tracked c c' e"
    using micros_tracked [OF run wf ev tracked_start] by simp_all
  note mono = micros_monotone [OF run wf] and frame = micros_frame [OF run wf]
    and wf' = micros_wf [OF run wf]
  have none: "pb_snapshot b = None" using frame b(4) by (simp add: no_effects_def)
  have hard: "batch_hard b (core_image c) = hardState c'"
    using t(1) b(1) by (auto simp: batch_hard_def hard_tracked_def or_else_def split: option.splits)
  have log: "kept_entries b (core_image c) @ pb_entries b = rc_entries c'"
    using t(2) b by (auto simp: log_tracked_def log_after_def kept_entries_def split: option.splits)
  have cut: "\<forall>at \<in> set_option (pb_truncateFrom b). rc_commitIndex c < at"
    using t(2) b(2) by (simp add: log_tracked_def)
  have lo: "log_ok c" "log_ok c'" using wf wf' by (simp_all add: core_wf_log_ok)
  have snap: "snapshotIndex c' = snapshotIndex c" using frame by (simp add: snapshotIndex_def)
  have kept: "contiguous (snapshotIndex c + 1) (kept_entries b (core_image c))"
    using lo(1) by (intro kept_contiguous) (simp add: log_ok_def)
  have "contiguous (snapshotIndex c + 1) (rc_entries c')" using lo(2) snap by (simp add: log_ok_def)
  then have "contiguous (tip_index (snapshotIndex c) (kept_entries b (core_image c)) + 1) (pb_entries b)"
    unfolding log [symmetric] using tip_index_contiguous [OF kept] by (simp add: algebra_simps)
  moreover have "rc_votedFor c = None \<or> rc_votedFor c' = rc_votedFor c"
    if "rc_currentTerm c' = rc_currentTerm c"
    using micros_vote_kept [OF run wf that] by (cases "rc_votedFor c") auto
  moreover have "rc_commitIndex c' \<le> tip_index (snapshotIndex c) (rc_entries c')"
    using lo(2) tip_index_core [of c'] snap by (simp add: log_ok_def)
  moreover have "rc_appliedIndex c \<le> rc_commitIndex c'"
    using wf' frame by (simp add: core_wf_def assertInvariants_None)
  ultimately have "batch_ok b (core_image c)"
    using cut mono none
    unfolding batch_ok_def Let_def hard log image_simps snapshot_index_core
    by (simp add: batch_applied_def b(5))
  moreover have "apply_batch b (core_image c) = core_image c'"
    using frame none hard log b(5) by (simp add: apply_batch_def core_image_def batch_applied_def)
  ultimately show ?thesis by simp
qed

lemma ready_fields:
  assumes "makeReady c e = (c', Some r)"
  shows "rd_hardState r = ef_hardState e" "rd_truncateFrom r = ef_truncateFrom e"
    "rd_unstableEntries r = ef_entries e" "rd_snapshot r = ef_snapshot e"
    "rd_outboundMessages r = ef_messages e" "rd_committedEntries r = committedEntries c"
    "rc_outstanding c' = Some r" "rd_id r = rc_readySequence c + 1"
    "c' = c\<lparr>rc_readySequence := rc_readySequence c + 1, rc_outstanding := Some r\<rparr>"
  using assms by (auto simp: makeReady_def Let_def split: if_splits)

lemma ready_accepted:
  assumes "core_step ev c = (c', Inr (Some r))" and "core_wf c" and "event_wf ev"
  shows "batch_ok (ready_batch r) (core_image c)" and "apply_batch (ready_batch r) (core_image c) = core_image c'"
proof -
  obtain c1 e where run: "micros ev c no_effects c1 e" and mk: "makeReady c1 e = (c', Some r)"
    using core_step_Inr [OF assms(1,2)] by blast
  note f = ready_fields [OF mk]
  have "batch_ok (ready_batch r) (core_image c) \<and> apply_batch (ready_batch r) (core_image c) = core_image c1"
    by (rule moves_batch [OF run assms(2,3)]) (simp_all add: ready_batch_def f)
  then show "batch_ok (ready_batch r) (core_image c)" "apply_batch (ready_batch r) (core_image c) = core_image c'"
    using f(9) by simp_all
qed

lemma no_ready_unchanged:
  assumes "core_step ev c = (c', Inr None)" and "core_wf c" and "event_wf ev"
  shows "core_image c' = core_image c" and "rc_outstanding c' = None" and "core_wf c'"
proof -
  obtain c1 e where out: "rc_outstanding c = None" and run: "micros ev c no_effects c1 e"
    and wf: "core_wf c1" and mk: "makeReady c1 e = (c', None)"
    using core_step_Inr [OF assms(1,2)] by blast
  have e: "c' = c1" "ef_hardState e = None" "ef_truncateFrom e = None" "ef_entries e = []"
    using mk by (auto simp: makeReady_def Let_def split: if_splits)
  have "apply_batch \<lparr>pb_hardState = None, pb_truncateFrom = None, pb_entries = [],
      pb_snapshot = ef_snapshot e, pb_appliedIndex = None\<rparr> (core_image c) = core_image c1"
    using moves_batch [OF run assms(2,3), of "\<lparr>pb_hardState = None, pb_truncateFrom = None,
      pb_entries = [], pb_snapshot = ef_snapshot e, pb_appliedIndex = None\<rparr>"] e by simp
  moreover have "ef_snapshot e = None" using micros_frame [OF run assms(2)] by (simp add: no_effects_def)
  ultimately show "core_image c' = core_image c"
    using e(1) by (simp add: apply_batch_def core_image_def batch_hard_def batch_applied_def kept_entries_def)
  show "rc_outstanding c' = None" using micros_frame [OF run assms(2)] out e(1) by simp
  show "core_wf c'" using wf e(1) by simp
qed

section \<open>Applying and advancing\<close>

lemma applied_batch_ok:
  assumes "ps_appliedIndex p \<le> i" and "i \<le> hs_commitIndex (ps_hardState p)" and "view_ok p"
  shows "batch_ok (applied_batch i) p" and "apply_batch (applied_batch i) p = p\<lparr>ps_appliedIndex := i\<rparr>"
  using assms
  by (simp_all add: batch_ok_def applied_batch_def batch_hard_def batch_applied_def kept_entries_def
      view_ok_def Let_def apply_batch_def)

text \<open>The committed entries of a Ready batch continue the applied prefix without a gap.\<close>

lemma committed_contiguous:
  assumes "core_wf c"
  shows "contiguous (max (rc_appliedIndex c) (snapshotIndex c) + 1) (committedEntries c)"
    and "\<forall>e \<in> set (committedEntries c). rc_appliedIndex c < le_index e \<and> le_index e \<le> rc_commitIndex c"
    and "snapshotIndex c \<le> rc_appliedIndex c \<Longrightarrow>
      rc_appliedIndex c + int (length (committedEntries c)) = rc_commitIndex c"
proof -
  let ?b = "snapshotIndex c" and ?a = "rc_appliedIndex c" and ?k = "rc_commitIndex c"
  let ?L = "rc_entries c"
  have lo: "log_ok c" using assms by (rule core_wf_log_ok)
  then have cont: "contiguous (?b + 1) ?L" by (simp add: log_ok_def)
  have low: "contiguous (?b + 1) (take (nat (?k - ?b)) ?L)" using cont by (rule contiguous_take)
  have "filter (\<lambda>e. le_index e \<le> ?k) ?L = filter (\<lambda>e. le_index e < ?k + 1) ?L"
    by (rule filter_cong) auto
  then have up: "filter (\<lambda>e. le_index e \<le> ?k) ?L = take (nat (?k - ?b)) ?L"
    using contiguous_filter_less [OF cont, of "?k + 1"] by simp
  have "committedEntries c = filter (\<lambda>e. ?a + 1 \<le> le_index e) (filter (\<lambda>e. le_index e \<le> ?k) ?L)"
    by (simp add: committedEntries_def conj_commute zless_iff_Suc_zadd add1_zle_eq)
  then have eq: "committedEntries c = drop (nat (?a - ?b)) (take (nat (?k - ?b)) ?L)"
    unfolding up using contiguous_filter_ge [OF low, of "?a + 1"] by simp
  have bounds: "?b \<le> ?k" "?k \<le> ?b + int (length ?L)" "?a \<le> ?k"
    using lo assms lastLogIndex_eq [OF cont] by (simp_all add: log_ok_def core_wf_def assertInvariants_None)
  have len: "length (take (nat (?k - ?b)) ?L) = nat (?k - ?b)" using bounds by simp
  show "contiguous (max ?a ?b + 1) (committedEntries c)"
  proof -
    have "contiguous (?b + 1 + int (nat (?a - ?b))) (committedEntries c)"
      unfolding eq using low len bounds by (intro contiguous_drop) auto
    moreover have "?b + 1 + int (nat (?a - ?b)) = max ?a ?b + 1" by simp
    ultimately show ?thesis by (simp only:)
  qed
  show "\<forall>e \<in> set (committedEntries c). ?a < le_index e \<and> le_index e \<le> ?k"
    by (simp add: committedEntries_def)
  show "?a + int (length (committedEntries c)) = ?k" if "?b \<le> ?a"
    using eq len bounds that by simp
qed

end
