(* ===== verification/CoreLaws.thy ===== *)
theory CoreLaws
  imports Durability
begin

text \<open>
  Laws of a single step of the core, on every outcome: what it does to committed entries, to the
  vote and to the log of a leader, which index the leader commits, when a core can be built,
  what happens to stale and foreign messages, and that a cluster of one elects itself.
\<close>

section \<open>Outcomes of a step\<close>

text \<open>The object a step leaves behind: a run of moves, possibly followed by a loop over a payload
  that threw.\<close>

lemma core_step_cases:
  assumes "core_step ev c = (c', r)" and "core_wf c"
  obtains (same) "c' = c"
  | (moved) c1 e x y where "micros ev c no_effects c1 e" and "core_wf c1"
      and "c' = c1\<lparr>rc_readySequence := x, rc_outstanding := y\<rparr>"
  | (thrown) c1 e es err where "micros ev c no_effects c1 e" and "core_wf c1"
      and "rc_role c1 = Follower" and "append_loop c1 None [] es = (c', Inl err)"
proof (cases r)
  case (Inr rd)
  obtain c1 e where "micros ev c no_effects c1 e" "core_wf c1" "makeReady c1 e = (c', rd)"
    using core_step_Inr [OF assms(1) [unfolded Inr] assms(2)] by blast
  then show ?thesis using moved makeReady_core by blast
next
  case (Inl err)
  then consider "c' = c" | "dispatch ev c = (c', Inl err)"
    using core_step_Inl assms by blast
  then show ?thesis
  proof cases
    case 2
    then show ?thesis using dispatch_throws [OF 2 assms(2)] same thrown micros_wf assms(2) by metis
  qed (rule same)
qed

lemma bookkeeping_fields:
  assumes "c' = c\<lparr>rc_readySequence := x, rc_outstanding := y\<rparr>"
  shows "rc_entries c' = rc_entries c" "rc_currentTerm c' = rc_currentTerm c"
    "rc_votedFor c' = rc_votedFor c" "rc_role c' = rc_role c" "rc_commitIndex c' = rc_commitIndex c"
  by (simp_all add: assms)

section \<open>Committed entries\<close>

lemma micro_committed:
  assumes "micro ev c e c' e'" and "log_ok c" and "k \<le> rc_commitIndex c"
  shows "committed_log k c' = committed_log k c"
proof -
  have snoc: "committed_log k c' = committed_log k c"
    if "rc_entries c' = rc_entries c @ [x]" "le_index x = lastLogIndex c + 1" for x
    using that assms(2,3) by (simp add: committed_log_def log_ok_def)
  have same: "committed_log k c' = committed_log k c" if "rc_entries c' = rc_entries c"
    using that by (simp add: committed_log_def)
  show ?thesis
    using assms(1)
  proof (cases rule: micro.cases)
    case (follow t l)
    then show ?thesis using same becomeFollower_fields(6) by blast
  next
    case campaign
    then show ?thesis using same begin_election_fields(8) by blast
  next
    case win
    then show ?thesis using snoc [of "noop_entry c"] take_office_fields(8) by (simp add: noop_entry_def)
  next
    case (extend ty payload cid)
    then show ?thesis using snoc appendLocal_fields(1) [OF extend(2)] by simp
  next
    case (vote m i t)
    have "handleVoteRequest m i t c e = (c', e')" using vote by simp
    then have "rc_entries c' = rc_entries c"
      by (auto simp: handleVoteRequest_eq Let_def split: if_splits)
    then show ?thesis by (rule same)
  next
    case (accept m i t es lc c2 trunc appended)
    have loop: "append_loop c None [] es = (c2, Inr (trunc, appended))"
      and fin: "finish_append m i es lc trunc appended c2 e = (c', e')" using accept by simp_all
    show ?thesis
      using append_loop_committed [OF loop assms(2,3)] finish_append_fields(9) [OF fin]
      by (simp add: committed_log_def)
  qed (auto simp: committed_log_def)
qed

lemma micros_committed:
  "micros ev c e c' e' \<Longrightarrow> core_wf c \<Longrightarrow> k \<le> rc_commitIndex c \<Longrightarrow> committed_log k c' = committed_log k c"
proof (induction rule: micros.induct)
  case (more c e c1 e1 c2 e2)
  have "log_ok c1" using micros_wf more core_wf_log_ok by blast
  moreover have "k \<le> rc_commitIndex c1" using micros_monotone [OF more(1)] more by simp
  ultimately show ?case using micro_committed [OF more(2)] more by simp
qed simp

lemma step_committed:
  assumes "core_step ev c = (c', r)" and "core_wf c" and "k \<le> rc_commitIndex c"
  shows "committed_log k c' = committed_log k c"
  using assms(1,2)
proof (cases rule: core_step_cases)
  case (moved c1 e x y)
  then show ?thesis using micros_committed assms by (simp add: committed_log_def)
next
  case (thrown c1 e es err)
  have "k \<le> rc_commitIndex c1" using micros_monotone [OF thrown(1) assms(2)] assms(3) by simp
  then show ?thesis
    using append_loop_committed [OF thrown(4) core_wf_log_ok [OF thrown(2)]]
      micros_committed [OF thrown(1) assms(2,3)] by simp
qed simp

section \<open>Votes\<close>

lemma step_vote_kept:
  assumes "core_step ev c = (c', r)" and "core_wf c" and "rc_votedFor c = Some v"
    and "rc_currentTerm c' = rc_currentTerm c"
  shows "rc_votedFor c' = Some v"
  using assms(1,2)
proof (cases rule: core_step_cases)
  case (moved c1 e x y)
  then show ?thesis using micros_vote_kept [OF moved(1) assms(2)] assms by simp
next
  case (thrown c1 e es err)
  note f = append_loop_frame [OF thrown(4) core_wf_log_ok [OF thrown(2)]]
  show ?thesis using micros_vote_kept [OF thrown(1) assms(2)] f assms by simp
qed (use assms in simp)

section \<open>A leader only appends\<close>

lemma micro_follower:
  assumes "micro ev c e c' e'" and "log_ok c" and "rc_role c = Follower"
    and "rc_currentTerm c' = rc_currentTerm c"
  shows "rc_role c' = Follower"
  using assms
proof (induction rule: micro.induct)
  case (vote m c i t e c' e')
  then show ?case by (auto simp: handleVoteRequest_eq Let_def split: if_splits)
next
  case (accept m c i t es lc e c2 trunc appended c' e')
  then show ?case
    using append_loop_frame(1) [OF accept(9,11)] finish_append_fields(1) [OF accept(10)] by simp
qed (auto simp: becomeFollower_fields begin_election_fields)

lemma micro_leader:
  assumes "micro ev c e c' e'" and "rc_role c = Leader" and "rc_currentTerm c' = rc_currentTerm c"
  shows "rc_role c' = Follower \<or> rc_role c' = Leader \<and> (\<exists>xs. rc_entries c' = rc_entries c @ xs)"
  using assms
proof (induction rule: micro.induct)
  case (vote m c i t e c' e')
  then show ?case by (auto simp: handleVoteRequest_eq Let_def split: if_splits)
next
  case (extend c ty payload cid e c' e')
  then show ?case using appendLocal_fields(1) [OF extend(2)] by simp
qed (auto simp: becomeFollower_fields begin_election_fields)

lemma micros_leader:
  "micros ev c e c' e' \<Longrightarrow> core_wf c \<Longrightarrow> rc_role c = Leader \<Longrightarrow>
    rc_currentTerm c' = rc_currentTerm c \<Longrightarrow>
    rc_role c' = Follower \<or> rc_role c' = Leader \<and> (\<exists>xs. rc_entries c' = rc_entries c @ xs)"
proof (induction rule: micros.induct)
  case (more c e c1 e1 c2 e2)
  have wf: "core_wf c1" using micros_wf more by blast
  have "rc_currentTerm c \<le> rc_currentTerm c1" using micros_monotone [OF more(1)] more by simp
  moreover have "rc_currentTerm c1 \<le> rc_currentTerm c2"
    using micro_log_ok [OF more(2) core_wf_log_ok [OF wf]] by simp
  ultimately have t: "rc_currentTerm c1 = rc_currentTerm c" "rc_currentTerm c2 = rc_currentTerm c1"
    using more by simp_all
  then consider "rc_role c1 = Follower" | "rc_role c1 = Leader" "\<exists>xs. rc_entries c1 = rc_entries c @ xs"
    using more by blast
  then show ?case
  proof cases
    case 1
    then show ?thesis using micro_follower [OF more(2) core_wf_log_ok [OF wf]] t by simp
  next
    case 2
    then show ?thesis using micro_leader [OF more(2) _ t(2)] by fastforce
  qed
qed simp

lemma step_leader_appends:
  assumes "core_step ev c = (c', r)" and "core_wf c" and "rc_role c = Leader" and "rc_role c' = Leader"
    and "rc_currentTerm c' = rc_currentTerm c"
  shows "\<exists>xs. rc_entries c' = rc_entries c @ xs"
  using assms(1,2)
proof (cases rule: core_step_cases)
  case (moved c1 e x y)
  then show ?thesis using micros_leader [OF moved(1) assms(2,3)] assms by simp
next
  case (thrown c1 e es err)
  then show ?thesis
    using append_loop_frame(1) [OF thrown(4) core_wf_log_ok [OF thrown(2)]] assms(4) by simp
qed simp

section \<open>What the leader commits\<close>

definition committable :: "raft_core \<Rightarrow> int \<Rightarrow> bool" where
  "committable c i \<longleftrightarrow> rc_commitIndex c < i \<and> i \<le> lastLogIndex c \<and>
     termAt c i = Some (rc_currentTerm c) \<and> hasQuorum c (replicated c i)"

lemma commit_scan_greatest:
  "commit_scan c (lastLogIndex c) = Some i \<longleftrightarrow>
    committable c i \<and> (\<forall>j. committable c j \<longrightarrow> j \<le> i)"
proof
  assume s: "commit_scan c (lastLogIndex c) = Some i"
  then show "committable c i \<and> (\<forall>j. committable c j \<longrightarrow> j \<le> i)"
    using commit_scan_Some [OF s] commit_scan_max [OF s] by (auto simp: committable_def)
next
  assume i: "committable c i \<and> (\<forall>j. committable c j \<longrightarrow> j \<le> i)"
  then obtain k where k: "commit_scan c (lastLogIndex c) = Some k" "i \<le> k"
    using commit_scan_max [OF refl, of c i "lastLogIndex c"] by (auto simp: committable_def)
  then have "committable c k" using commit_scan_Some [OF k(1)] by (simp add: committable_def)
  then show "commit_scan c (lastLogIndex c) = Some i" using i k by force
qed

section \<open>Construction\<close>

definition persisted_ok :: "persisted_raft_state \<Rightarrow> bool" where
  "persisted_ok p \<longleftrightarrow> contiguous (snapshot_index (ps_snapshot p) + 1) (ps_entries p) \<and>
     snapshot_index (ps_snapshot p) \<le> hs_commitIndex (ps_hardState p) \<and>
     hs_commitIndex (ps_hardState p) \<le> tip_index (snapshot_index (ps_snapshot p)) (ps_entries p) \<and>
     ps_appliedIndex p \<le> hs_commitIndex (ps_hardState p) \<and> 0 \<le> hs_currentTerm (ps_hardState p)"

lemma assertInvariants_persisted:
  "assertInvariants c = None \<longleftrightarrow> persisted_ok (core_image c)"
  by (auto simp: assertInvariants_None log_ok_def persisted_ok_def snapshot_index_core tip_index_core)

text \<open>The object before the constructor's assertion, and what it would persist as.\<close>

definition unborn :: "raft_core_options \<Rightarrow> raft_core" where
  "unborn opts =
     (let p = (case co_persisted opts of Some p \<Rightarrow> p
        | None \<Rightarrow> \<lparr>ps_hardState = \<lparr>hs_currentTerm = 0, hs_votedFor = None, hs_commitIndex = 0\<rparr>,
            ps_entries = [], ps_snapshot = None, ps_appliedIndex = 0\<rparr>)
      in \<lparr>rc_nodeId = co_nodeId opts, rc_clusterId = co_clusterId opts, rc_members = co_members opts,
        rc_maxMessageBytes = (case co_maxMessageBytes opts of None \<Rightarrow> 4 * 1024 * 1024 | Some n \<Rightarrow> n),
        rc_role = Follower, rc_leaderId = None, rc_currentTerm = hs_currentTerm (ps_hardState p),
        rc_votedFor = hs_votedFor (ps_hardState p), rc_commitIndex = hs_commitIndex (ps_hardState p),
        rc_appliedIndex = ps_appliedIndex p, rc_snapshot = ps_snapshot p, rc_entries = ps_entries p,
        rc_votes = {}, rc_progress = [], rc_readySequence = 0, rc_outstanding = None\<rparr>)"

lemma unborn_ok:
  "assertInvariants (unborn opts) = None \<longleftrightarrow> (\<forall>p. co_persisted opts = Some p \<longrightarrow> persisted_ok p)"
  unfolding assertInvariants_persisted
  by (cases "co_persisted opts")
    (simp_all add: unborn_def core_image_def hardState_def persisted_ok_def snapshot_index_def
      tip_index_def)

lemma new_RaftCore_unborn:
  assumes "length (co_members opts) \<in> {1, 3, 5}" and "co_nodeId opts \<in> set (co_members opts)"
    and "card (set (co_members opts)) = length (co_members opts)"
    and "co_heartbeatInterval opts < co_electionTimeout opts"
  shows "new_RaftCore opts = (case assertInvariants (unborn opts) of Some e \<Rightarrow> Inl e | None \<Rightarrow> Inr (unborn opts))"
proof -
  have eq: "(case co_persisted opts of None \<Rightarrow> c
      | Some p \<Rightarrow> c\<lparr>rc_currentTerm := hs_currentTerm (ps_hardState p),
           rc_votedFor := hs_votedFor (ps_hardState p), rc_commitIndex := hs_commitIndex (ps_hardState p),
           rc_appliedIndex := ps_appliedIndex p, rc_snapshot := ps_snapshot p,
           rc_entries := ps_entries p\<rparr>) = unborn opts"
    if "c = \<lparr>rc_nodeId = co_nodeId opts, rc_clusterId = co_clusterId opts,
        rc_members = co_members opts,
        rc_maxMessageBytes = (case co_maxMessageBytes opts of None \<Rightarrow> 4 * 1024 * 1024 | Some n \<Rightarrow> n),
        rc_role = Follower, rc_leaderId = None, rc_currentTerm = 0, rc_votedFor = None,
        rc_commitIndex = 0, rc_appliedIndex = 0, rc_snapshot = None, rc_entries = [],
        rc_votes = {}, rc_progress = [], rc_readySequence = 0, rc_outstanding = None\<rparr>" for c
    using that by (cases "co_persisted opts") (simp_all add: unborn_def)
  show ?thesis
    using assms unfolding new_RaftCore_def Let_def eq [OF refl] by simp
qed

lemma new_RaftCore_accepts:
  "(\<exists>c. new_RaftCore opts = Inr c) \<longleftrightarrow>
     length (co_members opts) \<in> {1, 3, 5} \<and> co_nodeId opts \<in> set (co_members opts) \<and>
     distinct (co_members opts) \<and> co_heartbeatInterval opts < co_electionTimeout opts \<and>
     (\<forall>p. co_persisted opts = Some p \<longrightarrow> persisted_ok p)"
proof -
  have d: "card (set (co_members opts)) = length (co_members opts) \<longleftrightarrow> distinct (co_members opts)"
    using card_distinct distinct_card by metis
  show ?thesis
  proof (cases "length (co_members opts) \<in> {1, 3, 5} \<and> co_nodeId opts \<in> set (co_members opts) \<and>
      distinct (co_members opts) \<and> co_heartbeatInterval opts < co_electionTimeout opts")
    case True
    then have "new_RaftCore opts =
        (case assertInvariants (unborn opts) of Some e \<Rightarrow> Inl e | None \<Rightarrow> Inr (unborn opts))"
      using d by (intro new_RaftCore_unborn) simp_all
    then show ?thesis using True unborn_ok [of opts] by (simp split: option.splits)
  next
    case False
    then have "new_RaftCore opts \<noteq> Inr c" for c
      unfolding new_RaftCore_def d by (auto simp del: insert_iff simp: not_less)
    then show ?thesis using False by blast
  qed
qed

section \<open>Stale and foreign messages\<close>

lemma stale_message:
  assumes "accepts c m" and "m_term m < rc_currentTerm c"
  shows "\<exists>eff. handleMessage m c no_effects = (c, Inr eff)"
proof -
  have id: "\<not> rc_currentTerm c < m_term m" using assms(2) by simp
  show ?thesis
  proof (cases "m_body m")
    case (RequestVoteRequest i t)
    then show ?thesis using assms id
      by (simp add: handleMessage_def accepts_def handleVoteRequest_eq grants_vote_def)
  next
    case (RequestVoteResponse g)
    then show ?thesis using assms id by (simp add: handleMessage_def accepts_def handleVoteResponse_def)
  next
    case (AppendEntriesRequest i t es lc)
    then show ?thesis using assms id by (simp add: handleMessage_def accepts_def handleAppendRequest_def)
  next
    case (AppendEntriesResponse ok match hint)
    then show ?thesis using assms id by (simp add: handleMessage_def accepts_def handleAppendResponse_def)
  qed
qed

lemma stale_step:
  assumes "accepts c m" and "m_term m < rc_currentTerm c" and "rc_outstanding c = None" and "core_wf c"
  shows "\<exists>x y r. core_step (MessageEvent m) c =
    (c\<lparr>rc_readySequence := x, rc_outstanding := y\<rparr>, Inr r)"
proof -
  obtain eff where h: "handleMessage m c no_effects = (c, Inr eff)"
    using stale_message [OF assms(1,2)] by blast
  obtain c' r where mk: "makeReady c eff = (c', r)" by fastforce
  have "assertInvariants c = None" using assms(4) by (simp add: core_wf_def)
  then have "core_step (MessageEvent m) c = (c', Inr r)"
    using h mk assms(3) by (simp add: core_step_def dispatch_def)
  then show ?thesis using makeReady_core [OF mk] by metis
qed

lemma foreign_step:
  assumes "\<not> accepts c m" and "rc_outstanding c = None"
  shows "\<exists>why. core_step (MessageEvent m) c = (c, Inl (ProtocolError why)) \<and>
    why \<in> {''unsupported protocol version'', ''cross-cluster message rejected'',
      ''message peer identity rejected''}"
  using assms by (auto simp: core_step_def dispatch_def handleMessage_def accepts_def)

section \<open>A cluster of one\<close>

lemma commit_scan_last:
  "rc_commitIndex c < i \<Longrightarrow> termAt c i = Some (rc_currentTerm c) \<Longrightarrow> hasQuorum c (replicated c i) \<Longrightarrow>
    commit_scan c i = Some i"
  by (subst commit_scan.simps) simp

lemma alone_commits:
  assumes wf: "core_wf c" and one: "rc_members c = [rc_nodeId c]" and role: "rc_role c = Leader"
    and last: "rc_commitIndex c < lastLogIndex c" and "termAt c (lastLogIndex c) = Some (rc_currentTerm c)"
  shows "and_then (broadcastAppend c eff)
      (\<lambda>c2 e2. case advanceLeaderCommit c2 e2 of (c3, e3, _) \<Rightarrow> (c3, Inr e3)) =
    (c\<lparr>rc_commitIndex := lastLogIndex c\<rparr>,
     Inr (eff\<lparr>ef_hardState := Some (hardState (c\<lparr>rc_commitIndex := lastLogIndex c\<rparr>))\<rparr>))"
proof -
  have "peers c = []" by (simp add: peers_def one)
  then have b: "broadcastAppend c eff = (c, Inr eff)" by (simp add: broadcastAppend_def)
  have "hasQuorum c (replicated c (lastLogIndex c))" by (simp add: hasQuorum_def replicated_def one)
  then have "commit_scan c (lastLogIndex c) = Some (lastLogIndex c)"
    using commit_scan_last last assms(5) by blast
  then show ?thesis using role by (simp add: b advanceLeaderCommit_def Let_def)
qed

lemma termAt_last:
  assumes "rc_entries c = es @ [x]" and "le_index x = lastLogIndex c" and "snapshotIndex c < le_index x"
    and "\<forall>y \<in> set es. le_index y \<noteq> le_index x" and "le_index x \<noteq> 0"
  shows "termAt c (lastLogIndex c) = Some (le_term x)"
proof -
  have "find (\<lambda>e. le_index e = le_index x) (es @ [x]) = Some x"
    using assms(4) by (induction es) auto
  then have "entryAt c (lastLogIndex c) = Some x" using assms(1,2) by (simp add: entryAt_def)
  then show ?thesis
    using assms(2,3,5) by (auto simp: termAt_def snapshotIndex_def split: option.splits)
qed

lemma snoc_termAt:
  assumes "core_wf c" and "rc_entries c = es @ [x]"
  shows "termAt c (lastLogIndex c) = Some (le_term x)"
proof -
  have cont: "contiguous (snapshotIndex c + 1) (es @ [x])"
    using core_wf_log_ok [OF assms(1)] assms(2) by (simp add: log_ok_def)
  have "0 \<le> snapshotIndex c" using assms(1) by (simp add: core_wf_def)
  then show ?thesis
    using cont assms(2) contiguous_bounds [of "snapshotIndex c + 1" es]
    by (intro termAt_last [of c es]) (fastforce simp: lastLogIndex_def)+
qed

lemma alone_elects:
  assumes wf: "core_wf c" and one: "rc_members c = [rc_nodeId c]" and role: "rc_role c \<noteq> Leader"
  shows "\<exists>c' eff. startElection c no_effects = (c', Inr eff) \<and> rc_role c' = Leader \<and>
    rc_currentTerm c' = rc_currentTerm c + 1 \<and> rc_commitIndex c' = lastLogIndex c + 1 \<and>
    ef_messages eff = [] \<and> core_wf c' \<and>
    (\<exists>e. rc_entries c' = rc_entries c @ [e] \<and> le_type e \<noteq> Command)"
proof -
  obtain c1 e1 where b: "begin_election c no_effects = (c1, e1)" by fastforce
  note f1 = begin_election_fields [OF b]
  obtain c2 e2 where o: "take_office c1 e1 = (c2, e2)" by fastforce
  note f2 = take_office_fields [OF o]
  let ?ev = "ElectionTimeout 0"
  have q: "hasQuorum c1 (card (rc_votes c1))" using f1 one by (simp add: hasQuorum_def)
  have m1: "micro ?ev c no_effects c1 e1" using role b by (rule micro.campaign)
  have wf1: "core_wf c1" using micro_wf [OF m1 wf] .
  have m2: "micro ?ev c1 e1 c2 e2" using f1(1) q o by (rule micro.win)
  have wf2: "core_wf c2" using micro_wf [OF m2 wf1] .
  have last: "lastLogIndex c2 = lastLogIndex c + 1"
    using f2(8) same_log(1) [of c1 c] f1 by (simp add: lastLogIndex_def noop_entry_def)
  have t: "termAt c2 (lastLogIndex c2) = Some (rc_currentTerm c2)"
    using snoc_termAt [OF wf2 f2(8)] f2(2) by (simp add: noop_entry_def)
  have lt: "rc_commitIndex c2 < lastLogIndex c2"
    using core_wf_log_ok [OF wf] f1 f2 last by (simp add: log_ok_def)
  have one2: "rc_members c2 = [rc_nodeId c2]" using f1 f2 one by simp
  let ?c = "c2\<lparr>rc_commitIndex := lastLogIndex c2\<rparr>"
  have run: "startElection c no_effects = (?c, Inr (e2\<lparr>ef_hardState := Some (hardState ?c)\<rparr>))"
    using alone_commits [OF wf2 one2 f2(1) lt t] b o q
    by (simp add: startElection_pieces becomeLeader_pieces)
  have "ef_messages e2 = []"
    using f1(18) f2(18) one f1 by (simp add: peers_def no_effects_def)
  moreover have "core_wf ?c"
    using micros_wf [OF startElection_micros [OF run role] wf] by simp
  moreover have "le_type (noop_entry c1) \<noteq> Command" by (simp add: noop_entry_def)
  ultimately show ?thesis using run f1 f2 last by simp
qed

end
