(* ===== verification/CoreTheorems.thy ===== *)
theory CoreTheorems
  imports CoreLaws
begin

text \<open>
  The properties of the consensus core, class \<open>RaftCore\<close>, over a single call of \<open>step\<close> or of its
  constructor, each with an instance on a concrete core.
\<close>

section \<open>Concrete cores\<close>

definition ex_options :: "node_id list \<Rightarrow> node_id \<Rightarrow> raft_core_options" where
  "ex_options ms n = \<lparr>co_nodeId = n, co_clusterId = ''k'', co_members = ms, co_electionTimeout = 10,
     co_heartbeatInterval = 2, co_maxMessageBytes = None, co_persisted = None\<rparr>"

definition ex_follower :: raft_core where
  "ex_follower = unborn (ex_options [''a'', ''b'', ''c''] ''a'')"

definition ex_candidate :: raft_core where
  "ex_candidate = fst (advance 1 (fst (core_step (ElectionTimeout 10) ex_follower)))"

definition ex_single :: raft_core where
  "ex_single = unborn (ex_options [''a''] ''a'')"

text \<open>The only member of its cluster, after its election: the first entry is committed.\<close>

definition ex_leader :: raft_core where
  "ex_leader = fst (advance 1 (fst (core_step (ElectionTimeout 10) ex_single)))"

definition ex_message :: "int \<Rightarrow> message_body \<Rightarrow> raft_message" where
  "ex_message t b = \<lparr>m_protocolVersion = 1, m_clusterId = ''k'', m_from = ''b'', m_to = ''a'',
     m_term = t, m_body = b\<rparr>"

definition ex_entry :: "int \<Rightarrow> int \<Rightarrow> log_entry" where
  "ex_entry i t = \<lparr>le_index = i, le_term = t, le_type = Noop, le_payload = [], le_commandId = None\<rparr>"

text \<open>A follower of three with two entries of term 1, the first of them committed.\<close>

definition ex_log :: raft_core where
  "ex_log = ex_follower\<lparr>rc_currentTerm := 1, rc_entries := [ex_entry 1 1, ex_entry 2 1],
     rc_commitIndex := 1, rc_appliedIndex := 1\<rparr>"

section \<open>Every call of step\<close>

text \<open>C22: The class invariant survives every call of \<open>step\<close>, whatever the event and whether it
  returns or throws; in particular \<open>#assertInvariants\<close> at the end of \<open>step\<close> finds nothing, the
  progress table of a leader lists exactly its peers and votes come from members only.\<close>

theorem step_keeps_invariant: "core_wf c \<Longrightarrow> core_wf (fst (core_step ev c))"
  by (rule core_step_wf)

theorem step_keeps_invariant_witness: "core_wf (fst (core_step (ElectionTimeout 10) ex_follower))"
proof (rule step_keeps_invariant)
  show "core_wf ex_follower" by code_simp
qed

text \<open>\<open>step\<close> never lowers the current term or the commit index and never moves the applied
  index, which only \<open>advance\<close> does.\<close>

theorem step_monotone:
  "core_wf c \<Longrightarrow> rc_currentTerm c \<le> rc_currentTerm (fst (core_step ev c)) \<and>
    rc_commitIndex c \<le> rc_commitIndex (fst (core_step ev c)) \<and>
    rc_appliedIndex (fst (core_step ev c)) = rc_appliedIndex c"
  by (rule core_step_monotone)

theorem step_monotone_witness:
  "rc_currentTerm ex_single \<le> rc_currentTerm (fst (core_step (ElectionTimeout 1) ex_single)) \<and>
    rc_commitIndex ex_single \<le> rc_commitIndex (fst (core_step (ElectionTimeout 1) ex_single)) \<and>
    rc_appliedIndex (fst (core_step (ElectionTimeout 1) ex_single)) = rc_appliedIndex ex_single"
proof (rule step_monotone)
  show "core_wf ex_single" by code_simp
qed

text \<open>A node votes at most once per term: as long as \<open>step\<close> stays in the term, a vote that was
  cast is the vote afterwards, also when the event throws.\<close>

theorem one_vote_per_term:
  assumes "core_wf c" and "rc_votedFor c = Some v"
    and "rc_currentTerm (fst (core_step ev c)) = rc_currentTerm c"
  shows "rc_votedFor (fst (core_step ev c)) = Some v"
  using step_vote_kept [OF _ assms(1,2)] assms(3) by (metis prod.collapse)

theorem one_vote_per_term_witness:
  "rc_votedFor (fst (core_step (MessageEvent (ex_message 1 (RequestVoteRequest 5 1))) ex_candidate))
    = Some ''a''"
proof (rule one_vote_per_term)
  show "core_wf ex_candidate" by code_simp
  show "rc_votedFor ex_candidate = Some ''a''" by code_simp
  show "rc_currentTerm (fst (core_step (MessageEvent (ex_message 1 (RequestVoteRequest 5 1))) ex_candidate))
      = rc_currentTerm ex_candidate" by code_simp
qed

text \<open>C23: Entries up to the commit index are immutable: after any event, also one with a payload
  that conflicts with the log or makes \<open>step\<close> throw half way, the core holds the same entries at
  every index it had committed before.\<close>

theorem committed_entries_immutable:
  assumes "core_wf c" and "k \<le> rc_commitIndex c"
  shows "filter (\<lambda>e. le_index e \<le> k) (rc_entries (fst (core_step ev c))) =
    filter (\<lambda>e. le_index e \<le> k) (rc_entries c)"
  using step_committed [OF _ assms] by (metis committed_log_def prod.collapse)

theorem committed_entries_immutable_witness:
  "filter (\<lambda>e. le_index e \<le> 1) (rc_entries (fst (core_step
      (MessageEvent (ex_message 2 (AppendEntriesRequest 0 0 [ex_entry 1 2] 0))) ex_log))) =
    filter (\<lambda>e. le_index e \<le> 1) (rc_entries ex_log)"
proof (rule committed_entries_immutable)
  show "core_wf ex_log" by code_simp
  show "1 \<le> rc_commitIndex ex_log" by code_simp
qed

text \<open>A leader only appends: an event that leaves it leader of the same term extends its log at
  the end and changes nothing else in it.\<close>

theorem leader_append_only:
  assumes "core_wf c" and "core_step ev c = (c', r)" and "rc_role c = Leader" and "rc_role c' = Leader"
    and "rc_currentTerm c' = rc_currentTerm c"
  shows "\<exists>xs. rc_entries c' = rc_entries c @ xs"
  by (rule step_leader_appends [OF assms(2,1,3-5)])

theorem leader_append_only_witness:
  "\<exists>xs. rc_entries (fst (core_step (Propose ''x'' [7]) ex_leader)) = rc_entries ex_leader @ xs"
proof (rule leader_append_only)
  show "core_wf ex_leader" by code_simp
  show "core_step (Propose ''x'' [7]) ex_leader =
      (fst (core_step (Propose ''x'' [7]) ex_leader), snd (core_step (Propose ''x'' [7]) ex_leader))"
    by simp
  show "rc_role ex_leader = Leader" by code_simp
  show "rc_role (fst (core_step (Propose ''x'' [7]) ex_leader)) = Leader" by code_simp
  show "rc_currentTerm (fst (core_step (Propose ''x'' [7]) ex_leader)) = rc_currentTerm ex_leader"
    by code_simp
qed

text \<open>A Ready batch describes the change of an event completely: writing its hard state,
  truncation and entries over what the core would have persisted before gives exactly what it has to
  persist after, and the batch passes every check of the durable storage.\<close>

theorem ready_describes_change:
  assumes "core_wf c" and "event_wf ev" and "core_step ev c = (c', Inr (Some r))"
  shows "apply_batch (ready_batch r) (core_image c) = core_image c' \<and>
    batch_ok (ready_batch r) (core_image c)"
  using ready_accepted [OF assms(3,1,2)] by simp

definition ex_ready :: "raft_event \<Rightarrow> raft_core \<Rightarrow> raft_ready" where
  "ex_ready ev c = (case snd (core_step ev c) of Inr (Some r) \<Rightarrow> r)"

definition ex_conflict :: raft_event where
  "ex_conflict = MessageEvent (ex_message 2 (AppendEntriesRequest 1 1 [ex_entry 2 2, ex_entry 3 2] 2))"

theorem ready_describes_change_witness:
  "apply_batch (ready_batch (ex_ready ex_conflict ex_log)) (core_image ex_log)
      = core_image (fst (core_step ex_conflict ex_log)) \<and>
    batch_ok (ready_batch (ex_ready ex_conflict ex_log)) (core_image ex_log)"
proof (rule ready_describes_change)
  show "core_wf ex_log" by code_simp
  show "event_wf ex_conflict" by code_simp
  show "core_step ex_conflict ex_log =
      (fst (core_step ex_conflict ex_log), Inr (Some (ex_ready ex_conflict ex_log)))"
    by code_simp
qed

text \<open>C24: The loop of \<open>#handleAppendRequest\<close> computes the overlay of the payload on the log: from
  the position after \<open>prevLogIndex\<close> on, entries whose terms agree stay, the first disagreement
  replaces the rest, \<open>truncateFrom\<close> is its index and the effects are the entries that are new; a
  disagreement at or below the commit index is the error, with the object unchanged.\<close>

theorem append_loop_is_overlay:
  assumes "contiguous (snapshotIndex c + 1) (rc_entries c)" and "p \<le> length (rc_entries c)"
    and "contiguous (snapshotIndex c + 1 + int p) es"
  shows "append_loop c None [] es =
    (let old = drop p (rc_entries c); k = agreement old es; at = snapshotIndex c + 1 + int (p + k)
     in if has_conflict old es \<and> at \<le> rc_commitIndex c
        then (c, Inl (PlainError ''invariant: attempted to overwrite committed entry''))
        else (c\<lparr>rc_entries := take p (rc_entries c) @ overlay old es\<rparr>,
              Inr (if has_conflict old es then Some at else None, drop k es)))"
  using append_loop_spec [OF assms] by (simp add: append_result_def Let_def)

theorem append_loop_is_overlay_witness:
  "append_loop ex_log None [] [ex_entry 2 2, ex_entry 3 2] =
    (let old = drop 1 (rc_entries ex_log); k = agreement old [ex_entry 2 2, ex_entry 3 2];
         at = snapshotIndex ex_log + 1 + int (1 + k)
     in if has_conflict old [ex_entry 2 2, ex_entry 3 2] \<and> at \<le> rc_commitIndex ex_log
        then (ex_log, Inl (PlainError ''invariant: attempted to overwrite committed entry''))
        else (ex_log\<lparr>rc_entries := take 1 (rc_entries ex_log) @ overlay old [ex_entry 2 2, ex_entry 3 2]\<rparr>,
              Inr (if has_conflict old [ex_entry 2 2, ex_entry 3 2] then Some at else None,
                   drop k [ex_entry 2 2, ex_entry 3 2])))"
proof (rule append_loop_is_overlay)
  show "contiguous (snapshotIndex ex_log + 1) (rc_entries ex_log)" by code_simp
  show "1 \<le> length (rc_entries ex_log)" by code_simp
  show "contiguous (snapshotIndex ex_log + 1 + int 1) [ex_entry 2 2, ex_entry 3 2]" by code_simp
qed


text \<open>The committed entries of a Ready batch continue the applied prefix: their indexes run
  without a gap from the applied index plus one to the commit index.\<close>

lemma committed_entries_contiguous:
  assumes "core_wf c" and "snapshotIndex c \<le> rc_appliedIndex c"
  shows "contiguous (rc_appliedIndex c + 1) (committedEntries c) \<and>
    rc_appliedIndex c + int (length (committedEntries c)) = rc_commitIndex c"
  using committed_contiguous [OF assms(1)] assms(2) by simp

section \<open>Construction, rejection, a single member\<close>

text \<open>The constructor builds a core exactly when the cluster has 1, 3 or 5 distinct members
  among them the local node, the election timeout exceeds the heartbeat interval, and the persisted
  state, if any, has a contiguous log that reaches its commit index, an applied index not above it and
  a term that is not negative.\<close>

theorem constructor_accepts:
  "(\<exists>c. new_RaftCore opts = Inr c) \<longleftrightarrow>
     length (co_members opts) \<in> {1, 3, 5} \<and> co_nodeId opts \<in> set (co_members opts) \<and>
     distinct (co_members opts) \<and> co_heartbeatInterval opts < co_electionTimeout opts \<and>
     (case co_persisted opts of None \<Rightarrow> True | Some p \<Rightarrow> persisted_ok p)"
  using new_RaftCore_accepts [of opts] by (auto split: option.splits)

text \<open>A message of an older term changes nothing but the bookkeeping of the Ready batch that
  carries the answer: term, vote, role, log, commit index and progress stay as they are.\<close>

lemma stale_message_ignored:
  assumes "core_wf c" and "rc_outstanding c = None" and "m_term m < rc_currentTerm c"
    and "m_protocolVersion m = PROTOCOL_VERSION" and "m_clusterId m = rc_clusterId c"
    and "m_to m = rc_nodeId c" and "m_from m \<in> set (rc_members c)"
  shows "\<exists>x y r. core_step (MessageEvent m) c =
    (c\<lparr>rc_readySequence := x, rc_outstanding := y\<rparr>, Inr r)"
  using stale_step [OF _ assms(3,2,1)] assms(4-7) by (simp add: accepts_def)

text \<open>A message with another protocol version or cluster, for another node or from a
  non-member is refused with a \<open>ProtocolError\<close> and leaves the core as it was.\<close>

lemma foreign_message_refused:
  assumes "rc_outstanding c = None"
    and "m_protocolVersion m \<noteq> PROTOCOL_VERSION \<or> m_clusterId m \<noteq> rc_clusterId c \<or>
      m_to m \<noteq> rc_nodeId c \<or> m_from m \<notin> set (rc_members c)"
  shows "\<exists>why. core_step (MessageEvent m) c = (c, Inl (ProtocolError why))"
  using foreign_step [of c m] assms by (auto simp: accepts_def)

text \<open>A cluster of one elects itself and commits its first entry in a single election
  timeout: the event returns a Ready batch without messages, the node is leader of the next term and
  the commit index is the index of the new entry.\<close>

lemma single_member_elects_itself:
  assumes "core_wf c" and "rc_outstanding c = None" and "rc_members c = [rc_nodeId c]"
    and "rc_role c \<noteq> Leader"
  shows "\<exists>c' rd. core_step (ElectionTimeout t) c = (c', Inr (Some rd)) \<and> rc_role c' = Leader \<and>
    rc_currentTerm c' = rc_currentTerm c + 1 \<and> rc_commitIndex c' = lastLogIndex c + 1 \<and>
    rd_outboundMessages rd = [] \<and>
    (\<forall>e \<in> set (rd_committedEntries rd). e \<in> set (rc_entries c) \<or> le_type e \<noteq> Command)"
proof -
  obtain c1 eff where run: "startElection c no_effects = (c1, Inr eff)" and c1: "rc_role c1 = Leader"
    "rc_currentTerm c1 = rc_currentTerm c + 1" "rc_commitIndex c1 = lastLogIndex c + 1"
    "ef_messages eff = []" "core_wf c1"
    and new: "\<exists>e. rc_entries c1 = rc_entries c @ [e] \<and> le_type e \<noteq> Command"
    using alone_elects [OF assms(1,3,4)] by blast
  have d: "dispatch (ElectionTimeout t) c = (c1, Inr eff)" using run assms(4) by (simp add: dispatch_def)
  have "micros (ElectionTimeout t) c no_effects c1 eff"
    using dispatch_micros [OF d core_wf_table [OF assms(1)]] .
  then have h: "hard_tracked c c1 eff"
    using micros_tracked [OF _ assms(1) _ tracked_start] by (simp add: event_wf_def)
  have "ef_hardState eff \<noteq> None" using h c1(2)
    by (cases "ef_hardState eff") (auto simp: hard_tracked_def hardState_def)
  then obtain c2 rd where mk: "makeReady c1 eff = (c2, Some rd)"
    by (auto simp: makeReady_def Let_def)
  have "core_step (ElectionTimeout t) c = (c2, Inr (Some rd))"
    using d mk assms(2) c1(5) by (simp add: core_step_def core_wf_def)
  moreover have "set (committedEntries c1) \<subseteq> set (rc_entries c1)"
    by (auto simp: committedEntries_def)
  ultimately show ?thesis using ready_fields [OF mk] c1 new by auto
qed

end
