(* ===== verification/StorageTheorems.thy ===== *)
theory StorageTheorems
  imports StorageContract
begin

text \<open>
  The properties of the two storage adapters: which batches they accept, what they hold
  afterwards, what a refused batch leaves behind, how a range is read, and how snapshots and
  compaction cut the log.
\<close>

section \<open>Concrete storages\<close>

definition st_entry :: "int \<Rightarrow> int \<Rightarrow> log_entry" where
  "st_entry i t = \<lparr>le_index = i, le_term = t, le_type = Command, le_payload = [1, 2, 3],
     le_commandId = None\<rparr>"

definition st_durable :: durable_state where
  "st_durable = \<lparr>du_hardState = \<lparr>hs_currentTerm = 2, hs_votedFor = Some ''a'', hs_commitIndex = 2\<rparr>,
     du_entries = [st_entry 1 1, st_entry 2 1, st_entry 3 2], du_snapshot = None,
     du_appliedIndex = 1, du_failure = None\<rparr>"

definition st_memory :: memory_storage where
  "st_memory = \<lparr>ms_hardState = du_hardState st_durable, ms_entries = du_entries st_durable,
     ms_snapshot = None, ms_appliedIndex = 1, ms_closed = False, ms_failure = None, ms_history = []\<rparr>"

definition st_batch :: "hard_state option \<Rightarrow> int option \<Rightarrow> log_entry list \<Rightarrow> int option
    \<Rightarrow> persist_batch" where
  "st_batch h at es i = \<lparr>pb_hardState = h, pb_truncateFrom = at, pb_entries = es,
     pb_snapshot = None, pb_appliedIndex = i\<rparr>"

definition st_snapshot :: "int \<Rightarrow> snapshot" where
  "st_snapshot i = \<lparr>sn_formatVersion = 1, sn_clusterId = ''k'', sn_lastIncludedIndex = i,
     sn_lastIncludedTerm = 1, sn_members = [''a''], sn_data = [], sn_checksum = ''''\<rparr>"

section \<open>Reading a range\<close>

definition payload_bytes :: "log_entry list \<Rightarrow> int" where
  "payload_bytes es = (\<Sum>e\<leftarrow>es. int (length (le_payload e)))"

definition in_range :: "int \<Rightarrow> int \<Rightarrow> log_entry list \<Rightarrow> log_entry list" where
  "in_range from to es = filter (\<lambda>e. from \<le> le_index e \<and> le_index e < to) es"

lemma payload_bytes_simps [simp]:
  "payload_bytes [] = 0" "payload_bytes (e # es) = int (length (le_payload e)) + payload_bytes es"
  "payload_bytes (es @ fs) = payload_bytes es + payload_bytes fs"
  by (simp_all add: payload_bytes_def)

text \<open>How many entries of a range fit, given that \<open>n\<close> entries of \<open>used\<close> bytes are taken.\<close>

fun fitting :: "int option \<Rightarrow> nat \<Rightarrow> int \<Rightarrow> log_entry list \<Rightarrow> nat" where
  "fitting limit n used [] = 0"
| "fitting limit n used (e # es) =
     (if limit \<noteq> None \<and> 0 < n \<and> the limit < used + int (length (le_payload e)) then 0
      else Suc (fitting limit (Suc n) (used + int (length (le_payload e))) es))"

lemma collect_entries_eq:
  "collect_entries from to limit acc used es =
    acc @ take (fitting limit (length acc) used (in_range from to es)) (in_range from to es)"
  by (induction es arbitrary: acc used) (auto simp: in_range_def not_le not_less)

lemma fitting_le: "fitting limit n used es \<le> length es"
  by (induction es arbitrary: n used) auto

lemma fitting_all: "fitting None n used es = length es"
  by (induction es arbitrary: n used) auto

lemma fitting_first: "es \<noteq> [] \<Longrightarrow> 1 \<le> fitting limit 0 used es"
  by (cases es) auto

lemma fitting_bound:
  "0 < n \<Longrightarrow> used \<le> b \<Longrightarrow>
    used + payload_bytes (take (fitting (Some b) n used es) es) \<le> b"
proof (induction es arbitrary: n used)
  case (Cons e es)
  show ?case
    using Cons.IH [of "Suc n" "used + int (length (le_payload e))"] Cons.prems
    by (simp add: add.assoc not_less)
qed simp

lemma fitting_maximal:
  "fitting (Some b) n used es < length es \<Longrightarrow>
    b < used + payload_bytes (take (Suc (fitting (Some b) n used es)) es)"
proof (induction es arbitrary: n used)
  case (Cons e es)
  show ?case
    using Cons.IH [of "Suc n" "used + int (length (le_payload e))"] Cons.prems
    by (auto simp: add.assoc not_less split: if_splits)
qed simp

lemma fitting_start:
  assumes "1 < fitting (Some b) 0 0 es"
  shows "payload_bytes (take (fitting (Some b) 0 0 es) es) \<le> b"
proof (cases es)
  case (Cons e rest)
  let ?u = "int (length (le_payload e))"
  have "0 < fitting (Some b) 1 ?u rest" using assms Cons by simp
  then have "?u \<le> b" by (cases rest) (auto split: if_splits)
  then show ?thesis using fitting_bound [of 1 ?u b rest] Cons by simp
qed (use assms in simp)

section \<open>Snapshots\<close>

lemma contiguous_filter_above:
  "contiguous b es \<Longrightarrow> b \<le> k + 1 \<Longrightarrow>
    contiguous (k + 1) (filter (\<lambda>e. k < le_index e) es)"
proof (induction es arbitrary: b)
  case (Cons e es)
  show ?case
  proof (cases "k < le_index e")
    case True
    then have "b = k + 1" using Cons.prems by simp
    moreover have "\<forall>x \<in> set es. k < le_index x"
      using Cons.prems contiguous_bounds [of "b + 1" es] \<open>b = k + 1\<close> by fastforce
    ultimately show ?thesis using Cons.prems True by (simp add: filter_id_conv)
  next
    case False
    then show ?thesis using Cons.IH [of "b + 1"] Cons.prems by simp
  qed
qed simp

lemma filter_above_last:
  assumes "contiguous b es" and "es \<noteq> []" and "k < le_index (last es)"
  shows "filter (\<lambda>e. k < le_index e) es \<noteq> [] \<and> last (filter (\<lambda>e. k < le_index e) es) = last es"
  using assms by (induction es rule: rev_induct) auto

lemma install_view_ok:
  assumes "view_ok (durable_inspect d)" and "snapshot_index (du_snapshot d) \<le> sn_lastIncludedIndex x"
  shows "\<exists>d'. durable_installSnapshot x d = (d', Inr ()) \<and> view_ok (durable_inspect d')"
proof -
  let ?i = "sn_lastIncludedIndex x" and ?base = "snapshot_index (du_snapshot d)"
  let ?es = "filter (\<lambda>e. ?i < le_index e) (du_entries d)"
  have cont: "contiguous (?base + 1) (du_entries d)" using assms(1) by (simp add: view_ok_def)
  have es: "contiguous (?i + 1) ?es" using contiguous_filter_above [OF cont] assms(2) by simp
  have tip: "tip_index ?i ?es = storage_max (tip_index ?base (du_entries d)) ?i"
  proof (cases "du_entries d \<noteq> [] \<and> ?i < le_index (last (du_entries d))")
    case True
    then show ?thesis
      using filter_above_last [OF cont] by (simp add: tip_index_def storage_max_def)
  next
    case False
    then have "?es = []"
      using cont contiguous_bounds [OF cont] contiguous_last [OF cont]
      by (fastforce simp: filter_empty_conv)
    then show ?thesis using False assms(2) by (auto simp: tip_index_def storage_max_def)
  qed
  then show ?thesis
    using assms es
    by (auto simp: durable_installSnapshot_def view_ok_def snapshot_index_def storage_max_def
        split: if_splits)
qed

section \<open>What the adapters accept\<close>

text \<open>C38: The durable adapter accepts a batch without snapshot exactly when the batch passes the
  checks (truncation above the commit index, contiguous entries, term, vote, commit and applied index
  not taken back, commit index within the log); then a load returns the batch written over the old
  state, and a refused batch leaves what a load returns as it was.\<close>

theorem durable_accepts_exactly:
  assumes "handle_ready h" and "view_ok (handle_view h)" and "pb_snapshot b = None"
  shows "(batch_ok b (handle_view h) \<longrightarrow> snd (handle_persist b h) = Inr () \<and>
        handle_load (fst (handle_persist b h)) =
          (fst (handle_persist b h), Inr (apply_batch b (handle_view h)))) \<and>
    (\<not> batch_ok b (handle_view h) \<longrightarrow> (\<exists>e. snd (handle_persist b h) = Inl e) \<and>
        handle_view (fst (handle_persist b h)) = handle_view h)"
proof (cases "batch_ok b (handle_view h)")
  case True
  then show ?thesis
    using durable.persist_accepts [OF assms(1,2) True] durable.load_view by auto
next
  case False
  obtain h' r where run: "handle_persist b h = (h', r)" by fastforce
  then obtain e where "r = Inl e"
    using durable.persist_checks [OF _ assms(2,3)] False by (cases r) auto
  then show ?thesis using False run durable.persist_refuses by fastforce
qed

theorem durable_accepts_exactly_witness:
  "snd (handle_persist (st_batch None (Some 3) [st_entry 3 2, st_entry 4 2] (Some 2)) (handle_open st_durable))
      = Inr () \<and>
    handle_view (fst (handle_persist (st_batch None (Some 2) [] None) (handle_open st_durable)))
      = handle_view (handle_open st_durable)"
proof -
  let ?h = "handle_open st_durable" and ?b = "st_batch None (Some 3) [st_entry 3 2, st_entry 4 2] (Some 2)"
    and ?c = "st_batch None (Some 2) [] None"
  have h: "handle_ready ?h" "view_ok (handle_view ?h)" by code_simp+
  have b: "pb_snapshot ?b = None" "batch_ok ?b (handle_view ?h)" by code_simp+
  have c: "pb_snapshot ?c = None" "\<not> batch_ok ?c (handle_view ?h)" by code_simp+
  show ?thesis
    using durable_accepts_exactly [OF h b(1)] durable_accepts_exactly [OF h c(1)] b(2) c(2) by blast
qed

text \<open>C39: Whatever sequence of batches is offered to a durable handle, accepted or refused, and
  whatever failure is injected, a load afterwards returns a well-formed state in which the term, the
  commit index and the applied index have not decreased, the vote of an unchanged term still stands and
  every committed entry is still there.\<close>

theorem durable_history_safe:
  assumes "view_ok (handle_view h)" and "\<forall>b \<in> set bs. pb_snapshot b = None"
  shows "view_ok (handle_view (persist_all handle_persist bs h)) \<and>
    safe_change (handle_view h) (handle_view (persist_all handle_persist bs h))"
  by (rule durable.persist_all_safe [OF assms])

theorem durable_history_safe_witness:
  "let h = handle_open (durable_failNext (PlainError ''x'') st_durable);
       bs = [st_batch None (Some 3) [] None, st_batch None (Some 2) [] None,
             st_batch None (Some 3) [st_entry 3 2] None] in
    view_ok (handle_view (persist_all handle_persist bs h)) \<and>
    safe_change (handle_view h) (handle_view (persist_all handle_persist bs h))"
  unfolding Let_def by (rule durable_history_safe) code_simp+

text \<open>The in-memory adapter accepts every batch the durable adapter would accept and then holds
  the same state.\<close>

lemma memory_accepts:
  assumes "memory_ready s" and "view_ok (memory_view s)" and "batch_ok b (memory_view s)"
  shows "snd (memory_persist b s) = Inr () \<and>
    memory_view (fst (memory_persist b s)) = apply_batch b (memory_view s) \<and>
    view_ok (memory_view (fst (memory_persist b s)))"
  using memory.persist_keeps [OF assms prod.collapse [symmetric]] by blast

text \<open>The in-memory adapter is not atomic: a batch it refuses for its applied index has already
  replaced the hard state, so the call throws and the new term, vote and commit index stay, while
  entries, snapshot and history are the old ones.\<close>

theorem memory_refusal_keeps_hard_state:
  assumes "memory_persist b s = (s', Inl (PlainError ''invalid applied index''))"
    and "ms_failure s = None" and "pb_hardState b = Some h"
  shows "s' = s\<lparr>ms_hardState := h\<rparr> \<and> pb_appliedIndex b \<noteq> None"
  using assms
  by (auto simp: memory_persist_def memory_guarded_def memory_finish_def Let_def push_entries_eq
      split: if_splits option.splits)

theorem memory_refusal_keeps_hard_state_witness:
  "let h = \<lparr>hs_currentTerm = 9, hs_votedFor = None, hs_commitIndex = 2\<rparr>;
       b = st_batch (Some h) None [] (Some 3) in
    fst (memory_persist b st_memory) = st_memory\<lparr>ms_hardState := h\<rparr> \<and> pb_appliedIndex b \<noteq> None"
  unfolding Let_def
  by (rule memory_refusal_keeps_hard_state [of _ st_memory]) code_simp+

section \<open>Reading, snapshots and compaction\<close>

text \<open>\<open>getEntries\<close> returns a prefix of the entries in the range: all of them without a byte
  limit; with a limit the longest prefix within it, except that a first entry that alone exceeds the
  limit is still returned, so that a reader always makes progress.\<close>

theorem getEntries_prefix:
  assumes "memory_ready s"
  shows "\<exists>k. memory_getEntries from to limit s = (s, Inr (take k (in_range from to (ms_entries s)))) \<and>
    k \<le> length (in_range from to (ms_entries s)) \<and>
    (in_range from to (ms_entries s) \<noteq> [] \<longrightarrow> 1 \<le> k) \<and>
    (limit = None \<longrightarrow> k = length (in_range from to (ms_entries s))) \<and>
    (\<forall>m. limit = Some m \<longrightarrow>
      (1 < k \<longrightarrow> payload_bytes (take k (in_range from to (ms_entries s))) \<le> m) \<and>
      (k < length (in_range from to (ms_entries s)) \<longrightarrow>
        m < payload_bytes (take (Suc k) (in_range from to (ms_entries s)))))"
proof (intro exI conjI impI allI)
  let ?r = "in_range from to (ms_entries s)" and ?k = "fitting limit 0 0 (in_range from to (ms_entries s))"
  show "memory_getEntries from to limit s = (s, Inr (take ?k ?r))"
    using assms by (simp add: memory_getEntries_def memory_guarded_def memory_ready_def collect_entries_eq)
  show "?k \<le> length ?r" by (rule fitting_le)
  show "1 \<le> ?k" if "?r \<noteq> []" using that by (rule fitting_first)
  show "?k = length ?r" if "limit = None" using that by (simp add: fitting_all)
  show "payload_bytes (take ?k ?r) \<le> m" if "limit = Some m" "1 < ?k" for m
    using that fitting_start [of m ?r] by simp
  show "m < payload_bytes (take (Suc ?k) ?r)" if "limit = Some m" "?k < length ?r" for m
    using that fitting_maximal [of m 0 0 ?r] by simp
qed

theorem getEntries_prefix_witness:
  "\<exists>k. memory_getEntries 1 4 (Some 7) st_memory =
      (st_memory, Inr (take k (in_range 1 4 (ms_entries st_memory)))) \<and> 1 \<le> k"
proof -
  have r: "memory_ready st_memory" by code_simp
  have "in_range 1 4 (ms_entries st_memory) \<noteq> []" by code_simp
  then show ?thesis using getEntries_prefix [OF r, of 1 4 "Some 7"] by blast
qed

text \<open>Installing a snapshot that is not older than the stored one succeeds and leaves a
  well-formed state: the log starts right after the snapshot and commit and applied index reach at
  least its index.\<close>

lemma install_keeps_well_formed:
  assumes "view_ok (durable_inspect d)" and "snapshot_index (du_snapshot d) \<le> sn_lastIncludedIndex x"
  shows "snd (durable_installSnapshot x d) = Inr () \<and>
    view_ok (durable_inspect (fst (durable_installSnapshot x d))) \<and>
    sn_lastIncludedIndex x \<le> du_appliedIndex (fst (durable_installSnapshot x d))"
  using install_view_ok [OF assms] assms(2)
  by (auto simp: durable_installSnapshot_def storage_max_def)

text \<open>Persisting a batch that carries only a snapshot of an applied index and then compacting
  through that index is the same as installing the snapshot.\<close>

theorem persist_compact_is_install:
  assumes "view_ok (durable_inspect d)" and "du_failure d = None"
    and "snapshot_index (du_snapshot d) \<le> sn_lastIncludedIndex x"
    and "sn_lastIncludedIndex x \<le> du_appliedIndex d"
  shows "durable_compact (sn_lastIncludedIndex x) (fst (durable_persist
      \<lparr>pb_hardState = None, pb_truncateFrom = None, pb_entries = [], pb_snapshot = Some x,
       pb_appliedIndex = None\<rparr> d)) = durable_installSnapshot x d"
proof -
  let ?b = "\<lparr>pb_hardState = None, pb_truncateFrom = None, pb_entries = [], pb_snapshot = Some x,
       pb_appliedIndex = None\<rparr>"
  have commit: "du_appliedIndex d \<le> hs_commitIndex (du_hardState d)"
    "hs_commitIndex (du_hardState d) \<le> tip_index (snapshot_index (du_snapshot d)) (du_entries d)"
    using assms(1) by (simp_all add: view_ok_def)
  then have tip: "hs_commitIndex (du_hardState d) \<le> tip_index (snapshot_index (Some x)) (du_entries d)"
    using assms(3) by (auto simp: tip_index_def snapshot_index_def split: if_splits)
  have "durable_persist ?b d = (d\<lparr>du_snapshot := Some x\<rparr>, Inr ())"
    using assms(2) commit(1) tip
    by (simp add: durable_persist_def durable_checks_def Let_def or_else_def not_less)
  then show ?thesis
    using assms(3,4) commit(1)
    by (simp add: durable_compact_def durable_installSnapshot_def storage_max_def)
qed

theorem persist_compact_is_install_witness:
  "durable_compact (sn_lastIncludedIndex (st_snapshot 1)) (fst (durable_persist
      \<lparr>pb_hardState = None, pb_truncateFrom = None, pb_entries = [], pb_snapshot = Some (st_snapshot 1),
       pb_appliedIndex = None\<rparr> st_durable)) = durable_installSnapshot (st_snapshot 1) st_durable"
  by (rule persist_compact_is_install) code_simp+

end
