(* ===== verification/RaftNode.thy ===== *)
theory RaftNode
  imports Durability
begin

text \<open>
  The node runtime, class \<open>RaftNode\<close> of \<open>packages/raft-node/src/node.ts\<close>: recovery, the
  persist-send-apply-advance cycle of \<open>#processReady\<close>, command application with its wrapped
  errors, and proposals with deduplication by command ID.  Storage, transport, state machine,
  codec and hash are interfaces of the program; they are the fields of the record \<open>node_env\<close>.
  The queue of the class runs one operation at a time, so an operation is a function on the node.

  A promise is a ticket; \<open>nd_settled\<close> lists the calls of \<open>resolve\<close> and \<open>reject\<close> in order, and
  the first entry of a ticket is the outcome of its promise.  A run is \<open>None\<close> when the retention loop of \<open>#apply\<close> never ends.  The timers
  of a node, \<open>read\<close> and the race of \<open>withTimeout\<close> are in the theories \<open>NodeTimers\<close> and \<open>Timeouts\<close>.
\<close>

section \<open>Interfaces and state\<close>

record apply_context =
  ac_index :: int
  ac_term :: int
  ac_commandId :: string

record restore_context =
  rx_lastIncludedIndex :: int
  rx_lastIncludedTerm :: int

record ('st, 'sm, 'net, 'cmd, 'res) node_env =
  ne_persist :: "persist_batch \<Rightarrow> 'st \<Rightarrow> ('st, unit) io"
  ne_load :: "'st \<Rightarrow> ('st, persisted_raft_state) io"
  ne_close :: "'st \<Rightarrow> 'st"
  ne_start :: "'net \<Rightarrow> ('net, unit) io"
  ne_send :: "node_id \<Rightarrow> raft_message \<Rightarrow> 'net \<Rightarrow> ('net, unit) io"
  ne_stop :: "'net \<Rightarrow> 'net"
  ne_apply :: "'cmd \<Rightarrow> apply_context \<Rightarrow> 'sm \<Rightarrow> ('sm, 'res) io"
  ne_restore :: "bytes \<Rightarrow> restore_context \<Rightarrow> 'sm \<Rightarrow> ('sm, unit) io"
  ne_encode :: "'cmd \<Rightarrow> raft_error + bytes"
  ne_decode :: "bytes \<Rightarrow> raft_error + 'cmd"
  ne_hash :: "bytes \<Rightarrow> string"
  ne_retention :: int

record node_options =
  no_nodeId :: node_id
  no_clusterId :: cluster_id
  no_members :: "node_id list"
  no_heartbeatInterval :: int
  no_electionTimeoutMinMs :: int
  no_electionTimeoutMaxMs :: int
  no_maxMessageBytes :: "int option"

datatype node_event =
    RoleChanged raft_status
  | StorageFailed raft_error
  | TransportFailed raft_error
  | ApplyFailed int raft_error

record pending_proposal =
  pn_hash :: string
  pn_ticket :: nat

record 'res completed_command =
  cp_hash :: string
  cp_result :: 'res

record ('st, 'sm, 'net, 'res) raft_node =
  nd_core :: raft_core
  nd_storage :: 'st
  nd_machine :: 'sm
  nd_net :: 'net
  nd_pending :: "(string \<times> pending_proposal) list"
  nd_completed :: "(string \<times> 'res completed_command) list"
  nd_settled :: "(nat \<times> (raft_error + 'res)) list"
  nd_nextTicket :: nat
  nd_started :: bool
  nd_healthy :: bool
  nd_lastRole :: role
  nd_events :: "node_event list"

type_synonym ('n, 'a) run = "('n \<times> (raft_error + 'a)) option"

definition run_bind :: "('n, 'a) run \<Rightarrow> ('n \<Rightarrow> 'a \<Rightarrow> ('n, 'b) run) \<Rightarrow> ('n, 'b) run" where
  "run_bind r k = (case r of None \<Rightarrow> None
     | Some (n, x) \<Rightarrow> (case x of Inl e \<Rightarrow> Some (n, Inl e) | Inr y \<Rightarrow> k n y))"

section \<open>Failure and bookkeeping\<close>

definition emit :: "node_event \<Rightarrow> ('st, 'sm, 'net, 'res) raft_node \<Rightarrow> ('st, 'sm, 'net, 'res) raft_node"
  where
  "emit event nd = nd\<lparr>nd_events := nd_events nd @ [event]\<rparr>"

definition reject_pending :: "raft_error \<Rightarrow> ('st, 'sm, 'net, 'res) raft_node
    \<Rightarrow> ('st, 'sm, 'net, 'res) raft_node" where
  "reject_pending err nd =
     nd\<lparr>nd_settled := nd_settled nd @ map (\<lambda>(k, p). (pn_ticket p, Inl err)) (nd_pending nd),
        nd_pending := []\<rparr>"

definition node_fail :: "raft_error \<Rightarrow> ('st, 'sm, 'net, 'res) raft_node
    \<Rightarrow> ('st, 'sm, 'net, 'res) raft_node" where
  "node_fail err nd = reject_pending err (nd\<lparr>nd_healthy := False\<rparr>)"

definition assertRunning :: "('st, 'sm, 'net, 'res) raft_node \<Rightarrow> raft_error option" where
  "assertRunning nd =
     (if \<not> nd_started nd \<or> \<not> nd_healthy nd
      then Some (NodeStoppedError ''node is stopped or unhealthy'') else None)"

definition persist_at :: "('st, 'sm, 'net, 'cmd, 'res) node_env \<Rightarrow> persist_batch
    \<Rightarrow> ('st, 'sm, 'net, 'res) raft_node \<Rightarrow> (('st, 'sm, 'net, 'res) raft_node, unit) io" where
  "persist_at env b nd =
     (case ne_persist env b (nd_storage nd) of (st, r) \<Rightarrow> (nd\<lparr>nd_storage := st\<rparr>, r))"

section \<open>Applying a committed entry\<close>

text \<open>The retention loop: delete the oldest key while the map is too large.  Deleting from an
  empty map changes nothing, so a negative retention never ends.\<close>

partial_function (option) retain :: "int \<Rightarrow> 'a list \<Rightarrow> 'a list option" where
  "retain retention xs =
     (if retention < int (length xs) then retain retention (drop 1 xs) else Some xs)"

declare retain.simps [code]

definition resolve_pending :: "string \<Rightarrow> 'res \<Rightarrow> ('st, 'sm, 'net, 'res) raft_node
    \<Rightarrow> ('st, 'sm, 'net, 'res) raft_node" where
  "resolve_pending cid result nd =
     (case map_of (nd_pending nd) cid of
        None \<Rightarrow> nd
      | Some p \<Rightarrow> nd\<lparr>nd_settled := nd_settled nd @ [(pn_ticket p, Inr result)],
                     nd_pending := map_delete cid (nd_pending nd)\<rparr>)"

text \<open>The body of the \<open>try\<close> block.\<close>

definition apply_command :: "('st, 'sm, 'net, 'cmd, 'res) node_env \<Rightarrow> log_entry \<Rightarrow> string
    \<Rightarrow> ('st, 'sm, 'net, 'res) raft_node \<Rightarrow> (('st, 'sm, 'net, 'res) raft_node, unit) run" where
  "apply_command env entry cid nd =
     (case ne_decode env (le_payload entry) of
        Inl err \<Rightarrow> Some (nd, Inl err)
      | Inr command \<Rightarrow>
          (case ne_apply env command
                  \<lparr>ac_index = le_index entry, ac_term = le_term entry, ac_commandId = cid\<rparr>
                  (nd_machine nd) of
             (sm, Inl err) \<Rightarrow> Some (nd\<lparr>nd_machine := sm\<rparr>, Inl err)
           | (sm, Inr result) \<Rightarrow>
               (case persist_at env (applied_batch (le_index entry)) (nd\<lparr>nd_machine := sm\<rparr>) of
                  (nd1, Inl err) \<Rightarrow> Some (nd1, Inl err)
                | (nd1, Inr _) \<Rightarrow>
                    let nd2 = resolve_pending cid result nd1;
                        done = map_set cid \<lparr>cp_hash = ne_hash env (le_payload entry), cp_result = result\<rparr>
                                 (nd_completed nd2)
                    in case retain (ne_retention env) done of
                         None \<Rightarrow> None
                       | Some kept \<Rightarrow> Some (nd2\<lparr>nd_completed := kept\<rparr>, Inr ()))))"

definition apply_entry :: "('st, 'sm, 'net, 'cmd, 'res) node_env \<Rightarrow> log_entry
    \<Rightarrow> ('st, 'sm, 'net, 'res) raft_node \<Rightarrow> (('st, 'sm, 'net, 'res) raft_node, unit) run" where
  "apply_entry env entry nd =
     (if le_type entry \<noteq> Command then Some (persist_at env (applied_batch (le_index entry)) nd)
      else case le_commandId entry of
        None \<Rightarrow> Some (nd, Inl (PlainError ''command entry has no command ID''))
      | Some cid \<Rightarrow>
          (case apply_command env entry cid nd of
             None \<Rightarrow> None
           | Some (nd1, Inr x) \<Rightarrow> Some (nd1, Inr x)
           | Some (nd1, Inl cause) \<Rightarrow>
               let wrapped = StateMachineError
                     (''state machine failed at index '' @ bigint_to_string (le_index entry))
               in Some (node_fail wrapped (emit (ApplyFailed (le_index entry) wrapped) nd1),
                        Inl wrapped)))"

fun apply_entries :: "('st, 'sm, 'net, 'cmd, 'res) node_env \<Rightarrow> log_entry list
    \<Rightarrow> ('st, 'sm, 'net, 'res) raft_node \<Rightarrow> (('st, 'sm, 'net, 'res) raft_node, unit) run" where
  "apply_entries env [] nd = Some (nd, Inr ())"
| "apply_entries env (e # es) nd = run_bind (apply_entry env e nd) (\<lambda>nd1 _. apply_entries env es nd1)"

section \<open>One Ready batch\<close>

fun message_type :: "message_body \<Rightarrow> string" where
  "message_type (RequestVoteRequest _ _) = ''request-vote-request''"
| "message_type (RequestVoteResponse _) = ''request-vote-response''"
| "message_type (AppendEntriesRequest _ _ _ _) = ''append-entries-request''"
| "message_type (AppendEntriesResponse _ _ _) = ''append-entries-response''"

fun send_all :: "('st, 'sm, 'net, 'cmd, 'res) node_env \<Rightarrow> raft_message list
    \<Rightarrow> ('st, 'sm, 'net, 'res) raft_node \<Rightarrow> ('st, 'sm, 'net, 'res) raft_node" where
  "send_all env [] nd = nd"
| "send_all env (m # ms) nd =
     (case ne_send env (m_to m) m (nd_net nd) of
        (net, Inr _) \<Rightarrow> send_all env ms (nd\<lparr>nd_net := net\<rparr>)
      | (net, Inl _) \<Rightarrow> send_all env ms (emit (TransportFailed (TransportError
            (''failed to send '' @ message_type (m_body m) @ '' to '' @ m_to m))) (nd\<lparr>nd_net := net\<rparr>)))"

definition process_ready :: "('st, 'sm, 'net, 'cmd, 'res) node_env \<Rightarrow> raft_ready
    \<Rightarrow> ('st, 'sm, 'net, 'res) raft_node \<Rightarrow> (('st, 'sm, 'net, 'res) raft_node, unit) run" where
  "process_ready env ready nd =
     (case persist_at env (ready_batch ready) nd of
        (nd1, Inl _) \<Rightarrow>
          let wrapped = StorageError ''failed to persist Raft Ready batch''
          in Some (node_fail wrapped (emit (StorageFailed wrapped) nd1), Inl wrapped)
      | (nd1, Inr _) \<Rightarrow>
          run_bind (apply_entries env (rd_committedEntries ready)
                      (send_all env (rd_outboundMessages ready) nd1))
            (\<lambda>nd2 _. case advance (rd_id ready) (nd_core nd2) of
                (c, r) \<Rightarrow> Some (nd2\<lparr>nd_core := c\<rparr>, r)))"

definition note_role :: "role \<Rightarrow> ('st, 'sm, 'net, 'res) raft_node
    \<Rightarrow> ('st, 'sm, 'net, 'res) raft_node" where
  "note_role oldRole nd =
     (let now = rc_role (nd_core nd) in
      if oldRole \<noteq> now \<or> nd_lastRole nd \<noteq> now
      then emit (RoleChanged (status (nd_core nd))) (nd\<lparr>nd_lastRole := now\<rparr>) else nd)"

definition process :: "('st, 'sm, 'net, 'cmd, 'res) node_env \<Rightarrow> raft_event
    \<Rightarrow> ('st, 'sm, 'net, 'res) raft_node \<Rightarrow> (('st, 'sm, 'net, 'res) raft_node, unit) run" where
  "process env event nd =
     (case core_step event (nd_core nd) of
        (c, Inl err) \<Rightarrow> Some (nd\<lparr>nd_core := c\<rparr>, Inl err)
      | (c, Inr ready) \<Rightarrow>
          run_bind (case ready of None \<Rightarrow> Some (nd\<lparr>nd_core := c\<rparr>, Inr ())
                    | Some r \<Rightarrow> process_ready env r (nd\<lparr>nd_core := c\<rparr>))
            (\<lambda>nd1 _. Some (note_role (rc_role (nd_core nd)) nd1, Inr ())))"

section \<open>The public operations\<close>

definition node_start :: "('st, 'sm, 'net, 'cmd, 'res) node_env
    \<Rightarrow> ('st, 'sm, 'net, 'res) raft_node \<Rightarrow> (('st, 'sm, 'net, 'res) raft_node, unit) io" where
  "node_start env nd =
     (if nd_started nd then (nd, Inr ())
      else if \<not> nd_healthy nd then (nd, Inl (NodeStoppedError ''node is unhealthy''))
      else case ne_start env (nd_net nd) of
        (net, Inl err) \<Rightarrow> (nd\<lparr>nd_net := net\<rparr>, Inl err)
      | (net, Inr _) \<Rightarrow> (nd\<lparr>nd_net := net, nd_started := True\<rparr>, Inr ()))"

definition node_stop :: "('st, 'sm, 'net, 'cmd, 'res) node_env
    \<Rightarrow> ('st, 'sm, 'net, 'res) raft_node \<Rightarrow> ('st, 'sm, 'net, 'res) raft_node" where
  "node_stop env nd =
     (if \<not> nd_started nd then nd
      else let nd1 = reject_pending (NodeStoppedError ''node stopped'') (nd\<lparr>nd_started := False\<rparr>)
           in nd1\<lparr>nd_net := ne_stop env (nd_net nd1), nd_storage := ne_close env (nd_storage nd1)\<rparr>)"

definition campaign :: "('st, 'sm, 'net, 'cmd, 'res) node_env \<Rightarrow> int
    \<Rightarrow> ('st, 'sm, 'net, 'res) raft_node \<Rightarrow> (('st, 'sm, 'net, 'res) raft_node, unit) run" where
  "campaign env electionTimeout nd =
     (case assertRunning nd of Some err \<Rightarrow> Some (nd, Inl err)
      | None \<Rightarrow> process env (ElectionTimeout electionTimeout) nd)"

definition heartbeat :: "('st, 'sm, 'net, 'cmd, 'res) node_env
    \<Rightarrow> ('st, 'sm, 'net, 'res) raft_node \<Rightarrow> (('st, 'sm, 'net, 'res) raft_node, unit) run" where
  "heartbeat env nd =
     (case assertRunning nd of Some err \<Rightarrow> Some (nd, Inl err)
      | None \<Rightarrow> process env HeartbeatTimeout nd)"

text \<open>\<open>propose\<close> up to the point where the operation is queued: it settles at once, joins a
  pending proposal, or registers a new one whose event has to be processed.\<close>

datatype 'res proposal =
    Settled "raft_error + 'res"
  | Joined nat
  | Registered nat bytes

definition propose_begin :: "('st, 'sm, 'net, 'cmd, 'res) node_env \<Rightarrow> 'cmd \<Rightarrow> string
    \<Rightarrow> ('st, 'sm, 'net, 'res) raft_node \<Rightarrow> ('st, 'sm, 'net, 'res) raft_node \<times> 'res proposal" where
  "propose_begin env command commandId nd =
     (case assertRunning nd of
        Some err \<Rightarrow> (nd, Settled (Inl err))
      | None \<Rightarrow>
          if rc_role (nd_core nd) \<noteq> Leader
          then (nd, Settled (Inl (NotLeaderError (rc_leaderId (nd_core nd)))))
          else case ne_encode env command of
            Inl err \<Rightarrow> (nd, Settled (Inl err))
          | Inr payload \<Rightarrow>
              let hash = ne_hash env payload in
              case map_of (nd_completed nd) commandId of
                Some done \<Rightarrow>
                  (nd, Settled (if cp_hash done \<noteq> hash
                     then Inl (CommandIdConflictError
                       ''command ID was already used with different bytes'')
                     else Inr (cp_result done)))
              | None \<Rightarrow>
                  (case map_of (nd_pending nd) commandId of
                     Some existing \<Rightarrow>
                       (nd, if pn_hash existing \<noteq> hash
                            then Settled (Inl (CommandIdConflictError
                              ''command ID is pending with different bytes''))
                            else Joined (pn_ticket existing))
                   | None \<Rightarrow>
                       let ticket = nd_nextTicket nd
                       in (nd\<lparr>nd_pending := map_set commandId \<lparr>pn_hash = hash, pn_ticket = ticket\<rparr>
                                (nd_pending nd), nd_nextTicket := Suc ticket\<rparr>,
                           Registered ticket payload)))"

text \<open>The queued operation with the \<open>catch\<close> clause that rejects the promise.\<close>

definition propose_run :: "('st, 'sm, 'net, 'cmd, 'res) node_env \<Rightarrow> string \<Rightarrow> nat \<Rightarrow> bytes
    \<Rightarrow> ('st, 'sm, 'net, 'res) raft_node \<Rightarrow> ('st, 'sm, 'net, 'res) raft_node option" where
  "propose_run env commandId ticket payload nd =
     (case process env (Propose commandId payload) nd of
        None \<Rightarrow> None
      | Some (nd1, Inr _) \<Rightarrow> Some nd1
      | Some (nd1, Inl err) \<Rightarrow>
          Some (nd1\<lparr>nd_pending := map_delete commandId (nd_pending nd1),
                    nd_settled := nd_settled nd1 @ [(ticket, Inl err)]\<rparr>))"

definition propose_node :: "('st, 'sm, 'net, 'cmd, 'res) node_env \<Rightarrow> 'cmd \<Rightarrow> string
    \<Rightarrow> ('st, 'sm, 'net, 'res) raft_node
    \<Rightarrow> (('st, 'sm, 'net, 'res) raft_node \<times> 'res proposal) option" where
  "propose_node env command commandId nd =
     (case propose_begin env command commandId nd of
        (nd1, Registered ticket payload) \<Rightarrow>
          map_option (\<lambda>nd2. (nd2, Registered ticket payload))
            (propose_run env commandId ticket payload nd1)
      | (nd1, p) \<Rightarrow> Some (nd1, p))"

section \<open>Recovery\<close>

definition validateOptions :: "node_options \<Rightarrow> raft_error option" where
  "validateOptions opts =
     (if no_electionTimeoutMinMs opts \<le> no_heartbeatInterval opts
      then Some (PlainError ''minimum election timeout must exceed heartbeat interval'')
      else if no_electionTimeoutMaxMs opts < no_electionTimeoutMinMs opts
      then Some (PlainError ''maximum election timeout must not be less than minimum'')
      else None)"

fun replay :: "('st, 'sm, 'net, 'cmd, 'res) node_env \<Rightarrow> int \<Rightarrow> int \<Rightarrow> log_entry list \<Rightarrow> 'sm
    \<Rightarrow> ('sm, unit) io" where
  "replay env replayAfter commit [] sm = (sm, Inr ())"
| "replay env replayAfter commit (entry # es) sm =
     (if le_index entry \<le> replayAfter \<or> commit < le_index entry then replay env replayAfter commit es sm
      else if le_type entry = Command
      then case le_commandId entry of
          None \<Rightarrow> (sm, Inl (PlainError ''recovered command has no command ID''))
        | Some cid \<Rightarrow>
            (case ne_decode env (le_payload entry) of
               Inl err \<Rightarrow> (sm, Inl err)
             | Inr command \<Rightarrow>
                 (case ne_apply env command
                         \<lparr>ac_index = le_index entry, ac_term = le_term entry, ac_commandId = cid\<rparr> sm of
                    (sm1, Inl err) \<Rightarrow> (sm1, Inl err)
                  | (sm1, Inr _) \<Rightarrow> replay env replayAfter commit es sm1))
      else replay env replayAfter commit es sm)"

definition restore_machine :: "('st, 'sm, 'net, 'cmd, 'res) node_env \<Rightarrow> persisted_raft_state \<Rightarrow> 'sm
    \<Rightarrow> ('sm, unit) io" where
  "restore_machine env p sm =
     (case ps_snapshot p of
        None \<Rightarrow> (sm, Inr ())
      | Some x \<Rightarrow> ne_restore env (sn_data x)
          \<lparr>rx_lastIncludedIndex = sn_lastIncludedIndex x, rx_lastIncludedTerm = sn_lastIncludedTerm x\<rparr> sm)"

definition settle_applied :: "(persist_batch \<Rightarrow> 'st \<Rightarrow> ('st, unit) io)
    \<Rightarrow> ('st \<Rightarrow> ('st, persisted_raft_state) io) \<Rightarrow> persisted_raft_state \<Rightarrow> 'st
    \<Rightarrow> ('st, persisted_raft_state) io" where
  "settle_applied persist load p st =
     (if ps_appliedIndex p < hs_commitIndex (ps_hardState p)
      then case persist (applied_batch (hs_commitIndex (ps_hardState p))) st of
          (st1, Inl err) \<Rightarrow> (st1, Inl err)
        | (st1, Inr _) \<Rightarrow> load st1
      else (st, Inr p))"

definition core_options :: "node_options \<Rightarrow> persisted_raft_state \<Rightarrow> raft_core_options" where
  "core_options opts p = \<lparr>co_nodeId = no_nodeId opts, co_clusterId = no_clusterId opts,
     co_members = no_members opts, co_electionTimeout = no_electionTimeoutMinMs opts,
     co_heartbeatInterval = no_heartbeatInterval opts,
     co_maxMessageBytes = no_maxMessageBytes opts, co_persisted = Some p\<rparr>"

definition new_node :: "raft_core \<Rightarrow> 'st \<Rightarrow> 'sm \<Rightarrow> 'net \<Rightarrow> ('st, 'sm, 'net, 'res) raft_node" where
  "new_node c st sm net = \<lparr>nd_core = c, nd_storage = st, nd_machine = sm, nd_net = net,
     nd_pending = [], nd_completed = [], nd_settled = [], nd_nextTicket = 0, nd_started = False,
     nd_healthy = True, nd_lastRole = rc_role c, nd_events = []\<rparr>"

definition create_node :: "('st, 'sm, 'net, 'cmd, 'res) node_env \<Rightarrow> node_options \<Rightarrow> 'net \<Rightarrow> 'st \<Rightarrow> 'sm
    \<Rightarrow> ('st \<times> 'sm) \<times> (raft_error + ('st, 'sm, 'net, 'res) raft_node)" where
  "create_node env opts net st sm =
     (case validateOptions opts of
        Some err \<Rightarrow> ((st, sm), Inl err)
      | None \<Rightarrow>
     (case ne_load env st of
        (st1, Inl err) \<Rightarrow> ((st1, sm), Inl err)
      | (st1, Inr p) \<Rightarrow>
     (case restore_machine env p sm of
        (sm1, Inl err) \<Rightarrow> ((st1, sm1), Inl err)
      | (sm1, Inr _) \<Rightarrow>
     (case replay env (snapshot_index (ps_snapshot p)) (hs_commitIndex (ps_hardState p))
             (ps_entries p) sm1 of
        (sm2, Inl err) \<Rightarrow> ((st1, sm2), Inl err)
      | (sm2, Inr _) \<Rightarrow>
     (case settle_applied (ne_persist env) (ne_load env) p st1 of
        (st2, Inl err) \<Rightarrow> ((st2, sm2), Inl err)
      | (st2, Inr p2) \<Rightarrow>
     (case new_RaftCore (core_options opts p2) of
        Inl err \<Rightarrow> ((st2, sm2), Inl err)
      | Inr c \<Rightarrow> ((st2, sm2), Inr (new_node c st2 sm2 net))))))))"

end
