(* ===== verification/NodeFacts.thy ===== *)
theory NodeFacts
  imports RaftNode
begin

text \<open>
  The node runtime on top of any storage that meets the contract \<open>raft_storage\<close>: processing an
  event keeps the storage the image of the core, recovery re-establishes it, the state machine
  is the run of the committed commands, and no durable promise is taken back on any path.
\<close>

section \<open>The retention loop\<close>

lemma retain_Some: "0 \<le> r \<Longrightarrow> retain r xs = Some (drop (length xs - nat r) xs)"
proof (induction "length xs" arbitrary: xs)
  case 0
  then show ?case by (subst retain.simps) simp
next
  case (Suc n)
  show ?case
  proof (cases "r < int (length xs)")
    case True
    have "retain r xs = retain r (drop 1 xs)" using True by (simp add: retain.simps [of r xs])
    also have "\<dots> = Some (drop (length (drop 1 xs) - nat r) (drop 1 xs))"
      using Suc by (intro Suc.hyps(1)) simp_all
    also have "\<dots> = Some (drop (length xs - nat r) xs)"
    proof -
      have "length xs - 1 - nat r + 1 = length xs - nat r" using True Suc.prems by linarith
      then show ?thesis by simp
    qed
    finally show ?thesis .
  next
    case False
    then have "length xs - nat r = 0" by simp
    then show ?thesis using False by (simp add: retain.simps [of r xs])
  qed
qed

lemma retain_negative:
  assumes "retain r xs = Some ys"
  shows "0 \<le> r"
  by (rule retain.raw_induct [OF _ assms]) (auto split: if_splits)

section \<open>Runs of commands\<close>

fun run_commands :: "('st, 'sm, 'net, 'cmd, 'res) node_env \<Rightarrow> log_entry list \<Rightarrow> 'sm
    \<Rightarrow> ('sm, unit) io" where
  "run_commands env [] sm = (sm, Inr ())"
| "run_commands env (entry # es) sm =
     (if le_type entry = Command
      then case le_commandId entry of
          None \<Rightarrow> (sm, Inl (PlainError ''recovered command has no command ID''))
        | Some cid \<Rightarrow>
            (case ne_decode env (le_payload entry) of
               Inl err \<Rightarrow> (sm, Inl err)
             | Inr command \<Rightarrow>
                 (case ne_apply env command
                         \<lparr>ac_index = le_index entry, ac_term = le_term entry, ac_commandId = cid\<rparr> sm of
                    (sm1, Inl err) \<Rightarrow> (sm1, Inl err)
                  | (sm1, Inr _) \<Rightarrow> run_commands env es sm1))
      else run_commands env es sm)"

lemma replay_run_commands:
  "replay env after commit es sm =
    run_commands env (filter (\<lambda>e. after < le_index e \<and> le_index e \<le> commit) es) sm"
  by (induction env after commit es sm rule: replay.induct)
    (auto split: option.splits sum.splits prod.splits)

lemma run_commands_append:
  "run_commands env (xs @ ys) sm = (case run_commands env xs sm of
     (sm1, Inl err) \<Rightarrow> (sm1, Inl err) | (sm1, Inr _) \<Rightarrow> run_commands env ys sm1)"
  by (induction env xs sm rule: run_commands.induct)
    (auto split: option.splits sum.splits prod.splits)

text \<open>The entries the state machine of the node can apply.\<close>

definition applicable :: "('st, 'sm, 'net, 'cmd, 'res) node_env \<Rightarrow> log_entry \<Rightarrow> bool" where
  "applicable env e \<longleftrightarrow> le_type e = Command \<longrightarrow>
     (\<exists>cid command. le_commandId e = Some cid \<and> ne_decode env (le_payload e) = Inr command \<and>
        (\<forall>ctx sm. \<exists>sm1 r. ne_apply env command ctx sm = (sm1, Inr r)))"

lemma node_simps [simp]:
  "nd_storage (resolve_pending cid r nd) = nd_storage nd"
  "nd_core (resolve_pending cid r nd) = nd_core nd"
  "nd_machine (resolve_pending cid r nd) = nd_machine nd"
  "nd_storage (emit ev nd) = nd_storage nd" "nd_core (emit ev nd) = nd_core nd"
  "nd_machine (emit ev nd) = nd_machine nd"
  "nd_storage (note_role ro nd) = nd_storage nd" "nd_core (note_role ro nd) = nd_core nd"
  "nd_machine (note_role ro nd) = nd_machine nd" "nd_net (note_role ro nd) = nd_net nd"
  "nd_started (note_role ro nd) = nd_started nd"
  "nd_storage (node_fail err nd) = nd_storage nd" "nd_core (node_fail err nd) = nd_core nd"
  "nd_machine (node_fail err nd) = nd_machine nd"
  by (auto simp: resolve_pending_def emit_def note_role_def Let_def node_fail_def
      reject_pending_def split: option.splits)

lemma send_all_simps [simp]:
  "nd_storage (send_all env ms nd) = nd_storage nd" "nd_core (send_all env ms nd) = nd_core nd"
  "nd_machine (send_all env ms nd) = nd_machine nd"
  by (induction env ms nd rule: send_all.induct) (auto split: prod.splits sum.splits)

lemma apply_command_Inr:
  assumes "apply_command env e cid nd = Some (nd', Inr u)"
  shows "\<exists>command sm r st. ne_decode env (le_payload e) = Inr command \<and>
    ne_apply env command \<lparr>ac_index = le_index e, ac_term = le_term e, ac_commandId = cid\<rparr>
      (nd_machine nd) = (sm, Inr r) \<and>
    ne_persist env (applied_batch (le_index e)) (nd_storage nd) = (st, Inr ()) \<and>
    nd_storage nd' = st \<and> nd_machine nd' = sm \<and> nd_core nd' = nd_core nd"
  using assms
  by (auto simp: apply_command_def persist_at_def Let_def split: sum.splits prod.splits option.splits)

lemma apply_entry_machine:
  assumes "apply_entry env e nd = Some (nd', Inr u)"
  shows "run_commands env [e] (nd_machine nd) = (nd_machine nd', Inr ())"
    and "nd_core nd' = nd_core nd"
proof -
  have "run_commands env [e] (nd_machine nd) = (nd_machine nd', Inr ()) \<and> nd_core nd' = nd_core nd"
  proof (cases "le_type e = Command")
    case False
    then show ?thesis using assms by (auto simp: apply_entry_def persist_at_def split: prod.splits)
  next
    case True
    then obtain cid where "le_commandId e = Some cid" "apply_command env e cid nd = Some (nd', Inr u)"
      using assms by (auto simp: apply_entry_def Let_def split: option.splits prod.splits sum.splits)
    then show ?thesis using True apply_command_Inr by fastforce
  qed
  then show "run_commands env [e] (nd_machine nd) = (nd_machine nd', Inr ())"
    "nd_core nd' = nd_core nd" by simp_all
qed

lemma apply_entries_machine:
  "apply_entries env es nd = Some (nd', Inr u) \<Longrightarrow>
    run_commands env es (nd_machine nd) = (nd_machine nd', Inr ()) \<and> nd_core nd' = nd_core nd"
proof (induction env es nd rule: apply_entries.induct)
  case (1 env nd)
  then show ?case by simp
next
  case (2 env e es nd)
  then obtain nd1 where one: "apply_entry env e nd = Some (nd1, Inr ())"
    and rest: "apply_entries env es nd1 = Some (nd', Inr u)"
    by (auto simp: run_bind_def split: option.splits sum.splits)
  show ?case
    using "2.IH" [OF rest] apply_entry_machine [OF one] run_commands_append [of env "[e]" es]
    by simp
qed

section \<open>A node and its storage\<close>

definition synced :: "('st \<Rightarrow> persisted_raft_state) \<Rightarrow> ('st \<Rightarrow> bool)
    \<Rightarrow> ('st, 'sm, 'net, 'res) raft_node \<Rightarrow> bool" where
  "synced view ready nd \<longleftrightarrow> core_wf (nd_core nd) \<and> rc_outstanding (nd_core nd) = None \<and>
     snapshotIndex (nd_core nd) \<le> rc_appliedIndex (nd_core nd) \<and>
     ready (nd_storage nd) \<and> view (nd_storage nd) = core_image (nd_core nd)"

text \<open>Advancing over the batch the core has handed out.\<close>

lemma advance_ready:
  assumes "makeReady c1 e = (c, Some r)" and "core_wf c1"
    and "snapshotIndex c1 \<le> rc_appliedIndex c1"
  shows "\<exists>c'. advance (rd_id r) c = (c', Inr ()) \<and> core_wf c' \<and> rc_outstanding c' = None \<and>
    c' = c\<lparr>rc_appliedIndex := rc_commitIndex c, rc_outstanding := None\<rparr> \<and>
    core_image c' = (core_image c)\<lparr>ps_appliedIndex := rc_appliedIndex c + int (length (rd_committedEntries r))\<rparr>"
proof -
  note f = ready_fields [OF assms(1)]
  note com = committed_contiguous [OF assms(2)]
  have end1: "rc_appliedIndex c1 + int (length (committedEntries c1)) = rc_commitIndex c1"
    by (rule com(3) [OF assms(3)])
  let ?c = "c\<lparr>rc_appliedIndex := rc_commitIndex c, rc_outstanding := None\<rparr>"
  have "core_wf c" using f(9) core_wf_bookkeeping [where c = c1] assms(2) by simp
  then have wf: "core_wf ?c"
    using log_ok_cong [of ?c c] same_log(2) [of ?c c]
    by (simp add: core_wf_def assertInvariants_None leader_table_def peers_def)
  have run: "(if rd_committedEntries r \<noteq> [] then c\<lparr>rc_appliedIndex := le_index (last (rd_committedEntries r))\<rparr>
      else c)\<lparr>rc_outstanding := None\<rparr> = ?c"
  proof (cases "committedEntries c1 = []")
    case True
    then show ?thesis using end1 f(6,9) by simp
  next
    case False
    then have "le_index (last (committedEntries c1)) = rc_commitIndex c1"
      using contiguous_last [OF com(1)] end1 assms(3) by simp
    then show ?thesis using False f(6,9) by simp
  qed
  have out: "rc_outstanding c = Some r" using f(7) .
  have "assertInvariants ?c = None" using wf by (simp add: core_wf_def)
  then have "advance (rd_id r) c = (?c, Inr ())"
    using run out by (simp add: advance_def Let_def)
  moreover have "core_image ?c = (core_image c)\<lparr>ps_appliedIndex := rc_appliedIndex c + int (length (rd_committedEntries r))\<rparr>"
    using end1 f(6,9) by (simp add: core_image_def hardState_def)
  ultimately show ?thesis using wf by simp
qed

context raft_storage
begin

lemma apply_entry_view:
  assumes "ne_persist env = persist" and "0 \<le> ne_retention env" and "applicable env e"
    and "ready (nd_storage nd)" and "view_ok (view (nd_storage nd))"
    and "ps_appliedIndex (view (nd_storage nd)) \<le> le_index e"
    and "le_index e \<le> hs_commitIndex (ps_hardState (view (nd_storage nd)))"
  shows "\<exists>nd'. apply_entry env e nd = Some (nd', Inr ()) \<and> ready (nd_storage nd') \<and>
    view_ok (view (nd_storage nd')) \<and>
    view (nd_storage nd') = (view (nd_storage nd))\<lparr>ps_appliedIndex := le_index e\<rparr>"
proof -
  let ?p = "view (nd_storage nd)"
  note ok = applied_batch_ok [OF assms(6,7,5)]
  obtain st where st: "persist (applied_batch (le_index e)) (nd_storage nd) = (st, Inr ())" "ready st"
    "view st = ?p\<lparr>ps_appliedIndex := le_index e\<rparr>"
    using persist_accepts [OF assms(4,5) ok(1)] ok(2) by auto
  have vok: "view_ok (view st)" using apply_batch_view_ok [OF assms(5) ok(1)] ok(2) st(3) by simp
  show ?thesis
  proof (cases "le_type e = Command")
    case False
    then show ?thesis using assms(1) st vok by (simp add: apply_entry_def persist_at_def)
  next
    case True
    then obtain cid command where c: "le_commandId e = Some cid"
      "ne_decode env (le_payload e) = Inr command"
      and ap: "\<forall>ctx sm. \<exists>sm1 r. ne_apply env command ctx sm = (sm1, Inr r)"
      using assms(3) by (auto simp: applicable_def)
    obtain sm r where sm: "ne_apply env command
        \<lparr>ac_index = le_index e, ac_term = le_term e, ac_commandId = cid\<rparr> (nd_machine nd) = (sm, Inr r)"
      using ap by blast
    have "\<exists>nd'. apply_command env e cid nd = Some (nd', Inr ()) \<and> nd_storage nd' = st"
      using c sm st(1) by (simp add: apply_command_def persist_at_def Let_def assms(1)
          retain_Some [OF assms(2)])
    then show ?thesis using True c st vok by (auto simp: apply_entry_def)
  qed
qed

lemma apply_entries_view:
  assumes "ne_persist env = persist" and "0 \<le> ne_retention env" and "\<forall>e \<in> set es. applicable env e"
    and "ready (nd_storage nd)" and "view_ok (view (nd_storage nd))"
    and "contiguous (ps_appliedIndex (view (nd_storage nd)) + 1) es"
    and "ps_appliedIndex (view (nd_storage nd)) + int (length es)
      \<le> hs_commitIndex (ps_hardState (view (nd_storage nd)))"
  shows "\<exists>nd'. apply_entries env es nd = Some (nd', Inr ()) \<and> ready (nd_storage nd') \<and>
    view (nd_storage nd') = (view (nd_storage nd))\<lparr>ps_appliedIndex :=
      ps_appliedIndex (view (nd_storage nd)) + int (length es)\<rparr>"
  using assms(3-)
proof (induction es arbitrary: nd)
  case Nil
  then show ?case by simp
next
  case (Cons e es)
  let ?p = "view (nd_storage nd)"
  have idx: "le_index e = ps_appliedIndex ?p + 1" using Cons.prems by simp
  obtain nd1 where one: "apply_entry env e nd = Some (nd1, Inr ())" "ready (nd_storage nd1)"
    "view_ok (view (nd_storage nd1))" "view (nd_storage nd1) = ?p\<lparr>ps_appliedIndex := le_index e\<rparr>"
    using apply_entry_view [OF assms(1,2), of e nd] Cons.prems idx by auto
  obtain nd2 where "apply_entries env es nd1 = Some (nd2, Inr ())" "ready (nd_storage nd2)"
    "view (nd_storage nd2) = (view (nd_storage nd1))\<lparr>ps_appliedIndex :=
      ps_appliedIndex (view (nd_storage nd1)) + int (length es)\<rparr>"
    using Cons.IH [of nd1] one Cons.prems idx by auto
  then show ?case using one idx by (simp add: run_bind_def algebra_simps)
qed

text \<open>Processing an event on which the core returns.\<close>

lemma process_synced:
  assumes "ne_persist env = persist" and "0 \<le> ne_retention env"
    and "synced view ready nd" and "event_wf ev" and step: "core_step ev (nd_core nd) = (c, Inr r)"
    and "\<forall>rd \<in> set_option r. \<forall>e \<in> set (rd_committedEntries rd). applicable env e"
  shows "\<exists>nd'. process env ev nd = Some (nd', Inr ()) \<and> synced view ready nd' \<and>
    (r = None \<longrightarrow> nd_core nd' = c) \<and>
    (r \<noteq> None \<longrightarrow> nd_core nd' = c\<lparr>rc_appliedIndex := rc_commitIndex c, rc_outstanding := None\<rparr>)"
proof -
  let ?c0 = "nd_core nd"
  have s: "core_wf ?c0" "snapshotIndex ?c0 \<le> rc_appliedIndex ?c0" "ready (nd_storage nd)"
    "view (nd_storage nd) = core_image ?c0" using assms(3) by (simp_all add: synced_def)
  obtain c1 e where run: "micros ev ?c0 no_effects c1 e" and wf1: "core_wf c1"
    and mk: "makeReady c1 e = (c, r)"
    using core_step_Inr [OF step s(1)] by blast
  note fr = micros_frame [OF run s(1)]
  have snap1: "snapshotIndex c1 \<le> rc_appliedIndex c1" using s(2) fr by (simp add: snapshotIndex_def)
  show ?thesis
  proof (cases r)
    case None
    note n = no_ready_unchanged [OF step [unfolded None] s(1) assms(4)]
    have "c = c1" using mk None by (auto simp: makeReady_def Let_def split: if_splits)
    then have "synced view ready (note_role ro (nd\<lparr>nd_core := c\<rparr>))" for ro
      using n s snap1 by (simp add: synced_def)
    then show ?thesis using step None by (simp add: process_def run_bind_def)
  next
    case (Some rd)
    note mk' = mk [unfolded Some]
    note f = ready_fields [OF mk'] and acc = ready_accepted [OF step [unfolded Some] s(1) assms(4)]
    obtain st where st: "persist (ready_batch rd) (nd_storage nd) = (st, Inr ())" "ready st"
      "view st = core_image c"
      using persist_accepts [OF s(3), of "ready_batch rd"] image_view_ok [OF s(1)] acc
      unfolding s(4) by auto
    let ?nd1 = "send_all env (rd_outboundMessages rd) (nd\<lparr>nd_core := c, nd_storage := st\<rparr>)"
    have wfc: "core_wf c" using f(9) core_wf_bookkeeping [where c = c1] wf1 by simp
    have app: "rc_appliedIndex c = rc_appliedIndex c1" "rc_commitIndex c = rc_commitIndex c1"
      using f(9) by simp_all
    have cont: "contiguous (rc_appliedIndex c + 1) (rd_committedEntries rd)"
      "rc_appliedIndex c + int (length (rd_committedEntries rd)) = rc_commitIndex c"
      using committed_contiguous(1,3) [OF wf1] snap1 f(6) app by simp_all
    obtain nd2 where nd2: "apply_entries env (rd_committedEntries rd) ?nd1 = Some (nd2, Inr ())"
      "ready (nd_storage nd2)" "view (nd_storage nd2) = (core_image c)\<lparr>ps_appliedIndex :=
        rc_appliedIndex c + int (length (rd_committedEntries rd))\<rparr>"
      using apply_entries_view [OF assms(1,2), of "rd_committedEntries rd" ?nd1] assms(6) Some st(2,3)
        image_view_ok [OF wfc] cont by auto
    have core2: "nd_core nd2 = c" using apply_entries_machine [OF nd2(1)] by simp
    obtain c' where c': "advance (rd_id rd) c = (c', Inr ())" "core_wf c'" "rc_outstanding c' = None"
      "c' = c\<lparr>rc_appliedIndex := rc_commitIndex c, rc_outstanding := None\<rparr>"
      "core_image c' = (core_image c)\<lparr>ps_appliedIndex := rc_appliedIndex c + int (length (rd_committedEntries rd))\<rparr>"
      using advance_ready [OF mk' wf1 snap1] by blast
    have "process env ev nd = Some (note_role (rc_role ?c0) (nd2\<lparr>nd_core := c'\<rparr>), Inr ())"
      using step Some st(1) nd2(1) core2 c'(1) assms(1)
      by (simp add: process_def process_ready_def persist_at_def run_bind_def)
    moreover have "snapshotIndex c' \<le> rc_appliedIndex c'"
      using core_wf_log_ok [OF c'(2)] c'(4) by (simp add: log_ok_def)
    then have "synced view ready (note_role ro (nd2\<lparr>nd_core := c'\<rparr>))" for ro
      using c' nd2 by (simp add: synced_def)
    ultimately show ?thesis using Some c'(4) by simp
  qed
qed

end

section \<open>Every path, failures included\<close>

text \<open>The node touches its storage through \<open>persist\<close> only, and never with a snapshot.\<close>

definition persisted_only :: "('st, 'sm, 'net, 'cmd, 'res) node_env \<Rightarrow> 'st \<Rightarrow> 'st \<Rightarrow> bool" where
  "persisted_only env st st' \<longleftrightarrow>
     (\<exists>bs. (\<forall>b \<in> set bs. pb_snapshot b = None) \<and> st' = persist_all (ne_persist env) bs st)"

lemma persist_all_append: "persist_all p (xs @ ys) s = persist_all p ys (persist_all p xs s)"
  by (induction xs arbitrary: s) auto

lemma persisted_only_refl: "persisted_only env st st"
  unfolding persisted_only_def by (intro exI [of _ "[]"]) simp

lemma persisted_only_one:
  "pb_snapshot b = None \<Longrightarrow> ne_persist env b st = (st', r) \<Longrightarrow> persisted_only env st st'"
  unfolding persisted_only_def by (intro exI [of _ "[b]"]) simp

lemma persisted_only_trans:
  assumes "persisted_only env st st'" and "persisted_only env st' st''"
  shows "persisted_only env st st''"
proof -
  obtain bs cs where "\<forall>b \<in> set bs. pb_snapshot b = None" "st' = persist_all (ne_persist env) bs st"
    "\<forall>b \<in> set cs. pb_snapshot b = None" "st'' = persist_all (ne_persist env) cs st'"
    using assms by (auto simp: persisted_only_def)
  then show ?thesis
    unfolding persisted_only_def by (intro exI [of _ "bs @ cs"]) (auto simp: persist_all_append)
qed

lemma applied_batch_snapshot [simp]: "pb_snapshot (applied_batch i) = None"
  by (simp add: applied_batch_def)

lemma apply_command_persists:
  assumes "apply_command env e cid nd = Some (nd', r)"
  shows "persisted_only env (nd_storage nd) (nd_storage nd')"
proof -
  have "nd_storage nd' = nd_storage nd \<or>
      (\<exists>x. ne_persist env (applied_batch (le_index e)) (nd_storage nd) = (nd_storage nd', x))"
    using assms
    by (auto simp: apply_command_def persist_at_def Let_def split: sum.splits prod.splits option.splits)
  then show ?thesis
    using persisted_only_refl persisted_only_one [OF applied_batch_snapshot] by metis
qed

lemma apply_entry_persists:
  assumes "apply_entry env e nd = Some (nd', r)"
  shows "persisted_only env (nd_storage nd) (nd_storage nd')"
proof (cases "le_type e = Command \<and> le_commandId e \<noteq> None")
  case True
  then obtain cid nd1 r1 where "apply_command env e cid nd = Some (nd1, r1)"
    "nd_storage nd' = nd_storage nd1"
    using assms by (auto simp: apply_entry_def Let_def split: option.splits prod.splits sum.splits)
  then show ?thesis using apply_command_persists by metis
next
  case False
  then have "nd_storage nd' = nd_storage nd \<or>
      (\<exists>x. ne_persist env (applied_batch (le_index e)) (nd_storage nd) = (nd_storage nd', x))"
    using assms by (auto simp: apply_entry_def persist_at_def split: prod.splits if_splits)
  then show ?thesis
    using persisted_only_refl persisted_only_one [OF applied_batch_snapshot] by metis
qed

lemma apply_entries_persists:
  "apply_entries env es nd = Some (nd', r) \<Longrightarrow> persisted_only env (nd_storage nd) (nd_storage nd')"
proof (induction env es nd rule: apply_entries.induct)
  case (1 env nd)
  then show ?case by (simp add: persisted_only_refl)
next
  case (2 env e es nd)
  obtain nd1 x where one: "apply_entry env e nd = Some (nd1, x)"
    using "2.prems" by (auto simp: run_bind_def split: option.splits)
  note p = apply_entry_persists [OF one]
  show ?case
  proof (cases x)
    case (Inl err)
    then show ?thesis using "2.prems" one p by (simp add: run_bind_def)
  next
    case (Inr u)
    then have "apply_entries env es nd1 = Some (nd', r)" using "2.prems" one by (simp add: run_bind_def)
    then show ?thesis using persisted_only_trans [OF p "2.IH"] by simp
  qed
qed

lemma process_ready_persists:
  assumes "process_ready env rd nd = Some (nd', r)" and "rd_snapshot rd = None"
  shows "persisted_only env (nd_storage nd) (nd_storage nd')"
proof -
  obtain st x where st: "ne_persist env (ready_batch rd) (nd_storage nd) = (st, x)" by fastforce
  have p: "persisted_only env (nd_storage nd) st"
    using assms(2) st by (intro persisted_only_one) (simp_all add: ready_batch_def)
  show ?thesis
  proof (cases x)
    case (Inl err)
    then show ?thesis using assms(1) st p by (auto simp: process_ready_def persist_at_def Let_def)
  next
    case (Inr u)
    let ?nd1 = "send_all env (rd_outboundMessages rd) (nd\<lparr>nd_storage := st\<rparr>)"
    obtain nd2 y where "apply_entries env (rd_committedEntries rd) ?nd1 = Some (nd2, y)"
      and "nd_storage nd' = nd_storage nd2"
      using assms(1) st Inr
      by (auto simp: process_ready_def persist_at_def run_bind_def split: option.splits sum.splits prod.splits)
    then show ?thesis using apply_entries_persists [of env _ ?nd1 nd2 y] persisted_only_trans [OF p] by simp
  qed
qed

lemma process_persists:
  assumes "process env ev nd = Some (nd', r)" and "core_wf (nd_core nd)"
  shows "persisted_only env (nd_storage nd) (nd_storage nd')"
proof -
  obtain c x where step: "core_step ev (nd_core nd) = (c, x)" by fastforce
  consider (throws) err where "x = Inl err" | (quiet) "x = Inr None" | (ready) rd where "x = Inr (Some rd)"
    by (cases x) auto
  then show ?thesis
  proof cases
    case (ready rd)
    obtain c1 e where run: "micros ev (nd_core nd) no_effects c1 e" and mk: "makeReady c1 e = (c, Some rd)"
      using core_step_Inr [OF step [unfolded ready] assms(2)] by blast
    have "rd_snapshot rd = None"
      using ready_fields(4) [OF mk] micros_frame [OF run assms(2)] by (simp add: no_effects_def)
    moreover obtain nd1 y where "process_ready env rd (nd\<lparr>nd_core := c\<rparr>) = Some (nd1, y)"
      "nd_storage nd' = nd_storage nd1"
      using assms(1) step ready by (auto simp: process_def run_bind_def split: option.splits sum.splits)
    ultimately show ?thesis using process_ready_persists by fastforce
  qed (use assms(1) step persisted_only_refl in \<open>auto simp: process_def run_bind_def\<close>)
qed

context atomic_storage
begin

lemma process_safe:
  assumes "ne_persist env = persist" and "core_wf (nd_core nd)" and "view_ok (view (nd_storage nd))"
    and "process env ev nd = Some (nd', r)"
  shows "view_ok (view (nd_storage nd')) \<and> safe_change (view (nd_storage nd)) (view (nd_storage nd'))"
  using process_persists [OF assms(4,2)] persist_all_safe [OF assms(3)]
  by (auto simp: persisted_only_def assms(1))

end

section \<open>The state machine is the run of the applied prefix\<close>

definition applied_part :: "raft_core \<Rightarrow> log_entry list" where
  "applied_part c = filter (\<lambda>e. le_index e \<le> rc_appliedIndex c) (rc_entries c)"

definition machine_ok :: "('st, 'sm, 'net, 'cmd, 'res) node_env \<Rightarrow> 'sm
    \<Rightarrow> ('st, 'sm, 'net, 'res) raft_node \<Rightarrow> bool" where
  "machine_ok env sm0 nd \<longleftrightarrow> run_commands env (applied_part (nd_core nd)) sm0 = (nd_machine nd, Inr ())"

lemma contiguous_split:
  "contiguous b L \<Longrightarrow> a \<le> k \<Longrightarrow> filter (\<lambda>e. le_index e \<le> k) L =
    filter (\<lambda>e. le_index e \<le> a) L @ filter (\<lambda>e. a < le_index e \<and> le_index e \<le> k) L"
proof (induction L arbitrary: b)
  case (Cons e L)
  have "a < b \<Longrightarrow> filter (\<lambda>e. le_index e \<le> a) L = []"
    using Cons.prems contiguous_bounds [of "b + 1" L] by (fastforce simp: filter_empty_conv)
  then show ?case using Cons.IH [of "b + 1"] Cons.prems by auto
qed simp

lemma step_keeps_applied:
  assumes "micros ev c no_effects c1 e" and "core_wf c" and "event_wf ev"
  shows "applied_part c1 = applied_part c"
proof -
  let ?b = "\<lparr>pb_hardState = ef_hardState e, pb_truncateFrom = ef_truncateFrom e,
     pb_entries = ef_entries e, pb_snapshot = ef_snapshot e, pb_appliedIndex = None\<rparr>"
  have "batch_ok ?b (core_image c) \<and> apply_batch ?b (core_image c) = core_image c1"
    by (rule moves_batch [OF assms]) simp_all
  then have "safe_change (core_image c) (core_image c1)"
    using apply_batch_safe [OF image_view_ok [OF assms(2)], of ?b] by simp
  then have com: "filter (\<lambda>e. le_index e \<le> rc_commitIndex c) (rc_entries c1) =
      filter (\<lambda>e. le_index e \<le> rc_commitIndex c) (rc_entries c)"
    by (simp add: safe_change_def committed_part_def Let_def)
  have a: "rc_appliedIndex c \<le> rc_commitIndex c" "rc_appliedIndex c1 = rc_appliedIndex c"
    using assms(2) micros_frame [OF assms(1,2)] by (simp_all add: core_wf_def assertInvariants_None)
  have "filter (\<lambda>e. le_index e \<le> rc_appliedIndex c) (filter (\<lambda>e. le_index e \<le> rc_commitIndex c) xs) =
      filter (\<lambda>e. le_index e \<le> rc_appliedIndex c) xs" for xs
    using a(1) by (induction xs) auto
  then show ?thesis unfolding applied_part_def a(2) by (metis com)
qed

lemma process_machine:
  assumes "process env ev nd = Some (nd', Inr ())" and "core_wf (nd_core nd)" and "event_wf ev"
    and "snapshotIndex (nd_core nd) \<le> rc_appliedIndex (nd_core nd)"
    and "machine_ok env sm0 nd"
  shows "machine_ok env sm0 nd'"
proof -
  obtain c r where step: "core_step ev (nd_core nd) = (c, Inr r)"
    using assms(1) by (auto simp: process_def split: prod.splits sum.splits)
  obtain c1 e where run: "micros ev (nd_core nd) no_effects c1 e" and wf1: "core_wf c1"
    and mk: "makeReady c1 e = (c, r)"
    using core_step_Inr [OF step assms(2)] by blast
  note same = step_keeps_applied [OF run assms(2,3)]
  have snap: "snapshotIndex c1 \<le> rc_appliedIndex c1"
    using micros_frame [OF run assms(2)] assms(4) by (simp add: snapshotIndex_def)
  show ?thesis
  proof (cases r)
    case None
    then have "c = c1" using mk by (auto simp: makeReady_def Let_def split: if_splits)
    then show ?thesis
      using assms(1,5) step None same by (auto simp: process_def run_bind_def machine_ok_def)
  next
    case (Some rd)
    note mk' = mk [unfolded Some]
    note f = ready_fields [OF mk']
    obtain st x where st: "ne_persist env (ready_batch rd) (nd_storage nd) = (st, x)" by fastforce
    let ?nd1 = "send_all env (rd_outboundMessages rd) (nd\<lparr>nd_core := c, nd_storage := st\<rparr>)"
    have "process_ready env rd (nd\<lparr>nd_core := c\<rparr>) \<noteq> None" "x = Inr ()"
      using assms(1) step Some st
      by (auto simp: process_def process_ready_def persist_at_def run_bind_def Let_def
          split: option.splits sum.splits)
    then obtain nd2 c' where nd2: "apply_entries env (rd_committedEntries rd) ?nd1 = Some (nd2, Inr ())"
      and adv: "advance (rd_id rd) (nd_core nd2) = (c', Inr ())"
      and nd': "nd_core nd' = c'" "nd_machine nd' = nd_machine nd2"
      using assms(1) step Some st
      by (auto simp: process_def process_ready_def persist_at_def run_bind_def
          split: option.splits sum.splits prod.splits)
    have m: "run_commands env (committedEntries c1) (nd_machine nd) = (nd_machine nd2, Inr ())"
      "nd_core nd2 = c"
      using apply_entries_machine [OF nd2] f(6) by simp_all
    have c': "c' = c\<lparr>rc_appliedIndex := rc_commitIndex c, rc_outstanding := None\<rparr>"
      using advance_ready [OF mk' wf1 snap] adv m(2) by auto
    have cont: "contiguous (snapshotIndex c1 + 1) (rc_entries c1)"
      using core_wf_log_ok [OF wf1] by (simp add: log_ok_def)
    have "rc_appliedIndex c1 \<le> rc_commitIndex c1" using wf1 by (simp add: core_wf_def assertInvariants_None)
    then have "applied_part c' = applied_part c1 @ committedEntries c1"
      using contiguous_split [OF cont] f(9) c' by (simp add: applied_part_def committedEntries_def)
    then show ?thesis
      using assms(5) m(1) nd' same by (simp add: machine_ok_def run_commands_append)
  qed
qed

section \<open>Recovery\<close>

lemma new_RaftCore_image:
  assumes "new_RaftCore opts = Inr c" and "co_persisted opts = Some p" and "view_ok p"
    and "ps_appliedIndex p = hs_commitIndex (ps_hardState p)"
  shows "core_wf c \<and> rc_outstanding c = None \<and> core_image c = p \<and>
    snapshotIndex c \<le> rc_appliedIndex c \<and> rc_role c = Follower \<and> rc_nodeId c = co_nodeId opts \<and>
    rc_members c = co_members opts"
proof -
  have f: "rc_currentTerm c = hs_currentTerm (ps_hardState p)" "rc_votedFor c = hs_votedFor (ps_hardState p)"
    "rc_commitIndex c = hs_commitIndex (ps_hardState p)" "rc_appliedIndex c = ps_appliedIndex p"
    "rc_snapshot c = ps_snapshot p" "rc_entries c = ps_entries p" "rc_outstanding c = None"
    "rc_role c = Follower" "rc_votes c = {}" "rc_members c = co_members opts"
    "rc_nodeId c = co_nodeId opts" "assertInvariants c = None"
    "co_nodeId opts \<in> set (co_members opts)" "card (set (co_members opts)) = length (co_members opts)"
    using assms(1,2) by (auto simp: new_RaftCore_def Let_def split: if_splits option.splits)
  have "distinct (co_members opts)" using f(14) by (rule card_distinct)
  then have "core_wf c"
    using f assms(3) by (simp add: core_wf_def leader_table_def view_ok_def
        snapshot_index_core [of c, symmetric])
  moreover have "core_image c = p" using f by (simp add: core_image_def hardState_def)
  moreover have "snapshotIndex c \<le> rc_appliedIndex c"
    using assms(3,4) f by (simp add: view_ok_def snapshot_index_core [of c, symmetric])
  ultimately show ?thesis using f by simp
qed

context raft_storage
begin

text \<open>Marking what recovery has replayed as applied.\<close>

lemma settle_synced:
  assumes "settle_applied persist load (view st) st = (st2, Inr p)" and "ready st" and "view_ok (view st)"
  shows "p = (view st)\<lparr>ps_appliedIndex := hs_commitIndex (ps_hardState (view st))\<rparr> \<and>
    ready st2 \<and> view st2 = p \<and> view_ok p"
proof -
  let ?p = "view st" and ?k = "hs_commitIndex (ps_hardState (view st))"
  have a: "ps_appliedIndex ?p \<le> ?k" using assms(3) by (simp add: view_ok_def)
  note ok = applied_batch_ok [OF a order_refl assms(3)]
  have "p = ?p\<lparr>ps_appliedIndex := ?k\<rparr> \<and> ready st2 \<and> view st2 = p"
  proof (cases "ps_appliedIndex ?p < ?k")
    case True
    obtain s' where "persist (applied_batch ?k) st = (s', Inr ())" "ready s'"
      "view s' = ?p\<lparr>ps_appliedIndex := ?k\<rparr>"
      using persist_accepts [OF assms(2,3) ok(1)] ok(2) by auto
    then show ?thesis using assms(1) True load_view [of s'] by (auto simp: settle_applied_def)
  next
    case False
    then have "?p\<lparr>ps_appliedIndex := ?k\<rparr> = ?p" using a by simp
    then show ?thesis using assms(1,2) False by (auto simp: settle_applied_def)
  qed
  moreover have "view_ok (?p\<lparr>ps_appliedIndex := ?k\<rparr>)" using assms(3) by (simp add: view_ok_def)
  ultimately show ?thesis by simp
qed

lemma create_synced:
  assumes "create_node env opts net st sm = (x, Inr nd)"
    and env: "ne_persist env = persist" "ne_load env = load"
    and "ready st" and "view_ok (view st)"
  shows "synced view ready nd \<and>
    core_image (nd_core nd) = (view st)\<lparr>ps_appliedIndex := hs_commitIndex (ps_hardState (view st))\<rparr> \<and>
    (ps_snapshot (view st) = None \<longrightarrow> machine_ok env sm nd)"
proof -
  let ?p = "view st" and ?k = "hs_commitIndex (ps_hardState (view st))"
  have ld: "ne_load env st = (st, Inr ?p)" using load_view [OF assms(4)] env by simp
  obtain sm1 sm2 st2 p2 c where
    res: "restore_machine env ?p sm = (sm1, Inr ())" and
    rep: "replay env (snapshot_index (ps_snapshot ?p)) ?k (ps_entries ?p) sm1 = (sm2, Inr ())" and
    set: "settle_applied (ne_persist env) (ne_load env) ?p st = (st2, Inr p2)" and
    new: "new_RaftCore (core_options opts p2) = Inr c" and
    nd: "nd = new_node c st2 sm2 net"
    using assms(1) ld unfolding create_node_def by (auto split: option.splits sum.splits prod.splits)
  have p2: "p2 = ?p\<lparr>ps_appliedIndex := ?k\<rparr> \<and> ready st2 \<and> view st2 = p2 \<and> view_ok p2"
    using settle_synced [of st st2 p2] set env assms(4,5) by (simp only:)
  then have c: "core_wf c \<and> rc_outstanding c = None \<and> core_image c = p2 \<and>
      snapshotIndex c \<le> rc_appliedIndex c"
    using new_RaftCore_image [OF new] p2 by (simp add: core_options_def)
  have "machine_ok env sm nd" if none: "ps_snapshot ?p = None"
  proof -
    have cont: "contiguous 1 (ps_entries ?p)" using assms(5) none by (simp add: view_ok_def snapshot_index_def)
    have "rc_entries c = ps_entries ?p" "rc_appliedIndex c = ?k"
      using c p2 image_simps [of c] by simp_all
    moreover have "filter (\<lambda>e. 0 < le_index e \<and> le_index e \<le> ?k) (ps_entries ?p) =
        filter (\<lambda>e. le_index e \<le> ?k) (ps_entries ?p)"
      using contiguous_bounds [OF cont] by (intro filter_cong) fastforce+
    moreover have "sm1 = sm" using res none by (simp add: restore_machine_def)
    ultimately show ?thesis
      using rep none
      by (simp add: machine_ok_def applied_part_def nd new_node_def replay_run_commands snapshot_index_def)
  qed
  then show ?thesis using c p2 by (simp add: synced_def nd new_node_def)
qed

end

end
