(* ===== verification/NodeTheorems.thy ===== *)
theory NodeTheorems
  imports NodeFacts
begin

text \<open>
  The properties of the node runtime, class \<open>RaftNode\<close>: storage and core stay in step, recovery,
  the state machine as the run of the applied prefix, persistence before sending, failures, and
  deduplication by command ID.  The instances run a node with an adding state machine over the
  durable and the in-memory storage.
\<close>


section \<open>A concrete node\<close>

definition ex_env :: "(persist_batch \<Rightarrow> 'st \<Rightarrow> ('st, unit) io)
    \<Rightarrow> ('st \<Rightarrow> ('st, persisted_raft_state) io) \<Rightarrow> ('st \<Rightarrow> 'st)
    \<Rightarrow> ('st, int, raft_message list, nat, int) node_env" where
  "ex_env persist load close =
     \<lparr>ne_persist = persist, ne_load = load, ne_close = close,
      ne_start = (\<lambda>net. (net, Inr ())), ne_send = (\<lambda>n m net. (net @ [m], Inr ())),
      ne_stop = (\<lambda>net. net), ne_apply = (\<lambda>k ctx sm. (sm + int k, Inr (sm + int k))),
      ne_restore = (\<lambda>bs ctx sm. (int (length bs), Inr ())), ne_encode = (\<lambda>k. Inr (replicate k 0)),
      ne_decode = (\<lambda>bs. Inr (length bs)), ne_hash = (\<lambda>bs. nat_to_string (length bs)),
      ne_retention = 2\<rparr>"

abbreviation durable_env :: "(storage_handle, int, raft_message list, nat, int) node_env" where
  "durable_env \<equiv> ex_env handle_persist handle_load handle_close"

abbreviation memory_env :: "(memory_storage, int, raft_message list, nat, int) node_env" where
  "memory_env \<equiv> ex_env memory_persist memory_load memory_close"

text \<open>A durable storage whose writes of an applied index fail.\<close>

definition failing_persist :: "persist_batch \<Rightarrow> storage_handle \<Rightarrow> (storage_handle, unit) io" where
  "failing_persist b h = (if pb_appliedIndex b \<noteq> None then (h, Inl (PlainError ''disk full''))
     else handle_persist b h)"

definition ex_node_options :: "node_id list \<Rightarrow> node_options" where
  "ex_node_options ms = \<lparr>no_nodeId = ''a'', no_clusterId = ''k'', no_members = ms,
     no_heartbeatInterval = 2, no_electionTimeoutMinMs = 10, no_electionTimeoutMaxMs = 20,
     no_maxMessageBytes = None\<rparr>"

definition node_of :: "(('st \<times> 'sm) \<times> (raft_error + ('st, 'sm, 'net, 'res) raft_node))
    \<Rightarrow> ('st, 'sm, 'net, 'res) raft_node" where
  "node_of r = (case snd r of Inr nd \<Rightarrow> nd)"

definition after :: "('n, 'a) run \<Rightarrow> 'n" where
  "after r = fst (the r)"

text \<open>A single node over an empty storage: started, then leader with its first entry applied.\<close>

definition ex_started :: "(storage_handle, int, raft_message list, int) raft_node" where
  "ex_started = fst (node_start durable_env (node_of (create_node durable_env (ex_node_options [''a'']) []
     (handle_open new_durable_state) 0)))"

definition ex_leading :: "(storage_handle, int, raft_message list, int) raft_node" where
  "ex_leading = after (campaign durable_env 10 ex_started)"

definition ex_memory_node :: "(memory_storage, int, raft_message list, int) raft_node" where
  "ex_memory_node = node_of (create_node memory_env (ex_node_options [''a''])  [] new_memory_storage 0)"

lemma ex_applicable:
  "le_type e = Command \<Longrightarrow> le_commandId e \<noteq> None \<Longrightarrow> applicable (ex_env p l c) e"
  "le_type e \<noteq> Command \<Longrightarrow> applicable (ex_env p l c) e"
  by (auto simp: applicable_def ex_env_def)

text \<open>The node after the command 3 with ID \<open>x\<close>, and the storage a restart of it opens.\<close>

definition ex_applied :: "(storage_handle, int, raft_message list, int) raft_node" where
  "ex_applied = (case propose_node durable_env 3 ''x'' ex_leading of Some (nd, p) \<Rightarrow> nd)"

definition ex_command :: "int \<Rightarrow> nat \<Rightarrow> log_entry" where
  "ex_command i k = \<lparr>le_index = i, le_term = 1, le_type = Command, le_payload = replicate k 0,
     le_commandId = Some ''x''\<rparr>"

section \<open>Lemmas on whole calls\<close>

lemma outstanding_after:
  "core_step ev c = (c', Inr (Some rd)) \<Longrightarrow> rc_outstanding c' = Some rd"
  by (auto simp: core_step_def and_then_Inr makeReady_def Let_def
      split: if_splits prod.splits option.splits)

lemma process_keeps_core:
  assumes "process env ev nd = Some (nd', Inr ())" and "core_wf (nd_core nd)"
    and "snapshotIndex (nd_core nd) \<le> rc_appliedIndex (nd_core nd)"
  shows "core_wf (nd_core nd') \<and> snapshotIndex (nd_core nd') \<le> rc_appliedIndex (nd_core nd')"
proof -
  obtain c r where step: "core_step ev (nd_core nd) = (c, Inr r)"
    using assms(1) by (auto simp: process_def split: prod.splits sum.splits)
  obtain c1 e where run: "micros ev (nd_core nd) no_effects c1 e" and wf1: "core_wf c1"
    and mk: "makeReady c1 e = (c, r)"
    using core_step_Inr [OF step assms(2)] by blast
  have snap: "snapshotIndex c1 \<le> rc_appliedIndex c1"
    using micros_frame [OF run assms(2)] assms(3) by (simp add: snapshotIndex_def)
  show ?thesis
  proof (cases r)
    case None
    then have "c = c1" using mk by (auto simp: makeReady_def Let_def split: if_splits)
    then show ?thesis using assms(1) step None wf1 snap by (auto simp: process_def run_bind_def)
  next
    case (Some rd)
    obtain nd2 nd3 c' where nd2: "apply_entries env (rd_committedEntries rd) nd3 = Some (nd2, Inr ())"
      and adv: "advance (rd_id rd) (nd_core nd2) = (c', Inr ())" and "nd_core nd3 = c"
      and nd': "nd_core nd' = c'"
      using assms(1) step Some
      by (auto simp: process_def process_ready_def persist_at_def run_bind_def Let_def
          split: option.splits sum.splits prod.splits)
    then have "nd_core nd2 = c" using apply_entries_machine [OF nd2] by simp
    then have "core_wf c'" "c' = c\<lparr>rc_appliedIndex := rc_commitIndex c, rc_outstanding := None\<rparr>"
      using advance_ready [OF mk [unfolded Some] wf1 snap] adv by auto
    then show ?thesis using nd' core_wf_log_ok [of c'] by (simp add: log_ok_def)
  qed
qed

text \<open>A node that was created over a well-formed storage without snapshot and has since processed
  events without an error.\<close>

inductive served :: "(storage_handle, 'sm, 'net, 'cmd, 'res) node_env \<Rightarrow> 'sm
    \<Rightarrow> (storage_handle, 'sm, 'net, 'res) raft_node \<Rightarrow> bool" for env sm0 where
  created: "create_node env opts net st sm0 = (x, Inr nd) \<Longrightarrow> handle_ready st \<Longrightarrow>
    view_ok (handle_view st) \<Longrightarrow> ps_snapshot (handle_view st) = None \<Longrightarrow> served env sm0 nd"
| processed: "served env sm0 nd \<Longrightarrow> event_wf ev \<Longrightarrow> process env ev nd = Some (nd', Inr ()) \<Longrightarrow>
    served env sm0 nd'"
| changed: "served env sm0 nd \<Longrightarrow> nd_core nd' = nd_core nd \<Longrightarrow> nd_machine nd' = nd_machine nd \<Longrightarrow>
    served env sm0 nd'"

lemma served_ok:
  assumes "served env sm0 nd" and "ne_persist env = handle_persist" and "ne_load env = handle_load"
  shows "core_wf (nd_core nd) \<and> snapshotIndex (nd_core nd) \<le> rc_appliedIndex (nd_core nd) \<and>
    machine_ok env sm0 nd"
  using assms(1)
proof induction
  case (created opts net st x nd)
  then show ?case using durable.create_synced [OF created(1) assms(2,3)] by (simp add: synced_def)
next
  case (processed nd ev nd')
  then show ?case using process_keeps_core process_machine by metis
next
  case (changed nd nd')
  then show ?case by (simp add: machine_ok_def)
qed

lemma node_fail_fields:
  "nd_net (node_fail err nd) = nd_net nd" "nd_healthy (node_fail err nd) = False"
  "nd_pending (node_fail err nd) = []"
  "nd_settled (node_fail err nd) =
    nd_settled nd @ map (\<lambda>(k, p). (pn_ticket p, Inl err)) (nd_pending nd)"
  "nd_net (emit ev nd) = nd_net nd" "nd_pending (emit ev nd) = nd_pending nd"
  "nd_settled (emit ev nd) = nd_settled nd"
  by (simp_all add: node_fail_def reject_pending_def emit_def)

lemma send_all_frame:
  "nd_healthy (send_all env ms nd) = nd_healthy nd" "nd_started (send_all env ms nd) = nd_started nd"
  "nd_pending (send_all env ms nd) = nd_pending nd" "nd_settled (send_all env ms nd) = nd_settled nd"
  by (induction env ms nd rule: send_all.induct) (auto simp: emit_def split: prod.splits sum.splits)

lemma resolve_completed [simp]: "nd_completed (resolve_pending cid r nd) = nd_completed nd"
  by (simp add: resolve_pending_def split: option.split)

lemma apply_entry_Inr:
  assumes "le_type e = Command" and "le_commandId e = Some cid"
    and "ne_decode env (le_payload e) = Inr command"
    and "ne_apply env command \<lparr>ac_index = le_index e, ac_term = le_term e, ac_commandId = cid\<rparr>
      (nd_machine nd) = (sm, Inr r)"
    and "ne_persist env (applied_batch (le_index e)) (nd_storage nd) = (st, Inr ())"
    and "0 \<le> ne_retention env"
  shows "apply_entry env e nd = Some
    ((resolve_pending cid r (nd\<lparr>nd_machine := sm, nd_storage := st\<rparr>))\<lparr>nd_completed :=
       (let all = map_set cid \<lparr>cp_hash = ne_hash env (le_payload e), cp_result = r\<rparr> (nd_completed nd)
        in drop (length all - nat (ne_retention env)) all)\<rparr>, Inr ())"
  using assms by (simp add: apply_entry_def apply_command_def persist_at_def Let_def retain_Some)

section \<open>Core, storage and state machine\<close>

text \<open>Over the in-memory storage a node keeps core and storage in step: an event on which the
  core returns is processed to the end without an error, the storage accepts every batch, and
  afterwards a load returns exactly the image of the core, applied index included, and no batch is
  outstanding.\<close>

theorem process_keeps_sync:
  assumes "ne_persist env = memory_persist" and "0 \<le> ne_retention env"
    and "synced memory_view memory_ready nd" and "event_wf ev"
    and "core_step ev (nd_core nd) = (c, Inr r)"
    and "\<forall>rd \<in> set_option r. \<forall>e \<in> set (rd_committedEntries rd). applicable env e"
  shows "\<exists>nd'. process env ev nd = Some (nd', Inr ()) \<and> synced memory_view memory_ready nd'"
  using memory.process_synced [OF assms] by blast

theorem process_keeps_sync_witness:
  "\<exists>nd'. process memory_env (ElectionTimeout 10) ex_memory_node = Some (nd', Inr ()) \<and>
    synced memory_view memory_ready nd'"
proof (rule process_keeps_sync)
  let ?r = "core_step (ElectionTimeout 10) (nd_core ex_memory_node)"
  show "ne_persist memory_env = memory_persist" "0 \<le> ne_retention memory_env"
    by (simp_all add: ex_env_def)
  show "synced memory_view memory_ready ex_memory_node" by code_simp
  show "event_wf (ElectionTimeout 10)" by code_simp
  show "?r = (fst ?r, Inr (case snd ?r of Inr r \<Rightarrow> r))" by code_simp
  have "list_all (\<lambda>e. le_type e \<noteq> Command)
      (case (case snd ?r of Inr r \<Rightarrow> r) of None \<Rightarrow> [] | Some rd \<Rightarrow> rd_committedEntries rd)" by code_simp
  then show "\<forall>rd \<in> set_option (case snd ?r of Inr r \<Rightarrow> r). \<forall>e \<in> set (rd_committedEntries rd).
      applicable memory_env e"
    by (auto simp: list_all_iff intro: ex_applicable(2))
qed

text \<open>C31: The state machine of a node is always the result of running the commands of the applied
  prefix of its log, in order and once each, from the initial state: after creation over any
  well-formed storage without a snapshot (recovery replays the committed prefix) and after any number
  of processed events.\<close>

theorem machine_runs_applied_prefix:
  assumes "served env sm0 nd" and "ne_persist env = handle_persist" and "ne_load env = handle_load"
  shows "run_commands env (filter (\<lambda>e. le_index e \<le> rc_appliedIndex (nd_core nd)) (rc_entries (nd_core nd))) sm0
    = (nd_machine nd, Inr ())"
  using served_ok [OF assms] by (simp add: machine_ok_def applied_part_def)

lemma ex_applied_served: "served durable_env 0 ex_applied"
proof -
  let ?create = "create_node durable_env (ex_node_options [''a'']) [] (handle_open new_durable_state) 0"
  have "?create = (fst ?create, Inr (node_of ?create))" by code_simp
  then have "served durable_env 0 (node_of ?create)"
    by (rule served.created) code_simp+
  then have started: "served durable_env 0 ex_started" by (rule served.changed) code_simp+
  have "process durable_env (ElectionTimeout 10) ex_started = Some (ex_leading, Inr ())"
    by code_simp
  then have "served durable_env 0 ex_leading"
    using served.processed [OF started, of "ElectionTimeout 10" ex_leading] by (simp add: event_wf_def)
  then have begun: "served durable_env 0 (fst (propose_begin durable_env 3 ''x'' ex_leading))"
    by (rule served.changed) code_simp+
  have "process durable_env (Propose ''x'' [0, 0, 0])
      (fst (propose_begin durable_env 3 ''x'' ex_leading)) = Some (ex_applied, Inr ())" by code_simp
  then show ?thesis
    using served.processed [OF begun, of "Propose ''x'' [0, 0, 0]" ex_applied] by (simp add: event_wf_def)
qed

theorem machine_runs_applied_prefix_witness:
  "run_commands durable_env (filter (\<lambda>e. le_index e \<le> rc_appliedIndex (nd_core ex_applied))
      (rc_entries (nd_core ex_applied))) 0 = (nd_machine ex_applied, Inr ())"
  by (rule machine_runs_applied_prefix [OF ex_applied_served]) (simp_all add: ex_env_def)

text \<open>C32: A restart loses nothing a node has promised: when a node whose storage is in step is created
  again over the state its storage leaves behind, the new core has the same term, vote, commit index,
  snapshot and log, and when the old node had applied what it had committed, the replay rebuilds the
  very same state machine.\<close>

theorem restart_recovers:
  assumes "synced handle_view handle_ready nd" and "machine_ok env sm0 nd"
    and "ne_persist env = handle_persist" and "ne_load env = handle_load"
    and "create_node env opts net (handle_open (sh_state (nd_storage nd))) sm0 = (x, Inr nd')"
  shows "hardState (nd_core nd') = hardState (nd_core nd) \<and>
    rc_entries (nd_core nd') = rc_entries (nd_core nd) \<and>
    rc_snapshot (nd_core nd') = rc_snapshot (nd_core nd) \<and>
    (rc_snapshot (nd_core nd) = None \<longrightarrow>
      rc_appliedIndex (nd_core nd) = rc_commitIndex (nd_core nd) \<longrightarrow> nd_machine nd' = nd_machine nd)"
proof -
  let ?st = "handle_open (sh_state (nd_storage nd))"
  have st: "handle_ready ?st" "handle_view ?st = core_image (nd_core nd)" "view_ok (handle_view ?st)"
    using assms(1) image_view_ok
    by (simp_all add: synced_def handle_ready_def handle_view_def handle_open_def)
  note r = durable.create_synced [OF assms(5,3,4) st(1,3)]
  have im: "core_image (nd_core nd') = (core_image (nd_core nd))\<lparr>ps_appliedIndex := rc_commitIndex (nd_core nd)\<rparr>"
    using r st(2) by simp
  then have f: "hardState (nd_core nd') = hardState (nd_core nd)"
    "rc_entries (nd_core nd') = rc_entries (nd_core nd)"
    "rc_snapshot (nd_core nd') = rc_snapshot (nd_core nd)"
    "rc_appliedIndex (nd_core nd') = rc_commitIndex (nd_core nd)"
    by (simp_all add: core_image_def)
  moreover have "nd_machine nd' = nd_machine nd"
    if "rc_snapshot (nd_core nd) = None" "rc_appliedIndex (nd_core nd) = rc_commitIndex (nd_core nd)"
  proof -
    have "applied_part (nd_core nd') = applied_part (nd_core nd)" using f that by (simp add: applied_part_def)
    then show ?thesis using assms(2) r st(2) that(1) by (simp add: machine_ok_def)
  qed
  ultimately show ?thesis by blast
qed

definition ex_restarted :: "(storage_handle, int, raft_message list, int) raft_node" where
  "ex_restarted = node_of (create_node durable_env (ex_node_options [''a'']) []
     (handle_open (sh_state (nd_storage ex_applied))) 0)"

theorem restart_recovers_witness:
  "hardState (nd_core ex_restarted) = hardState (nd_core ex_applied) \<and>
    rc_entries (nd_core ex_restarted) = rc_entries (nd_core ex_applied) \<and>
    nd_machine ex_restarted = nd_machine ex_applied"
proof -
  let ?create = "create_node durable_env (ex_node_options [''a'']) []
    (handle_open (sh_state (nd_storage ex_applied))) 0"
  have s: "synced handle_view handle_ready ex_applied" by code_simp
  have m: "machine_ok durable_env 0 ex_applied" by code_simp
  have e: "ne_persist durable_env = handle_persist" "ne_load durable_env = handle_load"
    by (simp_all add: ex_env_def)
  have c: "?create = (fst ?create, Inr ex_restarted)" by code_simp
  have "rc_snapshot (nd_core ex_applied) = None" by code_simp
  moreover have "rc_appliedIndex (nd_core ex_applied) = rc_commitIndex (nd_core ex_applied)" by code_simp
  ultimately show ?thesis using restart_recovers [OF s m e c] by blast
qed

section \<open>Failures\<close>



text \<open>C33: When the storage refuses a Ready batch, the operation ends with a \<open>StorageError\<close>; no message
  has been sent and no entry applied, every pending proposal is rejected with that error, and the node
  is unhealthy, so that it refuses every later operation.\<close>

theorem refused_batch_stops_node:
  assumes "core_step ev (nd_core nd) = (c, Inr (Some rd))"
    and "ne_persist env (ready_batch rd) (nd_storage nd) = (st, Inl err)"
  shows "\<exists>nd'. process env ev nd =
      Some (nd', Inl (StorageError ''failed to persist Raft Ready batch'')) \<and>
    nd_net nd' = nd_net nd \<and> nd_machine nd' = nd_machine nd \<and> nd_pending nd' = [] \<and>
    nd_settled nd' = nd_settled nd @ map (\<lambda>(k, p). (pn_ticket p,
      Inl (StorageError ''failed to persist Raft Ready batch''))) (nd_pending nd) \<and>
    assertRunning nd' = Some (NodeStoppedError ''node is stopped or unhealthy'') \<and>
    campaign env t nd' = Some (nd', Inl (NodeStoppedError ''node is stopped or unhealthy'')) \<and>
    propose_node env cmd cid nd' = Some (nd', Settled (Inl (NodeStoppedError ''node is stopped or unhealthy'')))"
  using assms
  by (simp add: process_def process_ready_def persist_at_def Let_def run_bind_def node_fail_fields
      assertRunning_def campaign_def propose_node_def propose_begin_def)

definition failing_node :: "(storage_handle, int, raft_message list, int) raft_node" where
  "failing_node = fst (propose_begin durable_env 3 ''x'' (ex_leading\<lparr>nd_storage :=
     handle_open (durable_failNext (PlainError ''disk full'') (sh_state (nd_storage ex_leading)))\<rparr>))"

theorem refused_batch_stops_node_witness:
  "\<exists>nd'. process durable_env (Propose ''x'' [0, 0, 0]) failing_node =
      Some (nd', Inl (StorageError ''failed to persist Raft Ready batch'')) \<and>
    nd_net nd' = nd_net failing_node \<and> nd_machine nd' = nd_machine failing_node \<and> nd_pending nd' = [] \<and>
    nd_settled nd' = nd_settled failing_node @ map (\<lambda>(k, p). (pn_ticket p,
      Inl (StorageError ''failed to persist Raft Ready batch''))) (nd_pending failing_node) \<and>
    assertRunning nd' = Some (NodeStoppedError ''node is stopped or unhealthy'') \<and>
    campaign durable_env 10 nd' = Some (nd', Inl (NodeStoppedError ''node is stopped or unhealthy'')) \<and>
    propose_node durable_env 3 ''x'' nd' =
      Some (nd', Settled (Inl (NodeStoppedError ''node is stopped or unhealthy'')))"
proof (rule refused_batch_stops_node)
  let ?r = "core_step (Propose ''x'' [0, 0, 0]) (nd_core failing_node)"
  let ?rd = "case snd ?r of Inr (Some rd) \<Rightarrow> rd"
  let ?p = "ne_persist durable_env (ready_batch ?rd) (nd_storage failing_node)"
  show "?r = (fst ?r, Inr (Some ?rd))" by code_simp
  show "?p = (fst ?p, Inl (PlainError ''disk full''))" by code_simp
qed

text \<open>Whatever happens during an event over the durable storage (a refused batch, a failing
  transport, a command that cannot be applied, a core that throws), the stored state stays
  well-formed and no term, vote, commit index, applied index or committed entry is taken back.\<close>

lemma process_never_regresses:
  assumes "ne_persist env = handle_persist" and "core_wf (nd_core nd)"
    and "view_ok (handle_view (nd_storage nd))" and "process env ev nd = Some (nd', r)"
  shows "view_ok (handle_view (nd_storage nd')) \<and>
    safe_change (handle_view (nd_storage nd)) (handle_view (nd_storage nd'))"
  by (rule durable.process_safe [OF assms])

text \<open>A failing write of the applied index of a configuration or no-op entry wedges the node: the
  error is passed on as it is, the node stays healthy and its pending proposals stay pending, but
  the Ready batch stays outstanding, so from then on every event fails and changes nothing.\<close>

theorem noop_apply_failure_wedges:
  assumes "core_step ev (nd_core nd) = (c, Inr (Some rd))"
    and "ne_persist env (ready_batch rd) (nd_storage nd) = (st, Inr ())"
    and "rd_committedEntries rd = e # es" and "le_type e \<noteq> Command"
    and "ne_persist env (applied_batch (le_index e)) st = (st2, Inl err)"
  shows "\<exists>nd1. process env ev nd = Some (nd1, Inl err) \<and> nd_healthy nd1 = nd_healthy nd \<and>
    nd_started nd1 = nd_started nd \<and> nd_pending nd1 = nd_pending nd \<and>
    nd_settled nd1 = nd_settled nd \<and>
    (\<forall>ev2. process env ev2 nd1 =
      Some (nd1, Inl (PlainError ''advance the outstanding Ready before stepping again'')))"
proof -
  have out: "rc_outstanding c = Some rd" by (rule outstanding_after [OF assms(1)])
  let ?nd1 = "(send_all env (rd_outboundMessages rd) (nd\<lparr>nd_core := c, nd_storage := st\<rparr>))\<lparr>nd_storage := st2\<rparr>"
  have run: "process env ev nd = Some (?nd1, Inl err)"
    using assms by (simp add: process_def process_ready_def persist_at_def run_bind_def apply_entry_def)
  have "process env ev2 ?nd1 =
      Some (?nd1, Inl (PlainError ''advance the outstanding Ready before stepping again''))" for ev2
    using out by (simp add: process_def core_step_def)
  then show ?thesis using run by (simp add: send_all_frame)
qed

definition wedged_env :: "(storage_handle, int, raft_message list, nat, int) node_env" where
  "wedged_env = ex_env failing_persist handle_load handle_close"

theorem noop_apply_failure_wedges_witness:
  "\<exists>nd1. process wedged_env (ElectionTimeout 10) ex_started = Some (nd1, Inl (PlainError ''disk full'')) \<and>
    nd_healthy nd1 = nd_healthy ex_started \<and> nd_started nd1 = nd_started ex_started \<and>
    nd_pending nd1 = nd_pending ex_started \<and> nd_settled nd1 = nd_settled ex_started \<and>
    (\<forall>ev2. process wedged_env ev2 nd1 =
      Some (nd1, Inl (PlainError ''advance the outstanding Ready before stepping again'')))"
proof (rule noop_apply_failure_wedges)
  let ?r = "core_step (ElectionTimeout 10) (nd_core ex_started)"
  let ?rd = "case snd ?r of Inr (Some rd) \<Rightarrow> rd"
  let ?p = "ne_persist wedged_env (ready_batch ?rd) (nd_storage ex_started)"
  let ?e = "hd (rd_committedEntries ?rd)"
  let ?q = "ne_persist wedged_env (applied_batch (le_index ?e)) (fst ?p)"
  show "?r = (fst ?r, Inr (Some ?rd))" by code_simp
  show "?p = (fst ?p, Inr ())" by code_simp
  show "rd_committedEntries ?rd = ?e # tl (rd_committedEntries ?rd)" by code_simp
  show "le_type ?e \<noteq> Command" by code_simp
  show "?q = (fst ?q, Inl (PlainError ''disk full''))" by code_simp
qed

section \<open>Commands\<close>

text \<open>The retention loop of \<open>#apply\<close> ends exactly when the configured retention is not negative,
  and then leaves the newest entries, at most as many as the retention; with a negative
  \<open>commandRetention\<close> it runs forever.\<close>

theorem retention_loop:
  "retain r xs = (if 0 \<le> r then Some (drop (length xs - nat r) xs) else None)"
  using retain_Some [of r xs] retain_negative [of r xs] by (cases "retain r xs") auto

text \<open>C34: A command is applied once and answered twice: when a leader applies a committed command
  under an ID it has not completed before, the proposal waiting for that ID is resolved with the result
  of the state machine, and proposing the same command with the same ID again returns the same result
  at once and changes nothing.\<close>

theorem retry_returns_result:
  assumes "le_type e = Command" and "le_commandId e = Some cid"
    and "ne_decode env (le_payload e) = Inr command" and "ne_encode env command = Inr (le_payload e)"
    and "ne_apply env command \<lparr>ac_index = le_index e, ac_term = le_term e, ac_commandId = cid\<rparr>
      (nd_machine nd) = (sm, Inr r)"
    and "ne_persist env (applied_batch (le_index e)) (nd_storage nd) = (st, Inr ())"
    and "1 \<le> ne_retention env" and "map_of (nd_completed nd) cid = None"
    and "assertRunning nd = None" and "rc_role (nd_core nd) = Leader"
  shows "\<exists>nd1. apply_entry env e nd = Some (nd1, Inr ()) \<and> nd_machine nd1 = sm \<and>
    (\<forall>p \<in> set_option (map_of (nd_pending nd) cid).
      nd_settled nd1 = nd_settled nd @ [(pn_ticket p, Inr r)]) \<and>
    propose_node env command cid nd1 = Some (nd1, Settled (Inr r))"
proof -
  let ?d = "\<lparr>cp_hash = ne_hash env (le_payload e), cp_result = r\<rparr>"
  let ?all = "nd_completed nd @ [(cid, ?d)]" and ?k = "nat (ne_retention env)"
  let ?nd1 = "(resolve_pending cid r (nd\<lparr>nd_machine := sm, nd_storage := st\<rparr>))\<lparr>nd_completed :=
    drop (length ?all - ?k) ?all\<rparr>"
  have run: "apply_entry env e nd = Some (?nd1, Inr ())"
    using apply_entry_Inr [OF assms(1-3,5,6)] assms(7,8) by (simp add: map_set_def Let_def)
  have "drop (length ?all - ?k) ?all = drop (length ?all - ?k) (nd_completed nd) @ [(cid, ?d)]"
    using assms(7) by simp
  moreover have "map_of (drop n (nd_completed nd)) cid = None" for n
    using assms(8) set_drop_subset [of n "nd_completed nd"] by (fastforce simp: map_of_eq_None_iff)
  ultimately have found: "map_of (drop (length ?all - ?k) ?all) cid = Some ?d"
    by (simp add: map_add_def)
  have same: "assertRunning ?nd1 = assertRunning nd" "nd_core ?nd1 = nd_core nd"
    by (simp_all add: assertRunning_def resolve_pending_def split: option.split)
  have "propose_node env command cid ?nd1 = Some (?nd1, Settled (Inr r))"
    using found same assms(4,9,10) by (simp add: propose_node_def propose_begin_def)
  moreover have "nd_settled ?nd1 = nd_settled nd @ [(pn_ticket p, Inr r)]"
    if "p \<in> set_option (map_of (nd_pending nd) cid)" for p
    using that by (auto simp: resolve_pending_def elem_set)
  ultimately show ?thesis using run by auto
qed

theorem retry_returns_result_witness:
  "\<exists>nd1. apply_entry durable_env (ex_command 1 3) (fst (propose_begin durable_env 3 ''x'' ex_leading)) =
      Some (nd1, Inr ()) \<and> nd_machine nd1 = 3 \<and> nd_settled nd1 = [(0, Inr 3)] \<and>
    propose_node durable_env 3 ''x'' nd1 = Some (nd1, Settled (Inr 3))"
proof -
  let ?nd = "fst (propose_begin durable_env 3 ''x'' ex_leading)"
  let ?p = "ne_persist durable_env (applied_batch (le_index (ex_command 1 3))) (nd_storage ?nd)"
  have p: "?p = (fst ?p, Inr ())" by code_simp
  have "\<exists>nd1. apply_entry durable_env (ex_command 1 3) ?nd = Some (nd1, Inr ()) \<and> nd_machine nd1 = 3 \<and>
    (\<forall>q \<in> set_option (map_of (nd_pending ?nd) ''x''). nd_settled nd1 = nd_settled ?nd @ [(pn_ticket q, Inr 3)]) \<and>
    propose_node durable_env 3 ''x'' nd1 = Some (nd1, Settled (Inr 3))"
    by (rule retry_returns_result [where st = "fst ?p"], rule_tac [6] p) code_simp+
  moreover have "map_of (nd_pending ?nd) ''x'' = Some \<lparr>pn_hash = ''3'', pn_ticket = 0\<rparr>" by code_simp
  moreover have "nd_settled ?nd = []" by code_simp
  ultimately show ?thesis by simp
qed

text \<open>The deduplication covers proposals, not log entries: applying an entry whose command ID is
  already completed runs the state machine again, so two committed entries with one ID (a retry at a new
  leader that holds the first one still uncommitted) are both applied.\<close>

theorem duplicate_entries_apply_twice:
  assumes "le_type e = Command" and "le_commandId e = Some cid"
    and "ne_decode env (le_payload e) = Inr command"
    and "ne_apply env command \<lparr>ac_index = le_index e, ac_term = le_term e, ac_commandId = cid\<rparr>
      (nd_machine nd) = (sm, Inr r)"
    and "ne_persist env (applied_batch (le_index e)) (nd_storage nd) = (st, Inr ())"
    and "0 \<le> ne_retention env" and "map_of (nd_completed nd) cid = Some completed"
  shows "\<exists>nd1. apply_entry env e nd = Some (nd1, Inr ()) \<and> nd_machine nd1 = sm"
  using apply_entry_Inr [OF assms(1-6)] by simp

theorem duplicate_entries_apply_twice_witness:
  "\<exists>nd1. apply_entry durable_env (ex_command 2 3) ex_applied = Some (nd1, Inr ()) \<and> nd_machine nd1 = 6"
proof (rule duplicate_entries_apply_twice)
  let ?p = "ne_persist durable_env (applied_batch (le_index (ex_command 2 3))) (nd_storage ex_applied)"
  show "?p = (fst ?p, Inr ())" by code_simp
  show "map_of (nd_completed ex_applied) ''x'' = Some (the (map_of (nd_completed ex_applied) ''x''))"
    by code_simp
qed code_simp+

end
