(* ===== verification/Network.thy ===== *)
theory Network
  imports Storage
begin

text \<open>
  The in-memory network, classes \<open>MemoryNetwork\<close> and \<open>MemoryRaftTransport\<close> of
  \<open>packages/raft-transport-memory/src/index.ts\<close>.  The queue is a list of numbered messages; the
  set of blocked edges and the map of handlers are lists in insertion order.  An index argument
  is any integer and \<open>splice\<close> is modelled with its treatment of negative and large ones.  The
  handler a delivery calls is a function of the outside world, given where it is needed; the
  waiters of \<open>waitForPending\<close> are in theory \<open>Timeouts\<close>.
\<close>

section \<open>State\<close>

record pending_message =
  pm_id :: int
  pm_message :: raft_message

record memory_network =
  mn_handlers :: "node_id list"
  mn_queue :: "pending_message list"
  mn_blocked :: "string list"
  mn_dropAll :: bool
  mn_nextMessageId :: int

definition new_network :: memory_network where
  "new_network = \<lparr>mn_handlers = [], mn_queue = [], mn_blocked = [], mn_dropAll = False,
     mn_nextMessageId = 1\<rparr>"

definition NUL :: char where
  "NUL = char_of (0 :: nat)"

definition edge :: "node_id \<Rightarrow> node_id \<Rightarrow> string" where
  "edge from to = from @ [NUL] @ to"

definition set_add :: "'a \<Rightarrow> 'a list \<Rightarrow> 'a list" where
  "set_add x xs = (if x \<in> set xs then xs else xs @ [x])"

section \<open>Array primitives\<close>

text \<open>The start position of \<open>splice(i, _)\<close> on an array of length \<open>n\<close>.\<close>

definition splice_start :: "int \<Rightarrow> nat \<Rightarrow> nat" where
  "splice_start i n = (if i < 0 then nat (max 0 (int n + i)) else min (nat i) n)"

text \<open>\<open>splice(i, 1)\<close>: the rest of the array and the removed element.\<close>

definition splice_remove :: "int \<Rightarrow> 'a list \<Rightarrow> 'a list \<times> 'a option" where
  "splice_remove i xs =
     (let k = splice_start i (length xs)
      in (take k xs @ drop (Suc k) xs, if k < length xs then Some (xs ! k) else None))"

definition splice_insert :: "int \<Rightarrow> 'a \<Rightarrow> 'a list \<Rightarrow> 'a list" where
  "splice_insert i x xs = (let k = splice_start i (length xs) in take k xs @ [x] @ drop k xs)"

definition array_get :: "int \<Rightarrow> 'a list \<Rightarrow> 'a option" where
  "array_get i xs = (if 0 \<le> i \<and> i < int (length xs) then Some (xs ! nat i) else None)"

fun find_index :: "('a \<Rightarrow> bool) \<Rightarrow> 'a list \<Rightarrow> int" where
  "find_index p [] = -1"
| "find_index p (x # xs) =
     (if p x then 0 else let k = find_index p xs in if k = -1 then -1 else k + 1)"

section \<open>Operations of the network\<close>

definition net_register :: "node_id \<Rightarrow> memory_network \<Rightarrow> (memory_network, unit) io" where
  "net_register n net =
     (if n \<in> set (mn_handlers net)
      then (net, Inl (PlainError (''transport already started for '' @ n)))
      else (net\<lparr>mn_handlers := mn_handlers net @ [n]\<rparr>, Inr ()))"

definition net_unregister :: "node_id \<Rightarrow> memory_network \<Rightarrow> memory_network" where
  "net_unregister n net = net\<lparr>mn_handlers := filter (\<lambda>m. m \<noteq> n) (mn_handlers net)\<rparr>"

definition net_enqueue :: "raft_message \<Rightarrow> memory_network \<Rightarrow> memory_network" where
  "net_enqueue m net =
     (if \<not> mn_dropAll net \<and> edge (m_from m) (m_to m) \<notin> set (mn_blocked net)
      then net\<lparr>mn_queue := mn_queue net @ [\<lparr>pm_id = mn_nextMessageId net, pm_message = m\<rparr>],
               mn_nextMessageId := mn_nextMessageId net + 1\<rparr>
      else net)"

fun block_all :: "(node_id \<times> node_id) list \<Rightarrow> string list \<Rightarrow> string list" where
  "block_all [] blocked = blocked"
| "block_all ((f, t) # ps) blocked = block_all ps (set_add (edge t f) (set_add (edge f t) blocked))"

definition net_partition :: "node_id list \<Rightarrow> node_id list \<Rightarrow> memory_network \<Rightarrow> memory_network" where
  "net_partition left right net =
     net\<lparr>mn_blocked := block_all (List.product left right) (mn_blocked net)\<rparr>"

definition net_heal :: "memory_network \<Rightarrow> memory_network" where
  "net_heal net = net\<lparr>mn_blocked := [], mn_dropAll := False\<rparr>"

definition net_setDropAll :: "bool \<Rightarrow> memory_network \<Rightarrow> memory_network" where
  "net_setDropAll d net = net\<lparr>mn_dropAll := d\<rparr>"

definition net_duplicate :: "int \<Rightarrow> memory_network \<Rightarrow> memory_network" where
  "net_duplicate index net =
     (case array_get index (mn_queue net) of
        None \<Rightarrow> net
      | Some pending \<Rightarrow>
          net\<lparr>mn_queue := splice_insert index
                \<lparr>pm_id = mn_nextMessageId net, pm_message = pm_message pending\<rparr> (mn_queue net),
              mn_nextMessageId := mn_nextMessageId net + 1\<rparr>)"

definition net_reorder :: "memory_network \<Rightarrow> memory_network" where
  "net_reorder net = net\<lparr>mn_queue := rev (mn_queue net)\<rparr>"

definition net_pending :: "memory_network \<Rightarrow> nat" where
  "net_pending net = length (mn_queue net)"

text \<open>\<open>blockedEdges\<close> splits at the first NUL character.\<close>

definition split_edge :: "string \<Rightarrow> node_id \<times> node_id" where
  "split_edge s = (takeWhile (\<lambda>c. c \<noteq> NUL) s, drop 1 (dropWhile (\<lambda>c. c \<noteq> NUL) s))"

definition net_blockedEdges :: "memory_network \<Rightarrow> (node_id \<times> node_id) list" where
  "net_blockedEdges net = map split_edge (mn_blocked net)"

definition net_drop :: "int \<Rightarrow> memory_network \<Rightarrow> memory_network \<times> bool" where
  "net_drop index net =
     (case splice_remove index (mn_queue net) of
        (queue, removed) \<Rightarrow> (net\<lparr>mn_queue := queue\<rparr>, removed \<noteq> None))"

text \<open>\<open>deliver\<close> up to the call of the handler: the message it is called with, if any.\<close>

definition net_deliver :: "int \<Rightarrow> memory_network \<Rightarrow> memory_network \<times> raft_message option" where
  "net_deliver index net =
     (case splice_remove index (mn_queue net) of
        (queue, None) \<Rightarrow> (net\<lparr>mn_queue := queue\<rparr>, None)
      | (queue, Some pending) \<Rightarrow>
          let m = pm_message pending; net1 = net\<lparr>mn_queue := queue\<rparr>
          in if m_to m \<notin> set (mn_handlers net) \<or> edge (m_from m) (m_to m) \<in> set (mn_blocked net)
             then (net1, None) else (net1, Some m))"

definition index_of_id :: "int \<Rightarrow> memory_network \<Rightarrow> int" where
  "index_of_id i net = find_index (\<lambda>p. pm_id p = i) (mn_queue net)"

definition net_deliverById :: "int \<Rightarrow> memory_network \<Rightarrow> memory_network \<times> raft_message option" where
  "net_deliverById i net =
     (if index_of_id i net = -1 then (net, None) else net_deliver (index_of_id i net) net)"

definition net_dropById :: "int \<Rightarrow> memory_network \<Rightarrow> memory_network \<times> bool" where
  "net_dropById i net =
     (if index_of_id i net \<noteq> -1 then net_drop (index_of_id i net) net else (net, False))"

definition net_duplicateById :: "int \<Rightarrow> memory_network \<Rightarrow> memory_network \<times> bool" where
  "net_duplicateById i net =
     (if index_of_id i net = -1 then (net, False) else (net_duplicate (index_of_id i net) net, True))"

text \<open>The inner loop of \<open>drain\<close>; the handlers act on the network and on a world \<open>w\<close>.\<close>

function drain_loop :: "(raft_message \<Rightarrow> memory_network \<Rightarrow> 'w \<Rightarrow> memory_network \<times> 'w \<times> (raft_error + unit))
    \<Rightarrow> int \<Rightarrow> int \<Rightarrow> memory_network \<Rightarrow> 'w \<Rightarrow> memory_network \<times> 'w \<times> (raft_error + int)" where
  "drain_loop handle limit delivered net w =
     (if mn_queue net = [] then (net, w, Inr delivered)
      else if limit < delivered + 1
      then (net, w, Inl (PlainError ''network drain limit exceeded''))
      else case net_deliver 0 net of
          (net1, None) \<Rightarrow> drain_loop handle limit (delivered + 1) net1 w
        | (net1, Some m) \<Rightarrow>
            (case handle m net1 w of
               (net2, w2, Inl err) \<Rightarrow> (net2, w2, Inl err)
             | (net2, w2, Inr _) \<Rightarrow> drain_loop handle limit (delivered + 1) net2 w2))"
  by pat_completeness auto
termination
  by (relation "measure (\<lambda>(handle, limit, delivered, net, w). nat (limit - delivered))") auto

declare drain_loop.simps [simp del]

section \<open>The transport of a node\<close>

record memory_transport =
  mt_nodeId :: node_id
  mt_started :: bool

definition net_endpoint :: "node_id \<Rightarrow> memory_transport" where
  "net_endpoint n = \<lparr>mt_nodeId = n, mt_started = False\<rparr>"

definition transport_start :: "memory_transport \<times> memory_network
    \<Rightarrow> (memory_transport \<times> memory_network, unit) io" where
  "transport_start s =
     (case net_register (mt_nodeId (fst s)) (snd s) of
        (net, Inl err) \<Rightarrow> ((fst s, net), Inl err)
      | (net, Inr _) \<Rightarrow> (((fst s)\<lparr>mt_started := True\<rparr>, net), Inr ()))"

definition transport_send :: "node_id \<Rightarrow> raft_message \<Rightarrow> memory_transport \<times> memory_network
    \<Rightarrow> (memory_transport \<times> memory_network, unit) io" where
  "transport_send peer m s =
     (if \<not> mt_started (fst s) then (s, Inl (PlainError ''transport is not started''))
      else if m_from m \<noteq> mt_nodeId (fst s) \<or> m_to m \<noteq> peer
      then (s, Inl (PlainError ''message envelope does not match transport''))
      else ((fst s, net_enqueue m (snd s)), Inr ()))"

definition transport_stop :: "memory_transport \<times> memory_network \<Rightarrow> memory_transport \<times> memory_network"
  where
  "transport_stop s = ((fst s)\<lparr>mt_started := False\<rparr>, net_unregister (mt_nodeId (fst s)) (snd s))"

section \<open>Queue invariant\<close>

text \<open>Message numbers are distinct and below the next one.\<close>

definition net_wf :: "memory_network \<Rightarrow> bool" where
  "net_wf net \<longleftrightarrow> distinct (map pm_id (mn_queue net)) \<and>
     (\<forall>p \<in> set (mn_queue net). pm_id p < mn_nextMessageId net)"

definition messages :: "memory_network \<Rightarrow> raft_message set" where
  "messages net = pm_message ` set (mn_queue net)"

text \<open>The operations of the test harness and of the transports, as one step relation.\<close>

inductive net_step :: "memory_network \<Rightarrow> memory_network \<Rightarrow> bool" where
  register: "net_register n net = (net', Inr ()) \<Longrightarrow> net_step net net'"
| unregister: "net_step net (net_unregister n net)"
| partition: "net_step net (net_partition left right net)"
| heal: "net_step net (net_heal net)"
| dropAll: "net_step net (net_setDropAll d net)"
| duplicate: "net_step net (net_duplicate i net)"
| reorder: "net_step net (net_reorder net)"
| dropped: "net_drop i net = (net', b) \<Longrightarrow> net_step net net'"
| lost: "net_deliver i net = (net', None) \<Longrightarrow> net_step net net'"

inductive_cases net_stepE: "net_step net net'"

lemma splice_remove_set:
  assumes "splice_remove i xs = (ys, r)"
  shows "set ys \<subseteq> set xs" and "r = Some x \<Longrightarrow> x \<in> set xs"
    and "distinct (map f xs) \<Longrightarrow> distinct (map f ys)"
proof -
  let ?k = "splice_start i (length xs)"
  have ys: "ys = take ?k xs @ drop (Suc ?k) xs" and r: "r = (if ?k < length xs then Some (xs ! ?k) else None)"
    using assms by (auto simp: splice_remove_def Let_def)
  show "set ys \<subseteq> set xs" using set_take_subset [of ?k xs] set_drop_subset [of "Suc ?k" xs] by (auto simp: ys)
  show "r = Some x \<Longrightarrow> x \<in> set xs" using r by (auto split: if_splits)
  have "distinct (map f (drop (Suc ?k) xs))" if "distinct (map f xs)"
    using that distinct_drop [of "map f xs" "Suc ?k"] by (simp add: drop_map)
  moreover have "distinct (map f (take ?k xs) @ map f (drop ?k xs))" if "distinct (map f xs)"
    using that by (metis append_take_drop_id map_append)
  moreover have "set (drop (Suc ?k) xs) \<subseteq> set (drop ?k xs)"
    by (rule set_drop_subset_set_drop) simp
  ultimately show "distinct (map f xs) \<Longrightarrow> distinct (map f ys)"
    unfolding ys by auto
qed

lemma splice_insert_set:
  "set (splice_insert i x xs) = insert x (set xs)"
  by (auto simp: splice_insert_def Let_def dest: in_set_takeD in_set_dropD)
    (metis append_take_drop_id set_append Un_iff)+

lemma splice_insert_distinct:
  "distinct (map f xs) \<Longrightarrow> f x \<notin> f ` set xs \<Longrightarrow> distinct (map f (splice_insert i x xs))"
proof -
  assume a: "distinct (map f xs)" "f x \<notin> f ` set xs"
  let ?k = "splice_start i (length xs)"
  have "map f xs = map f (take ?k xs) @ map f (drop ?k xs)"
    by (metis append_take_drop_id map_append)
  then show ?thesis
    using a by (auto simp: splice_insert_def Let_def dest: in_set_takeD in_set_dropD)
qed

lemma array_get_set: "array_get i xs = Some x \<Longrightarrow> x \<in> set xs"
  by (auto simp: array_get_def split: if_splits)

lemma net_enqueue_wf:
  "net_wf net \<Longrightarrow> net_wf (net_enqueue m net)"
  by (fastforce simp: net_wf_def net_enqueue_def)

lemma net_enqueue_messages: "messages (net_enqueue m net) \<subseteq> insert m (messages net)"
  by (auto simp: messages_def net_enqueue_def)

lemma net_deliver_message:
  assumes "net_deliver i net = (net', r)"
  shows "messages net' \<subseteq> messages net" and "r = Some m \<Longrightarrow> m \<in> messages net"
    and "net_wf net \<Longrightarrow> net_wf net'"
proof -
  obtain queue x where s: "splice_remove i (mn_queue net) = (queue, x)" by fastforce
  then have net': "net' = net\<lparr>mn_queue := queue\<rparr>" and r: "r = Some m \<Longrightarrow> \<exists>p. x = Some p \<and> m = pm_message p"
    using assms by (auto simp: net_deliver_def Let_def split: option.splits if_splits)
  note sp = splice_remove_set [OF s]
  show "messages net' \<subseteq> messages net" using sp(1) by (auto simp: messages_def net')
  show "r = Some m \<Longrightarrow> m \<in> messages net" using r sp(2) by (auto simp: messages_def)
  show "net_wf net \<Longrightarrow> net_wf net'" using sp(1,3) by (auto simp: net_wf_def net')
qed

lemma net_drop_messages:
  assumes "net_drop i net = (net', b)"
  shows "messages net' \<subseteq> messages net" and "net_wf net \<Longrightarrow> net_wf net'"
proof -
  obtain queue x where s: "splice_remove i (mn_queue net) = (queue, x)" by fastforce
  then have net': "net' = net\<lparr>mn_queue := queue\<rparr>" using assms by (simp add: net_drop_def)
  note sp = splice_remove_set [OF s]
  show "messages net' \<subseteq> messages net" using sp(1) by (auto simp: messages_def net')
  show "net_wf net \<Longrightarrow> net_wf net'" using sp(1,3) by (auto simp: net_wf_def net')
qed

lemma net_duplicate_wf:
  assumes "net_wf net"
  shows "net_wf (net_duplicate i net)" and "messages (net_duplicate i net) = messages net"
proof -
  show "net_wf (net_duplicate i net)"
  proof (cases "array_get i (mn_queue net)")
    case (Some p)
    let ?x = "\<lparr>pm_id = mn_nextMessageId net, pm_message = pm_message p\<rparr>"
    have "pm_id ?x \<notin> pm_id ` set (mn_queue net)" using assms by (force simp: net_wf_def)
    then have "distinct (map pm_id (splice_insert i ?x (mn_queue net)))"
      using assms by (intro splice_insert_distinct) (simp_all add: net_wf_def)
    then show ?thesis
      using assms Some by (force simp: net_duplicate_def net_wf_def splice_insert_set)
  qed (use assms in \<open>simp add: net_duplicate_def\<close>)
  show "messages (net_duplicate i net) = messages net"
    using array_get_set [of i "mn_queue net"]
    by (auto simp: net_duplicate_def messages_def splice_insert_set split: option.splits)
qed

text \<open>The harness neither forges nor alters a message.\<close>

lemma net_step_keeps:
  assumes "net_step net net'" and "net_wf net"
  shows "net_wf net' \<and> messages net' \<subseteq> messages net"
  using assms
proof (induction rule: net_step.induct)
  case (register n net net')
  then show ?case by (auto simp: net_register_def net_wf_def messages_def split: if_splits)
next
  case (duplicate net i)
  then show ?case using net_duplicate_wf by simp
next
  case (dropped i net net' b)
  then show ?case using net_drop_messages by blast
next
  case (lost i net net')
  then show ?case using net_deliver_message by blast
qed (auto simp: net_unregister_def net_partition_def net_heal_def net_setDropAll_def
    net_reorder_def net_wf_def messages_def rev_map [symmetric])

end
