(* ===== verification/NetworkTheorems.thy ===== *)
theory NetworkTheorems
  imports Network
begin

text \<open>
  The properties of the in-memory network: no message is forged, a partition blocks exactly the
  edges between its sides, \<open>blockedEdges\<close> reads the set of blocked edges back, \<open>drain\<close> empties the
  queue within its limit, and a duplicate can be addressed by its own number.
\<close>

section \<open>A channel that loses and repeats\<close>

text \<open>The contract of a network that may lose, repeat and reorder but not invent messages.\<close>

locale lossy_channel =
  fixes contents :: "'n \<Rightarrow> 'm set"
    and put :: "'m \<Rightarrow> 'n \<Rightarrow> 'n"
    and fetch :: "int \<Rightarrow> 'n \<Rightarrow> 'n \<times> 'm option"
    and disturb :: "'n \<Rightarrow> 'n \<Rightarrow> bool"
    and wf :: "'n \<Rightarrow> bool"
  assumes put_contents: "wf n \<Longrightarrow> wf (put m n) \<and> contents (put m n) \<subseteq> insert m (contents n)"
    and fetch_contents: "wf n \<Longrightarrow> fetch i n = (n', r) \<Longrightarrow> wf n' \<and> contents n' \<subseteq> contents n \<and>
      set_option r \<subseteq> contents n"
    and disturb_contents: "wf n \<Longrightarrow> disturb n n' \<Longrightarrow> wf n' \<and> contents n' \<subseteq> contents n"
begin

definition carries :: "('m \<Rightarrow> bool) \<Rightarrow> 'n \<Rightarrow> bool" where
  "carries P n \<longleftrightarrow> wf n \<and> (\<forall>m \<in> contents n. P m)"

lemma carries_put: "carries P n \<Longrightarrow> P m \<Longrightarrow> carries P (put m n)"
  using put_contents [of n m] by (auto simp: carries_def)

lemma carries_fetch: "carries P n \<Longrightarrow> fetch i n = (n', r) \<Longrightarrow> carries P n' \<and> (\<forall>m \<in> set_option r. P m)"
  using fetch_contents [of n i n' r] by (auto simp: carries_def)

lemma carries_disturb: "carries P n \<Longrightarrow> disturb n n' \<Longrightarrow> carries P n'"
  using disturb_contents [of n n'] by (auto simp: carries_def)

end

interpretation mesh: lossy_channel messages net_enqueue net_deliver net_step net_wf
proof unfold_locales
  show "net_wf net \<Longrightarrow> net_wf (net_enqueue m net) \<and> messages (net_enqueue m net) \<subseteq> insert m (messages net)"
    for net m using net_enqueue_wf net_enqueue_messages by blast
  show "net_wf net \<Longrightarrow> net_deliver i net = (net', r) \<Longrightarrow> net_wf net' \<and> messages net' \<subseteq> messages net \<and>
      set_option r \<subseteq> messages net" for net i net' r
    using net_deliver_message by fastforce
  show "net_wf net \<Longrightarrow> net_step net net' \<Longrightarrow> net_wf net' \<and> messages net' \<subseteq> messages net" for net net'
    using net_step_keeps by blast
qed

text \<open>The life of a network with the set of messages ever handed to \<open>enqueue\<close>.\<close>

inductive net_history :: "raft_message set \<Rightarrow> memory_network \<Rightarrow> bool" where
  fresh: "net_history {} new_network"
| sent: "net_history S net \<Longrightarrow> net_history (insert m S) (net_enqueue m net)"
| disturbed: "net_history S net \<Longrightarrow> net_step net net' \<Longrightarrow> net_history S net'"
| delivered: "net_history S net \<Longrightarrow> net_deliver i net = (net', r) \<Longrightarrow> net_history S net'"

lemma history_carries: "net_history S net \<Longrightarrow> mesh.carries (\<lambda>m. m \<in> S) net"
proof (induction rule: net_history.induct)
  case fresh
  show ?case unfolding mesh.carries_def by (simp add: net_wf_def new_network_def messages_def)
next
  case (sent S net m)
  then have "mesh.carries (\<lambda>x. x \<in> insert m S) net" unfolding mesh.carries_def by blast
  then show ?case using mesh.carries_put by simp
next
  case (disturbed S net net')
  then show ?case using mesh.carries_disturb by blast
next
  case (delivered S net i net' r)
  then show ?case using mesh.carries_fetch by blast
qed

section \<open>Edges\<close>

lemma valid_id_no_NUL: "valid_id s \<Longrightarrow> NUL \<notin> set s"
proof (cases s)
  case (Cons c cs)
  assume "valid_id s"
  then have "is_alnum c" "list_all is_id_char cs" using Cons by simp_all
  moreover have "\<not> is_alnum NUL" "\<not> is_id_char NUL" by code_simp+
  ultimately show ?thesis using Cons by (auto simp: list_all_iff)
qed simp

lemma split_edge_edge: "NUL \<notin> set f \<Longrightarrow> split_edge (edge f t) = (f, t)"
proof -
  assume f: "NUL \<notin> set f"
  then have "takeWhile (\<lambda>c. c \<noteq> NUL) (f @ NUL # t) = f" "dropWhile (\<lambda>c. c \<noteq> NUL) (f @ NUL # t) = NUL # t"
    by (auto simp: takeWhile_append dropWhile_append)
  then show ?thesis by (simp add: split_edge_def edge_def)
qed

lemma edge_eq: "NUL \<notin> set f \<Longrightarrow> NUL \<notin> set f' \<Longrightarrow> edge f t = edge f' t' \<longleftrightarrow> f = f' \<and> t = t'"
  by (metis prod.inject split_edge_edge)

lemma block_all_set:
  "set (block_all ps blocked) = set blocked \<union> {edge f t |f t. (f, t) \<in> set ps \<or> (t, f) \<in> set ps}"
proof (induction ps blocked rule: block_all.induct)
  case (2 f t ps blocked)
  have add: "set (set_add x xs) = insert x (set xs)" for x :: string and xs by (auto simp: set_add_def)
  show ?case unfolding block_all.simps "2.IH" add by auto
qed simp

definition cut_pairs :: "node_id list \<Rightarrow> node_id list \<Rightarrow> (node_id \<times> node_id) set" where
  "cut_pairs left right = set left \<times> set right \<union> set right \<times> set left"

lemma partition_blocked:
  "set (mn_blocked (net_partition left right net)) =
    set (mn_blocked net) \<union> (\<lambda>(f, t). edge f t) ` cut_pairs left right"
  unfolding net_partition_def cut_pairs_def using block_all_set by force

lemma cut_edge:
  assumes "valid_id f" and "\<forall>n \<in> set left \<union> set right. valid_id n"
  shows "edge f t \<in> (\<lambda>(f, t). edge f t) ` cut_pairs left right \<longleftrightarrow> (f, t) \<in> cut_pairs left right"
proof
  assume "edge f t \<in> (\<lambda>(f, t). edge f t) ` cut_pairs left right"
  then obtain f' t' where e: "edge f t = edge f' t'" "(f', t') \<in> cut_pairs left right" by auto
  then have "valid_id f'" using assms(2) by (auto simp: cut_pairs_def)
  then show "(f, t) \<in> cut_pairs left right" using e assms(1) valid_id_no_NUL edge_eq by metis
qed (auto intro: rev_image_eqI)

section \<open>Find by number\<close>

lemma find_index_found:
  "x \<in> set xs \<Longrightarrow> P x \<Longrightarrow> \<exists>k. find_index P xs = int k \<and> k < length xs \<and> P (xs ! k)"
proof (induction xs)
  case (Cons y ys)
  show ?case
  proof (cases "P y")
    case False
    then obtain k where k: "find_index P ys = int k" "k < length ys" "P (ys ! k)"
      using Cons by auto
    then show ?thesis using False by (intro exI [of _ "Suc k"]) (simp add: Let_def)
  qed simp
qed simp

lemma find_index_missing: "\<forall>x \<in> set xs. \<not> P x \<Longrightarrow> find_index P xs = -1"
  by (induction xs) auto

lemma find_index_split:
  "\<forall>x \<in> set xs. \<not> P x \<Longrightarrow> P y \<Longrightarrow> find_index P (xs @ y # ys) = int (length xs)"
  by (induction xs) auto

lemma index_found:
  "p \<in> set (mn_queue net) \<Longrightarrow> \<exists>k. index_of_id (pm_id p) net = int k \<and> k < length (mn_queue net) \<and>
    pm_id (mn_queue net ! k) = pm_id p"
  unfolding index_of_id_def by (rule find_index_found) simp_all

section \<open>Properties\<close>

text \<open>The network invents nothing: whatever the harness does (partition, drop, duplicate, reorder,
  crash of an endpoint), a message that a delivery hands to a node was handed to \<open>enqueue\<close> before, and the
  numbers of the pending messages stay distinct.\<close>

theorem delivered_was_sent:
  assumes "net_history S net" and "net_deliver i net = (net', Some m)"
  shows "m \<in> S \<and> m_to m \<in> set (mn_handlers net) \<and> edge (m_from m) (m_to m) \<notin> set (mn_blocked net) \<and>
    distinct (map pm_id (mn_queue net'))"
proof -
  have "net_wf net'" "m \<in> S"
    using mesh.carries_fetch [OF history_carries [OF assms(1)] assms(2)]
    unfolding mesh.carries_def by simp_all
  then show ?thesis
    using assms(2) by (auto simp: net_deliver_def net_wf_def Let_def split: prod.splits option.splits if_splits)
qed

definition ex_net_message :: raft_message where
  "ex_net_message = \<lparr>m_protocolVersion = 1, m_clusterId = ''k'', m_from = ''a'', m_to = ''b'', m_term = 1,
     m_body = RequestVoteResponse True\<rparr>"

definition ex_net :: memory_network where
  "ex_net = net_duplicate 0 (net_enqueue ex_net_message (fst (net_register ''b'' new_network)))"

lemma ex_net_history: "net_history {ex_net_message} ex_net"
proof -
  let ?one = "fst (net_register ''b'' new_network)"
  have reg: "net_register ''b'' new_network = (?one, Inr ())" by code_simp
  have "net_history {} ?one" using net_history.disturbed [OF net_history.fresh net_step.register [OF reg]] .
  then have "net_history {ex_net_message} (net_enqueue ex_net_message ?one)"
    using net_history.sent by fastforce
  then show ?thesis unfolding ex_net_def by (rule net_history.disturbed) (rule net_step.duplicate)
qed

theorem delivered_was_sent_witness:
  "ex_net_message \<in> {ex_net_message} \<and> m_to ex_net_message \<in> set (mn_handlers ex_net) \<and>
    edge (m_from ex_net_message) (m_to ex_net_message) \<notin> set (mn_blocked ex_net) \<and>
    distinct (map pm_id (mn_queue (fst (net_deliver 1 ex_net))))"
proof (rule delivered_was_sent [OF ex_net_history])
  show "net_deliver 1 ex_net = (fst (net_deliver 1 ex_net), Some ex_net_message)" by code_simp
qed

text \<open>A partition cuts exactly the edges between its two sides, in both directions: between other
  nodes nothing changes, a message along a cut edge is neither queued nor, when it was queued before,
  handed to its receiver, and healing lifts every cut.\<close>

theorem partition_cuts:
  assumes "valid_id (m_from m)" and "\<forall>n \<in> set left \<union> set right. valid_id n"
  shows "(edge (m_from m) (m_to m) \<in> set (mn_blocked (net_partition left right net))) =
      (edge (m_from m) (m_to m) \<in> set (mn_blocked net) \<or>
       m_from m \<in> set left \<and> m_to m \<in> set right \<or> m_to m \<in> set left \<and> m_from m \<in> set right) \<and>
    (m_from m \<in> set left \<and> m_to m \<in> set right \<or> m_to m \<in> set left \<and> m_from m \<in> set right \<longrightarrow>
      net_enqueue m (net_partition left right net) = net_partition left right net \<and>
      snd (net_deliver i (net_partition left right net)) \<noteq> Some m) \<and>
    edge (m_from m) (m_to m) \<notin> set (mn_blocked (net_heal (net_partition left right net)))"
proof -
  have blocked: "(edge (m_from m) (m_to m) \<in> set (mn_blocked (net_partition left right net))) =
      (edge (m_from m) (m_to m) \<in> set (mn_blocked net) \<or>
       m_from m \<in> set left \<and> m_to m \<in> set right \<or> m_to m \<in> set left \<and> m_from m \<in> set right)"
    using cut_edge [OF assms, of "m_to m"] unfolding partition_blocked by (auto simp: cut_pairs_def)
  have "net_enqueue m n = n \<and> snd (net_deliver i n) \<noteq> Some m"
    if "edge (m_from m) (m_to m) \<in> set (mn_blocked n)" for n
    using that by (auto simp: net_enqueue_def net_deliver_def Let_def split: prod.splits option.splits)
  then show ?thesis using blocked by (simp add: net_heal_def)
qed

theorem partition_cuts_witness:
  "net_enqueue ex_net_message (net_partition [''b''] [''a'', ''c''] ex_net) = net_partition [''b''] [''a'', ''c''] ex_net \<and>
    edge ''a'' ''b'' \<notin> set (mn_blocked (net_heal (net_partition [''b''] [''a'', ''c''] ex_net)))"
proof -
  have m: "m_from ex_net_message = ''a''" "m_to ex_net_message = ''b''" by code_simp+
  have v: "valid_id (m_from ex_net_message)" "\<forall>n \<in> set [''b''] \<union> set [''a'', ''c'']. valid_id n" by code_simp+
  show ?thesis using partition_cuts [OF v, of ex_net 0] m by simp
qed

text \<open>\<open>blockedEdges\<close> reads back the set of blocked pairs: after a partition of a healed network it
  lists exactly the pairs across the cut, each in both directions.\<close>

lemma blockedEdges_roundtrip:
  assumes "\<forall>n \<in> set left \<union> set right. valid_id n"
  shows "set (net_blockedEdges (net_partition left right (net_heal net))) =
    set left \<times> set right \<union> set right \<times> set left"
proof -
  have "split_edge (edge f t) = (f, t)" if "(f, t) \<in> cut_pairs left right" for f t
    using that assms valid_id_no_NUL split_edge_edge by (auto simp: cut_pairs_def)
  then have "split_edge ` (\<lambda>(f, t). edge f t) ` cut_pairs left right = (\<lambda>p. p) ` cut_pairs left right"
    unfolding image_image by (intro image_cong) auto
  moreover have "mn_blocked (net_heal net) = []" by (simp add: net_heal_def)
  ultimately show ?thesis
    unfolding net_blockedEdges_def set_map partition_blocked by (simp add: cut_pairs_def)
qed

lemma drain_loop_Inr:
  "drain_loop handle limit d net w = (net', w', Inr n) \<Longrightarrow> d \<le> limit \<Longrightarrow>
    mn_queue net' = [] \<and> d \<le> n \<and> n \<le> limit"
proof (induction handle limit d net w rule: drain_loop.induct)
  case (1 handle limit d net w)
  then show ?case
    by (subst (asm) (3) drain_loop.simps)
      (fastforce split: if_splits prod.splits option.splits sum.splits)
qed

lemma drain_quiet:
  assumes "\<And>m net w. \<exists>w'. handle m net w = (net, w', Inr ())"
  shows "d + int (length (mn_queue net)) \<le> limit \<Longrightarrow>
    \<exists>net' w'. drain_loop handle limit d net w = (net', w', Inr (d + int (length (mn_queue net))))"
proof (induction "length (mn_queue net)" arbitrary: d net w)
  case 0
  then show ?case by (subst drain_loop.simps) simp
next
  case (Suc n)
  obtain net1 r where del: "net_deliver 0 net = (net1, r)" by fastforce
  have len: "length (mn_queue net1) = n"
    using del Suc.hyps(2)
    by (auto simp: net_deliver_def splice_remove_def splice_start_def Let_def split: option.splits if_splits)
  have more: "\<not> limit < d + 1" "mn_queue net \<noteq> []" using Suc.prems Suc.hyps(2) by auto
  have next1: "\<exists>net' w'. drain_loop handle limit (d + 1) net1 v = (net', w', Inr (d + int (Suc n)))" for v
  proof -
    have "d + 1 + int (length (mn_queue net1)) \<le> limit" using len Suc.prems Suc.hyps(2) by simp
    then show ?thesis using Suc.hyps(1) [of net1 "d + 1" v] len by (simp add: algebra_simps)
  qed
  have "\<exists>v. drain_loop handle limit d net w = drain_loop handle limit (d + 1) net1 v"
  proof (cases r)
    case None
    then show ?thesis using del more by (subst drain_loop.simps) auto
  next
    case (Some m)
    obtain v where "handle m net1 w = (net1, v, Inr ())" using assms by blast
    then show ?thesis using del more Some by (subst drain_loop.simps) auto
  qed
  then show ?case unfolding Suc.hyps(2) [symmetric] using next1 by auto
qed

text \<open>\<open>drain\<close> terminates: when its loop returns, the queue is empty and at most \<open>limit\<close> deliveries
  were made, and with handlers that send nothing it needs exactly one delivery per pending message.\<close>

theorem drain_empties:
  "(drain_loop handle limit 0 net w = (net', w', Inr n) \<longrightarrow> 0 \<le> limit \<longrightarrow>
      mn_queue net' = [] \<and> 0 \<le> n \<and> n \<le> limit) \<and>
    ((\<forall>m k v. \<exists>v'. handle m k v = (k, v', Inr ())) \<longrightarrow> int (net_pending net) \<le> limit \<longrightarrow>
      (\<exists>net2 w2. drain_loop handle limit 0 net w = (net2, w2, Inr (int (net_pending net)))))"
  using drain_loop_Inr [of handle limit 0 net w net' w' n] drain_quiet [of handle 0 net limit w]
  by (simp add: net_pending_def)

theorem drain_empties_witness:
  "mn_queue (fst (drain_loop (\<lambda>m net k. (net, Suc k, Inr ())) 5 0 ex_net 0)) = [] \<and>
    snd (drain_loop (\<lambda>m net k. (net, Suc k, Inr ())) 5 0 ex_net (0::nat)) = (2, Inr 2)"
proof -
  let ?h = "\<lambda>m net k. (net, Suc k, Inr ()) :: memory_network \<times> nat \<times> (raft_error + unit)"
  have run: "snd (drain_loop ?h 5 0 ex_net 0) = (2, Inr 2)" by code_simp
  then have "drain_loop ?h 5 0 ex_net 0 = (fst (drain_loop ?h 5 0 ex_net 0), 2, Inr 2)"
    by (metis prod.collapse)
  then show ?thesis using drain_empties [of ?h 5 ex_net 0 "fst (drain_loop ?h 5 0 ex_net 0)" 2 2] run
    by simp
qed

text \<open>A duplicate is a message of its own: duplicating the pending message with number \<open>i\<close> adds one copy
  with a fresh number, and dropping that number removes the copy again and leaves the queue as it was.\<close>

lemma duplicate_then_drop:
  assumes "net_wf net" and "p \<in> set (mn_queue net)"
  shows "\<exists>net1. net_duplicateById (pm_id p) net = (net1, True) \<and>
    length (mn_queue net1) = Suc (length (mn_queue net)) \<and> messages net1 = messages net \<and>
    net_dropById (mn_nextMessageId net) net1 =
      (net\<lparr>mn_nextMessageId := mn_nextMessageId net + 1\<rparr>, True)"
proof -
  obtain k where k: "index_of_id (pm_id p) net = int k" "k < length (mn_queue net)"
    "pm_id (mn_queue net ! k) = pm_id p"
    using index_found [OF assms(2)] by blast
  let ?q = "mn_queue net" and ?i = "mn_nextMessageId net"
  let ?x = "\<lparr>pm_id = ?i, pm_message = pm_message (?q ! k)\<rparr>"
  let ?net1 = "net\<lparr>mn_queue := take k ?q @ ?x # drop k ?q, mn_nextMessageId := ?i + 1\<rparr>"
  have dup: "net_duplicate (int k) net = ?net1"
    using k(2) by (simp add: net_duplicate_def array_get_def splice_insert_def splice_start_def Let_def min_def)
  have "\<forall>y \<in> set (take k ?q). pm_id y \<noteq> ?i"
    using assms(1) set_take_subset [of k ?q] by (fastforce simp: net_wf_def)
  then have "index_of_id ?i ?net1 = int k"
    unfolding index_of_id_def using find_index_split [of "take k ?q" "\<lambda>y. pm_id y = ?i" ?x "drop k ?q"] k(2)
    by (simp add: min_def)
  moreover have "splice_remove (int k) (take k ?q @ ?x # drop k ?q) = (?q, Some ?x)"
    using k(2) by (simp add: splice_remove_def splice_start_def Let_def min_def nth_append)
  ultimately have "net_dropById ?i ?net1 = (net\<lparr>mn_nextMessageId := ?i + 1\<rparr>, True)"
    by (simp add: net_dropById_def net_drop_def)
  moreover have "messages ?net1 = messages net"
    using net_duplicate_wf(2) [OF assms(1), of "int k"] dup by simp
  moreover have "length (mn_queue ?net1) = Suc (length ?q)" using k(2) by simp
  moreover have "net_duplicateById (pm_id p) net = (?net1, True)"
    using k(1) dup by (simp add: net_duplicateById_def)
  ultimately show ?thesis by blast
qed

end
