(* ===== verification/Primitives.thy ===== *)
theory Primitives
  imports RaftTypes
begin

text \<open>
  The deterministic primitives of \<open>packages/raft-testing/src/primitives.ts\<close>: the pseudo-random
  generator \<open>SeededRandom\<close> and the \<open>VirtualClock\<close>.  A \<open>number\<close> that holds an integer is an
  \<^typ>\<open>int\<close>; where its value can leave the 53-bit range, \<open>double\<close> rounds it the way an IEEE 754
  double does.  The bitwise operators and \<open>Math.imul\<close> work on 32-bit words.
\<close>

unbundle bit_operations_syntax

section \<open>Integers as doubles\<close>

text \<open>Round half to even at 53 significant bits.\<close>

fun binary_length :: "nat \<Rightarrow> nat" where
  "binary_length n = (if n = 0 then 0 else Suc (binary_length (n div 2)))"

declare binary_length.simps [simp del]

definition round_at :: "nat \<Rightarrow> nat \<Rightarrow> nat" where
  "round_at u n =
     (let q = n div u; r = n mod u
      in if 2 * r < u \<or> 2 * r = u \<and> even q then q * u else (q + 1) * u)"

definition double_nat :: "nat \<Rightarrow> nat" where
  "double_nat n = (if n < 2 ^ 53 then n else round_at (2 ^ (binary_length n - 53)) n)"

definition double :: "int \<Rightarrow> int" where
  "double i = (if i < 0 then - int (double_nat (nat (- i))) else int (double_nat (nat i)))"

definition MAX_SAFE :: int where
  "MAX_SAFE = 2 ^ 53 - 1"

definition safe_integer :: "int \<Rightarrow> bool" where
  "safe_integer i \<longleftrightarrow> \<bar>i\<bar> \<le> MAX_SAFE"

section \<open>SeededRandom\<close>

record seeded_random =
  sr_seed :: int
  sr_state :: int

definition INCREMENT :: int where
  "INCREMENT = 0x6d2b79f5"

definition new_random :: "int \<Rightarrow> seeded_random" where
  "new_random seed =
     (let start = seed mod 2 ^ 32
      in \<lparr>sr_seed = seed, sr_state = (if start = 0 then INCREMENT else start)\<rparr>)"

text \<open>The mixing of \<open>next\<close>, on the low 32 bits of the state.\<close>

definition mix :: "32 word \<Rightarrow> 32 word" where
  "mix w =
     (let a = (w XOR drop_bit 15 w) * (w OR 1);
          b = a XOR (a + (a XOR drop_bit 7 a) * (a OR 61))
      in b XOR drop_bit 14 b)"

text \<open>\<open>next()\<close> returns the numerator of a fraction with denominator \<open>2 ^ 32\<close>.\<close>

definition random_next :: "seeded_random \<Rightarrow> seeded_random \<times> int" where
  "random_next r =
     (let s = double (sr_state r + INCREMENT)
      in (r\<lparr>sr_state := s\<rparr>, uint (mix (word_of_int s))))"

definition random_integer :: "int \<Rightarrow> int \<Rightarrow> seeded_random \<Rightarrow> seeded_random \<times> (raft_error + int)" where
  "random_integer minimum maximumExclusive r =
     (if \<not> safe_integer minimum \<or> \<not> safe_integer maximumExclusive \<or> maximumExclusive \<le> minimum
      then (r, Inl (PlainError ''invalid integer range''))
      else case random_next r of
        (r1, n) \<Rightarrow>
          let product = double (n * double (maximumExclusive - minimum))
          in (r1, Inr (double (minimum + product div 2 ^ 32))))"

section \<open>VirtualClock\<close>

text \<open>A task is a name; \<open>run\<close> says what its callback does to the world: the delays and tasks it
  schedules, in order.\<close>

record 'k virtual_clock =
  vc_now :: int
  vc_tasks :: "(int \<times> 'k) list"

definition new_clock :: "'k virtual_clock" where
  "new_clock = \<lparr>vc_now = 0, vc_tasks = []\<rparr>"

definition clock_schedule :: "int \<Rightarrow> 'k \<Rightarrow> 'k virtual_clock
    \<Rightarrow> 'k virtual_clock \<times> (raft_error + unit)" where
  "clock_schedule delay k c =
     (if delay < 0 then (c, Inl (PlainError ''delay must not be negative''))
      else (c\<lparr>vc_tasks := sort_key fst (vc_tasks c @ [(vc_now c + delay, k)])\<rparr>, Inr ()))"

fun schedule_all :: "(int \<times> 'k) list \<Rightarrow> 'k virtual_clock \<Rightarrow> 'k virtual_clock \<times> (raft_error + unit)"
  where
  "schedule_all [] c = (c, Inr ())"
| "schedule_all ((delay, k) # rest) c =
     (case clock_schedule delay k c of
        (c1, Inl err) \<Rightarrow> (c1, Inl err)
      | (c1, Inr _) \<Rightarrow> schedule_all rest c1)"

text \<open>The loop of \<open>advance\<close> with its trace of executed tasks; it need not end when callbacks keep
  scheduling tasks without delay.\<close>

partial_function (option) clock_run :: "('k \<Rightarrow> (int \<times> 'k) list) \<Rightarrow> int \<Rightarrow> 'k virtual_clock
    \<Rightarrow> (int \<times> 'k) list \<Rightarrow> ('k virtual_clock \<times> (int \<times> 'k) list \<times> (raft_error + unit)) option" where
  "clock_run run target c trace =
     (case vc_tasks c of
        [] \<Rightarrow> Some (c\<lparr>vc_now := target\<rparr>, trace, Inr ())
      | (at, k) # rest \<Rightarrow>
          if target < at then Some (c\<lparr>vc_now := target\<rparr>, trace, Inr ())
          else (case schedule_all (run k) (c\<lparr>vc_tasks := rest, vc_now := at\<rparr>) of
                  (c1, Inl err) \<Rightarrow> Some (c1, trace @ [(at, k)], Inl err)
                | (c1, Inr _) \<Rightarrow> clock_run run target c1 (trace @ [(at, k)])))"

definition clock_advance :: "('k \<Rightarrow> (int \<times> 'k) list) \<Rightarrow> int \<Rightarrow> 'k virtual_clock
    \<Rightarrow> ('k virtual_clock \<times> (int \<times> 'k) list \<times> (raft_error + unit)) option" where
  "clock_advance run milliseconds c = clock_run run (vc_now c + milliseconds) c []"

declare clock_run.simps [code]

section \<open>Bounds of the generator\<close>

lemma binary_length_bound: "n < 2 ^ binary_length n"
proof (induction n rule: binary_length.induct)
  case (1 n)
  show ?case
  proof (cases "n = 0")
    case False
    then have "n div 2 < 2 ^ binary_length (n div 2)" using 1 by blast
    then have "n < 2 * 2 ^ binary_length (n div 2)" by linarith
    then show ?thesis using False by (simp add: binary_length.simps [of n])
  qed (simp add: binary_length.simps)
qed

lemma binary_length_le: "n \<noteq> 0 \<Longrightarrow> 2 ^ (binary_length n - 1) \<le> n"
proof (induction n rule: binary_length.induct)
  case (1 n)
  show ?case
  proof (cases "n div 2 = 0")
    case True
    then show ?thesis using 1(2) by (simp add: binary_length.simps [of n] binary_length.simps [of 0])
  next
    case False
    then have "2 ^ (binary_length (n div 2) - 1) \<le> n div 2" using 1 by blast
    moreover have "binary_length (n div 2) = Suc (binary_length (n div 2) - 1)"
      using False by (simp add: binary_length.simps [of "n div 2"])
    ultimately show ?thesis
      using 1(2) by (simp add: binary_length.simps [of n]) (metis div_le_dividend le_trans mult_le_mono2 power_Suc times_div_less_eq_dividend)
  qed
qed

lemma round_at_bound:
  assumes "0 < u"
  shows "2 * round_at u n \<le> 2 * n + u" and "2 * n \<le> 2 * round_at u n + u"
proof -
  define A r where "A = n div u * u" and "r = n mod u"
  have n: "n = A + r" "r < u" using assms by (simp_all add: A_def r_def)
  have "round_at u n = (if 2 * r < u \<or> 2 * r = u \<and> even (n div u) then A else A + u)"
    by (simp add: round_at_def Let_def A_def r_def)
  then show "2 * round_at u n \<le> 2 * n + u" "2 * n \<le> 2 * round_at u n + u"
    using n by auto
qed

text \<open>The relative error is at most \<open>2 ^ -53\<close>.\<close>

lemma double_nat_error:
  "2 ^ 53 * double_nat n \<le> (2 ^ 53 + 1) * n" "(2 ^ 53 - 1) * n \<le> 2 ^ 53 * double_nat n"
proof -
  have "2 ^ 53 * double_nat n \<le> (2 ^ 53 + 1) * n \<and> (2 ^ 53 - 1) * n \<le> 2 ^ 53 * double_nat n"
  proof (cases "n < 2 ^ 53")
    case True
    then show ?thesis by (simp add: double_nat_def)
  next
    case False
    then have n0: "n \<noteq> 0" by simp
    let ?b = "binary_length n"
    have "53 < ?b"
    proof (rule ccontr)
      assume "\<not> 53 < ?b"
      then have "(2::nat) ^ ?b \<le> 2 ^ 53" by (intro power_increasing) auto
      then show False using binary_length_bound [of n] False by linarith
    qed
    then have "?b - 1 = 52 + (?b - 53)" by simp
    then have "(2::nat) ^ (?b - 1) = 2 ^ 52 * 2 ^ (?b - 53)" by (simp only: power_add)
    then have u: "2 ^ 52 * 2 ^ (?b - 53) \<le> n" using binary_length_le [OF n0] by simp
    note r = round_at_bound [of "2 ^ (?b - 53)" n]
    show ?thesis using r u False by (simp add: double_nat_def)
  qed
  then show "2 ^ 53 * double_nat n \<le> (2 ^ 53 + 1) * n" "(2 ^ 53 - 1) * n \<le> 2 ^ 53 * double_nat n"
    by simp_all
qed

lemma double_exact: "\<bar>i\<bar> < 2 ^ 53 \<Longrightarrow> double i = i"
proof -
  assume a: "\<bar>i\<bar> < 2 ^ 53"
  then have "nat \<bar>i\<bar> < 2 ^ 53" by (simp add: nat_less_iff)
  then show ?thesis using a by (auto simp: double_def double_nat_def)
qed

text \<open>What \<open>integer\<close> computes stays strictly below the range: a fraction of at most \<open>1 - 2 ^ -32\<close>
  leaves more room than two roundings of relative size \<open>2 ^ -53\<close> can use up.\<close>

lemma scaled_below:
  assumes "n < 2 ^ 32" and "0 < R" and "R \<le> 2 ^ 54"
  shows "double_nat (n * double_nat R) div 2 ^ 32 < R"
proof -
  let ?d = "double_nat R"
  define x y z where "x = n * ?d" and "y = n * R" and "z = double_nat (n * ?d)"
  have d: "2 ^ 53 * ?d \<le> (2 ^ 53 + 1) * R" by (rule double_nat_error)
  have p: "2 ^ 53 * z \<le> (2 ^ 53 + 1) * x" unfolding x_def z_def by (rule double_nat_error)
  have "2 ^ 53 * x \<le> (2 ^ 53 + 1) * y"
    using mult_le_mono2 [OF d, of n] unfolding x_def y_def by (simp only: ac_simps)
  then have "2 ^ 53 * (2 ^ 53 * z) \<le> (2 ^ 53 + 1) * ((2 ^ 53 + 1) * y)" using p by simp
  then have q: "2 ^ 53 * (2 ^ 53 * double_nat (n * ?d)) \<le> (2 ^ 53 + 1) * ((2 ^ 53 + 1) * (n * R))"
    by (simp only: y_def z_def)
  have "(2 ^ 53 + 1) * ((2 ^ 53 + 1) * (n * R)) \<le> (2 ^ 53 + 1) * ((2 ^ 53 + 1) * ((2 ^ 32 - 1) * R))"
    using assms(1) by simp
  also have "\<dots> < 2 ^ 53 * (2 ^ 53 * (2 ^ 32 * R))" using assms(2) by simp
  finally have "2 ^ 53 * (2 ^ 53 * double_nat (n * ?d)) < 2 ^ 53 * (2 ^ 53 * (2 ^ 32 * R))"
    using q by (rule le_less_trans [rotated])
  then have "double_nat (n * ?d) < R * 2 ^ 32" by simp
  then show ?thesis by (simp add: div_less_iff_less_mult)
qed

lemma random_next_bound: "0 \<le> snd (random_next r) \<and> snd (random_next r) < 2 ^ 32"
  using unsigned_less [of "mix (word_of_int (double (sr_state r + INCREMENT)))", where ?'a = int]
  by (simp add: random_next_def Let_def)

text \<open>Rounding over binary numerals, for evaluation.\<close>

fun int_length :: "int \<Rightarrow> nat" where
  "int_length i = (if i \<le> 0 then 0 else Suc (int_length (i div 2)))"

declare int_length.simps [simp del]

lemma int_length_nat: "int_length (int n) = binary_length n"
proof (induction n rule: binary_length.induct)
  case (1 n)
  have "int n div 2 = int (n div 2)" by simp
  then show ?case
    using 1 int_length.simps [of 0] binary_length.simps [of 0]
    by (cases "n = 0") (simp_all add: int_length.simps [of "int n"] binary_length.simps [of n])
qed

lemma double_code [code]:
  "double i =
     (let m = \<bar>i\<bar> in if m < 2 ^ 53 then i
      else let u = 2 ^ (int_length m - 53); q = m div u; r = m mod u;
               v = (if 2 * r < u \<or> 2 * r = u \<and> even q then q * u else (q + 1) * u)
           in if i < 0 then - v else v)"
proof -
  define n where "n = nat \<bar>i\<bar>"
  have n: "\<bar>i\<bar> = int n" "n < 2 ^ 53 \<longleftrightarrow> \<bar>i\<bar> < 2 ^ 53" by (simp_all add: n_def nat_less_iff)
  define u :: nat where "u = 2 ^ (binary_length n - 53)"
  have r: "int (round_at u n) = (if 2 * (int n mod int u) < int u \<or> 2 * (int n mod int u) = int u \<and> even (int n div int u)
      then int n div int u * int u else (int n div int u + 1) * int u)"
    unfolding round_at_def Let_def zdiv_int [symmetric] zmod_int [symmetric]
    by (auto simp: algebra_simps)
  have d: "double i = (if i < 0 then - int (double_nat n) else int (double_nat n))"
    by (auto simp: double_def n_def)
  have iu: "int u = 2 ^ (int_length (int n) - 53)" by (simp add: u_def int_length_nat)
  show ?thesis
  proof (cases "n < 2 ^ 53")
    case True
    then show ?thesis using d n by (auto simp: double_nat_def Let_def)
  next
    case False
    then have "double_nat n = round_at u n" by (simp add: double_nat_def u_def)
    then show ?thesis using False d n(1,2) r unfolding iu Let_def by auto
  qed
qed

lemma integer_bounds:
  "case snd (random_integer lo hi r) of
     Inl e \<Rightarrow> e = PlainError ''invalid integer range'' \<and> \<not> (safe_integer lo \<and> safe_integer hi \<and> lo < hi)
   | Inr i \<Rightarrow> safe_integer lo \<and> safe_integer hi \<and> lo \<le> i \<and> i < hi"
proof (cases "\<not> safe_integer lo \<or> \<not> safe_integer hi \<or> hi \<le> lo")
  case False
  then have s: "\<bar>lo\<bar> < 2 ^ 53" "\<bar>hi\<bar> < 2 ^ 53" "lo < hi" by (auto simp: safe_integer_def MAX_SAFE_def)
  obtain r1 x where nr: "random_next r = (r1, x)" by fastforce
  have x: "0 \<le> x" "x < 2 ^ 32" using random_next_bound [of r] nr by simp_all
  define n where "n = nat x"
  have nx: "random_next r = (r1, int n)" and n: "n < 2 ^ 32" using nr x by (simp_all add: n_def nat_less_iff)
  define R where "R = nat (hi - lo)"
  have R: "0 < R" "R \<le> 2 ^ 54" "hi - lo = int R" using s by (auto simp: R_def nat_le_iff)
  define k where "k = double_nat (n * double_nat R) div 2 ^ 32"
  have k: "k < R" unfolding k_def using scaled_below [OF n R(1,2)] .
  have dR: "double (hi - lo) = int (double_nat R)" using R by (simp add: double_def)
  have "double (int n * double (hi - lo)) = int (double_nat (n * double_nat R))"
    unfolding dR of_nat_mult [symmetric] by (simp add: double_def del: of_nat_mult)
  then have "double (int n * double (hi - lo)) div 2 ^ 32 = int k"
    by (simp add: k_def zdiv_int)
  moreover have "lo \<le> lo + int k" "lo + int k < hi" using k R(3) by simp_all
  moreover have "double (lo + int k) = lo + int k"
    using s k R(3) by (intro double_exact) linarith
  ultimately show ?thesis using False nx by (simp add: random_integer_def Let_def)
qed (auto simp: random_integer_def)

text \<open>C40: \<open>integer\<close> throws exactly when a bound is not a safe integer or the range is empty, and
  otherwise returns an integer of the range: the roundings of double arithmetic never push the result out
  of it, however large the range is.\<close>

theorem integer_in_range:
  "case snd (random_integer lo hi r) of
     Inl e \<Rightarrow> e = PlainError ''invalid integer range'' \<and> \<not> (safe_integer lo \<and> safe_integer hi \<and> lo < hi)
   | Inr i \<Rightarrow> safe_integer lo \<and> safe_integer hi \<and> lo \<le> i \<and> i < hi"
  by (rule integer_bounds)

section \<open>Order of execution\<close>

definition clock_ok :: "'k virtual_clock \<Rightarrow> bool" where
  "clock_ok c \<longleftrightarrow> sorted (map fst (vc_tasks c)) \<and> (\<forall>x \<in> set (vc_tasks c). vc_now c \<le> fst x)"

lemma clock_schedule_ok:
  "clock_ok c \<Longrightarrow> clock_ok (fst (clock_schedule d k c)) \<and> vc_now (fst (clock_schedule d k c)) = vc_now c"
  by (auto simp: clock_schedule_def clock_ok_def)

lemma schedule_all_ok:
  "clock_ok c \<Longrightarrow> schedule_all ds c = (c', r) \<Longrightarrow> clock_ok c' \<and> vc_now c' = vc_now c"
proof (induction ds c rule: schedule_all.induct)
  case (2 delay k rest c)
  obtain c1 x where one: "clock_schedule delay k c = (c1, x)" by fastforce
  then have c1: "clock_ok c1" "vc_now c1 = vc_now c" using clock_schedule_ok [OF "2.prems"(1), of delay k] by simp_all
  show ?case
  proof (cases x)
    case (Inr u)
    then show ?thesis using 2 one c1 by simp
  qed (use 2 one c1 in simp)
qed simp

lemma clock_pop_ok:
  "clock_ok c \<Longrightarrow> vc_tasks c = (at, k) # rest \<Longrightarrow>
    clock_ok (c\<lparr>vc_tasks := rest, vc_now := at\<rparr>) \<and> vc_now c \<le> at"
  by (auto simp: clock_ok_def)

definition in_order :: "int \<Rightarrow> 'k virtual_clock \<times> (int \<times> 'k) list \<times> (raft_error + unit) \<Rightarrow> bool" where
  "in_order target out \<longleftrightarrow> (case out of (c, trace, r) \<Rightarrow>
     sorted (map fst trace) \<and> (\<forall>x \<in> set trace. fst x \<le> target) \<and>
     (r = Inr () \<longrightarrow> vc_now c = target \<and> (\<forall>x \<in> set (vc_tasks c). target < fst x)))"

definition runnable :: "int \<Rightarrow> 'k virtual_clock \<Rightarrow> (int \<times> 'k) list \<Rightarrow> bool" where
  "runnable target c tr \<longleftrightarrow> clock_ok c \<and> sorted (map fst tr) \<and> (\<forall>x \<in> set tr. fst x \<le> vc_now c) \<and>
     vc_now c \<le> target"

lemma clock_run_ok:
  assumes "clock_run run target c tr = Some out"
  shows "runnable target c tr \<longrightarrow> in_order target out"
proof (rule clock_run.raw_induct [OF _ assms, where P = "\<lambda>run target c tr out.
    runnable target c tr \<longrightarrow> in_order target out"], rule impI)
  fix rec run target c tr out
  assume IH: "\<And>run target c tr out. rec run target c tr = Some out \<Longrightarrow>
      runnable target c tr \<longrightarrow> in_order target out"
    and eq: "(case vc_tasks c of
        [] \<Rightarrow> Some (c\<lparr>vc_now := target\<rparr>, tr, Inr ())
      | (at, k) # rest \<Rightarrow>
          if target < at then Some (c\<lparr>vc_now := target\<rparr>, tr, Inr ())
          else (case schedule_all (run k) (c\<lparr>vc_tasks := rest, vc_now := at\<rparr>) of
                  (c1, Inl err) \<Rightarrow> Some (c1, tr @ [(at, k)], Inl err)
                | (c1, Inr _) \<Rightarrow> rec run target c1 (tr @ [(at, k)]))) = Some out"
    and pre: "runnable target c tr"
  have ok: "clock_ok c" "sorted (map fst tr)" "\<forall>x \<in> set tr. fst x \<le> vc_now c" "vc_now c \<le> target"
    using pre by (simp_all add: runnable_def)
  show "in_order target out"
  proof (cases "vc_tasks c = [] \<or> target < fst (hd (vc_tasks c))")
    case True
    then have "out = (c\<lparr>vc_now := target\<rparr>, tr, Inr ())" using eq by (auto split: list.splits if_splits)
    moreover have "\<forall>x \<in> set (vc_tasks c). target < fst x"
      using True ok(1) by (cases "vc_tasks c") (auto simp: clock_ok_def)
    ultimately show ?thesis using ok by (auto simp: in_order_def)
  next
    case False
    then obtain at k rest where t: "vc_tasks c = (at, k) # rest" "at \<le> target"
      by (cases "vc_tasks c") (auto simp: not_less)
    let ?c0 = "c\<lparr>vc_tasks := rest, vc_now := at\<rparr>"
    obtain c1 x where sch: "schedule_all (run k) ?c0 = (c1, x)" by fastforce
    have c1: "clock_ok c1" "vc_now c1 = at" and at: "vc_now c \<le> at"
      using schedule_all_ok [OF _ sch] clock_pop_ok [OF ok(1) t(1)] by simp_all
    have tr: "sorted (map fst (tr @ [(at, k)]))" "\<forall>x \<in> set (tr @ [(at, k)]). fst x \<le> at"
      using ok(2,3) at by (auto simp: sorted_append)
    show ?thesis
    proof (cases x)
      case (Inl err)
      then have "out = (c1, tr @ [(at, k)], Inl err)" using eq t sch by simp
      then show ?thesis using tr t(2) by (auto simp: in_order_def)
    next
      case (Inr u)
      then have "rec run target c1 (tr @ [(at, k)]) = Some out" using eq t sch by simp
      moreover have "runnable target c1 (tr @ [(at, k)])" using c1 tr t(2) by (auto simp: runnable_def)
      ultimately show ?thesis using IH by blast
    qed
  qed
qed

text \<open>When \<open>advance\<close> returns, it has run tasks in the order of their due times, none of them due
  after the target, whatever the callbacks scheduled in between; the clock stands at the target and no
  task that is due is left.\<close>

theorem clock_runs_in_order:
  assumes "clock_ok c" and "0 \<le> ms" and "clock_advance run ms c = Some (c', trace, Inr ())"
  shows "sorted (map fst trace) \<and> (\<forall>x \<in> set trace. fst x \<le> vc_now c + ms) \<and>
    vc_now c' = vc_now c + ms \<and> (\<forall>x \<in> set (vc_tasks c'). vc_now c + ms < fst x)"
  using clock_run_ok [OF assms(3) [unfolded clock_advance_def]] assms(1,2)
  by (simp add: runnable_def in_order_def)

definition ex_run :: "nat \<Rightarrow> (int \<times> nat) list" where
  "ex_run k = (if k = 1 then [(2, 7), (0, 8)] else [])"

definition ex_clock :: "nat virtual_clock" where
  "ex_clock = fst (schedule_all [(5, 3), (1, 1), (1, 2), (20, 4)] new_clock)"

theorem clock_runs_in_order_witness:
  "sorted (map fst [(1, 1), (1, 2), (1, 8), (3, 7), (5 :: int, 3 :: nat)]) \<and>
    vc_now (fst (the (clock_advance ex_run 10 ex_clock))) = 10"
proof -
  have ok: "clock_ok ex_clock" by code_simp
  have run: "clock_advance ex_run 10 ex_clock =
    Some (fst (the (clock_advance ex_run 10 ex_clock)), [(1, 1), (1, 2), (1, 8), (3, 7), (5, 3)], Inr ())"
    by code_simp
  have "vc_now ex_clock = 0" by code_simp
  then show ?thesis using clock_runs_in_order [OF ok _ run] by simp
qed

end
