(* ===== verification/Timeouts.thy ===== *)
theory Timeouts
  imports RaftNode Network Primitives
begin

text \<open>
  Promises that race against a timer: \<open>withTimeout\<close> of \<open>packages/raft-node/src/node.ts\<close>, which bounds the
  wait for a proposal, and \<open>waitForPending\<close> of \<open>packages/raft-transport-memory/src/index.ts\<close>, which bounds
  the wait for a message; and \<open>drain\<close>, which yields to the event loop.  A promise keeps its first outcome.  A timer fires when the event loop turns to it,
  at its due time or later; a turn of the loop is an event of the model that carries the time.
\<close>

section \<open>setTimeout\<close>

text \<open>The delay Node.js waits for when \<open>setTimeout\<close> or \<open>setInterval\<close> is given a number of milliseconds:
  a delay outside of the positive 32-bit range is replaced by one.\<close>

definition timer_delay :: "int \<Rightarrow> int" where
  "timer_delay ms = (if ms < 1 \<or> 2147483647 < ms then 1 else ms)"

lemma timer_delay_pos: "1 \<le> timer_delay ms"
  by (simp add: timer_delay_def)

lemma timer_delay_exact [simp]: "1 \<le> ms \<Longrightarrow> ms \<le> 2147483647 \<Longrightarrow> timer_delay ms = ms"
  by (simp add: timer_delay_def)

section \<open>withTimeout\<close>

text \<open>What happens after the call, in order: the promise settles, or the event loop runs its timers at a
  time after the call.\<close>

datatype 'res race_event =
    Settles "raft_error + 'res"
  | Timers int

fun race :: "int \<Rightarrow> 'res race_event list \<Rightarrow> (raft_error + 'res) option" where
  "race due [] = None"
| "race due (Settles outcome # events) = Some outcome"
| "race due (Timers now # events) =
     (if due \<le> now then Some (Inl (ProposalTimeoutError
        ''proposal outcome is ambiguous; retry with the same command ID''))
      else race due events)"

fun settlement :: "'res race_event list \<Rightarrow> (raft_error + 'res) option" where
  "settlement [] = None"
| "settlement (Settles outcome # events) = Some outcome"
| "settlement (Timers now # events) = settlement events"

definition withTimeout :: "int option \<Rightarrow> 'res race_event list \<Rightarrow> (raft_error + 'res) option" where
  "withTimeout timeoutMs events =
     (case timeoutMs of
        None \<Rightarrow> settlement events
      | Some t \<Rightarrow>
          if t \<le> 0 then Some (Inl (ProposalTimeoutError ''proposal timeout must be positive''))
          else race (timer_delay t) events)"

text \<open>The promise that \<open>propose\<close> returns.\<close>

definition propose_result :: "int option \<Rightarrow> 'res proposal \<Rightarrow> 'res race_event list
    \<Rightarrow> (raft_error + 'res) option" where
  "propose_result timeoutMs p events =
     (case p of
        Settled outcome \<Rightarrow> Some outcome
      | Joined ticket \<Rightarrow> withTimeout timeoutMs events
      | Registered ticket payload \<Rightarrow> withTimeout timeoutMs events)"

text \<open>A race is decided by its first decisive event.\<close>

definition turns_before :: "int \<Rightarrow> 'res race_event list \<Rightarrow> bool" where
  "turns_before due events \<longleftrightarrow> list_all (\<lambda>e. case e of Settles _ \<Rightarrow> False | Timers now \<Rightarrow> now < due) events"

lemma race_waits: "turns_before due es \<Longrightarrow> race due (es @ rest) = race due rest"
  by (induction due es rule: race.induct) (auto simp: turns_before_def)

lemma race_waiting: "turns_before due es \<Longrightarrow> race due es = None"
  using race_waits [of due es "[]"] by simp

lemma race_cases:
  "race due events = None \<and> turns_before due events \<or>
   (\<exists>es outcome rest. events = es @ Settles outcome # rest \<and> turns_before due es \<and>
      race due events = Some outcome) \<or>
   (\<exists>es now rest. events = es @ Timers now # rest \<and> turns_before due es \<and> due \<le> now \<and>
      race due events = Some (Inl (ProposalTimeoutError
        ''proposal outcome is ambiguous; retry with the same command ID'')))"
proof (induction due events rule: race.induct)
  case (2 due outcome events)
  have "turns_before due []" by (simp add: turns_before_def)
  then show ?case by (metis append_Nil race.simps(2))
next
  case (3 due now events)
  show ?case
  proof (cases "due \<le> now")
    case True
    have "turns_before due []" by (simp add: turns_before_def)
    then show ?thesis using True by (metis append_Nil race.simps(3))
  next
    case False
    then have less: "turns_before due es \<Longrightarrow> turns_before due (Timers now # es)" for es :: "'a race_event list"
      by (simp add: turns_before_def)
    have same: "race due (Timers now # events) = race due events" using False by simp
    show ?thesis unfolding same using "3.IH" [OF False] less by (metis append_Cons)
  qed
qed (simp add: turns_before_def)

section \<open>waitForPending\<close>

text \<open>A waiter is the pair of callbacks of one promise; the promises are numbered, and \<open>wn_settled\<close> lists
  their outcomes in order.\<close>

record waiter =
  wt_ticket :: nat
  wt_timeoutMs :: int
  wt_due :: int

record waiting_network =
  wn_network :: memory_network
  wn_now :: int
  wn_waiters :: "waiter list"
  wn_nextTicket :: nat
  wn_settled :: "(nat \<times> (raft_error + unit)) list"

definition new_waiting :: waiting_network where
  "new_waiting = \<lparr>wn_network = new_network, wn_now = 0, wn_waiters = [], wn_nextTicket = 0, wn_settled = []\<rparr>"

definition waitForPending :: "int \<Rightarrow> waiting_network \<Rightarrow> waiting_network" where
  "waitForPending timeoutMs wn =
     (let ticket = wn_nextTicket wn; wn1 = wn\<lparr>wn_nextTicket := Suc ticket\<rparr>
      in if mn_queue (wn_network wn) \<noteq> []
         then wn1\<lparr>wn_settled := wn_settled wn @ [(ticket, Inr ())]\<rparr>
         else if \<not> safe_integer timeoutMs \<or> timeoutMs \<le> 0
         then wn1\<lparr>wn_settled := wn_settled wn @
                [(ticket, Inl (PlainError ''pending-message timeout must be a positive integer''))]\<rparr>
         else wn1\<lparr>wn_waiters := wn_waiters wn @
                [\<lparr>wt_ticket = ticket, wt_timeoutMs = timeoutMs,
                  wt_due = wn_now wn + timer_delay timeoutMs\<rparr>]\<rparr>)"

text \<open>\<open>enqueue\<close> with its waiters.\<close>

definition notify_waiters :: "waiting_network \<Rightarrow> waiting_network" where
  "notify_waiters wn = wn\<lparr>wn_settled := wn_settled wn @ map (\<lambda>w. (wt_ticket w, Inr ())) (wn_waiters wn),
     wn_waiters := []\<rparr>"

definition waiting_enqueue :: "raft_message \<Rightarrow> waiting_network \<Rightarrow> waiting_network" where
  "waiting_enqueue m wn =
     (let net = wn_network wn; wn1 = wn\<lparr>wn_network := net_enqueue m net\<rparr>
      in if \<not> mn_dropAll net \<and> edge (m_from m) (m_to m) \<notin> set (mn_blocked net)
         then notify_waiters wn1 else wn1)"

definition pending_timeout :: "int \<Rightarrow> raft_error" where
  "pending_timeout timeoutMs =
     PlainError (''no network message became pending within '' @ bigint_to_string timeoutMs @ ''ms'')"

text \<open>A turn of the event loop: every timer that is due fires, removes its waiter and rejects.\<close>

definition waiting_turn :: "int \<Rightarrow> waiting_network \<Rightarrow> waiting_network" where
  "waiting_turn now wn =
     wn\<lparr>wn_now := now,
        wn_waiters := filter (\<lambda>w. now < wt_due w) (wn_waiters wn),
        wn_settled := wn_settled wn @
          map (\<lambda>w. (wt_ticket w, Inl (pending_timeout (wt_timeoutMs w))))
            (filter (\<lambda>w. wt_due w \<le> now) (wn_waiters wn))\<rparr>"

text \<open>The life of a network with waiters: waits, messages, turns of the event loop, deliveries and the other
  operations of the network, in any order.\<close>

inductive waiting_step :: "waiting_network \<Rightarrow> waiting_network \<Rightarrow> bool" where
  waits: "waiting_step wn (waitForPending timeoutMs wn)"
| sends: "waiting_step wn (waiting_enqueue m wn)"
| turns: "wn_now wn \<le> now \<Longrightarrow> waiting_step wn (waiting_turn now wn)"
| delivers: "net_deliver i (wn_network wn) = (net, r) \<Longrightarrow> waiting_step wn (wn\<lparr>wn_network := net\<rparr>)"
| disturbs: "net_step (wn_network wn) net \<Longrightarrow> waiting_step wn (wn\<lparr>wn_network := net\<rparr>)"

inductive_cases waiting_stepE: "waiting_step wn wn'"

abbreviation waiting_reachable :: "waiting_network \<Rightarrow> bool" where
  "waiting_reachable \<equiv> rtranclp waiting_step new_waiting"

section \<open>drain\<close>

text \<open>\<open>drain\<close> empties the queue, yields one turn of the event loop to whoever wants to send, and returns when
  that left the queue empty.  The argument \<open>turns\<close> lists what is sent during the successive yields.\<close>

fun net_drain :: "(raft_message \<Rightarrow> memory_network \<Rightarrow> 'w \<Rightarrow> memory_network \<times> 'w \<times> (raft_error + unit))
    \<Rightarrow> int \<Rightarrow> int \<Rightarrow> raft_message list list \<Rightarrow> memory_network \<Rightarrow> 'w
    \<Rightarrow> memory_network \<times> 'w \<times> (raft_error + unit)" where
  "net_drain handle limit delivered [] net w =
     (case drain_loop handle limit delivered net w of
        (net1, w1, Inl err) \<Rightarrow> (net1, w1, Inl err)
      | (net1, w1, Inr _) \<Rightarrow> (net1, w1, Inr ()))"
| "net_drain handle limit delivered (sent # turns) net w =
     (case drain_loop handle limit delivered net w of
        (net1, w1, Inl err) \<Rightarrow> (net1, w1, Inl err)
      | (net1, w1, Inr n) \<Rightarrow>
          let net2 = fold net_enqueue sent net1
          in if mn_queue net2 = [] then (net2, w1, Inr ()) else net_drain handle limit n turns net2 w1)"

end
