(* ===== verification/NodeTimers.thy ===== *)
theory NodeTimers
  imports Timeouts
begin

text \<open>
  The timers of a node and its local reads, the rest of class \<open>RaftNode\<close> in
  \<open>packages/raft-node/src/node.ts\<close>.  A timed node is a node of theory \<open>RaftNode\<close> with the time, the armed
  election timer, the next tick of the heartbeat interval and the state of the source of random integers.

  A timer is armed with its due time and fires when the event loop turns to it, at that time or later; the
  operation it starts is completed before the next event.  A run is \<open>None\<close> when the operation never ends.
\<close>

section \<open>State and options\<close>

record election_timer =
  et_delay :: int
  et_due :: int

record ('st, 'sm, 'net, 'res, 'rnd) timed_node =
  tn_node :: "('st, 'sm, 'net, 'res) raft_node"
  tn_now :: int
  tn_election :: "election_timer option"
  tn_heartbeat :: "int option"
  tn_random :: 'rnd

record 'rnd timer_options =
  to_options :: node_options
  to_automatic :: bool
  to_random :: "int \<Rightarrow> int \<Rightarrow> 'rnd \<Rightarrow> ('rnd, int) io"

definition new_timed :: "('st, 'sm, 'net, 'res) raft_node \<Rightarrow> 'rnd
    \<Rightarrow> ('st, 'sm, 'net, 'res, 'rnd) timed_node" where
  "new_timed nd g = \<lparr>tn_node = nd, tn_now = 0, tn_election = None, tn_heartbeat = None, tn_random = g\<rparr>"

abbreviation electionTimeoutMinMs :: "'rnd timer_options \<Rightarrow> int" where
  "electionTimeoutMinMs opts \<equiv> no_electionTimeoutMinMs (to_options opts)"

abbreviation electionTimeoutMaxMs :: "'rnd timer_options \<Rightarrow> int" where
  "electionTimeoutMaxMs opts \<equiv> no_electionTimeoutMaxMs (to_options opts)"

abbreviation heartbeatInterval :: "'rnd timer_options \<Rightarrow> int" where
  "heartbeatInterval opts \<equiv> no_heartbeatInterval (to_options opts)"

section \<open>Operations\<close>

definition resetElectionTimer :: "'rnd timer_options \<Rightarrow> ('st, 'sm, 'net, 'res, 'rnd) timed_node
    \<Rightarrow> (('st, 'sm, 'net, 'res, 'rnd) timed_node, unit) io" where
  "resetElectionTimer opts tn =
     (if \<not> nd_started (tn_node tn) \<or> \<not> to_automatic opts then (tn, Inr ())
      else case to_random opts (electionTimeoutMinMs opts) (electionTimeoutMaxMs opts + 1) (tn_random tn) of
        (g, Inl err) \<Rightarrow> (tn\<lparr>tn_election := None, tn_random := g\<rparr>, Inl err)
      | (g, Inr delay) \<Rightarrow>
          (tn\<lparr>tn_election := Some \<lparr>et_delay = delay, et_due = tn_now tn + timer_delay delay\<rparr>,
              tn_random := g\<rparr>, Inr ()))"

definition timed_start :: "('st, 'sm, 'net, 'cmd, 'res) node_env \<Rightarrow> 'rnd timer_options
    \<Rightarrow> ('st, 'sm, 'net, 'res, 'rnd) timed_node \<Rightarrow> (('st, 'sm, 'net, 'res, 'rnd) timed_node, unit) io" where
  "timed_start env opts tn =
     (if nd_started (tn_node tn) then (tn, Inr ())
      else case node_start env (tn_node tn) of
        (nd, Inl err) \<Rightarrow> (tn\<lparr>tn_node := nd\<rparr>, Inl err)
      | (nd, Inr _) \<Rightarrow>
          let tn1 = tn\<lparr>tn_node := nd\<rparr>
          in if \<not> to_automatic opts then (tn1, Inr ())
             else case resetElectionTimer opts tn1 of
               (tn2, Inl err) \<Rightarrow> (tn2, Inl err)
             | (tn2, Inr _) \<Rightarrow>
                 (tn2\<lparr>tn_heartbeat := Some (tn_now tn2 + timer_delay (heartbeatInterval opts))\<rparr>, Inr ()))"

definition timed_stop :: "('st, 'sm, 'net, 'cmd, 'res) node_env
    \<Rightarrow> ('st, 'sm, 'net, 'res, 'rnd) timed_node \<Rightarrow> ('st, 'sm, 'net, 'res, 'rnd) timed_node" where
  "timed_stop env tn =
     (if \<not> nd_started (tn_node tn) then tn
      else tn\<lparr>tn_node := node_stop env (tn_node tn), tn_election := None, tn_heartbeat := None\<rparr>)"

fun is_append_request :: "message_body \<Rightarrow> bool" where
  "is_append_request (AppendEntriesRequest _ _ _ _) = True"
| "is_append_request _ = False"

text \<open>The handler the node registers with its transport.\<close>

definition on_message :: "('st, 'sm, 'net, 'cmd, 'res) node_env \<Rightarrow> 'rnd timer_options \<Rightarrow> raft_message
    \<Rightarrow> ('st, 'sm, 'net, 'res, 'rnd) timed_node
    \<Rightarrow> (('st, 'sm, 'net, 'res, 'rnd) timed_node, unit) run" where
  "on_message env opts m tn =
     (case process env (MessageEvent m) (tn_node tn) of
        None \<Rightarrow> None
      | Some (nd, Inl err) \<Rightarrow> Some (tn\<lparr>tn_node := nd\<rparr>, Inl err)
      | Some (nd, Inr _) \<Rightarrow>
          Some (if is_append_request (m_body m) then resetElectionTimer opts (tn\<lparr>tn_node := nd\<rparr>)
                else (tn\<lparr>tn_node := nd\<rparr>, Inr ())))"

text \<open>The callback of the election timer that was armed with \<open>delay\<close>.\<close>

definition election_callback :: "('st, 'sm, 'net, 'cmd, 'res) node_env \<Rightarrow> 'rnd timer_options \<Rightarrow> int
    \<Rightarrow> ('st, 'sm, 'net, 'res, 'rnd) timed_node \<Rightarrow> ('st, 'sm, 'net, 'res, 'rnd) timed_node option" where
  "election_callback env opts delay tn =
     (case campaign env delay (tn_node tn) of
        None \<Rightarrow> None
      | Some (nd, Inl err) \<Rightarrow> Some (tn\<lparr>tn_node := node_fail err nd\<rparr>)
      | Some (nd, Inr _) \<Rightarrow>
          (case resetElectionTimer opts (tn\<lparr>tn_node := nd\<rparr>) of
             (tn1, Inl err) \<Rightarrow> Some (tn1\<lparr>tn_node := node_fail err (tn_node tn1)\<rparr>)
           | (tn1, Inr _) \<Rightarrow> Some tn1))"

definition heartbeat_callback :: "('st, 'sm, 'net, 'cmd, 'res) node_env
    \<Rightarrow> ('st, 'sm, 'net, 'res, 'rnd) timed_node \<Rightarrow> ('st, 'sm, 'net, 'res, 'rnd) timed_node option" where
  "heartbeat_callback env tn =
     (case heartbeat env (tn_node tn) of
        None \<Rightarrow> None
      | Some (nd, Inl err) \<Rightarrow> Some (tn\<lparr>tn_node := node_fail err nd\<rparr>)
      | Some (nd, Inr _) \<Rightarrow> Some (tn\<lparr>tn_node := nd\<rparr>))"

text \<open>The event loop: time passes, a due election timer is used up and calls back, a due interval is armed
  again and calls back.\<close>

definition elapse :: "int \<Rightarrow> ('st, 'sm, 'net, 'res, 'rnd) timed_node
    \<Rightarrow> ('st, 'sm, 'net, 'res, 'rnd) timed_node" where
  "elapse d tn = tn\<lparr>tn_now := tn_now tn + d\<rparr>"

definition election_due :: "('st, 'sm, 'net, 'res, 'rnd) timed_node \<Rightarrow> bool" where
  "election_due tn = (case tn_election tn of None \<Rightarrow> False | Some e \<Rightarrow> et_due e \<le> tn_now tn)"

definition heartbeat_due :: "('st, 'sm, 'net, 'res, 'rnd) timed_node \<Rightarrow> bool" where
  "heartbeat_due tn = (case tn_heartbeat tn of None \<Rightarrow> False | Some due \<Rightarrow> due \<le> tn_now tn)"

definition fire_election :: "('st, 'sm, 'net, 'cmd, 'res) node_env \<Rightarrow> 'rnd timer_options
    \<Rightarrow> ('st, 'sm, 'net, 'res, 'rnd) timed_node \<Rightarrow> ('st, 'sm, 'net, 'res, 'rnd) timed_node option" where
  "fire_election env opts tn =
     (case tn_election tn of
        None \<Rightarrow> Some tn
      | Some e \<Rightarrow> if tn_now tn < et_due e then Some tn
                  else election_callback env opts (et_delay e) (tn\<lparr>tn_election := None\<rparr>))"

definition fire_heartbeat :: "('st, 'sm, 'net, 'cmd, 'res) node_env \<Rightarrow> 'rnd timer_options
    \<Rightarrow> ('st, 'sm, 'net, 'res, 'rnd) timed_node \<Rightarrow> ('st, 'sm, 'net, 'res, 'rnd) timed_node option" where
  "fire_heartbeat env opts tn =
     (case tn_heartbeat tn of
        None \<Rightarrow> Some tn
      | Some due \<Rightarrow> if tn_now tn < due then Some tn
                    else heartbeat_callback env
                      (tn\<lparr>tn_heartbeat := Some (tn_now tn + timer_delay (heartbeatInterval opts))\<rparr>))"

text \<open>A local read waits for the operations that are queued when it is called, whatever their outcome; the
  reader is a function of the state machine it closes over.\<close>

fun run_queue :: "('st, 'sm, 'net, 'cmd, 'res) node_env \<Rightarrow> raft_event list
    \<Rightarrow> ('st, 'sm, 'net, 'res) raft_node \<Rightarrow> ('st, 'sm, 'net, 'res) raft_node option" where
  "run_queue env [] nd = Some nd"
| "run_queue env (event # events) nd =
     (case process env event nd of None \<Rightarrow> None | Some (nd1, _) \<Rightarrow> run_queue env events nd1)"

definition read_node :: "('st, 'sm, 'net, 'cmd, 'res) node_env \<Rightarrow> ('sm \<Rightarrow> raft_error + 'a)
    \<Rightarrow> raft_event list \<Rightarrow> ('st, 'sm, 'net, 'res) raft_node \<Rightarrow> (('st, 'sm, 'net, 'res) raft_node, 'a) run"
  where
  "read_node env reader queued nd =
     (case assertRunning nd of
        Some err \<Rightarrow> Some (nd, Inl err)
      | None \<Rightarrow> map_option (\<lambda>nd1. (nd1, reader (nd_machine nd1))) (run_queue env queued nd))"

section \<open>Everything that can happen to a timed node\<close>

inductive timed_step :: "('st, 'sm, 'net, 'cmd, 'res) node_env \<Rightarrow> 'rnd timer_options
    \<Rightarrow> ('st, 'sm, 'net, 'res, 'rnd) timed_node \<Rightarrow> ('st, 'sm, 'net, 'res, 'rnd) timed_node \<Rightarrow> bool"
  for env opts where
  starts: "timed_start env opts tn = (tn', r) \<Longrightarrow> timed_step env opts tn tn'"
| stops: "timed_step env opts tn (timed_stop env tn)"
| hears: "on_message env opts m tn = Some (tn', r) \<Longrightarrow> timed_step env opts tn tn'"
| passes: "0 \<le> d \<Longrightarrow> timed_step env opts tn (elapse d tn)"
| elects: "fire_election env opts tn = Some tn' \<Longrightarrow> timed_step env opts tn tn'"
| beats: "fire_heartbeat env opts tn = Some tn' \<Longrightarrow> timed_step env opts tn tn'"
| campaigned: "campaign env t (tn_node tn) = Some (nd, r) \<Longrightarrow> timed_step env opts tn (tn\<lparr>tn_node := nd\<rparr>)"
| asked: "heartbeat env (tn_node tn) = Some (nd, r) \<Longrightarrow> timed_step env opts tn (tn\<lparr>tn_node := nd\<rparr>)"
| proposed: "propose_node env command cid (tn_node tn) = Some (nd, p) \<Longrightarrow>
    timed_step env opts tn (tn\<lparr>tn_node := nd\<rparr>)"

inductive_cases timed_stepE: "timed_step env opts tn tn'"

abbreviation timed_run :: "('st, 'sm, 'net, 'cmd, 'res) node_env \<Rightarrow> 'rnd timer_options
    \<Rightarrow> ('st, 'sm, 'net, 'res, 'rnd) timed_node \<Rightarrow> ('st, 'sm, 'net, 'res, 'rnd) timed_node \<Rightarrow> bool" where
  "timed_run env opts \<equiv> rtranclp (timed_step env opts)"

section \<open>What an operation leaves of the flags of a node\<close>

text \<open>No operation but \<open>start\<close> and \<open>stop\<close> touches the flag \<open>#started\<close>, none makes a failed node healthy, and
  one that returns leaves a healthy node healthy.\<close>

definition keeps_flags :: "('st, 'sm, 'net, 'res) raft_node \<Rightarrow> ('st, 'sm, 'net, 'res) raft_node
    \<Rightarrow> (raft_error + 'a) \<Rightarrow> bool" where
  "keeps_flags nd nd' r \<longleftrightarrow> nd_started nd' = nd_started nd \<and> (nd_healthy nd' \<longrightarrow> nd_healthy nd) \<and>
     (isl r \<or> nd_healthy nd' = nd_healthy nd)"

lemma fail_flags [simp]:
  "nd_started (node_fail err nd) = nd_started nd" "\<not> nd_healthy (node_fail err nd)"
  by (simp_all add: node_fail_def reject_pending_def)

lemma emit_flags [simp]:
  "nd_started (emit ev nd) = nd_started nd" "nd_healthy (emit ev nd) = nd_healthy nd"
  by (simp_all add: emit_def)

lemma resolve_flags [simp]:
  "nd_started (resolve_pending cid r nd) = nd_started nd"
  "nd_healthy (resolve_pending cid r nd) = nd_healthy nd"
  by (simp_all add: resolve_pending_def split: option.split)

lemma send_flags [simp]:
  "nd_started (send_all env ms nd) = nd_started nd" "nd_healthy (send_all env ms nd) = nd_healthy nd"
  by (induction env ms nd rule: send_all.induct) (auto split: prod.splits sum.splits)

lemma note_role_flags [simp]:
  "nd_started (note_role ro nd) = nd_started nd" "nd_healthy (note_role ro nd) = nd_healthy nd"
  by (simp_all add: note_role_def Let_def)

lemma apply_command_flags: "apply_command env e cid nd = Some (nd', r) \<Longrightarrow>
    nd_started nd' = nd_started nd \<and> nd_healthy nd' = nd_healthy nd"
  by (auto simp: apply_command_def persist_at_def Let_def split: sum.splits prod.splits option.splits)

lemma apply_entry_flags:
  assumes "apply_entry env e nd = Some (nd', r)"
  shows "keeps_flags nd nd' r"
  using assms apply_command_flags [of env e _ nd]
  by (fastforce simp: apply_entry_def persist_at_def Let_def keeps_flags_def
      split: if_splits option.splits sum.splits prod.splits)

lemma apply_entries_flags: "apply_entries env es nd = Some (nd', r) \<Longrightarrow> keeps_flags nd nd' r"
proof (induction env es nd rule: apply_entries.induct)
  case (2 env e es nd)
  obtain nd1 x where one: "apply_entry env e nd = Some (nd1, x)"
    using 2(2) by (auto simp: run_bind_def split: option.splits)
  then show ?case using 2 apply_entry_flags [OF one]
    by (cases x) (auto simp: run_bind_def keeps_flags_def)
qed (simp add: keeps_flags_def)

lemma process_ready_flags:
  assumes "process_ready env rd nd = Some (nd', r)"
  shows "keeps_flags nd nd' r"
proof -
  obtain st x where st: "persist_at env (ready_batch rd) nd = (nd\<lparr>nd_storage := st\<rparr>, x)"
    by (cases "ne_persist env (ready_batch rd) (nd_storage nd)") (simp add: persist_at_def)
  show ?thesis
  proof (cases x)
    case (Inl err)
    then show ?thesis using assms st by (auto simp: process_ready_def Let_def keeps_flags_def)
  next
    case (Inr u)
    let ?nd1 = "send_all env (rd_outboundMessages rd) (nd\<lparr>nd_storage := st\<rparr>)"
    obtain nd2 y where ap: "apply_entries env (rd_committedEntries rd) ?nd1 = Some (nd2, y)"
      using assms st Inr by (auto simp: process_ready_def run_bind_def split: option.splits)
    have "keeps_flags nd nd2 y" using apply_entries_flags [OF ap] by (simp add: keeps_flags_def)
    then show ?thesis using assms st Inr ap
      by (cases y) (auto simp: process_ready_def run_bind_def keeps_flags_def split: prod.splits)
  qed
qed

lemma process_flags:
  assumes "process env ev nd = Some (nd', r)"
  shows "keeps_flags nd nd' r"
proof -
  obtain c x where step: "core_step ev (nd_core nd) = (c, x)" by fastforce
  show ?thesis
  proof (cases "x = Inr None \<or> (\<exists>err. x = Inl err)")
    case True
    then show ?thesis using assms step by (auto simp: process_def run_bind_def keeps_flags_def)
  next
    case False
    then obtain rd where x: "x = Inr (Some rd)" by (cases x) auto
    obtain nd1 y where one: "process_ready env rd (nd\<lparr>nd_core := c\<rparr>) = Some (nd1, y)"
      using assms step x by (auto simp: process_def run_bind_def split: option.splits)
    then show ?thesis using assms step x process_ready_flags [OF one]
      by (cases y) (auto simp: process_def run_bind_def keeps_flags_def)
  qed
qed

lemma campaign_flags: "campaign env t nd = Some (nd', r) \<Longrightarrow> keeps_flags nd nd' r"
  and heartbeat_flags: "heartbeat env nd = Some (nd', r) \<Longrightarrow> keeps_flags nd nd' r"
  by (auto simp: campaign_def heartbeat_def keeps_flags_def split: option.splits dest: process_flags)

lemma propose_flags:
  assumes "propose_node env command cid nd = Some (nd', p)"
  shows "nd_started nd' = nd_started nd \<and> (nd_healthy nd' \<longrightarrow> nd_healthy nd)"
proof -
  obtain nd1 q where b: "propose_begin env command cid nd = (nd1, q)" by fastforce
  have first: "nd_started nd1 = nd_started nd \<and> nd_healthy nd1 = nd_healthy nd" using b
    by (auto simp: propose_begin_def Let_def split: option.splits sum.splits if_splits)
  show ?thesis
  proof (cases q)
    case (Registered ticket payload)
    then obtain nd2 x where run: "process env (Propose cid payload) nd1 = Some (nd2, x)"
        and "nd_started nd' = nd_started nd2" "nd_healthy nd' = nd_healthy nd2"
      using assms b by (auto simp: propose_node_def propose_run_def split: option.splits sum.splits)
    then show ?thesis using first process_flags [OF run] by (auto simp: keeps_flags_def)
  qed (use assms b first in \<open>simp_all add: propose_node_def\<close>)
qed

end
