(* ===== verification/TimerTheorems.thy ===== *)
theory TimerTheorems
  imports NodeTimers NodeTheorems NetworkTheorems CoreTheorems
begin

text \<open>
  The properties of the timers of a node, of proposals with a timeout and of waits for a message.  What the
  election timer needs from its source of random integers is the locale \<open>timer_source\<close>, interpreted on
  \<open>SeededRandom\<close>; \<open>randomInt\<close> of Node.js, the default of a node, is documented to satisfy it as well.
\<close>

section \<open>The source of election timeouts\<close>

definition timers_valid :: "'rnd timer_options \<Rightarrow> bool" where
  "timers_valid opts \<longleftrightarrow> validateOptions (to_options opts) = None \<and> 0 < heartbeatInterval opts \<and>
     electionTimeoutMaxMs opts \<le> 2147483647"

lemma timers_valid_bounds:
  "timers_valid opts \<Longrightarrow> 0 < heartbeatInterval opts \<and> heartbeatInterval opts < electionTimeoutMinMs opts \<and>
     electionTimeoutMinMs opts \<le> electionTimeoutMaxMs opts \<and> electionTimeoutMaxMs opts \<le> 2147483647"
  by (auto simp: timers_valid_def validateOptions_def split: if_splits)

text \<open>A started node with automatic timers has its interval armed and, as long as it is healthy, an election
  timer with a delay of the configured range; any other node has no timer.\<close>

fun beat_armed :: "'rnd timer_options \<Rightarrow> int \<Rightarrow> int option \<Rightarrow> bool" where
  "beat_armed opts now None = False"
| "beat_armed opts now (Some due) \<longleftrightarrow> due \<le> now + heartbeatInterval opts"

fun election_armed :: "'rnd timer_options \<Rightarrow> int \<Rightarrow> election_timer option \<Rightarrow> bool" where
  "election_armed opts now None = False"
| "election_armed opts now (Some e) \<longleftrightarrow>
     electionTimeoutMinMs opts \<le> et_delay e \<and> et_delay e \<le> electionTimeoutMaxMs opts \<and>
     et_due e \<le> now + et_delay e"

definition timers_ok :: "'rnd timer_options \<Rightarrow> ('st, 'sm, 'net, 'res, 'rnd) timed_node \<Rightarrow> bool" where
  "timers_ok opts tn \<longleftrightarrow>
     (if nd_started (tn_node tn) \<and> to_automatic opts
      then beat_armed opts (tn_now tn) (tn_heartbeat tn) \<and>
           (nd_healthy (tn_node tn) \<longrightarrow> election_armed opts (tn_now tn) (tn_election tn))
      else tn_election tn = None \<and> tn_heartbeat tn = None)"

lemma armed_later:
  "0 \<le> d \<Longrightarrow> beat_armed opts now b \<Longrightarrow> beat_armed opts (now + d) b"
  "0 \<le> d \<Longrightarrow> election_armed opts now e \<Longrightarrow> election_armed opts (now + d) e"
  by (cases b; cases e; simp)+

lemma timers_ok_cong:
  assumes "timers_ok opts tn" and "keeps_flags (tn_node tn) nd r"
  shows "timers_ok opts (tn\<lparr>tn_node := nd\<rparr>)"
  using assms by (auto simp: timers_ok_def keeps_flags_def)

locale timer_source =
  fixes random :: "int \<Rightarrow> int \<Rightarrow> 'rnd \<Rightarrow> ('rnd, int) io"
  assumes in_range: "0 < lo \<Longrightarrow> lo < hi \<Longrightarrow> hi \<le> 2 ^ 31 \<Longrightarrow>
    \<exists>g' x. random lo hi g = (g', Inr x) \<and> lo \<le> x \<and> x < hi"
begin

lemma reset_arms:
  assumes "to_random opts = random" and "timers_valid opts" and "nd_started (tn_node tn)" and "to_automatic opts"
  shows "\<exists>g e. resetElectionTimer opts tn = (tn\<lparr>tn_election := Some e, tn_random := g\<rparr>, Inr ()) \<and>
    electionTimeoutMinMs opts \<le> et_delay e \<and> et_delay e \<le> electionTimeoutMaxMs opts \<and>
    et_due e = tn_now tn + et_delay e"
proof -
  note b = timers_valid_bounds [OF assms(2)]
  obtain g x where "random (electionTimeoutMinMs opts) (electionTimeoutMaxMs opts + 1) (tn_random tn) = (g, Inr x)"
    "electionTimeoutMinMs opts \<le> x" "x < electionTimeoutMaxMs opts + 1"
    using in_range [of "electionTimeoutMinMs opts" "electionTimeoutMaxMs opts + 1" "tn_random tn"] b by auto
  then show ?thesis using assms b
    by (intro exI [of _ g] exI [of _ "\<lparr>et_delay = x, et_due = tn_now tn + x\<rparr>"])
      (simp add: resetElectionTimer_def)
qed

lemma reset_ok:
  assumes "to_random opts = random" and "timers_valid opts"
    and "nd_started (tn_node tn) \<Longrightarrow> to_automatic opts \<Longrightarrow>
      beat_armed opts (tn_now tn) (tn_heartbeat tn)"
    and "\<not> (nd_started (tn_node tn) \<and> to_automatic opts) \<Longrightarrow> timers_ok opts tn"
  shows "\<exists>tn'. resetElectionTimer opts tn = (tn', Inr ()) \<and> timers_ok opts tn'"
proof (cases "nd_started (tn_node tn) \<and> to_automatic opts")
  case True
  then obtain g e where "resetElectionTimer opts tn = (tn\<lparr>tn_election := Some e, tn_random := g\<rparr>, Inr ())"
    "electionTimeoutMinMs opts \<le> et_delay e" "et_delay e \<le> electionTimeoutMaxMs opts"
    "et_due e = tn_now tn + et_delay e"
    using reset_arms [OF assms(1,2)] by blast
  then show ?thesis using True assms(3) by (simp add: timers_ok_def)
next
  case False
  then show ?thesis using assms(4) by (auto simp: resetElectionTimer_def)
qed

lemma timed_start_ok:
  assumes "to_random opts = random" and "timers_valid opts" and "timers_ok opts tn"
    and "timed_start env opts tn = (tn', r)"
  shows "timers_ok opts tn'"
proof (cases "nd_started (tn_node tn)")
  case True
  then show ?thesis using assms(3,4) by (simp add: timed_start_def)
next
  case False
  then have none: "tn_election tn = None" "tn_heartbeat tn = None"
    using assms(3) by (simp_all add: timers_ok_def)
  obtain nd x where st: "node_start env (tn_node tn) = (nd, x)" by fastforce
  show ?thesis
  proof (cases x)
    case (Inl err)
    then have "nd_started nd = nd_started (tn_node tn)"
      using st False by (auto simp: node_start_def split: if_splits prod.splits sum.splits)
    then show ?thesis using assms(4) st Inl False none by (auto simp: timed_start_def timers_ok_def)
  next
    case (Inr u)
    then have s: "nd_started nd" using st False
      by (auto simp: node_start_def split: if_splits prod.splits sum.splits)
    show ?thesis
    proof (cases "to_automatic opts")
      case True
      obtain g e where "resetElectionTimer opts (tn\<lparr>tn_node := nd\<rparr>) =
          (tn\<lparr>tn_node := nd, tn_election := Some e, tn_random := g\<rparr>, Inr ())"
        "electionTimeoutMinMs opts \<le> et_delay e" "et_delay e \<le> electionTimeoutMaxMs opts"
        "et_due e = tn_now tn + et_delay e"
        using reset_arms [OF assms(1,2), of "tn\<lparr>tn_node := nd\<rparr>"] s True by auto
      then show ?thesis using assms(4) st Inr False True s timers_valid_bounds [OF assms(2)]
        by (auto simp: timed_start_def timers_ok_def Let_def)
    qed (use assms(4) st Inr False none in \<open>auto simp: timed_start_def timers_ok_def Let_def\<close>)
  qed
qed

lemma on_message_ok:
  assumes "to_random opts = random" and "timers_valid opts" and "timers_ok opts tn"
    and "on_message env opts m tn = Some (tn', r)"
  shows "timers_ok opts tn'"
proof -
  obtain nd x where p: "process env (MessageEvent m) (tn_node tn) = Some (nd, x)"
    using assms(4) by (auto simp: on_message_def split: option.splits)
  have ok: "timers_ok opts (tn\<lparr>tn_node := nd\<rparr>)" using timers_ok_cong [OF assms(3) process_flags [OF p]] .
  then have "nd_started nd \<Longrightarrow> to_automatic opts \<Longrightarrow> beat_armed opts (tn_now tn) (tn_heartbeat tn)"
    by (simp add: timers_ok_def)
  then obtain tn2 where "resetElectionTimer opts (tn\<lparr>tn_node := nd\<rparr>) = (tn2, Inr ())" "timers_ok opts tn2"
    using reset_ok [OF assms(1,2), of "tn\<lparr>tn_node := nd\<rparr>"] ok by auto
  then show ?thesis using assms(4) p ok by (auto simp: on_message_def split: sum.splits if_splits)
qed

lemma fire_election_ok:
  assumes "to_random opts = random" and "timers_valid opts" and "timers_ok opts tn"
    and "fire_election env opts tn = Some tn'"
  shows "timers_ok opts tn'"
proof (cases "election_due tn")
  case False
  then show ?thesis using assms(3,4) by (auto simp: fire_election_def election_due_def split: option.splits if_splits)
next
  case True
  then obtain e where e: "tn_election tn = Some e" "et_due e \<le> tn_now tn"
    by (auto simp: election_due_def split: option.splits)
  let ?tn = "tn\<lparr>tn_election := None\<rparr>"
  have s: "nd_started (tn_node tn)" "to_automatic opts"
    and h: "beat_armed opts (tn_now tn) (tn_heartbeat tn)"
    using assms(3) e by (auto simp: timers_ok_def split: if_splits)
  obtain nd x where c: "campaign env (et_delay e) (tn_node tn) = Some (nd, x)"
    using assms(4) e by (auto simp: fire_election_def election_callback_def split: option.splits)
  have f: "nd_started nd" using campaign_flags [OF c] s by (simp add: keeps_flags_def)
  show ?thesis
  proof (cases x)
    case (Inl err)
    then have "tn' = ?tn\<lparr>tn_node := node_fail err nd\<rparr>"
      using assms(4) e c by (simp add: fire_election_def election_callback_def)
    then show ?thesis using f s h by (simp add: timers_ok_def)
  next
    case (Inr u)
    obtain tn2 where "resetElectionTimer opts (?tn\<lparr>tn_node := nd\<rparr>) = (tn2, Inr ())" "timers_ok opts tn2"
      using reset_ok [OF assms(1,2), of "?tn\<lparr>tn_node := nd\<rparr>"] f s h by auto
    then show ?thesis using assms(4) e c Inr by (simp add: fire_election_def election_callback_def)
  qed
qed

lemma fire_heartbeat_ok:
  assumes "timers_valid opts" and "timers_ok opts tn" and "fire_heartbeat env opts tn = Some tn'"
  shows "timers_ok opts tn'"
proof (cases "heartbeat_due tn")
  case False
  then show ?thesis using assms(2,3)
    by (auto simp: fire_heartbeat_def heartbeat_due_def split: option.splits if_splits)
next
  case True
  then obtain due where e: "tn_heartbeat tn = Some due" "due \<le> tn_now tn"
    by (auto simp: heartbeat_due_def split: option.splits)
  let ?tn = "tn\<lparr>tn_heartbeat := Some (tn_now tn + timer_delay (heartbeatInterval opts))\<rparr>"
  have b: "timer_delay (heartbeatInterval opts) = heartbeatInterval opts"
    using timers_valid_bounds [OF assms(1)] by simp
  have ok: "timers_ok opts ?tn" using assms(2) e b by (auto simp: timers_ok_def split: if_splits)
  obtain nd x where c: "heartbeat env (tn_node tn) = Some (nd, x)"
    using assms(3) e by (auto simp: fire_heartbeat_def heartbeat_callback_def split: option.splits)
  have f: "keeps_flags (tn_node ?tn) nd x" using heartbeat_flags [OF c] by simp
  then have "keeps_flags (tn_node ?tn) (case x of Inl err \<Rightarrow> node_fail err nd | Inr _ \<Rightarrow> nd) x"
    by (auto simp: keeps_flags_def split: sum.split)
  then show ?thesis using timers_ok_cong [OF ok] assms(3) e c
    by (cases x) (auto simp: fire_heartbeat_def heartbeat_callback_def)
qed

lemma step_ok:
  assumes "timed_step env opts tn tn'"
    and "to_random opts = random" and "timers_valid opts" and "timers_ok opts tn"
  shows "timers_ok opts tn'"
  using assms(1)
proof (cases rule: timed_step.cases)
  case stops
  then show ?thesis using assms(4) by (auto simp: timed_stop_def timers_ok_def node_stop_def Let_def reject_pending_def)
next
  case (passes d)
  then show ?thesis using assms(4) by (auto simp: elapse_def timers_ok_def armed_later)
next
  case (proposed command cid nd p)
  then have "keeps_flags (tn_node tn) nd (Inl undefined)" using propose_flags by (simp add: keeps_flags_def)
  then show ?thesis using proposed timers_ok_cong [OF assms(4)] by simp
next
  case (starts r)
  then show ?thesis using timed_start_ok [OF assms(2,3,4)] by blast
next
  case (hears m r)
  then show ?thesis using on_message_ok [OF assms(2,3,4)] by blast
next
  case elects
  then show ?thesis using fire_election_ok [OF assms(2,3,4)] by blast
next
  case beats
  then show ?thesis using fire_heartbeat_ok [OF assms(3,4)] by blast
next
  case (campaigned t nd r)
  then show ?thesis using timers_ok_cong [OF assms(4) campaign_flags] by blast
next
  case (asked nd r)
  then show ?thesis using timers_ok_cong [OF assms(4) heartbeat_flags] by blast
qed

lemma run_ok:
  assumes "timed_run env opts tn tn'"
    and "to_random opts = random" and "timers_valid opts" and "timers_ok opts tn"
  shows "timers_ok opts tn'"
  using assms(1) by induction (use assms(4) step_ok [OF _ assms(2,3)] in auto)

end

interpretation seeded: timer_source random_integer
proof
  fix lo hi :: int and g
  assume "0 < lo" "lo < hi" "hi \<le> 2 ^ 31"
  then show "\<exists>g' x. random_integer lo hi g = (g', Inr x) \<and> lo \<le> x \<and> x < hi"
    using integer_bounds [of lo hi g]
    by (cases "random_integer lo hi g") (auto simp: safe_integer_def MAX_SAFE_def split: sum.splits)
qed

section \<open>The timers of a node\<close>

lemma fresh_timers_ok: "\<not> nd_started nd \<Longrightarrow> timers_ok opts (new_timed nd g)"
  by (simp add: timers_ok_def new_timed_def)

text \<open>C26: Whatever happens to a node - starts and stops, messages, calls, failures, timers in any order and as
  late as the event loop turns to them - a started node with automatic timers has its heartbeat interval
  armed, while it is healthy its election timer is armed with a delay of the configured range, at most
  \<open>electionTimeoutMaxMs\<close> ahead, and a stopped node has no timer left.\<close>

theorem timers_armed:
  assumes "timer_source (to_random opts)" and "timers_valid opts" and "\<not> nd_started nd"
    and "timed_run env opts (new_timed nd g) tn"
  shows "timers_ok opts tn"
  using timer_source.run_ok [OF assms(1,4) refl assms(2)] fresh_timers_ok [OF assms(3)] .

text \<open>The instance: the node of theory \<open>NodeTheorems\<close> with timers.\<close>

definition ex_timer_options :: "seeded_random timer_options" where
  "ex_timer_options = \<lparr>to_options = ex_node_options [''a''], to_automatic = True, to_random = random_integer\<rparr>"

definition ex_timed :: "(storage_handle, int, raft_message list, int, seeded_random) timed_node" where
  "ex_timed = new_timed (node_of (create_node durable_env (ex_node_options [''a'']) []
     (handle_open new_durable_state) 0)) (new_random 7)"

definition ex_timed_started :: "(storage_handle, int, raft_message list, int, seeded_random) timed_node" where
  "ex_timed_started = fst (timed_start durable_env ex_timer_options ex_timed)"

definition ex_timed_leading :: "(storage_handle, int, raft_message list, int, seeded_random) timed_node" where
  "ex_timed_leading = the (fire_election durable_env ex_timer_options (elapse 20 ex_timed_started))"

lemma ex_timers_valid: "timers_valid ex_timer_options" and ex_timer_source: "timer_source (to_random ex_timer_options)"
  using seeded.timer_source_axioms by (simp_all add: timers_valid_def ex_timer_options_def ex_node_options_def validateOptions_def)

lemma ex_timed_run: "timed_run durable_env ex_timer_options ex_timed ex_timed_leading"
proof -
  have a: "timed_step durable_env ex_timer_options ex_timed ex_timed_started"
    unfolding ex_timed_started_def by (rule timed_step.starts) (rule prod.collapse [symmetric])
  have b: "timed_step durable_env ex_timer_options ex_timed_started (elapse 20 ex_timed_started)"
    by (rule timed_step.passes) simp
  have "\<not> Option.is_none (fire_election durable_env ex_timer_options (elapse 20 ex_timed_started))" by code_simp
  then have "fire_election durable_env ex_timer_options (elapse 20 ex_timed_started) = Some ex_timed_leading"
    unfolding ex_timed_leading_def by (simp add: Option.is_none_def)
  then have c: "timed_step durable_env ex_timer_options (elapse 20 ex_timed_started) ex_timed_leading"
    by (rule timed_step.elects)
  let ?step = "timed_step durable_env ex_timer_options"
  show ?thesis
    by (rule converse_rtranclp_into_rtranclp [where r = ?step, OF a],
        rule converse_rtranclp_into_rtranclp [where r = ?step, OF b],
        rule r_into_rtranclp [where r = ?step, OF c])
qed

theorem timers_armed_witness: "timers_ok ex_timer_options ex_timed_leading"
proof (rule timers_armed [OF ex_timer_source ex_timers_valid])
  show "\<not> nd_started (tn_node ex_timed)" by code_simp
  show "timed_run durable_env ex_timer_options (new_timed (tn_node ex_timed) (new_random 7)) ex_timed_leading"
    using ex_timed_run by (simp add: ex_timed_def new_timed_def)
qed

section \<open>Requests of a leader hold back elections\<close>

text \<open>Requests with the time that passes before each; every one is processed without an error.\<close>

fun hear_all :: "('st, 'sm, 'net, 'cmd, 'res) node_env \<Rightarrow> 'rnd timer_options \<Rightarrow> (int \<times> raft_message) list
    \<Rightarrow> ('st, 'sm, 'net, 'res, 'rnd) timed_node \<Rightarrow> ('st, 'sm, 'net, 'res, 'rnd) timed_node option" where
  "hear_all env opts [] tn = Some tn"
| "hear_all env opts ((d, m) # rest) tn =
     (if election_due (elapse d tn) then None
      else case on_message env opts m (elapse d tn) of
        Some (tn1, Inr _) \<Rightarrow> hear_all env opts rest tn1
      | _ \<Rightarrow> None)"

definition freshly_armed :: "'rnd timer_options \<Rightarrow> ('st, 'sm, 'net, 'res, 'rnd) timed_node \<Rightarrow> bool" where
  "freshly_armed opts tn \<longleftrightarrow> nd_started (tn_node tn) \<and>
     (case tn_election tn of None \<Rightarrow> False | Some e \<Rightarrow> tn_now tn + electionTimeoutMinMs opts \<le> et_due e)"

lemma freshly_not_due: "freshly_armed opts tn \<Longrightarrow> d < electionTimeoutMinMs opts \<Longrightarrow> \<not> election_due (elapse d tn)"
  by (auto simp: freshly_armed_def election_due_def elapse_def split: option.splits)

context timer_source
begin

lemma reset_fresh:
  assumes "to_random opts = random" and "timers_valid opts" and "to_automatic opts"
    and "nd_started (tn_node tn)"
  shows "\<exists>tn'. resetElectionTimer opts tn = (tn', Inr ()) \<and> freshly_armed opts tn' \<and>
    tn_node tn' = tn_node tn \<and> tn_now tn' = tn_now tn"
proof -
  obtain g e where "resetElectionTimer opts tn = (tn\<lparr>tn_election := Some e, tn_random := g\<rparr>, Inr ())"
    "electionTimeoutMinMs opts \<le> et_delay e" "et_due e = tn_now tn + et_delay e"
    using reset_arms [OF assms(1,2,4,3)] by blast
  then show ?thesis using assms(4) by (simp add: freshly_armed_def)
qed

lemma request_rearms:
  assumes "to_random opts = random" and "timers_valid opts" and "to_automatic opts"
    and "nd_started (tn_node tn)" and "is_append_request (m_body m)"
    and "process env (MessageEvent m) (tn_node tn) = Some (nd, Inr ())"
  shows "\<exists>tn'. on_message env opts m tn = Some (tn', Inr ()) \<and> freshly_armed opts tn' \<and>
    tn_node tn' = nd \<and> tn_now tn' = tn_now tn"
proof -
  have "nd_started nd" using process_flags [OF assms(6)] assms(4) by (simp add: keeps_flags_def)
  then show ?thesis using reset_fresh [OF assms(1-3), of "tn\<lparr>tn_node := nd\<rparr>"] assms(5,6)
    by (auto simp: on_message_def)
qed

lemma hear_fresh:
  assumes "to_random opts = random" and "timers_valid opts" and "to_automatic opts"
    and "freshly_armed opts tn"
    and "list_all (\<lambda>(d, m). d < electionTimeoutMinMs opts \<and> is_append_request (m_body m)) calls"
    and "hear_all env opts calls tn = Some tn'"
  shows "freshly_armed opts tn'"
  using assms(4-6)
proof (induction calls arbitrary: tn)
  case (Cons x calls)
  obtain d m where x: "x = (d, m)" by (cases x)
  let ?tn = "elapse d tn"
  have "\<not> election_due ?tn" using freshly_not_due [OF Cons.prems(1)] Cons.prems(2) x by simp
  then obtain tn1 where on: "on_message env opts m ?tn = Some (tn1, Inr ())"
    and rest: "hear_all env opts (x # calls) tn = hear_all env opts calls tn1"
    using Cons.prems(3) x by (auto split: option.splits sum.splits)
  then obtain nd where "process env (MessageEvent m) (tn_node ?tn) = Some (nd, Inr ())"
    by (auto simp: on_message_def split: option.splits sum.splits)
  moreover have "nd_started (tn_node ?tn)" using Cons.prems(1) by (simp add: freshly_armed_def elapse_def)
  ultimately have "freshly_armed opts tn1"
    using request_rearms [OF assms(1-3), of ?tn m env nd] on Cons.prems(2) x by auto
  then show ?case using Cons.IH [of tn1] Cons.prems(2,3) rest by simp
qed simp

end

text \<open>C27: A leader that is heard keeps its followers quiet: as long as AppendEntries requests are processed in
  intervals shorter than \<open>electionTimeoutMinMs\<close>, the election timer of a started node never falls due, so it
  starts no election.  The term of the requests does not matter: those of a deposed leader do it too.\<close>

theorem requests_suppress_elections:
  assumes "timer_source (to_random opts)" and "timers_valid opts" and "to_automatic opts"
    and "freshly_armed opts tn"
    and "list_all (\<lambda>(d, m). d < electionTimeoutMinMs opts \<and> is_append_request (m_body m)) calls"
    and "hear_all env opts calls tn = Some tn'"
    and "d < electionTimeoutMinMs opts"
  shows "\<not> election_due (elapse d tn') \<and> fire_election env opts (elapse d tn') = Some (elapse d tn')"
proof -
  have "\<not> election_due (elapse d tn')"
    using freshly_not_due [OF timer_source.hear_fresh [OF assms(1) refl assms(2-6)] assms(7)] .
  then show ?thesis by (auto simp: election_due_def fire_election_def split: option.splits)
qed

text \<open>The instance: a follower of three, with requests of an older term that it refuses.\<close>

definition ex_member :: "(storage_handle, int, raft_message list, int, seeded_random) timed_node" where
  "ex_member = fst (timed_start durable_env ex_timer_options (new_timed (node_of (create_node durable_env
     (ex_node_options [''a'', ''b'', ''c'']) [] (handle_open new_durable_state) 0)) (new_random 7)))"

definition ex_request :: raft_message where
  "ex_request = \<lparr>m_protocolVersion = PROTOCOL_VERSION, m_clusterId = ''k'', m_from = ''b'', m_to = ''a'',
     m_term = 0, m_body = AppendEntriesRequest 0 0 [] 0\<rparr>"

definition ex_rival :: "(storage_handle, int, raft_message list, int, seeded_random) timed_node" where
  "ex_rival = the (fire_election durable_env ex_timer_options (elapse 20 ex_member))"

definition ex_calls :: "(int \<times> raft_message) list" where
  "ex_calls = [(9, ex_request), (8, ex_request)]"

theorem requests_suppress_elections_witness:
  "\<not> election_due (elapse 9 (the (hear_all durable_env ex_timer_options ex_calls ex_rival))) \<and>
   fire_election durable_env ex_timer_options
     (elapse 9 (the (hear_all durable_env ex_timer_options ex_calls ex_rival))) =
     Some (elapse 9 (the (hear_all durable_env ex_timer_options ex_calls ex_rival)))"
proof (rule requests_suppress_elections [OF ex_timer_source ex_timers_valid])
  show "to_automatic ex_timer_options" by code_simp
  show "freshly_armed ex_timer_options ex_rival" by code_simp
  show "list_all (\<lambda>(d, m). d < electionTimeoutMinMs ex_timer_options \<and> is_append_request (m_body m)) ex_calls"
    by code_simp
  have "\<not> Option.is_none (hear_all durable_env ex_timer_options ex_calls ex_rival)" by code_simp
  then show "hear_all durable_env ex_timer_options ex_calls ex_rival =
      Some (the (hear_all durable_env ex_timer_options ex_calls ex_rival))"
    by (simp add: Option.is_none_def)
  show "(9 :: int) < electionTimeoutMinMs ex_timer_options" by code_simp
qed

section \<open>The timer of a single node elects it\<close>

lemma timers_ok_due:
  assumes "timers_ok opts tn" and "timers_valid opts" and "to_automatic opts"
    and "nd_started (tn_node tn)"
  shows "nd_healthy (tn_node tn) \<Longrightarrow> \<exists>e. tn_election tn = Some e \<and>
      et_due e \<le> tn_now (elapse (electionTimeoutMaxMs opts) tn) \<and> et_delay e \<le> electionTimeoutMaxMs opts"
    and "\<exists>due. tn_heartbeat tn = Some due \<and> due \<le> tn_now (elapse (heartbeatInterval opts) tn)"
proof -
  have b: "beat_armed opts (tn_now tn) (tn_heartbeat tn)"
    and e: "nd_healthy (tn_node tn) \<Longrightarrow> election_armed opts (tn_now tn) (tn_election tn)"
    using assms by (simp_all add: timers_ok_def)
  show "\<exists>due. tn_heartbeat tn = Some due \<and> due \<le> tn_now (elapse (heartbeatInterval opts) tn)"
    using b by (cases "tn_heartbeat tn") (simp_all add: elapse_def)
  assume "nd_healthy (tn_node tn)"
  then have "election_armed opts (tn_now tn) (tn_election tn)" by (rule e)
  then show "\<exists>e. tn_election tn = Some e \<and>
      et_due e \<le> tn_now (elapse (electionTimeoutMaxMs opts) tn) \<and> et_delay e \<le> electionTimeoutMaxMs opts"
    by (cases "tn_election tn") (simp_all add: elapse_def)
qed

lemma single_campaign:
  fixes env :: "(storage_handle, 'sm, 'net, 'cmd, 'res) node_env"
  assumes "ne_persist env = handle_persist" and "0 \<le> ne_retention env"
    and "synced handle_view handle_ready nd"
    and "list_all (applicable env) (rc_entries (nd_core nd))"
    and "rc_members (nd_core nd) = [rc_nodeId (nd_core nd)]" and "rc_role (nd_core nd) \<noteq> Leader"
    and "nd_started nd" and "nd_healthy nd"
  shows "\<exists>nd'. campaign env t nd = Some (nd', Inr ()) \<and> nd_started nd' \<and> nd_healthy nd' \<and>
    rc_role (nd_core nd') = Leader \<and> rc_currentTerm (nd_core nd') = rc_currentTerm (nd_core nd) + 1 \<and>
    rc_commitIndex (nd_core nd') = lastLogIndex (nd_core nd) + 1 \<and>
    rc_appliedIndex (nd_core nd') = lastLogIndex (nd_core nd) + 1"
proof -
  have s: "core_wf (nd_core nd)" "rc_outstanding (nd_core nd) = None" using assms(3) by (simp_all add: synced_def)
  obtain c rd where step: "core_step (ElectionTimeout t) (nd_core nd) = (c, Inr (Some rd))"
    and c: "rc_role c = Leader" "rc_currentTerm c = rc_currentTerm (nd_core nd) + 1"
    "rc_commitIndex c = lastLogIndex (nd_core nd) + 1"
    and es: "\<forall>e \<in> set (rd_committedEntries rd). e \<in> set (rc_entries (nd_core nd)) \<or> le_type e \<noteq> Command"
    using single_member_elects_itself [OF s assms(5,6)] by blast
  have "applicable env e" if "le_type e \<noteq> Command" for e using that by (simp add: applicable_def)
  then have "\<forall>e \<in> set (rd_committedEntries rd). applicable env e"
    using es assms(4) by (auto simp: list_all_iff)
  then obtain nd' where run: "process env (ElectionTimeout t) nd = Some (nd', Inr ())"
    and core: "nd_core nd' = c\<lparr>rc_appliedIndex := rc_commitIndex c, rc_outstanding := None\<rparr>"
    using durable.process_synced [OF assms(1-3) _ step] by (auto simp: event_wf_def)
  then show ?thesis using process_flags [OF run] assms(7,8) c
    by (simp add: campaign_def assertRunning_def keeps_flags_def)
qed

text \<open>C28: A cluster of one elects itself without help: after \<open>electionTimeoutMaxMs\<close> the election timer of the
  started node has fallen due, and its callback makes the node leader of the next term with its whole log
  committed and applied, and arms the timers again.\<close>

theorem timer_elects_single_node:
  fixes env :: "(storage_handle, 'sm, 'net, 'cmd, 'res) node_env"
  assumes "timer_source (to_random opts)" and "timers_valid opts" and "to_automatic opts"
    and "timers_ok opts tn" and "nd_started (tn_node tn)" and "nd_healthy (tn_node tn)"
    and "ne_persist env = handle_persist" and "0 \<le> ne_retention env"
    and "synced handle_view handle_ready (tn_node tn)"
    and "list_all (applicable env) (rc_entries (nd_core (tn_node tn)))"
    and "rc_members (nd_core (tn_node tn)) = [rc_nodeId (nd_core (tn_node tn))]"
    and "rc_role (nd_core (tn_node tn)) \<noteq> Leader"
  shows "\<exists>tn'. fire_election env opts (elapse (electionTimeoutMaxMs opts) tn) = Some tn' \<and>
    rc_role (nd_core (tn_node tn')) = Leader \<and>
    rc_currentTerm (nd_core (tn_node tn')) = rc_currentTerm (nd_core (tn_node tn)) + 1 \<and>
    rc_commitIndex (nd_core (tn_node tn')) = lastLogIndex (nd_core (tn_node tn)) + 1 \<and>
    rc_appliedIndex (nd_core (tn_node tn')) = lastLogIndex (nd_core (tn_node tn)) + 1 \<and>
    nd_healthy (tn_node tn') \<and> timers_ok opts tn'"
proof -
  obtain e where e: "tn_election tn = Some e"
    "et_due e \<le> tn_now (elapse (electionTimeoutMaxMs opts) tn)"
    using timers_ok_due(1) [OF assms(4,2,3,5,6)] by blast
  let ?tn = "(elapse (electionTimeoutMaxMs opts) tn)\<lparr>tn_election := None\<rparr>"
  obtain nd where c: "campaign env (et_delay e) (tn_node tn) = Some (nd, Inr ())" "nd_started nd" "nd_healthy nd"
    "rc_role (nd_core nd) = Leader" "rc_currentTerm (nd_core nd) = rc_currentTerm (nd_core (tn_node tn)) + 1"
    "rc_commitIndex (nd_core nd) = lastLogIndex (nd_core (tn_node tn)) + 1"
    "rc_appliedIndex (nd_core nd) = lastLogIndex (nd_core (tn_node tn)) + 1"
    using single_campaign [OF assms(7-12,5,6)] by blast
  obtain tn' where r: "resetElectionTimer opts (?tn\<lparr>tn_node := nd\<rparr>) = (tn', Inr ())" "tn_node tn' = nd"
    using timer_source.reset_fresh [OF assms(1) refl assms(2,3), of "?tn\<lparr>tn_node := nd\<rparr>"] c(2) by auto
  have fire: "fire_election env opts (elapse (electionTimeoutMaxMs opts) tn) = Some tn'"
    using e c(1) r(1) by (simp add: fire_election_def election_callback_def elapse_def)
  have "timers_ok opts (elapse (electionTimeoutMaxMs opts) tn)"
    using assms(4) timers_valid_bounds [OF assms(2)] by (simp add: timers_ok_def elapse_def armed_later)
  then have "timers_ok opts tn'" using timer_source.fire_election_ok [OF assms(1) refl assms(2) _ fire] by simp
  then show ?thesis using fire c(3-7) r(2) by blast
qed

theorem timer_elects_single_node_witness:
  "\<exists>tn'. fire_election durable_env ex_timer_options (elapse (electionTimeoutMaxMs ex_timer_options) ex_timed_started) = Some tn' \<and>
    rc_role (nd_core (tn_node tn')) = Leader \<and>
    rc_currentTerm (nd_core (tn_node tn')) = rc_currentTerm (nd_core (tn_node ex_timed_started)) + 1 \<and>
    rc_commitIndex (nd_core (tn_node tn')) = lastLogIndex (nd_core (tn_node ex_timed_started)) + 1 \<and>
    rc_appliedIndex (nd_core (tn_node tn')) = lastLogIndex (nd_core (tn_node ex_timed_started)) + 1 \<and>
    nd_healthy (tn_node tn') \<and> timers_ok ex_timer_options tn'"
proof (rule timer_elects_single_node [OF ex_timer_source ex_timers_valid])
  show "ne_persist durable_env = handle_persist" "0 \<le> ne_retention durable_env" by (simp_all add: ex_env_def)
  have "rc_entries (nd_core (tn_node ex_timed_started)) = []" by code_simp
  then show "list_all (applicable durable_env) (rc_entries (nd_core (tn_node ex_timed_started)))" by simp
qed code_simp+

section \<open>Local reads\<close>

text \<open>A local read waits for the operation that is queued before it and then sees the run of the commands of
  the applied prefix, what that operation applied included.\<close>

lemma read_sees_queue:
  assumes "served env sm0 nd" and "ne_persist env = handle_persist" and "ne_load env = handle_load"
    and "assertRunning nd = None" and "event_wf ev" and "process env ev nd = Some (nd1, Inr ())"
  shows "read_node env reader [ev] nd = Some (nd1, reader (nd_machine nd1)) \<and>
    run_commands env (applied_part (nd_core nd1)) sm0 = (nd_machine nd1, Inr ())"
  using served_ok [OF served.processed [OF assms(1,5,6)] assms(2,3)] assms(4,6)
  by (simp add: read_node_def machine_ok_def)

text \<open>A failure of the queued operation does not reach the read: the node is asked whether it runs before the
  wait, not after it.\<close>

lemma read_after_failure:
  assumes "assertRunning nd = None" and "process env ev nd = Some (nd1, Inl err)"
  shows "read_node env reader [ev] nd = Some (nd1, reader (nd_machine nd1))"
  using assms by (simp add: read_node_def)

section \<open>A node that cannot go on is found out by its next heartbeat\<close>

lemma heartbeat_fires_failing:
  assumes "tn_heartbeat tn = Some due" and "due \<le> tn_now tn" and "assertRunning (tn_node tn) = None"
    and "process env HeartbeatTimeout (tn_node tn) = Some (nd, Inl err)"
  shows "fire_heartbeat env opts tn = Some (tn\<lparr>tn_node := node_fail err nd,
    tn_heartbeat := Some (tn_now tn + timer_delay (heartbeatInterval opts))\<rparr>)"
  using assms by (simp add: fire_heartbeat_def heartbeat_callback_def heartbeat_def)

text \<open>C29: When the storage refuses to record that a no-op has been applied, the node stays healthy although
  every event it processes throws.  With automatic timers that lasts no longer than one heartbeat interval: the
  callback of the interval marks the node as failed and rejects all its pending proposals.\<close>

theorem heartbeat_ends_wedge:
  assumes "core_step ev (nd_core nd) = (c, Inr (Some rd))"
    and "ne_persist env (ready_batch rd) (nd_storage nd) = (st, Inr ())"
    and "rd_committedEntries rd = e # es" and "le_type e \<noteq> Command"
    and "ne_persist env (applied_batch (le_index e)) st = (st2, Inl err)"
    and "tn_node tn = nd" and "timers_ok opts tn" and "timers_valid opts" and "to_automatic opts"
    and "nd_started nd" and "nd_healthy nd"
  shows "\<exists>nd1 tn'. process env ev nd = Some (nd1, Inl err) \<and> nd_healthy nd1 \<and>
    (\<forall>ev2. process env ev2 nd1 =
      Some (nd1, Inl (PlainError ''advance the outstanding Ready before stepping again''))) \<and>
    fire_heartbeat env opts (elapse (heartbeatInterval opts) (tn\<lparr>tn_node := nd1\<rparr>)) = Some tn' \<and>
    \<not> nd_healthy (tn_node tn') \<and> nd_pending (tn_node tn') = [] \<and>
    nd_settled (tn_node tn') = nd_settled nd @ map (\<lambda>(k, p). (pn_ticket p,
      Inl (PlainError ''advance the outstanding Ready before stepping again''))) (nd_pending nd)"
proof -
  let ?err = "PlainError ''advance the outstanding Ready before stepping again''"
  obtain nd1 where p: "process env ev nd = Some (nd1, Inl err)" and
    n: "nd_healthy nd1 = nd_healthy nd" "nd_started nd1 = nd_started nd" "nd_pending nd1 = nd_pending nd"
      "nd_settled nd1 = nd_settled nd" and
    stuck: "\<forall>ev2. process env ev2 nd1 = Some (nd1, Inl ?err)"
    using noop_apply_failure_wedges [OF assms(1-5)] by blast
  have "timers_ok opts (tn\<lparr>tn_node := nd1\<rparr>)"
    using timers_ok_cong [OF assms(7), of nd1 "Inl err"] process_flags [OF p] assms(6) by simp
  then obtain due where due: "tn_heartbeat tn = Some due" "due \<le> tn_now tn + heartbeatInterval opts"
    using timers_ok_due(2) [OF _ assms(8,9), of "tn\<lparr>tn_node := nd1\<rparr>"] n assms(10) by (auto simp: elapse_def)
  let ?tn = "elapse (heartbeatInterval opts) (tn\<lparr>tn_node := nd1\<rparr>)"
  have "fire_heartbeat env opts ?tn = Some (?tn\<lparr>tn_node := node_fail ?err nd1,
      tn_heartbeat := Some (tn_now ?tn + timer_delay (heartbeatInterval opts))\<rparr>)"
    using due n assms(10,11) stuck
    by (intro heartbeat_fires_failing) (simp_all add: elapse_def assertRunning_def)
  then show ?thesis using p n assms(11) stuck by (simp add: node_fail_fields)
qed

definition ex_wedging :: "(storage_handle, int, raft_message list, int, seeded_random) timed_node" where
  "ex_wedging = ex_timed_started\<lparr>tn_node := ex_started\<rparr>"

theorem heartbeat_ends_wedge_witness:
  "\<exists>nd1 tn'. process wedged_env (ElectionTimeout 10) ex_started = Some (nd1, Inl (PlainError ''disk full'')) \<and>
    nd_healthy nd1 \<and>
    (\<forall>ev2. process wedged_env ev2 nd1 =
      Some (nd1, Inl (PlainError ''advance the outstanding Ready before stepping again''))) \<and>
    fire_heartbeat wedged_env ex_timer_options
      (elapse (heartbeatInterval ex_timer_options) (ex_wedging\<lparr>tn_node := nd1\<rparr>)) = Some tn' \<and>
    \<not> nd_healthy (tn_node tn') \<and> nd_pending (tn_node tn') = [] \<and>
    nd_settled (tn_node tn') = nd_settled ex_started @ map (\<lambda>(k, p). (pn_ticket p,
      Inl (PlainError ''advance the outstanding Ready before stepping again''))) (nd_pending ex_started)"
proof (rule heartbeat_ends_wedge)
  let ?r = "core_step (ElectionTimeout 10) (nd_core ex_started)"
  let ?rd = "case snd ?r of Inr (Some rd) \<Rightarrow> rd"
  let ?p = "ne_persist wedged_env (ready_batch ?rd) (nd_storage ex_started)"
  let ?e = "hd (rd_committedEntries ?rd)"
  let ?q = "ne_persist wedged_env (applied_batch (le_index ?e)) (fst ?p)"
  show "?r = (fst ?r, Inr (Some ?rd))" by code_simp
  show "?p = (fst ?p, Inr ())" by code_simp
  show "rd_committedEntries ?rd = ?e # tl (rd_committedEntries ?rd)" by code_simp
  show "le_type ?e \<noteq> Command" by code_simp
  show "?q = (fst ?q, Inl (PlainError ''disk full''))" by code_simp
  show "tn_node ex_wedging = ex_started" by (simp add: ex_wedging_def)
  show "timers_ok ex_timer_options ex_wedging" by code_simp
qed (rule ex_timers_valid, code_simp+)

section \<open>Proposals with a timeout\<close>




lemma propose_event_entries:
  assumes "propose_event cid payload c eff = (c', Inr eff')"
  shows "rc_entries c' = rc_entries c @ [\<lparr>le_index = lastLogIndex c + 1, le_term = rc_currentTerm c,
    le_type = Command, le_payload = payload, le_commandId = Some cid\<rparr>]"
proof -
  let ?c = "c\<lparr>rc_entries := rc_entries c @ [\<lparr>le_index = lastLogIndex c + 1, le_term = rc_currentTerm c,
    le_type = Command, le_payload = payload, le_commandId = Some cid\<rparr>]\<rparr>"
  obtain e where e: "(case advanceLeaderCommit ?c e of (c3, e3, _) \<Rightarrow> (c3, Inr e3)) =
      (c', Inr eff' :: raft_error + effects)"
    using assms by (auto simp: propose_event_def appendLocal_def Let_def broadcastAppend_def and_then_Inr
        split: if_splits simp del: split_paired_Ex)
  obtain c3 e3 b where adv: "advanceLeaderCommit ?c e = (c3, e3, b)" by (metis prod_cases3)
  then have "c' = c3" using e by simp
  moreover have "rc_entries c3 = rc_entries ?c"
    using adv by (auto simp: advanceLeaderCommit_def Let_def split: if_splits option.splits)
  ultimately show ?thesis by simp
qed

lemma advance_entries: "advance i c = (c', Inr ()) \<Longrightarrow> rc_entries c' = rc_entries c"
  by (auto simp: advance_def Let_def split: option.splits if_splits)

lemma process_entries:
  assumes "process env ev nd = Some (nd', Inr ())" and "core_step ev (nd_core nd) = (c, Inr r)"
  shows "rc_entries (nd_core nd') = rc_entries c"
proof (cases r)
  case None
  then show ?thesis using assms by (auto simp: process_def run_bind_def)
next
  case (Some rd)
  obtain nd2 nd3 c' where nd2: "apply_entries env (rd_committedEntries rd) nd3 = Some (nd2, Inr ())"
    and adv: "advance (rd_id rd) (nd_core nd2) = (c', Inr ())" and "nd_core nd3 = c"
    and nd': "nd_core nd' = c'"
    using assms Some
    by (auto simp: process_def process_ready_def persist_at_def run_bind_def Let_def
        split: option.splits sum.splits prod.splits)
  then have "nd_core nd2 = c" using apply_entries_machine [OF nd2] by simp
  then show ?thesis using advance_entries [OF adv] nd' by simp
qed

text \<open>C35: A timeout that is not positive is looked at too late: the proposal is refused with
  \<open>proposal timeout must be positive\<close> although its command has been appended to the log of the leader and
  handed to its storage, so it can still be committed and applied.\<close>

theorem refused_timeout_still_proposes:
  assumes "propose_begin env command cid nd = (nd1, Registered ticket payload)"
    and "process env (Propose cid payload) nd1 = Some (nd2, Inr ())" and "t \<le> 0"
  shows "propose_node env command cid nd = Some (nd2, Registered ticket payload) \<and>
    propose_result (Some t) (Registered ticket payload) events =
      Some (Inl (ProposalTimeoutError ''proposal timeout must be positive'')) \<and>
    rc_entries (nd_core nd2) = rc_entries (nd_core nd) @
      [\<lparr>le_index = lastLogIndex (nd_core nd) + 1, le_term = rc_currentTerm (nd_core nd),
        le_type = Command, le_payload = payload, le_commandId = Some cid\<rparr>]"
proof -
  have core: "nd_core nd1 = nd_core nd" using assms(1)
    by (auto simp: propose_begin_def Let_def split: option.splits sum.splits if_splits)
  obtain c r where step: "core_step (Propose cid payload) (nd_core nd1) = (c, Inr r)"
    using assms(2) by (auto simp: process_def split: prod.splits sum.splits)
  then obtain c1 eff where p: "propose_event cid payload (nd_core nd1) no_effects = (c1, Inr eff)"
    and mk: "makeReady c1 eff = (c, r)"
    by (auto simp: core_step_def dispatch_def and_then_Inr split: if_splits option.splits prod.splits)
  have "rc_entries c = rc_entries c1" using mk by (auto simp: makeReady_def Let_def split: if_splits)
  then have "rc_entries (nd_core nd2) = rc_entries (nd_core nd) @
      [\<lparr>le_index = lastLogIndex (nd_core nd) + 1, le_term = rc_currentTerm (nd_core nd),
        le_type = Command, le_payload = payload, le_commandId = Some cid\<rparr>]"
    using process_entries [OF assms(2) step] propose_event_entries [OF p] core by simp
  then show ?thesis using assms
    by (simp add: propose_node_def propose_run_def propose_result_def withTimeout_def)
qed

definition ex_registered :: "(storage_handle, int, raft_message list, int) raft_node" where
  "ex_registered = fst (propose_begin durable_env 3 ''x'' ex_leading)"

theorem refused_timeout_still_proposes_witness:
  "propose_node durable_env 3 ''x'' ex_leading =
     Some (after (process durable_env (Propose ''x'' [0, 0, 0]) ex_registered), Registered 0 [0, 0, 0]) \<and>
   propose_result (Some 0) (Registered 0 [0, 0, 0] :: int proposal) [] =
     Some (Inl (ProposalTimeoutError ''proposal timeout must be positive'')) \<and>
   rc_entries (nd_core (after (process durable_env (Propose ''x'' [0, 0, 0]) ex_registered))) =
     rc_entries (nd_core ex_leading) @ [\<lparr>le_index = lastLogIndex (nd_core ex_leading) + 1,
       le_term = rc_currentTerm (nd_core ex_leading), le_type = Command, le_payload = [0, 0, 0],
       le_commandId = Some ''x''\<rparr>]"
proof (rule refused_timeout_still_proposes)
  have "snd (propose_begin durable_env 3 ''x'' ex_leading) = Registered 0 [0, 0, 0]" by code_simp
  then show "propose_begin durable_env 3 ''x'' ex_leading = (ex_registered, Registered 0 [0, 0, 0])"
    by (simp add: ex_registered_def prod_eq_iff)
  let ?r = "process durable_env (Propose ''x'' [0, 0, 0]) ex_registered"
  have "\<not> Option.is_none ?r" "\<not> isl (snd (the ?r))" by code_simp+
  then show "?r = Some (after ?r, Inr ())"
    by (auto simp: after_def Option.is_none_def isl_def prod_eq_iff) (metis old.sum.exhaust old.unit.exhaust)
qed simp

section \<open>Waiting for a message\<close>

definition waiting_ok :: "waiting_network \<Rightarrow> bool" where
  "waiting_ok wn \<longleftrightarrow> net_wf (wn_network wn) \<and>
     distinct (map fst (wn_settled wn) @ map wt_ticket (wn_waiters wn)) \<and>
     set (map fst (wn_settled wn) @ map wt_ticket (wn_waiters wn)) = {..<wn_nextTicket wn} \<and>
     (wn_waiters wn \<noteq> [] \<longrightarrow> mn_queue (wn_network wn) = []) \<and>
     list_all (\<lambda>w. wt_due w \<le> wn_now wn + timer_delay (wt_timeoutMs w)) (wn_waiters wn)"

lemma new_waiting_ok: "waiting_ok new_waiting"
  by (simp add: waiting_ok_def new_waiting_def net_wf_def new_network_def)

lemma stays_empty:
  assumes "messages net' \<subseteq> messages net" and "mn_queue net = []"
  shows "mn_queue net' = []"
  using assms by (simp add: messages_def)

lemma network_change_ok:
  assumes "waiting_ok wn" and "net_wf net" and "messages net \<subseteq> messages (wn_network wn)"
  shows "waiting_ok (wn\<lparr>wn_network := net\<rparr>)"
  using assms stays_empty [OF assms(3)] by (auto simp: waiting_ok_def)

lemma split_distinct:
  assumes "distinct (S @ W)" and "distinct (A @ B)" and "set A \<union> set B = set W"
  shows "distinct ((S @ A) @ B)" and "set ((S @ A) @ B) = set (S @ W)"
  using assms by auto

lemma waiting_step_ok:
  assumes "waiting_step wn wn'" and "waiting_ok wn"
  shows "waiting_ok wn'"
  using assms(1)
proof (cases rule: waiting_step.cases)
  case (waits timeoutMs)
  let ?k = "wn_nextTicket wn"
  have "?k \<notin> set (map fst (wn_settled wn) @ map wt_ticket (wn_waiters wn))"
    and less: "{..<Suc ?k} = insert ?k {..<?k}"
    using assms(2) by (auto simp: waiting_ok_def)
  then show ?thesis using waits assms(2) by (auto simp: waitForPending_def Let_def waiting_ok_def)
next
  case (sends m)
  let ?wn = "wn\<lparr>wn_network := net_enqueue m (wn_network wn)\<rparr>"
  have wf: "net_wf (net_enqueue m (wn_network wn))"
    using assms(2) net_enqueue_wf by (simp add: waiting_ok_def)
  show ?thesis
  proof (cases "\<not> mn_dropAll (wn_network wn) \<and> edge (m_from m) (m_to m) \<notin> set (mn_blocked (wn_network wn))")
    case True
    have "map fst (map (\<lambda>w. (wt_ticket w, Inr ())) (wn_waiters wn)) = map wt_ticket (wn_waiters wn)" by simp
    then show ?thesis using sends True wf assms(2)
      by (auto simp: waiting_enqueue_def Let_def notify_waiters_def waiting_ok_def comp_def)
  next
    case False
    then show ?thesis using sends assms(2) by (auto simp: waiting_enqueue_def Let_def net_enqueue_def)
  qed
next
  case (turns now)
  have d: "distinct (map wt_ticket (filter (\<lambda>w. wt_due w \<le> now) ws) @ map wt_ticket (filter (\<lambda>w. now < wt_due w) ws))"
    if "distinct (map wt_ticket ws)" for ws using that by (induction ws) auto
  have s: "set (map wt_ticket (filter (\<lambda>w. wt_due w \<le> now) ws)) \<union>
      set (map wt_ticket (filter (\<lambda>w. now < wt_due w) ws)) = set (map wt_ticket ws)" for ws
    by (induction ws) auto
  let ?ws = "wn_waiters wn"
  have due: "list_all (\<lambda>w. wt_due w \<le> now + timer_delay (wt_timeoutMs w)) (filter (\<lambda>w. now < wt_due w) ?ws)"
    using assms(2) turns(2) by (auto simp: waiting_ok_def list_all_iff)
  have "map fst (wn_settled wn') = map fst (wn_settled wn) @ map wt_ticket (filter (\<lambda>w. wt_due w \<le> now) ?ws)"
    "wn_waiters wn' = filter (\<lambda>w. now < wt_due w) ?ws" "wn_network wn' = wn_network wn"
    "wn_nextTicket wn' = wn_nextTicket wn" "wn_now wn' = now"
    using turns(1) by (simp_all add: waiting_turn_def)
  moreover have "distinct (map fst (wn_settled wn) @ map wt_ticket ?ws)" "net_wf (wn_network wn)"
    "set (map fst (wn_settled wn) @ map wt_ticket ?ws) = {..<wn_nextTicket wn}"
    "?ws \<noteq> [] \<longrightarrow> mn_queue (wn_network wn) = []"
    using assms(2) unfolding waiting_ok_def by blast+
  moreover have "distinct (map wt_ticket ?ws)" using calculation(6) by simp
  moreover have "filter (\<lambda>w. now < wt_due w) ?ws \<noteq> [] \<longrightarrow> ?ws \<noteq> []" by auto
  ultimately show ?thesis using due split_distinct [OF _ d s, of "map fst (wn_settled wn)" ?ws]
    unfolding waiting_ok_def by simp
next
  case (delivers i net r)
  have "net_wf (wn_network wn)" using assms(2) by (simp add: waiting_ok_def)
  then show ?thesis using network_change_ok [OF assms(2)] net_deliver_message(1,3) [OF delivers(2)] delivers(1) by blast
next
  case (disturbs net)
  have "net_wf (wn_network wn)" using assms(2) by (simp add: waiting_ok_def)
  then show ?thesis using network_change_ok [OF assms(2)] net_step_keeps [OF disturbs(2)] disturbs(1) by blast
qed

text \<open>C37: Every wait for a message settles exactly once: a wait is either open or settled, never both and never
  twice; while one is open the queue is empty, so no wait overlooks a message; and a wait that is still open
  when its time is up is rejected by the next turn of the event loop.\<close>

theorem waits_settle_once:
  assumes "waiting_reachable wn"
  shows "distinct (map fst (wn_settled wn) @ map wt_ticket (wn_waiters wn)) \<and>
    set (map fst (wn_settled wn) @ map wt_ticket (wn_waiters wn)) = {..<wn_nextTicket wn} \<and>
    (wn_waiters wn = [] \<or> mn_queue (wn_network wn) = []) \<and>
    list_all (\<lambda>w. (wt_ticket w, Inl (pending_timeout (wt_timeoutMs w))) \<in>
      set (wn_settled (waiting_turn (wn_now wn + timer_delay (wt_timeoutMs w)) wn))) (wn_waiters wn)"
proof -
  have "waiting_ok wn" using assms by induction (use new_waiting_ok waiting_step_ok in auto)
  then show ?thesis by (auto simp: waiting_ok_def list_all_iff waiting_turn_def)
qed

definition ex_waiting :: waiting_network where
  "ex_waiting = waitForPending 5 (waiting_turn 3 (waitForPending 3 (waitForPending 0 new_waiting)))"

theorem waits_settle_once_witness:
  "distinct (map fst (wn_settled ex_waiting) @ map wt_ticket (wn_waiters ex_waiting)) \<and>
   set (map fst (wn_settled ex_waiting) @ map wt_ticket (wn_waiters ex_waiting)) = {..<wn_nextTicket ex_waiting} \<and>
   (wn_waiters ex_waiting = [] \<or> mn_queue (wn_network ex_waiting) = []) \<and>
   list_all (\<lambda>w. (wt_ticket w, Inl (pending_timeout (wt_timeoutMs w))) \<in>
     set (wn_settled (waiting_turn (wn_now ex_waiting + timer_delay (wt_timeoutMs w)) ex_waiting)))
     (wn_waiters ex_waiting)"
proof (rule waits_settle_once)
  let ?a = "waitForPending 3 (waitForPending 0 new_waiting)"
  have now: "wn_now ?a \<le> 3" by code_simp
  have "waiting_reachable ?a"
    by (rule rtranclp.rtrancl_into_rtrancl [OF r_into_rtranclp]; rule waiting_step.waits)
  then have "waiting_reachable (waiting_turn 3 ?a)" using waiting_step.turns [OF now] by (rule rtranclp.rtrancl_into_rtrancl)
  then show "waiting_reachable ex_waiting" unfolding ex_waiting_def
    using waiting_step.waits by (rule rtranclp.rtrancl_into_rtrancl)
qed

text \<open>\<open>drain\<close> leaves an empty queue when it returns, whatever is sent while it yields.\<close>

lemma net_drain_empties:
  "net_drain handle limit d turns net w = (net', w', Inr ()) \<Longrightarrow> d \<le> limit \<Longrightarrow> mn_queue net' = []"
proof (induction handle limit d turns net w rule: net_drain.induct)
  case (1 handle limit d net w)
  then show ?case by (auto dest: drain_loop_Inr split: prod.splits sum.splits)
next
  case (2 handle limit d sent turns net w)
  obtain net1 w1 n where loop: "drain_loop handle limit d net w = (net1, w1, Inr n)"
    using 2(2) by (auto split: prod.splits sum.splits)
  then have "n \<le> limit" using drain_loop_Inr [OF loop 2(3)] by simp
  then show ?case using 2 loop by (auto simp: Let_def split: if_splits)
qed

end
