(* ===== verification/RaftProto.thy ===== *)
theory RaftProto
  imports RaftTypes
begin

text \<open>
  The abstract specification the cluster of cores is measured against: the Raft protocol with
  history variables.  A state records for every node its term, log and commit position, and for
  every term who voted for whom with which log, who stood with which log, who was elected, the
  log of the leader of the term and how far every node has acknowledged it.  Messages do not
  occur: a message is justified by the history (theory \<open>Refinement\<close>), so loss, duplication,
  delay and reordering need no rule.  Crash and restart do not occur either, since everything
  here is durable.
\<close>

section \<open>State and steps\<close>

record proto =
  p_term :: "node_id \<Rightarrow> int"
  p_log :: "node_id \<Rightarrow> log_entry list"
  p_commit :: "node_id \<Rightarrow> nat"
  p_votes :: "int \<Rightarrow> node_id \<Rightarrow> node_id option"
  p_vlog :: "int \<Rightarrow> node_id \<Rightarrow> log_entry list"
  p_clog :: "int \<Rightarrow> node_id \<Rightarrow> log_entry list option"
  p_elected :: "int \<Rightarrow> node_id option"
  p_llog :: "int \<Rightarrow> log_entry list"
  p_acked :: "int \<Rightarrow> node_id \<Rightarrow> nat"

definition upd2 :: "('a \<Rightarrow> 'b \<Rightarrow> 'c) \<Rightarrow> 'a \<Rightarrow> 'b \<Rightarrow> 'c \<Rightarrow> ('a \<Rightarrow> 'b \<Rightarrow> 'c)" where
  "upd2 f a b v = f(a := (f a)(b := v))"

lemma upd2_apply [simp]: "upd2 f a b v x y = (if x = a \<and> y = b then v else f x y)"
  by (simp add: upd2_def)

definition last_term :: "log_entry list \<Rightarrow> int" where
  "last_term L = (if L = [] then 0 else le_term (last L))"

definition up_to_date :: "log_entry list \<Rightarrow> log_entry list \<Rightarrow> bool" where
  "up_to_date A V \<longleftrightarrow> last_term V < last_term A \<or>
     (last_term A = last_term V \<and> length V \<le> length A)"

text \<open>A follower takes over a prefix of the leader's log, unless it already holds it.\<close>

definition adopt :: "log_entry list \<Rightarrow> log_entry list \<Rightarrow> log_entry list" where
  "adopt L P = (if take (length P) L = P then L else P)"

text \<open>Position \<open>k\<close> (from 1) of the log of the leader of term \<open>t\<close> holds an entry of that very
  term; it is chosen once a majority has acknowledged it.\<close>

definition own :: "proto \<Rightarrow> int \<Rightarrow> nat \<Rightarrow> bool" where
  "own s t k \<longleftrightarrow> p_elected s t \<noteq> None \<and> 1 \<le> k \<and> k \<le> length (p_llog s t) \<and>
     le_term (p_llog s t ! (k - 1)) = t"

definition chosen :: "node_id list \<Rightarrow> proto \<Rightarrow> int \<Rightarrow> nat \<Rightarrow> bool" where
  "chosen ms s t k \<longleftrightarrow> own s t k \<and> majority ms {m \<in> set ms. k \<le> p_acked s t m}"

inductive proto_step :: "node_id list \<Rightarrow> proto \<Rightarrow> proto \<Rightarrow> bool" for ms where
  new_term: "p_term s n \<le> t \<Longrightarrow>
    proto_step ms s (s\<lparr>p_term := (p_term s)(n := t)\<rparr>)"
| stand: "n \<in> set ms \<Longrightarrow> t = p_term s n + 1 \<Longrightarrow>
    proto_step ms s (s\<lparr>p_term := (p_term s)(n := t), p_votes := upd2 (p_votes s) t n (Some n),
      p_vlog := upd2 (p_vlog s) t n (p_log s n),
      p_clog := upd2 (p_clog s) t n (Some (p_log s n))\<rparr>)"
| grant: "n \<in> set ms \<Longrightarrow> t = p_term s n \<Longrightarrow> p_votes s t n = None \<Longrightarrow> p_clog s t c = Some L \<Longrightarrow>
    up_to_date L (p_log s n) \<Longrightarrow>
    proto_step ms s (s\<lparr>p_votes := upd2 (p_votes s) t n (Some c),
      p_vlog := upd2 (p_vlog s) t n (p_log s n)\<rparr>)"
| elect: "n \<in> set ms \<Longrightarrow> t = p_term s n \<Longrightarrow> p_elected s t = None \<Longrightarrow>
    p_clog s t n = Some (p_log s n) \<Longrightarrow>
    majority ms {m \<in> set ms. p_votes s t m = Some n} \<Longrightarrow>
    proto_step ms s (s\<lparr>p_elected := (p_elected s)(t := Some n),
      p_llog := (p_llog s)(t := p_log s n)\<rparr>)"
| append: "t = p_term s n \<Longrightarrow> p_elected s t = Some n \<Longrightarrow> le_term x = t \<Longrightarrow>
    proto_step ms s (s\<lparr>p_log := (p_log s)(n := p_log s n @ [x]),
      p_llog := (p_llog s)(t := p_llog s t @ [x]),
      p_acked := upd2 (p_acked s) t n (Suc (length (p_llog s t)))\<rparr>)"
| adopt: "n \<in> set ms \<Longrightarrow> t = p_term s n \<Longrightarrow> p_elected s t \<noteq> None \<Longrightarrow> q \<le> length (p_llog s t) \<Longrightarrow>
    proto_step ms s (s\<lparr>p_log := (p_log s)(n := adopt (p_log s n) (take q (p_llog s t))),
      p_acked := upd2 (p_acked s) t n (max q (p_acked s t n))\<rparr>)"
| commit: "p_commit s n \<le> j \<Longrightarrow> j \<le> length (p_log s n) \<Longrightarrow> t \<le> p_term s n \<Longrightarrow>
    chosen ms s t k \<Longrightarrow> j \<le> k \<Longrightarrow> take j (p_log s n) = take j (p_llog s t) \<Longrightarrow>
    proto_step ms s (s\<lparr>p_commit := (p_commit s)(n := j)\<rparr>)"

definition proto_init :: proto where
  "proto_init = \<lparr>p_term = (\<lambda>_. 0), p_log = (\<lambda>_. []), p_commit = (\<lambda>_. 0),
     p_votes = (\<lambda>_ _. None), p_vlog = (\<lambda>_ _. []), p_clog = (\<lambda>_ _. None),
     p_elected = (\<lambda>_. None), p_llog = (\<lambda>_. []), p_acked = (\<lambda>_ _. 0)\<rparr>"

section \<open>The invariant\<close>

definition inv_votes :: "proto \<Rightarrow> bool" where
  "inv_votes s \<longleftrightarrow> (\<forall>n. 0 \<le> p_term s n) \<and>
     (\<forall>t n c. p_votes s t n = Some c \<longrightarrow> 1 \<le> t \<and> t \<le> p_term s n \<and>
        (\<exists>L. p_clog s t c = Some L \<and> up_to_date L (p_vlog s t n)))"

definition inv_stand :: "node_id list \<Rightarrow> proto \<Rightarrow> bool" where
  "inv_stand ms s \<longleftrightarrow> (\<forall>t n L. p_clog s t n = Some L \<longrightarrow> n \<in> set ms \<and> 1 \<le> t \<and> t \<le> p_term s n \<and>
     p_votes s t n = Some n \<and> (\<forall>x \<in> set L. le_term x < t))"

definition inv_lead :: "node_id list \<Rightarrow> proto \<Rightarrow> bool" where
  "inv_lead ms s \<longleftrightarrow> (\<forall>t n. p_elected s t = Some n \<longrightarrow>
     majority ms {m \<in> set ms. p_votes s t m = Some n} \<and> (\<exists>L. p_clog s t n = Some L) \<and>
     sorted (map le_term (p_llog s t)) \<and>
     (\<forall>x \<in> set (p_llog s t). 1 \<le> le_term x \<and> le_term x \<le> t) \<and>
     (p_term s n = t \<longrightarrow> p_log s n = p_llog s t))"

definition valid :: "proto \<Rightarrow> log_entry list \<Rightarrow> bool" where
  "valid s L \<longleftrightarrow> (\<forall>i < length L. p_elected s (le_term (L ! i)) \<noteq> None \<and>
     i < length (p_llog s (le_term (L ! i))) \<and>
     take (Suc i) L = take (Suc i) (p_llog s (le_term (L ! i))))"

definition inv_logs :: "proto \<Rightarrow> bool" where
  "inv_logs s \<longleftrightarrow>
     (\<forall>n. valid s (p_log s n) \<and> (\<forall>x \<in> set (p_log s n). le_term x \<le> p_term s n)) \<and>
     (\<forall>t. p_elected s t \<noteq> None \<longrightarrow> valid s (p_llog s t)) \<and>
     (\<forall>t n c. p_votes s t n = Some c \<longrightarrow> valid s (p_vlog s t n)) \<and>
     (\<forall>t n L. p_clog s t n = Some L \<longrightarrow> valid s L)"

definition inv_acks :: "proto \<Rightarrow> bool" where
  "inv_acks s \<longleftrightarrow> (\<forall>t n. 0 < p_acked s t n \<longrightarrow> p_elected s t \<noteq> None \<and> t \<le> p_term s n \<and>
     p_acked s t n \<le> length (p_llog s t))"

text \<open>A position that can never be chosen any more: a majority has left the term without
  acknowledging it.\<close>

definition blocked :: "node_id list \<Rightarrow> proto \<Rightarrow> int \<Rightarrow> nat \<Rightarrow> bool" where
  "blocked ms s t k \<longleftrightarrow> (\<exists>Q. majority ms Q \<and> (\<forall>m \<in> Q. t < p_term s m \<and> p_acked s t m < k))"

definition holds :: "proto \<Rightarrow> log_entry list \<Rightarrow> int \<Rightarrow> nat \<Rightarrow> bool" where
  "holds s L t k \<longleftrightarrow> take k L = take k (p_llog s t)"

definition inv_node :: "node_id list \<Rightarrow> proto \<Rightarrow> bool" where
  "inv_node ms s \<longleftrightarrow> (\<forall>t n k. own s t k \<longrightarrow> k \<le> p_acked s t n \<longrightarrow>
     holds s (p_log s n) t k \<or> blocked ms s t k)"

definition inv_voter :: "node_id list \<Rightarrow> proto \<Rightarrow> bool" where
  "inv_voter ms s \<longleftrightarrow> (\<forall>t t' n k. own s t k \<longrightarrow> t < t' \<longrightarrow> p_votes s t' n \<noteq> None \<longrightarrow>
     k \<le> p_acked s t n \<longrightarrow> holds s (p_vlog s t' n) t k \<or> blocked ms s t k)"

definition inv_leader :: "node_id list \<Rightarrow> proto \<Rightarrow> bool" where
  "inv_leader ms s \<longleftrightarrow> (\<forall>t t' k. own s t k \<longrightarrow> t < t' \<longrightarrow> p_elected s t' \<noteq> None \<longrightarrow>
     holds s (p_llog s t') t k \<or> blocked ms s t k)"

definition inv_commit :: "node_id list \<Rightarrow> proto \<Rightarrow> bool" where
  "inv_commit ms s \<longleftrightarrow> (\<forall>n. p_commit s n \<le> length (p_log s n) \<and> (p_commit s n = 0 \<or>
     (\<exists>t k. chosen ms s t k \<and> p_commit s n \<le> k \<and> t \<le> p_term s n \<and>
        take (p_commit s n) (p_log s n) = take (p_commit s n) (p_llog s t))))"

definition proto_inv :: "node_id list \<Rightarrow> proto \<Rightarrow> bool" where
  "proto_inv ms s \<longleftrightarrow> inv_votes s \<and> inv_stand ms s \<and> inv_lead ms s \<and> inv_logs s \<and> inv_acks s \<and>
     inv_node ms s \<and> inv_voter ms s \<and> inv_leader ms s \<and> inv_commit ms s"

lemmas inv_defs = inv_votes_def inv_stand_def inv_lead_def inv_logs_def inv_acks_def
  inv_node_def inv_voter_def inv_leader_def inv_commit_def

lemma proto_invD:
  assumes "proto_inv ms s"
  shows "inv_votes s" "inv_stand ms s" "inv_lead ms s" "inv_logs s" "inv_acks s"
    "inv_node ms s" "inv_voter ms s" "inv_leader ms s" "inv_commit ms s"
  using assms by (simp_all add: proto_inv_def)

lemma proto_init_inv: "proto_inv ms proto_init"
  by (simp add: proto_inv_def inv_defs proto_init_def valid_def own_def)

section \<open>Facts about valid logs\<close>

lemma up_to_date_refl [simp]: "up_to_date L L"
  by (simp add: up_to_date_def)

lemma valid_take: "valid s L \<Longrightarrow> valid s (take n L)"
  by (auto simp: valid_def min_def)

lemma valid_matching:
  assumes "valid s A" and "valid s B" and "i < length A" and "i < length B"
    and "le_term (A ! i) = le_term (B ! i)"
  shows "take (Suc i) A = take (Suc i) B"
  using assms by (simp add: valid_def)

lemma valid_nonempty:
  assumes "valid s L" and "L \<noteq> []"
  shows "p_elected s (last_term L) \<noteq> None" and "length L \<le> length (p_llog s (last_term L))"
    and "take (length L) (p_llog s (last_term L)) = L"
proof -
  have i: "length L - 1 < length L" "Suc (length L - 1) = length L" using assms(2) by auto
  have lt: "le_term (L ! (length L - 1)) = last_term L"
    using assms(2) by (simp add: last_term_def last_conv_nth)
  from assms(1) i(1) have "p_elected s (last_term L) \<noteq> None \<and>
      length L - 1 < length (p_llog s (last_term L)) \<and>
      take (length L) L = take (length L) (p_llog s (last_term L))"
    unfolding valid_def by (metis i(2) lt)
  then show "p_elected s (last_term L) \<noteq> None" "length L \<le> length (p_llog s (last_term L))"
    "take (length L) (p_llog s (last_term L)) = L"
    using i by auto
qed

lemma valid_terms:
  assumes "valid s L" and "inv_lead ms s"
  shows "sorted (map le_term L)" and "\<forall>x \<in> set L. 1 \<le> le_term x"
proof -
  have "sorted (map le_term L) \<and> (\<forall>x \<in> set L. 1 \<le> le_term x)"
  proof (cases "L = []")
    case False
    let ?u = "last_term L"
    note v = valid_nonempty [OF assms(1) False]
    obtain l where "p_elected s ?u = Some l" using v(1) by blast
    then have "sorted (map le_term (p_llog s ?u))" "\<forall>x \<in> set (p_llog s ?u). 1 \<le> le_term x"
      using assms(2) by (auto simp: inv_lead_def)
    then have "sorted (map le_term (take (length L) (p_llog s ?u)))"
      "\<forall>x \<in> set (take (length L) (p_llog s ?u)). 1 \<le> le_term x"
      by (auto simp: sorted_wrt_take take_map [symmetric] dest: in_set_takeD)
    then show ?thesis by (simp only: v(3))
  qed simp
  then show "sorted (map le_term L)" "\<forall>x \<in> set L. 1 \<le> le_term x" by simp_all
qed

lemma valid_snoc:
  assumes "valid s L" and "p_elected s (le_term x) \<noteq> None" and "length L < length (p_llog s (le_term x))"
    and "L @ [x] = take (Suc (length L)) (p_llog s (le_term x))"
  shows "valid s (L @ [x])"
  unfolding valid_def
proof (intro allI impI)
  fix i assume "i < length (L @ [x])"
  then consider "i < length L" | "i = length L" by fastforce
  then show "p_elected s (le_term ((L @ [x]) ! i)) \<noteq> None \<and>
      i < length (p_llog s (le_term ((L @ [x]) ! i))) \<and>
      take (Suc i) (L @ [x]) = take (Suc i) (p_llog s (le_term ((L @ [x]) ! i)))"
  proof cases
    case 1
    then have "(L @ [x]) ! i = L ! i" "take (Suc i) (L @ [x]) = take (Suc i) L"
      by (simp_all add: nth_append)
    then show ?thesis using assms(1) 1 by (simp add: valid_def)
  next
    case 2
    then have "(L @ [x]) ! i = x" "take (Suc i) (L @ [x]) = L @ [x]" by simp_all
    then show ?thesis using assms(2,3) 2 assms(4) by metis
  qed
qed

end
