(* ===== verification/RaftSafety.thy ===== *)
theory RaftSafety
  imports RaftProto
begin

text \<open>
  Every step of the protocol keeps the invariant, and the invariant gives the safety properties
  of Raft: one leader per term, matching logs, complete leaders, agreement on committed
  positions.
\<close>

section \<open>What only grows\<close>

definition grows :: "proto \<Rightarrow> proto \<Rightarrow> bool" where
  "grows s s' \<longleftrightarrow>
     (\<forall>n. p_term s n \<le> p_term s' n) \<and>
     (\<forall>t n c. p_votes s t n = Some c \<longrightarrow> p_votes s' t n = Some c \<and> p_vlog s' t n = p_vlog s t n) \<and>
     (\<forall>t n L. p_clog s t n = Some L \<longrightarrow> p_clog s' t n = Some L) \<and>
     (\<forall>t l. p_elected s t = Some l \<longrightarrow> p_elected s' t = Some l) \<and>
     (\<forall>t. p_elected s t \<noteq> None \<longrightarrow> (\<exists>xs. p_llog s' t = p_llog s t @ xs)) \<and>
     (\<forall>t n. p_acked s t n \<le> p_acked s' t n) \<and>
     (\<forall>t n. t < p_term s n \<longrightarrow> p_acked s' t n = p_acked s t n)"

lemma growsD:
  assumes "grows s s'"
  shows "p_term s n \<le> p_term s' n"
    and "p_votes s t n = Some c \<Longrightarrow> p_votes s' t n = Some c"
    and "p_votes s t n = Some c \<Longrightarrow> p_vlog s' t n = p_vlog s t n"
    and "p_clog s t n = Some L \<Longrightarrow> p_clog s' t n = Some L"
    and "p_elected s t = Some l \<Longrightarrow> p_elected s' t = Some l"
    and "p_elected s t \<noteq> None \<Longrightarrow> \<exists>xs. p_llog s' t = p_llog s t @ xs"
    and "p_acked s t n \<le> p_acked s' t n"
    and "t < p_term s n \<Longrightarrow> p_acked s' t n = p_acked s t n"
  using assms unfolding grows_def by blast+

lemma grows_refl: "grows s s"
  by (simp add: grows_def)

lemma grows_trans:
  assumes "grows s s'" and "grows s' s''"
  shows "grows s s''"
proof -
  have "\<exists>xs. p_llog s'' t = p_llog s t @ xs" if el: "p_elected s t \<noteq> None" for t
  proof -
    obtain xs where xs: "p_llog s' t = p_llog s t @ xs" using growsD(6) [OF assms(1) el] by blast
    have "p_elected s' t \<noteq> None" using growsD(5) [OF assms(1)] el by blast
    then obtain ys where "p_llog s'' t = p_llog s' t @ ys" using growsD(6) [OF assms(2)] by blast
    then show ?thesis using xs by simp
  qed
  moreover have "p_acked s'' t n = p_acked s t n" if "t < p_term s n" for t n
    using growsD(8) [OF assms(1) that] growsD(8) [OF assms(2), of t n] growsD(1) [OF assms(1), of n]
      that by simp
  moreover have "p_term s n \<le> p_term s'' n" for n
    using growsD(1) [OF assms(1)] growsD(1) [OF assms(2)] by (rule order_trans)
  moreover have "p_acked s t n \<le> p_acked s'' t n" for t n
    using growsD(7) [OF assms(1)] growsD(7) [OF assms(2)] by (rule order_trans)
  moreover have "p_votes s'' t n = Some c \<and> p_vlog s'' t n = p_vlog s t n"
    if "p_votes s t n = Some c" for t n c
    using growsD(2,3) [OF assms(1) that] growsD(2,3) [OF assms(2), of t n c] by simp
  moreover have "p_clog s'' t n = Some L" if "p_clog s t n = Some L" for t n L
    using growsD(4) [OF assms(1) that] growsD(4) [OF assms(2)] by blast
  moreover have "p_elected s'' t = Some l" if "p_elected s t = Some l" for t l
    using growsD(5) [OF assms(1) that] growsD(5) [OF assms(2)] by blast
  ultimately show ?thesis unfolding grows_def by blast
qed

text \<open>Nobody has voted or stood in a term it has not reached.\<close>

lemma no_vote_ahead: "proto_inv ms s \<Longrightarrow> p_term s n < t \<Longrightarrow> p_votes s t n = None"
  using proto_invD(1) [of ms s] by (cases "p_votes s t n") (force simp: inv_votes_def)+

lemma no_stand_ahead: "proto_inv ms s \<Longrightarrow> p_term s n < t \<Longrightarrow> p_clog s t n = None"
  using proto_invD(2) [of ms s] by (cases "p_clog s t n") (force simp: inv_stand_def)+

lemma acked_bound:
  assumes "proto_inv ms s"
  shows "p_acked s t n \<le> length (p_llog s t)"
proof (cases "p_acked s t n = 0")
  case False
  then have "0 < p_acked s t n" by simp
  then show ?thesis using proto_invD(5) [OF assms] unfolding inv_acks_def by blast
qed simp

lemma step_grows:
  assumes "proto_step ms s s'" and "proto_inv ms s"
  shows "grows s s'"
  using assms
proof (induction rule: proto_step.induct)
  case (stand n t s)
  have "p_votes s t n = None" "p_clog s t n = None"
    using no_vote_ahead [OF stand(3)] no_stand_ahead [OF stand(3)] stand(2) by simp_all
  then show ?case using stand(2) by (auto simp: grows_def)
next
  case (append t s n x)
  have "p_acked s t n \<le> Suc (length (p_llog s t))"
    using acked_bound [OF append(4), of t n] by simp
  then show ?case using append by (auto simp: grows_def)
qed (auto simp: grows_def)

lemma grows_llog:
  assumes "grows s s'" and "p_elected s t \<noteq> None"
  shows "length (p_llog s t) \<le> length (p_llog s' t)"
    and "k \<le> length (p_llog s t) \<Longrightarrow> take k (p_llog s' t) = take k (p_llog s t)"
    and "i < length (p_llog s t) \<Longrightarrow> p_llog s' t ! i = p_llog s t ! i"
  using growsD(6) [OF assms] by (auto simp: nth_append)

lemma grows_elected: "grows s s' \<Longrightarrow> p_elected s t \<noteq> None \<Longrightarrow> p_elected s' t \<noteq> None"
  using growsD(5) by blast

lemma grows_own: "grows s s' \<Longrightarrow> own s t k \<Longrightarrow> own s' t k"
  using grows_llog [of s s' t] grows_elected [of s s' t] by (fastforce simp: own_def)

lemma grows_own_back:
  "grows s s' \<Longrightarrow> own s' t k \<Longrightarrow> p_elected s t \<noteq> None \<Longrightarrow> k \<le> length (p_llog s t) \<Longrightarrow> own s t k"
  using grows_llog(3) [of s s' t "k - 1"] by (auto simp: own_def)

lemma grows_holds: "grows s s' \<Longrightarrow> own s t k \<Longrightarrow> holds s' L t k \<longleftrightarrow> holds s L t k"
  using grows_llog(2) [of s s' t k] by (simp add: holds_def own_def)

lemma grows_blocked: "grows s s' \<Longrightarrow> blocked ms s t k \<Longrightarrow> blocked ms s' t k"
  unfolding blocked_def using growsD(1,8) by (metis order_less_le_trans)

lemma grows_valid:
  assumes "grows s s'" and "valid s L"
  shows "valid s' L"
  unfolding valid_def
proof (intro allI impI)
  fix i assume "i < length L"
  then have "p_elected s (le_term (L ! i)) \<noteq> None" "i < length (p_llog s (le_term (L ! i)))"
    "take (Suc i) L = take (Suc i) (p_llog s (le_term (L ! i)))"
    using assms(2) by (auto simp: valid_def)
  then show "p_elected s' (le_term (L ! i)) \<noteq> None \<and> i < length (p_llog s' (le_term (L ! i))) \<and>
      take (Suc i) L = take (Suc i) (p_llog s' (le_term (L ! i)))"
    using grows_llog [OF assms(1)] grows_elected [OF assms(1)] by (metis Suc_leI order_less_le_trans)
qed

lemma grows_chosen: "grows s s' \<Longrightarrow> chosen ms s t k \<Longrightarrow> chosen ms s' t k"
proof -
  assume g: "grows s s'" and c: "chosen ms s t k"
  have "{m \<in> set ms. k \<le> p_acked s t m} \<subseteq> {m \<in> set ms. k \<le> p_acked s' t m}"
    using growsD(7) [OF g] order_trans by blast
  then show ?thesis
    using c majority_mono grows_own [OF g] by (fastforce simp: chosen_def)
qed

lemma chosen_not_blocked:
  assumes "chosen ms s t k"
  shows "\<not> blocked ms s t k"
proof
  assume "blocked ms s t k"
  then obtain Q where q: "majority ms Q" "\<forall>m \<in> Q. p_acked s t m < k" by (auto simp: blocked_def)
  moreover have "majority ms {m \<in> set ms. k \<le> p_acked s t m}" using assms by (simp add: chosen_def)
  ultimately obtain m where "m \<in> Q" "k \<le> p_acked s t m" using majority_intersect by blast
  then show False using q(2) by fastforce
qed

section \<open>Positions that become a leader's own\<close>

text \<open>Only an append creates a position of the leader's own term.\<close>

lemma own_new:
  assumes "proto_step ms s s'" and "proto_inv ms s" and "own s' t k" and "\<not> own s t k"
  shows "\<exists>n x. p_term s n = t \<and> p_elected s t = Some n \<and> le_term x = t \<and>
    k = Suc (length (p_llog s t)) \<and>
    s' = s\<lparr>p_log := (p_log s)(n := p_log s n @ [x]), p_llog := (p_llog s)(t := p_llog s t @ [x]),
      p_acked := upd2 (p_acked s) t n (Suc (length (p_llog s t)))\<rparr>"
  using assms
proof (induction rule: proto_step.induct)
  case (elect n u s)
  have "t = u" using elect(7,8) by (cases "t = u") (simp_all add: own_def)
  then have "k - 1 < length (p_log s n)" "le_term (p_log s n ! (k - 1)) = u"
    using elect by (auto simp: own_def)
  then have "p_elected s u \<noteq> None"
    using proto_invD(4) [OF elect(6)] by (auto simp: inv_logs_def valid_def)
  then show ?case using elect(3) by simp
next
  case (append u s n x)
  have g: "grows s (s\<lparr>p_log := (p_log s)(n := p_log s n @ [x]),
      p_llog := (p_llog s)(u := p_llog s u @ [x]),
      p_acked := upd2 (p_acked s) u n (Suc (length (p_llog s u)))\<rparr>)"
    using append step_grows proto_step.append by blast
  have t: "t = u" using append(5,6) by (cases "t = u") (simp_all add: own_def)
  then have "k = Suc (length (p_llog s u))"
    using append grows_own_back [OF g append(5)] by (fastforce simp: own_def)
  then show ?case using append t by blast
qed (auto simp: own_def)

section \<open>The invariant is kept\<close>

text \<open>Old votes and candidacies stay justified; only new ones need an argument.\<close>

lemma inv_votes_grow:
  assumes "grows s s'" and "inv_votes s"
    and new: "\<And>t n c. p_votes s' t n = Some c \<Longrightarrow> p_votes s t n \<noteq> Some c \<Longrightarrow>
      1 \<le> t \<and> t \<le> p_term s' n \<and> (\<exists>L. p_clog s' t c = Some L \<and> up_to_date L (p_vlog s' t n))"
  shows "inv_votes s'"
proof -
  have "0 \<le> p_term s' n" for n
    using growsD(1) [OF assms(1), of n] assms(2) order_trans unfolding inv_votes_def by blast
  moreover have "1 \<le> t \<and> t \<le> p_term s' n \<and>
      (\<exists>L. p_clog s' t c = Some L \<and> up_to_date L (p_vlog s' t n))"
    if v: "p_votes s' t n = Some c" for t n c
  proof (cases "p_votes s t n = Some c")
    case True
    then obtain L where "1 \<le> t" "t \<le> p_term s n" "p_clog s t c = Some L"
      "up_to_date L (p_vlog s t n)"
      using assms(2) unfolding inv_votes_def by blast
    then show ?thesis
      using growsD(1) [OF assms(1), of n] growsD(3) [OF assms(1) True] growsD(4) [OF assms(1), of t c L]
      by simp
  qed (rule new [OF v])
  ultimately show ?thesis unfolding inv_votes_def by blast
qed

lemma step_inv_votes:
  assumes "proto_step ms s s'" and "proto_inv ms s"
  shows "inv_votes s'"
proof (rule inv_votes_grow [OF step_grows [OF assms] proto_invD(1) [OF assms(2)]])
  fix t n c
  assume new: "p_votes s' t n = Some c" "p_votes s t n \<noteq> Some c"
  have pos: "0 \<le> p_term s n" using proto_invD(1) [OF assms(2)] by (simp add: inv_votes_def)
  show "1 \<le> t \<and> t \<le> p_term s' n \<and>
      (\<exists>L. p_clog s' t c = Some L \<and> up_to_date L (p_vlog s' t n))"
    using assms(1) new pos assms(2)
  proof (induction rule: proto_step.induct)
    case (grant n' t' s c' L)
    then show ?case using proto_invD(2) [OF grant(9)]
      by (auto simp: inv_stand_def split: if_splits)
  qed (auto split: if_splits)
qed

lemma inv_stand_grow:
  assumes "grows s s'" and "inv_stand ms s"
    and new: "\<And>t n L. p_clog s' t n = Some L \<Longrightarrow> p_clog s t n \<noteq> Some L \<Longrightarrow>
      n \<in> set ms \<and> 1 \<le> t \<and> t \<le> p_term s' n \<and> p_votes s' t n = Some n \<and> (\<forall>x \<in> set L. le_term x < t)"
  shows "inv_stand ms s'"
  unfolding inv_stand_def
proof (intro allI impI)
  fix t n L
  assume c: "p_clog s' t n = Some L"
  show "n \<in> set ms \<and> 1 \<le> t \<and> t \<le> p_term s' n \<and> p_votes s' t n = Some n \<and> (\<forall>x \<in> set L. le_term x < t)"
  proof (cases "p_clog s t n = Some L")
    case True
    then have "n \<in> set ms" "1 \<le> t" "t \<le> p_term s n" "p_votes s t n = Some n" "\<forall>x \<in> set L. le_term x < t"
      using assms(2) by (auto simp: inv_stand_def)
    then show ?thesis using growsD(1) [OF assms(1), of n] growsD(2) [OF assms(1)] by fastforce
  qed (rule new [OF c])
qed

lemma step_inv_stand:
  assumes "proto_step ms s s'" and "proto_inv ms s"
  shows "inv_stand ms s'"
proof (rule inv_stand_grow [OF step_grows [OF assms] proto_invD(2) [OF assms(2)]])
  fix t n L
  assume new: "p_clog s' t n = Some L" "p_clog s t n \<noteq> Some L"
  have pos: "0 \<le> p_term s n" using proto_invD(1) [OF assms(2)] by (simp add: inv_votes_def)
  have low: "\<forall>x \<in> set (p_log s n). le_term x \<le> p_term s n"
    using proto_invD(4) [OF assms(2)] by (simp add: inv_logs_def)
  show "n \<in> set ms \<and> 1 \<le> t \<and> t \<le> p_term s' n \<and> p_votes s' t n = Some n \<and>
      (\<forall>x \<in> set L. le_term x < t)"
    using assms(1) new pos low by (induction rule: proto_step.induct) (auto split: if_splits)
qed

text \<open>A new log entry of a leader, a new leader log, everything else is old.\<close>

lemma step_inv_acks:
  assumes "proto_step ms s s'" and "proto_inv ms s"
  shows "inv_acks s'"
  unfolding inv_acks_def
proof (intro allI impI)
  fix t n
  assume pos: "0 < p_acked s' t n"
  have g: "grows s s'" using assms by (rule step_grows)
  have old: "p_elected s' t \<noteq> None \<and> t \<le> p_term s' n \<and> p_acked s t n \<le> length (p_llog s' t)"
    if "0 < p_acked s t n"
  proof -
    have "p_elected s t \<noteq> None" "t \<le> p_term s n" "p_acked s t n \<le> length (p_llog s t)"
      using that proto_invD(5) [OF assms(2)] unfolding inv_acks_def by blast+
    then show ?thesis
      using grows_elected [OF g] grows_llog(1) [OF g, of t] growsD(1) [OF g, of n] by force
  qed
  show "p_elected s' t \<noteq> None \<and> t \<le> p_term s' n \<and> p_acked s' t n \<le> length (p_llog s' t)"
  proof (cases "p_acked s' t n = p_acked s t n")
    case True
    then show ?thesis using old pos by simp
  next
    case False
    show ?thesis using assms(1) False acked_bound [OF assms(2), of t n]
      by (induction rule: proto_step.induct) (auto split: if_splits)
  qed
qed

text \<open>How a step changes logs: the leader log of a term and the log of a node.\<close>

lemma llog_change:
  assumes "proto_step ms s s'" and "p_elected s t = Some n" and "p_llog s' t \<noteq> p_llog s t"
  shows "\<exists>x. le_term x = t \<and> p_term s n = t \<and> p_llog s' t = p_llog s t @ [x] \<and>
    p_log s' n = p_log s n @ [x] \<and> p_term s' = p_term s \<and> p_elected s' = p_elected s"
  using assms(1)
proof (cases rule: proto_step.cases)
  case (append u m x)
  then show ?thesis using assms(2,3) by (auto split: if_splits)
qed (use assms(2,3) in \<open>auto split: if_splits\<close>)

lemma adopt_own_prefix [simp]: "adopt L (take q L) = L"
  by (simp add: adopt_def min_def)

lemma step_inv_lead:
  assumes "proto_step ms s s'" and "proto_inv ms s"
  shows "inv_lead ms s'"
  unfolding inv_lead_def
proof (intro allI impI)
  fix t n
  assume el: "p_elected s' t = Some n"
  have g: "grows s s'" using assms by (rule step_grows)
  have sub: "{m \<in> set ms. p_votes s t m = Some n} \<subseteq> {m \<in> set ms. p_votes s' t m = Some n}"
    using growsD(2) [OF g] by blast
  show "majority ms {m \<in> set ms. p_votes s' t m = Some n} \<and> (\<exists>L. p_clog s' t n = Some L) \<and>
     sorted (map le_term (p_llog s' t)) \<and>
     (\<forall>x \<in> set (p_llog s' t). 1 \<le> le_term x \<and> le_term x \<le> t) \<and>
     (p_term s' n = t \<longrightarrow> p_log s' n = p_llog s' t)"
  proof (cases "p_elected s t = Some n")
    case False
    from assms(1) show ?thesis
    proof (cases rule: proto_step.cases)
      case (elect n' t')
      then have eq: "t' = t" "n' = n" using el False by (auto split: if_splits)
      have "valid s (p_log s n)" "\<forall>x \<in> set (p_log s n). le_term x \<le> p_term s n"
        using proto_invD(4) [OF assms(2)] by (auto simp: inv_logs_def)
      then show ?thesis
        using elect eq valid_terms [OF _ proto_invD(3) [OF assms(2)], of "p_log s n"] by simp
    qed (use False el in auto)
  next
    case True
    then have old: "majority ms {m \<in> set ms. p_votes s t m = Some n}" "\<exists>L. p_clog s t n = Some L"
      "sorted (map le_term (p_llog s t))"
      "\<forall>x \<in> set (p_llog s t). 1 \<le> le_term x \<and> le_term x \<le> t"
      "p_term s n = t \<longrightarrow> p_log s n = p_llog s t"
      using proto_invD(3) [OF assms(2)] unfolding inv_lead_def by blast+
    have reached: "1 \<le> t" "t \<le> p_term s n"
      using old(2) proto_invD(2) [OF assms(2)] by (auto simp: inv_stand_def)
    have "majority ms {m \<in> set ms. p_votes s' t m = Some n}"
      using majority_mono [OF old(1) sub] by simp
    moreover have "\<exists>L. p_clog s' t n = Some L" using old(2) growsD(4) [OF g] by blast
    moreover have "sorted (map le_term (p_llog s' t)) \<and>
        (\<forall>x \<in> set (p_llog s' t). 1 \<le> le_term x \<and> le_term x \<le> t)"
    proof (cases "p_llog s' t = p_llog s t")
      case False
      then show ?thesis
        using llog_change [OF assms(1) True False] old(3,4) reached by (auto simp: sorted_append)
    qed (use old in simp)
    moreover have "p_log s' n = p_llog s' t" if now: "p_term s' n = t"
    proof -
      have tn: "p_term s n = t" using now growsD(1) [OF g, of n] reached by simp
      then have eq: "p_log s n = p_llog s t" using old(5) by simp
      show ?thesis
        using assms(1)
      proof (cases rule: proto_step.cases)
        case (elect m u)
        then show ?thesis using eq True by auto
      next
        case (append u m x)
        then show ?thesis using eq True tn by auto
      next
        case (adopt m u q)
        then show ?thesis using eq tn by auto
      qed (use eq in auto)
    qed
    ultimately show ?thesis by blast
  qed
qed

text \<open>Every log of the new state is an old one, a leader log with its new entry, or a prefix of a
  leader log, so validity carries over.\<close>

lemma step_valid_llog:
  assumes "proto_step ms s s'" and "proto_inv ms s" and "p_elected s' t \<noteq> None"
  shows "valid s' (p_llog s' t)"
proof -
  have g: "grows s s'" using assms(1,2) by (rule step_grows)
  have logs: "valid s (p_log s n)" for n
    using proto_invD(4) [OF assms(2)] by (simp add: inv_logs_def)
  show ?thesis
  proof (cases "p_elected s t")
    case None
    have "\<exists>n. p_llog s' t = p_log s n"
      using assms(1,3) None by (induction rule: proto_step.induct) auto
    then show ?thesis using grows_valid [OF g logs] by auto
  next
    case (Some n)
    then have old: "valid s' (p_llog s t)"
      using proto_invD(4) [OF assms(2)] grows_valid [OF g] by (auto simp: inv_logs_def)
    show ?thesis
    proof (cases "p_llog s' t = p_llog s t")
      case False
      then obtain x where x: "le_term x = t" "p_llog s' t = p_llog s t @ [x]"
        using llog_change [OF assms(1) Some False] by blast
      show ?thesis unfolding x(2) by (rule valid_snoc) (use old x assms(3) in simp_all)
    qed (use old in simp)
  qed
qed

lemma step_inv_logs:
  assumes "proto_step ms s s'" and "proto_inv ms s"
  shows "inv_logs s'"
proof -
  have g: "grows s s'" using assms by (rule step_grows)
  have logs: "valid s (p_log s n)" "\<forall>x \<in> set (p_log s n). le_term x \<le> p_term s n" for n
    using proto_invD(4) [OF assms(2)] by (simp_all add: inv_logs_def)
  have llogs: "valid s' (p_llog s' t)" if "p_elected s' t \<noteq> None" for t
    using step_valid_llog [OF assms that] .
  have log: "valid s' (p_log s' n) \<and> (\<forall>x \<in> set (p_log s' n). le_term x \<le> p_term s' n)" for n
  proof (cases "p_log s' n = p_log s n")
    case True
    then show ?thesis
      using grows_valid [OF g logs(1)] logs(2) growsD(1) [OF g, of n] by (auto intro: order_trans)
  next
    case False
    from assms(1) show ?thesis
    proof (cases rule: proto_step.cases)
      case (append t m x)
      then have m: "m = n" using False by (auto split: if_splits)
      then have "p_log s n = p_llog s t"
        using proto_invD(3) [OF assms(2)] append by (auto simp: inv_lead_def)
      then have "p_log s' n = p_llog s' t" using append m by simp
      then show ?thesis using llogs [of t] append m logs(2) [of n] by auto
    next
      case (adopt m t q)
      then have m: "m = n" "p_log s' n = take q (p_llog s t)"
        using False by (auto simp: adopt_def split: if_splits)
      obtain l where "p_elected s t = Some l" using adopt by blast
      then have "\<forall>x \<in> set (p_llog s t). le_term x \<le> t"
        using proto_invD(3) [OF assms(2)] by (auto simp: inv_lead_def)
      moreover have "valid s' (take q (p_llog s t))"
        using llogs [of t] adopt valid_take by simp
      ultimately show ?thesis using m adopt by (auto dest: in_set_takeD)
    qed (use False in \<open>auto split: if_splits\<close>)
  qed
  have vlog: "valid s' (p_vlog s' t n)" if "p_votes s' t n = Some c" for t n c
  proof (cases "p_votes s t n")
    case (Some d)
    then show ?thesis
      using growsD(3) [OF g Some] proto_invD(4) [OF assms(2)] grows_valid [OF g]
      by (auto simp: inv_logs_def)
  next
    case None
    have "p_vlog s' t n = p_log s n"
      using assms(1) None that by (induction rule: proto_step.induct) (auto split: if_splits)
    then show ?thesis using grows_valid [OF g logs(1)] by simp
  qed
  have clog: "valid s' L" if "p_clog s' t n = Some L" for t n L
  proof (cases "p_clog s t n")
    case (Some M)
    then show ?thesis
      using growsD(4) [OF g Some] that proto_invD(4) [OF assms(2)] grows_valid [OF g]
      by (auto simp: inv_logs_def)
  next
    case None
    have "L = p_log s n"
      using assms(1) None that by (induction rule: proto_step.induct) (auto split: if_splits)
    then show ?thesis using grows_valid [OF g logs(1)] by simp
  qed
  show ?thesis unfolding inv_logs_def using log llogs vlog clog by blast
qed

section \<open>Safety of chosen positions\<close>

text \<open>A node that has left a term keeps what it acknowledged there, or the position is blocked;
  what a leader of a later term holds and what a node adopts from it follow.\<close>

lemma own_later_leader:
  assumes "proto_inv ms s" and "own s t k" and "t < u" and "p_elected s u \<noteq> None"
  shows "holds s (p_llog s u) t k \<or> blocked ms s t k"
  using proto_invD(8) [OF assms(1)] assms(2-4) unfolding inv_leader_def by blast

lemma own_acked_node:
  assumes "proto_inv ms s" and "own s t k" and "k \<le> p_acked s t n"
  shows "holds s (p_log s n) t k \<or> blocked ms s t k"
  using proto_invD(6) [OF assms(1)] assms(2,3) unfolding inv_node_def by blast

lemma holds_append: "holds s L t k \<Longrightarrow> own s t k \<Longrightarrow> holds s (L @ xs) t k"
  using take_eq_length [of k "p_llog s t" L] by (auto simp: holds_def own_def)

text \<open>The node keeps a held position when it adopts a prefix of a leader log that holds it too.\<close>

lemma adopt_holds:
  assumes "take k L = take k M" and "k \<le> length L"
  shows "take k (adopt L (take q M)) = take k L"
proof (cases "take (length (take q M)) L = take q M")
  case True
  then show ?thesis by (simp add: adopt_def)
next
  case False
  have "k \<le> q"
  proof (rule ccontr)
    assume "\<not> k \<le> q"
    then have "take q L = take q M" using take_eq_mono [OF assms(1)] by simp
    moreover have "length (take q M) = q"
      using \<open>\<not> k \<le> q\<close> assms take_eq_length by fastforce
    ultimately show False using False by simp
  qed
  then show ?thesis using False assms(1) by (simp add: adopt_def min_def)
qed

lemma step_inv_node:
  assumes "proto_step ms s s'" and "proto_inv ms s"
  shows "inv_node ms s'"
  unfolding inv_node_def
proof (intro allI impI)
  fix t n k
  assume o': "own s' t k" and ack: "k \<le> p_acked s' t n"
  have g: "grows s s'" using assms by (rule step_grows)
  show "holds s' (p_log s' n) t k \<or> blocked ms s' t k"
  proof (cases "own s t k")
    case False
    then obtain m x where m: "p_term s m = t" "p_elected s t = Some m"
      "k = Suc (length (p_llog s t))"
      and s': "s' = s\<lparr>p_log := (p_log s)(m := p_log s m @ [x]),
        p_llog := (p_llog s)(t := p_llog s t @ [x]),
        p_acked := upd2 (p_acked s) t m (Suc (length (p_llog s t)))\<rparr>"
      using own_new [OF assms o'] by blast
    have "n = m"
      using ack m(3) acked_bound [OF assms(2), of t n] by (auto simp: s' split: if_splits)
    moreover have "p_log s m = p_llog s t"
      using proto_invD(3) [OF assms(2)] m by (auto simp: inv_lead_def)
    ultimately show ?thesis by (simp add: s' holds_def)
  next
    case old: True
    have keep: ?thesis if "holds s (p_log s' n) t k \<or> blocked ms s t k"
      using that grows_holds [OF g old] grows_blocked [OF g] by blast
    have before: "k \<le> p_acked s t n \<Longrightarrow> holds s (p_log s n) t k \<or> blocked ms s t k"
      by (rule own_acked_node [OF assms(2) old])
    have klen: "k \<le> length (p_llog s t)" using old by (simp add: own_def)
    from assms(1) show ?thesis
    proof (cases rule: proto_step.cases)
      case (append u m x)
      show ?thesis
      proof (cases "u = t \<and> m = n")
        case True
        then have "p_log s n = p_llog s t"
          using proto_invD(3) [OF assms(2)] append by (auto simp: inv_lead_def)
        then have "holds s (p_log s n) t k" by (simp add: holds_def)
        then show ?thesis using keep append True holds_append [OF _ old] by simp
      next
        case False
        then have "k \<le> p_acked s t n" using ack append by auto
        then have "holds s (p_log s n) t k \<or> blocked ms s t k" by (rule before)
        then show ?thesis
          using keep append holds_append [OF _ old, of "p_log s n" "[x]"] by (auto split: if_splits)
      qed
    next
      case (adopt m u q)
      show ?thesis
      proof (cases "m = n")
        case False
        then show ?thesis using keep before ack adopt by auto
      next
        case mn: True
        then have log': "p_log s' n = adopt (p_log s n) (take q (p_llog s u))" using adopt by simp
        show ?thesis
        proof (cases "u = t \<and> k \<le> q")
          case True
          then have "take k (p_log s' n) = take k (p_llog s t)"
            unfolding log' using adopt take_eq_mono [of q "p_log s n" "p_llog s t" k]
            by (auto simp: adopt_def min_def)
          then show ?thesis using keep by (simp add: holds_def)
        next
          case False
          then have a: "k \<le> p_acked s t n" using ack adopt mn by (auto split: if_splits)
          have "holds s (p_log s' n) t k \<or> blocked ms s t k"
          proof (cases "blocked ms s t k")
            case False
            then have h: "take k (p_log s n) = take k (p_llog s t)"
              using before [OF a] by (simp add: holds_def)
            have "0 < p_acked s t n" using a old by (simp add: own_def)
            then have "t \<le> u"
              using proto_invD(5) [OF assms(2)] adopt mn unfolding inv_acks_def by blast
            then have "take k (p_llog s u) = take k (p_llog s t)"
              using own_later_leader [OF assms(2) old _ adopt(4)] False
              by (cases "t = u") (auto simp: holds_def)
            then have "take k (p_log s' n) = take k (p_log s n)"
              unfolding log' using h klen take_eq_length [of k "p_llog s t" "p_log s n"]
              by (intro adopt_holds) simp_all
            then show ?thesis using h by (simp add: holds_def)
          qed simp
          then show ?thesis by (rule keep)
        qed
      qed
    qed (use keep before ack in auto)
  qed
qed

lemma step_inv_voter:
  assumes "proto_step ms s s'" and "proto_inv ms s"
  shows "inv_voter ms s'"
  unfolding inv_voter_def
proof (intro allI impI)
  fix t t' n k
  assume o': "own s' t k" and lt: "t < t'" and v': "p_votes s' t' n \<noteq> None"
    and ack: "k \<le> p_acked s' t n"
  have g: "grows s s'" using assms by (rule step_grows)
  have inv': "inv_votes s'" using assms by (rule step_inv_votes)
  have passed: "t < p_term s' n" using v' inv' lt unfolding inv_votes_def by force
  show "holds s' (p_vlog s' t' n) t k \<or> blocked ms s' t k"
  proof (cases "own s t k")
    case False
    then obtain m x where m: "p_term s m = t" "p_elected s t = Some m"
      "k = Suc (length (p_llog s t))"
      and s': "s' = s\<lparr>p_log := (p_log s)(m := p_log s m @ [x]),
        p_llog := (p_llog s)(t := p_llog s t @ [x]),
        p_acked := upd2 (p_acked s) t m (Suc (length (p_llog s t)))\<rparr>"
      using own_new [OF assms o'] by blast
    have "n = m"
      using ack m(3) acked_bound [OF assms(2), of t n] by (auto simp: s' split: if_splits)
    then show ?thesis using passed m by (simp add: s')
  next
    case old: True
    have keep: "holds s' L t k \<or> blocked ms s' t k" if "holds s L t k \<or> blocked ms s t k" for L
      using that grows_holds [OF g old] grows_blocked [OF g] by blast
    show ?thesis
    proof (cases "p_votes s t' n")
      case (Some c)
      then have "t < p_term s n"
        using proto_invD(1) [OF assms(2)] lt unfolding inv_votes_def by force
      then have "k \<le> p_acked s t n" using ack growsD(8) [OF g] by simp
      then have "holds s (p_vlog s t' n) t k \<or> blocked ms s t k"
        using proto_invD(7) [OF assms(2)] old lt Some unfolding inv_voter_def by blast
      then show ?thesis using keep growsD(3) [OF g Some] by simp
    next
      case None
      obtain c where c: "p_votes s' t' n = Some c" using v' by blast
      have "p_vlog s' t' n = p_log s n \<and> p_acked s' = p_acked s"
        using assms(1) None c by (induction rule: proto_step.induct) (auto split: if_splits)
      then show ?thesis using keep own_acked_node [OF assms(2) old] ack by simp
    qed
  qed
qed

text \<open>The election restriction: a candidate that is at least as up to date as a log holding a
  position holds it too, unless the position is blocked.\<close>

lemma last_term_ge:
  assumes "sorted (map le_term L)" and "i < length L"
  shows "le_term (L ! i) \<le> last_term L"
proof -
  have "L \<noteq> []" using assms(2) by auto
  then have "last_term L = le_term (L ! (length L - 1))" by (simp add: last_term_def last_conv_nth)
  moreover have "map le_term L ! i \<le> map le_term L ! (length L - 1)"
    using assms by (intro sorted_nth_mono) auto
  ultimately show ?thesis using assms(2) by simp
qed

lemma candidate_holds:
  assumes inv: "proto_inv ms s" and o: "own s t k" and A: "valid s A" and V: "valid s V"
    and h: "holds s V t k" and up: "up_to_date A V"
  shows "holds s A t k \<or> blocked ms s t k"
proof -
  let ?L = "p_llog s t"
  have kk: "1 \<le> k" "k \<le> length ?L" "le_term (?L ! (k - 1)) = t" and el: "p_elected s t \<noteq> None"
    using o by (auto simp: own_def)
  have lead: "inv_lead ms s" using proto_invD(3) [OF inv] .
  have tV: "take k V = take k ?L" using h by (simp add: holds_def)
  have kV: "k \<le> length V" using take_eq_length [OF tV [symmetric] kk(2)] .
  have "k - 1 < k" "k - 1 < length V" using kk kV by linarith+
  then have Vk: "le_term (V ! (k - 1)) = t" using take_eq_nth [OF tV] kk(3) by simp
  have "1 \<le> t"
    using lead el kk unfolding inv_lead_def by (metis One_nat_def Suc_le_lessD
        diff_Suc_less dual_order.strict_trans1 not_None_eq nth_mem)
  moreover have "t \<le> last_term V"
    using last_term_ge [OF valid_terms(1) [OF V lead] \<open>k - 1 < length V\<close>] Vk by simp
  moreover have "last_term V \<le> last_term A" using up by (auto simp: up_to_date_def)
  ultimately have u: "1 \<le> last_term A" "t \<le> last_term A" by simp_all
  then have An: "A \<noteq> []" by (auto simp: last_term_def)
  let ?M = "p_llog s (last_term A)"
  note a = valid_nonempty [OF A An]
  show ?thesis
  proof (cases "last_term V = last_term A")
    case True
    then have lenVA: "length V \<le> length A" using up by (auto simp: up_to_date_def)
    have "V \<noteq> []" using kV kk by auto
    then have "take (length V) ?M = V" using valid_nonempty(3) [OF V] True by simp
    then have "take k V = take k ?M" using kV by (metis min.absorb1 take_take)
    moreover have "take k A = take k ?M" using a(3) lenVA kV by (metis le_trans min.absorb1 take_take)
    ultimately show ?thesis using tV by (simp add: holds_def)
  next
    case False
    then have less: "t < last_term A" using up \<open>t \<le> last_term V\<close> by (auto simp: up_to_date_def)
    show ?thesis
    proof (cases "blocked ms s t k")
      case False
      then have tM: "take k ?M = take k ?L"
        using own_later_leader [OF inv o less a(1)] by (simp add: holds_def)
      have kM: "k \<le> length ?M" using take_eq_length [OF tM [symmetric] kk(2)] .
      have "k \<le> length A"
      proof (rule ccontr)
        assume short: "\<not> k \<le> length A"
        obtain l where "p_elected s (last_term A) = Some l" using a(1) by blast
        then have "sorted (map le_term ?M)" using lead by (auto simp: inv_lead_def)
        then have "map le_term ?M ! (length A - 1) \<le> map le_term ?M ! (k - 1)"
          using short kM kk by (intro sorted_nth_mono) auto
        moreover have "?M ! (length A - 1) = A ! (length A - 1)"
          using An by (metis a(3) diff_less length_greater_0_conv nth_take zero_less_one)
        moreover have "?M ! (k - 1) = ?L ! (k - 1)"
          using take_eq_nth [OF tM] kk kM by simp
        ultimately have "le_term (A ! (length A - 1)) \<le> t" using kk kM short by simp
        then show False using less An by (simp add: last_term_def last_conv_nth)
      qed
      then have "take k A = take k ?M" using a(3) by (metis min.absorb1 take_take)
      then show ?thesis using tM by (simp add: holds_def)
    qed simp
  qed
qed

lemma step_inv_leader:
  assumes "proto_step ms s s'" and "proto_inv ms s"
  shows "inv_leader ms s'"
  unfolding inv_leader_def
proof (intro allI impI)
  fix t t' k
  assume o': "own s' t k" and lt: "t < t'" and el': "p_elected s' t' \<noteq> None"
  have g: "grows s s'" using assms by (rule step_grows)
  have voted: "t < p_term s m" if "p_votes s t' m = Some n" for m n
    using proto_invD(1) [OF assms(2)] that lt unfolding inv_votes_def by force
  show "holds s' (p_llog s' t') t k \<or> blocked ms s' t k"
  proof (cases "own s t k")
    case False
    then obtain m x where m: "p_term s m = t" "k = Suc (length (p_llog s t))"
      and s': "s' = s\<lparr>p_log := (p_log s)(m := p_log s m @ [x]),
        p_llog := (p_llog s)(t := p_llog s t @ [x]),
        p_acked := upd2 (p_acked s) t m (Suc (length (p_llog s t)))\<rparr>"
      using own_new [OF assms o'] by blast
    then obtain n where "p_elected s t' = Some n" using el' by auto
    then have Q: "majority ms {m \<in> set ms. p_votes s t' m = Some n}"
      using proto_invD(3) [OF assms(2)] unfolding inv_lead_def by blast
    have "t < p_term s' q \<and> p_acked s' t q < k" if "p_votes s t' q = Some n" for q
      using voted [OF that] m acked_bound [OF assms(2), of t q] by (auto simp: s')
    then have "blocked ms s' t k" using Q unfolding blocked_def by blast
    then show ?thesis by simp
  next
    case old: True
    have keep: "holds s' L t k \<or> blocked ms s' t k" if "holds s L t k \<or> blocked ms s t k" for L
      using that grows_holds [OF g old] grows_blocked [OF g] by blast
    show ?thesis
    proof (cases "p_elected s t'")
      case (Some n)
      then have "holds s (p_llog s t') t k \<or> blocked ms s t k"
        using own_later_leader [OF assms(2) old lt] by simp
      then have "holds s (p_llog s' t') t k \<or> blocked ms s t k"
        using growsD(6) [OF g, of t'] Some holds_append [OF _ old] by auto
      then show ?thesis by (rule keep)
    next
      case None
      have "\<exists>n. p_llog s' t' = p_log s n \<and> p_clog s t' n = Some (p_log s n) \<and>
          majority ms {m \<in> set ms. p_votes s t' m = Some n}"
        using assms(1) el' None by (induction rule: proto_step.induct) (auto split: if_splits)
      then obtain n where n: "p_llog s' t' = p_log s n" "p_clog s t' n = Some (p_log s n)"
        and Q: "majority ms {m \<in> set ms. p_votes s t' m = Some n}" by blast
      have "holds s (p_log s n) t k \<or> blocked ms s t k"
      proof (cases "\<exists>m. p_votes s t' m = Some n \<and> k \<le> p_acked s t m")
        case False
        then have "blocked ms s t k" using Q voted unfolding blocked_def by fastforce
        then show ?thesis by simp
      next
        case True
        then obtain m where m: "p_votes s t' m = Some n" "k \<le> p_acked s t m" by blast
        have up: "up_to_date (p_log s n) (p_vlog s t' m)"
          using proto_invD(1) [OF assms(2)] m(1) n(2) unfolding inv_votes_def by fastforce
        have val: "valid s (p_log s n)" "valid s (p_vlog s t' m)"
          using proto_invD(4) [OF assms(2)] m(1) by (auto simp: inv_logs_def)
        have "holds s (p_vlog s t' m) t k \<or> blocked ms s t k"
          using proto_invD(7) [OF assms(2)] old lt m unfolding inv_voter_def by blast
        then show ?thesis using candidate_holds [OF assms(2) old val _ up] by blast
      qed
      then show ?thesis using keep n(1) by simp
    qed
  qed
qed

text \<open>A chosen position is in the log of every later leader.\<close>

lemma chosen_in_leader:
  assumes "proto_inv ms s" and "chosen ms s t k" and "t \<le> u" and "p_elected s u \<noteq> None"
  shows "take k (p_llog s u) = take k (p_llog s t)"
proof (cases "t = u")
  case False
  then show ?thesis
    using own_later_leader [OF assms(1) _ _ assms(4), of t k] chosen_not_blocked [OF assms(2)] assms(2,3)
    by (auto simp: chosen_def holds_def)
qed simp

lemma step_inv_commit:
  assumes "proto_step ms s s'" and "proto_inv ms s"
  shows "inv_commit ms s'"
  unfolding inv_commit_def
proof
  fix n
  have g: "grows s s'" using assms by (rule step_grows)
  let ?c = "p_commit s n"
  let ?G = "p_commit s' n \<le> length (p_log s' n) \<and> (p_commit s' n = 0 \<or>
     (\<exists>t k. chosen ms s' t k \<and> p_commit s' n \<le> k \<and> t \<le> p_term s' n \<and>
        take (p_commit s' n) (p_log s' n) = take (p_commit s' n) (p_llog s' t)))"
  have old: "?c \<le> length (p_log s n)" "?c = 0 \<or> (\<exists>t k. chosen ms s t k \<and> ?c \<le> k \<and>
      t \<le> p_term s n \<and> take ?c (p_log s n) = take ?c (p_llog s t))"
    using proto_invD(9) [OF assms(2)] unfolding inv_commit_def by blast+
  have fresh: ?G if "chosen ms s t k" "j \<le> k" "j \<le> length (p_log s' n)" "t \<le> p_term s n"
    "take j (p_log s' n) = take j (p_llog s t)" "p_commit s' n = j" for t k j
  proof -
    have "own s t k" using that(1) by (simp add: chosen_def)
    then have "take j (p_llog s' t) = take j (p_llog s t)"
      using that(2) grows_llog(2) [OF g, of t j] by (simp add: own_def)
    moreover have "t \<le> p_term s' n" using that(4) growsD(1) [OF g, of n] by linarith
    ultimately show ?thesis
      using that(2,3,5) grows_chosen [OF g that(1)] unfolding that(6)
      by (intro conjI disjI2 exI [of _ t] exI [of _ k]) simp_all
  qed
  have same: ?G if eq: "p_commit s' n = ?c" "?c \<le> length (p_log s' n)"
    "take ?c (p_log s' n) = take ?c (p_log s n)"
  proof (cases "?c = 0")
    case False
    then obtain t k where "chosen ms s t k" "?c \<le> k" "t \<le> p_term s n"
      "take ?c (p_log s n) = take ?c (p_llog s t)" using old(2) by auto
    then show ?thesis using eq by (intro fresh) auto
  qed (use eq in simp)
  from assms(1) show ?G
  proof (cases rule: proto_step.cases)
    case (append t m x)
    then show ?thesis using old(1) by (intro same) auto
  next
    case (adopt m u q)
    show ?thesis
    proof (cases "m = n \<and> ?c \<noteq> 0")
      case True
      then obtain t k where c: "chosen ms s t k" "?c \<le> k" "t \<le> p_term s n"
        "take ?c (p_log s n) = take ?c (p_llog s t)" using old(2) by auto
      have "take k (p_llog s u) = take k (p_llog s t)"
        using chosen_in_leader [OF assms(2) c(1)] adopt c(3) True by simp
      then have "take ?c (p_log s n) = take ?c (p_llog s u)"
        using c(2,4) take_eq_mono by metis
      then have "take ?c (p_log s' n) = take ?c (p_log s n)"
        using adopt True old(1) adopt_holds by auto
      then show ?thesis
        using adopt old(1) take_eq_length [of ?c "p_log s n" "p_log s' n"] by (intro same) simp_all
    next
      case False
      then show ?thesis using adopt old(1) by (intro same) auto
    qed
  next
    case (commit m j t k)
    show ?thesis
    proof (cases "m = n")
      case True
      then show ?thesis using commit by (intro fresh [of t k j]) auto
    next
      case False
      then show ?thesis using commit old(1) by (intro same) auto
    qed
  qed (use old(1) in \<open>(intro same; auto)+\<close>)
qed

theorem step_proto_inv:
  assumes "proto_step ms s s'" and "proto_inv ms s"
  shows "proto_inv ms s'"
  unfolding proto_inv_def [of ms s']
  by (intro conjI step_inv_votes [OF assms] step_inv_stand [OF assms] step_inv_lead [OF assms]
      step_inv_logs [OF assms] step_inv_acks [OF assms] step_inv_node [OF assms]
      step_inv_voter [OF assms] step_inv_leader [OF assms] step_inv_commit [OF assms])

inductive proto_steps :: "node_id list \<Rightarrow> proto \<Rightarrow> proto \<Rightarrow> bool" for ms where
  stay: "proto_steps ms s s"
| move: "proto_steps ms s s1 \<Longrightarrow> proto_step ms s1 s2 \<Longrightarrow> proto_steps ms s s2"

lemma proto_steps_trans:
  "proto_steps ms s1 s2 \<Longrightarrow> proto_steps ms s s1 \<Longrightarrow> proto_steps ms s s2"
  by (induction rule: proto_steps.induct) (auto intro: proto_steps.intros)

lemma proto_steps_one: "proto_step ms s s' \<Longrightarrow> proto_steps ms s s'"
  by (rule proto_steps.move [OF proto_steps.stay])

lemma proto_steps_inv: "proto_steps ms s s' \<Longrightarrow> proto_inv ms s \<Longrightarrow> proto_inv ms s'"
  by (induction rule: proto_steps.induct) (auto intro: step_proto_inv)

lemma proto_steps_grows: "proto_steps ms s s' \<Longrightarrow> proto_inv ms s \<Longrightarrow> grows s s'"
  by (induction rule: proto_steps.induct)
    (auto intro: grows_refl grows_trans step_grows proto_steps_inv)

section \<open>Safety\<close>

lemma one_leader:
  assumes "proto_inv ms s" and "majority ms {m \<in> set ms. p_votes s t m = Some a}"
    and "majority ms {m \<in> set ms. p_votes s t m = Some b}"
  shows "a = b"
  using majority_intersect [OF assms(2,3)] by auto

lemma committed_agree:
  assumes inv: "proto_inv ms s" and j: "j \<le> p_commit s a" "j \<le> p_commit s b"
  shows "take j (p_log s a) = take j (p_log s b)"
proof (cases "j = 0")
  case False
  note com = proto_invD(9) [OF inv, unfolded inv_commit_def]
  have "p_commit s a \<noteq> 0" "p_commit s b \<noteq> 0" using False j by linarith+
  then obtain t k u l where
    a: "chosen ms s t k" "p_commit s a \<le> k"
      "take (p_commit s a) (p_log s a) = take (p_commit s a) (p_llog s t)" and
    b: "chosen ms s u l" "p_commit s b \<le> l"
      "take (p_commit s b) (p_log s b) = take (p_commit s b) (p_llog s u)"
    using com by metis
  have "take j (p_log s a) = take j (p_llog s t)" "take j (p_log s b) = take j (p_llog s u)"
    using take_eq_mono [OF a(3) j(1)] take_eq_mono [OF b(3) j(2)] by simp_all
  moreover have "take j (p_llog s t) = take j (p_llog s u)"
  proof (cases "t \<le> u")
    case True
    then have "take k (p_llog s u) = take k (p_llog s t)"
      using chosen_in_leader [OF inv a(1)] b(1) by (simp add: chosen_def own_def)
    then show ?thesis using take_eq_mono a(2) j(1) by (metis order_trans)
  next
    case False
    then have "take l (p_llog s t) = take l (p_llog s u)"
      using chosen_in_leader [OF inv b(1)] a(1) by (simp add: chosen_def own_def)
    then show ?thesis using take_eq_mono b(2) j(2) by (metis order_trans)
  qed
  ultimately show ?thesis by simp
qed simp

end
