(* ===== verification/Refinement.thy ===== *)
theory Refinement
  imports ReadyTrack RaftSafety
begin

text \<open>
  The consensus core refines the protocol of theory \<open>RaftProto\<close>.  \<open>node_rel\<close> relates the core of
  a member to the protocol state, \<open>justified\<close> says which history stands behind a message, and
  \<open>micro_refines\<close> shows that every elementary move of a core on a justified event is matched by
  protocol steps of that member and justifies what the move sends.  The snapshot of the core is
  absent throughout: no event of the core creates one.
\<close>

section \<open>Justified messages\<close>

definition term_at :: "log_entry list \<Rightarrow> nat \<Rightarrow> int" where
  "term_at L p = (if p = 0 then 0 else le_term (L ! (p - 1)))"

definition commit_justified :: "node_id list \<Rightarrow> proto \<Rightarrow> int \<Rightarrow> int \<Rightarrow> bool" where
  "commit_justified ms s t lc \<longleftrightarrow> lc \<le> 0 \<or> (\<exists>u k. chosen ms s u k \<and> lc \<le> int k \<and> u \<le> t \<and>
     take (nat lc) (p_llog s t) = take (nat lc) (p_llog s u))"

definition append_justified :: "node_id list \<Rightarrow> proto \<Rightarrow> int \<Rightarrow> int \<Rightarrow> int \<Rightarrow> log_entry list
    \<Rightarrow> int \<Rightarrow> bool" where
  "append_justified ms s t i pt es lc \<longleftrightarrow> p_elected s t \<noteq> None \<and> 0 \<le> i \<and>
     nat i + length es \<le> length (p_llog s t) \<and>
     take (nat i + length es) (p_llog s t) = take (nat i) (p_llog s t) @ es \<and>
     pt = term_at (p_llog s t) (nat i) \<and> lc \<le> i + int (length es) \<and>
     commit_justified ms s t lc"

definition justified :: "node_id list \<Rightarrow> proto \<Rightarrow> raft_message \<Rightarrow> bool" where
  "justified ms s m = (case m_body m of
     RequestVoteRequest i lt \<Rightarrow> (\<exists>L. p_clog s (m_term m) (m_from m) = Some L \<and>
        i = int (length L) \<and> lt = last_term L)
   | RequestVoteResponse g \<Rightarrow> g \<longrightarrow> p_votes s (m_term m) (m_from m) = Some (m_to m)
   | AppendEntriesRequest i pt es lc \<Rightarrow> append_justified ms s (m_term m) i pt es lc
   | AppendEntriesResponse ok match _ \<Rightarrow>
       ok \<longrightarrow> match \<le> int (p_acked s (m_term m) (m_from m)))"

definition event_justified :: "node_id list \<Rightarrow> proto \<Rightarrow> raft_event \<Rightarrow> bool" where
  "event_justified ms s ev = (case ev of MessageEvent m \<Rightarrow> justified ms s m | _ \<Rightarrow> True)"

section \<open>The relation\<close>

definition sim_ok :: "node_id list \<Rightarrow> proto \<Rightarrow> bool" where
  "sim_ok ms s \<longleftrightarrow> proto_inv ms s \<and> (\<forall>t. contiguous 1 (p_llog s t))"

definition candidate_rel :: "proto \<Rightarrow> node_id \<Rightarrow> raft_core \<Rightarrow> bool" where
  "candidate_rel s n c \<longleftrightarrow> p_clog s (rc_currentTerm c) n = Some (rc_entries c) \<and>
     p_elected s (rc_currentTerm c) \<noteq> Some n \<and>
     (\<forall>m \<in> rc_votes c. p_votes s (rc_currentTerm c) m = Some n)"

definition leader_rel :: "proto \<Rightarrow> node_id \<Rightarrow> raft_core \<Rightarrow> bool" where
  "leader_rel s n c \<longleftrightarrow> p_elected s (rc_currentTerm c) = Some n \<and>
     (\<forall>k. own s (rc_currentTerm c) k \<longrightarrow> k \<le> p_acked s (rc_currentTerm c) n) \<and>
     (\<forall>(q, pp) \<in> set (rc_progress c). 0 \<le> pp_matchIndex pp \<and> pp_matchIndex pp \<le> int (p_acked s (rc_currentTerm c) q) \<and>
        1 \<le> pp_nextIndex pp \<and> pp_nextIndex pp \<le> int (length (rc_entries c)) + 1)"

definition node_rel :: "node_id list \<Rightarrow> proto \<Rightarrow> node_id \<Rightarrow> raft_core \<Rightarrow> bool" where
  "node_rel ms s n c \<longleftrightarrow> core_wf c \<and> rc_nodeId c = n \<and> rc_members c = ms \<and> rc_snapshot c = None \<and>
     rc_currentTerm c = p_term s n \<and> rc_entries c = p_log s n \<and>
     rc_commitIndex c = int (p_commit s n) \<and> rc_votedFor c = p_votes s (p_term s n) n \<and>
     (rc_role c = Candidate \<longrightarrow> candidate_rel s n c) \<and> (rc_role c = Leader \<longrightarrow> leader_rel s n c)"

text \<open>What a step on behalf of \<open>n\<close> leaves alone.\<close>

definition only :: "node_id \<Rightarrow> proto \<Rightarrow> proto \<Rightarrow> bool" where
  "only n s s' \<longleftrightarrow> (\<forall>m. m \<noteq> n \<longrightarrow> p_term s' m = p_term s m \<and> p_log s' m = p_log s m \<and>
     p_commit s' m = p_commit s m \<and>
     (\<forall>t. p_votes s' t m = p_votes s t m \<and> p_clog s' t m = p_clog s t m \<and>
        p_acked s' t m = p_acked s t m \<and>
        (p_elected s' t = Some m \<longleftrightarrow> p_elected s t = Some m) \<and>
        (p_elected s t = Some m \<longrightarrow> p_llog s' t = p_llog s t)))"

lemma only_refl [intro]: "only n s s"
  by (simp add: only_def)

lemma only_trans:
  assumes "only n s s'" and "only n s' s''"
  shows "only n s s''"
  using assms unfolding only_def by simp

section \<open>Justification is stable\<close>

lemma grows_commit_justified:
  assumes "grows s s'" and "commit_justified ms s t lc" and "p_elected s t \<noteq> None"
    and "lc \<le> int (length (p_llog s t))"
  shows "commit_justified ms s' t lc"
proof (cases "lc \<le> 0")
  case False
  then obtain u k where uk: "chosen ms s u k" "lc \<le> int k" "u \<le> t"
    "take (nat lc) (p_llog s t) = take (nat lc) (p_llog s u)"
    using assms(2) by (auto simp: commit_justified_def)
  have o: "p_elected s u \<noteq> None" "k \<le> length (p_llog s u)"
    using uk(1) by (simp_all add: chosen_def own_def)
  have "nat lc \<le> length (p_llog s u)" "nat lc \<le> length (p_llog s t)" using uk(2) o assms(4) by linarith+
  then have "take (nat lc) (p_llog s' t) = take (nat lc) (p_llog s' u)"
    using grows_llog(2) [OF assms(1) assms(3)] grows_llog(2) [OF assms(1) o(1)] uk(4) by simp
  then show ?thesis using uk grows_chosen [OF assms(1) uk(1)] by (auto simp: commit_justified_def)
qed (simp add: commit_justified_def)

lemma grows_append_justified:
  assumes "grows s s'" and "append_justified ms s t i pt es lc"
  shows "append_justified ms s' t i pt es lc"
proof -
  have a: "p_elected s t \<noteq> None" "0 \<le> i" "nat i + length es \<le> length (p_llog s t)"
    "take (nat i + length es) (p_llog s t) = take (nat i) (p_llog s t) @ es"
    "pt = term_at (p_llog s t) (nat i)" "lc \<le> i + int (length es)" "commit_justified ms s t lc"
    using assms(2) by (simp_all add: append_justified_def)
  have "term_at (p_llog s' t) (nat i) = term_at (p_llog s t) (nat i)"
    using grows_llog(3) [OF assms(1) a(1), of "nat i - 1"] a(3) by (auto simp: term_at_def)
  moreover have "take (nat i) (p_llog s' t) = take (nat i) (p_llog s t)"
    "take (nat i + length es) (p_llog s' t) = take (nat i + length es) (p_llog s t)"
    using grows_llog(2) [OF assms(1) a(1)] a(3) by simp_all
  moreover have "commit_justified ms s' t lc"
    using a by (intro grows_commit_justified [OF assms(1)]) auto
  ultimately show ?thesis
    using a grows_elected [OF assms(1) a(1)] grows_llog(1) [OF assms(1) a(1)]
    by (simp add: append_justified_def)
qed

lemma grows_justified:
  assumes "grows s s'" and "justified ms s m"
  shows "justified ms s' m"
proof (cases "m_body m")
  case (RequestVoteRequest i lt)
  then show ?thesis using assms growsD(4) [OF assms(1)] by (fastforce simp: justified_def)
next
  case (RequestVoteResponse g)
  then show ?thesis using assms growsD(2) [OF assms(1)] by (simp add: justified_def)
next
  case (AppendEntriesRequest i pt es lc)
  then show ?thesis using assms grows_append_justified by (simp add: justified_def)
next
  case (AppendEntriesResponse ok match h)
  then show ?thesis using assms(2) growsD(7) [OF assms(1), of "m_term m" "m_from m"]
    by (auto simp: justified_def)
qed

lemma grows_event_justified: "grows s s' \<Longrightarrow> event_justified ms s ev \<Longrightarrow> event_justified ms s' ev"
  by (simp add: event_justified_def grows_justified split: raft_event.splits)

lemma only_own: "only n s s' \<Longrightarrow> p_elected s t = Some m \<Longrightarrow> m \<noteq> n \<Longrightarrow> own s' t k = own s t k"
  by (auto simp: only_def own_def)

lemma node_rel_other:
  assumes "only n s s'" and "grows s s'" and "node_rel ms s m c" and "m \<noteq> n"
  shows "node_rel ms s' m c"
proof -
  have o: "p_term s' m = p_term s m" "p_log s' m = p_log s m" "p_commit s' m = p_commit s m"
    "p_votes s' t m = p_votes s t m" "p_clog s' t m = p_clog s t m" "p_acked s' t m = p_acked s t m"
    "p_elected s' t = Some m \<longleftrightarrow> p_elected s t = Some m" for t
    using assms(1,4) by (simp_all add: only_def)
  have "candidate_rel s' m c" if "candidate_rel s m c"
    using that o growsD(2) [OF assms(2)] by (auto simp: candidate_rel_def)
  moreover have "leader_rel s' m c" if l: "leader_rel s m c"
  proof -
    let ?t = "rc_currentTerm c"
    have el: "p_elected s ?t = Some m" using l by (simp add: leader_rel_def)
    have "int (p_acked s ?t q) \<le> int (p_acked s' ?t q)" for q using growsD(7) [OF assms(2)] by simp
    then show ?thesis
      using l only_own [OF assms(1) el assms(4)] o
      unfolding leader_rel_def by (fastforce intro: order_trans)
  qed
  ultimately show ?thesis using assms(3) o by (simp add: node_rel_def)
qed

section \<open>The log of a core in relation\<close>

lemma node_rel_log:
  assumes "node_rel ms s n c"
  shows "contiguous 1 (rc_entries c)" and "snapshotIndex c = 0"
    and "lastLogIndex c = int (length (rc_entries c))" and "log_ok c"
    and "p_commit s n \<le> length (rc_entries c)" and "n \<in> set ms"
proof -
  have wf: "core_wf c" and snap: "rc_snapshot c = None" using assms by (simp_all add: node_rel_def)
  show s0: "snapshotIndex c = 0" using snap by (simp add: snapshotIndex_def)
  show lo: "log_ok c" using wf by (rule core_wf_log_ok)
  show c1: "contiguous 1 (rc_entries c)" using lo s0 by (simp add: log_ok_def)
  show ll: "lastLogIndex c = int (length (rc_entries c))" using lastLogIndex_eq [of c] c1 s0 by simp
  show "p_commit s n \<le> length (rc_entries c)" using lo ll assms by (simp add: log_ok_def node_rel_def)
  show "n \<in> set ms" using assms by (auto simp: node_rel_def core_wf_def)
qed

lemma termAt_log:
  assumes "contiguous 1 (rc_entries c)" and "rc_snapshot c = None"
  shows "termAt c i = (if 0 \<le> i \<and> i \<le> int (length (rc_entries c))
    then Some (term_at (rc_entries c) (nat i)) else None)"
proof -
  have s0: "snapshotIndex c = 0" using assms(2) by (simp add: snapshotIndex_def)
  have cont: "contiguous (snapshotIndex c + 1) (rc_entries c)" using assms(1) s0 by simp
  have "nat (i - 1) = nat i - 1" by simp
  then show ?thesis
    using assms(2) by (auto simp: termAt_def entryAt_eq [OF cont] s0 term_at_def)
qed

lemma last_term_at: "last_term L = term_at L (length L)"
  by (simp add: last_term_def term_at_def last_conv_nth)

lemma last_term_core:
  "contiguous 1 (rc_entries c) \<Longrightarrow> rc_snapshot c = None \<Longrightarrow>
    termAt_or_0 c (int (length (rc_entries c))) = last_term (rc_entries c)"
  by (simp add: termAt_or_0_def termAt_log last_term_at)

text \<open>What the node has committed is in the log of every leader of its term or a later one.\<close>

lemma committed_in_leader:
  assumes "proto_inv ms s" and "p_elected s t \<noteq> None" and "p_term s n \<le> t"
  shows "take (p_commit s n) (p_log s n) = take (p_commit s n) (p_llog s t)"
proof (cases "p_commit s n = 0")
  case False
  then obtain u k where uk: "chosen ms s u k" "p_commit s n \<le> k" "u \<le> p_term s n"
    "take (p_commit s n) (p_log s n) = take (p_commit s n) (p_llog s u)"
    using proto_invD(9) [OF assms(1)] unfolding inv_commit_def by metis
  have "take k (p_llog s t) = take k (p_llog s u)"
    using chosen_in_leader [OF assms(1) uk(1) _ assms(2)] uk(3) assms(3) by simp
  then show ?thesis using uk(2,4) take_eq_mono by metis
qed simp

section \<open>Accepting entries is adopting a prefix\<close>

lemma overlay_adopt:
  assumes "\<And>j. j < length es \<Longrightarrow> j < length xs \<Longrightarrow> le_term (xs ! j) = le_term (es ! j) \<Longrightarrow> xs ! j = es ! j"
  shows "overlay xs es = (if take (length es) xs = es then xs else es)"
  using assms
proof (induction xs es rule: overlay.induct)
  case (3 x xs e es)
  have "le_term x = le_term e \<Longrightarrow> x = e" using "3.prems" [of 0] by simp
  moreover have "le_term x = le_term e \<Longrightarrow> overlay xs es = (if take (length es) xs = es then xs else es)"
    using "3.prems" [of "Suc j" for j] by (intro "3.IH") auto
  ultimately show ?case by auto
qed simp_all

lemma matching_prefix:
  assumes "valid s L" and "valid s P" and "p \<le> length L" and "p \<le> length P"
    and "term_at L p = term_at P p"
  shows "take p L = take p P"
proof (cases p)
  case (Suc q)
  then show ?thesis using valid_matching [OF assms(1,2), of q] assms by (simp add: term_at_def)
qed simp

lemma overlay_prefix:
  assumes "valid s L" and "valid s P" and "p \<le> length L" and "p + length es \<le> length P"
    and "term_at L p = term_at P p" and "take (p + length es) P = take p P @ es"
  shows "take p L @ overlay (drop p L) es = adopt L (take (p + length es) P)"
proof -
  have pre: "take p L = take p P" using assms by (intro matching_prefix) auto
  have es: "es = take (length es) (drop p P)"
    using assms(4,6) by (metis add_diff_cancel_left' append_eq_conv_conj drop_take length_take
        min.absorb2 add_leD1)
  have same: "drop p L ! j = es ! j"
    if "j < length es" "j < length (drop p L)" "le_term (drop p L ! j) = le_term (es ! j)" for j
  proof -
    have e: "es ! j = P ! (p + j)" using that(1) assms(4) by (subst es) simp
    have "take (Suc (p + j)) L = take (Suc (p + j)) P"
      using that e assms by (intro valid_matching) auto
    then have "L ! (p + j) = P ! (p + j)" using that(2) by (intro take_eq_nth [THEN conjunct2]) auto
    then show ?thesis using that(2) e by simp
  qed
  have "take (p + length es) L = take p L @ take (length es) (drop p L)" by (rule take_add)
  then have "take (p + length es) L = take (p + length es) P \<longleftrightarrow> take (length es) (drop p L) = es"
    using assms(6) pre by simp
  moreover have len: "length (take p P @ es) = p + length es" using assms(4) by simp
  moreover have "overlay (drop p L) es =
      (if take (length es) (drop p L) = es then drop p L else es)"
    using same by (intro overlay_adopt) auto
  moreover have "take p P @ drop p L = L" using pre by (metis append_take_drop_id)
  ultimately show ?thesis
    unfolding adopt_def assms(6) len pre by simp
qed

text \<open>The loop over a justified payload: it never throws and adopts the leader's prefix.\<close>

lemma accept_justified:
  assumes sim: "sim_ok ms s" and rel: "node_rel ms s n c"
    and a: "append_justified ms s (rc_currentTerm c) i pt es lc" and "termAt c i = Some pt"
  shows "\<exists>trunc app. append_loop c None [] es =
    (c\<lparr>rc_entries := adopt (p_log s n) (take (nat i + length es) (p_llog s (rc_currentTerm c)))\<rparr>,
     Inr (trunc, app))"
proof -
  let ?t = "rc_currentTerm c" and ?L = "p_log s n" and ?p = "nat i"
  let ?P = "p_llog s ?t"
  have inv: "proto_inv ms s" and idx: "contiguous 1 ?P" using sim by (simp_all add: sim_ok_def)
  note lg = node_rel_log [OF rel]
  have L: "rc_entries c = ?L" "rc_snapshot c = None" "?t = p_term s n"
    "rc_commitIndex c = int (p_commit s n)" using rel by (simp_all add: node_rel_def)
  have j: "p_elected s ?t \<noteq> None" "0 \<le> i" "?p + length es \<le> length ?P"
    "take (?p + length es) ?P = take ?p ?P @ es" "pt = term_at ?P ?p"
    using a by (simp_all add: append_justified_def)
  have pL: "?p \<le> length ?L" "term_at ?L ?p = term_at ?P ?p"
    using assms(4) j(5) termAt_log [OF lg(1) L(2), of i] L(1) by (auto split: if_splits)
  have val: "valid s ?L" "valid s ?P" using proto_invD(4) [OF inv] j(1) by (auto simp: inv_logs_def)
  have "contiguous 1 (take ?p ?P @ es)" using contiguous_take [OF idx] j(4) by metis
  moreover have "length (take ?p ?P) = ?p" using j(3) by simp
  ultimately have es: "contiguous (snapshotIndex c + 1 + int ?p) es"
    using lg(2) by (simp only: contiguous_append) simp
  have cont: "contiguous (snapshotIndex c + 1) (rc_entries c)" using lg by simp
  have loop: "append_loop c None [] es = append_result c ?p None [] es"
    using append_loop_spec [OF cont _ es] pL(1) L(1) by simp
  let ?k = "agreement (drop ?p ?L) es"
  have "\<not> (has_conflict (drop ?p ?L) es \<and> 1 + int (?p + ?k) \<le> rc_commitIndex c)"
  proof
    assume conf: "has_conflict (drop ?p ?L) es \<and> 1 + int (?p + ?k) \<le> rc_commitIndex c"
    then have "int (?p + ?k) < int (p_commit s n)" using L(4) by linarith
    then have k: "?k < length es" "?p + ?k < length ?L" "?p + ?k < p_commit s n"
      using conf by (simp_all only: of_nat_less_iff) (auto simp: has_conflict_def)
    have "take (p_commit s n) ?L = take (p_commit s n) ?P"
      using committed_in_leader [OF inv j(1)] L(3) by simp
    then have eq: "?L ! (?p + ?k) = ?P ! (?p + ?k)" using take_eq_nth k by metis
    have "?P ! (?p + ?k) = (take ?p ?P @ es) ! (?p + ?k)"
      using k(1) j(3) by (metis j(4) nat_add_left_cancel_less nth_take)
    also have "\<dots> = es ! ?k"
      using j(3) nth_append_length_plus [of "take ?p ?P" es ?k] by simp
    finally have "le_term (drop ?p ?L ! ?k) = le_term (es ! ?k)" using eq k(2) by simp
    then show False using agreement_conflict conf by blast
  qed
  then show ?thesis
    using overlay_prefix [OF val pL(1) j(3) pL(2) j(4)] lg(2) L(1)
    unfolding loop append_result_def by (simp add: Let_def)
qed

section \<open>Every move is matched\<close>

definition refined :: "node_id list \<Rightarrow> node_id \<Rightarrow> proto \<Rightarrow> raft_core \<Rightarrow> effects \<Rightarrow> bool" where
  "refined ms n s c' e' \<longleftrightarrow> (\<exists>s'. proto_steps ms s s' \<and> sim_ok ms s' \<and> only n s s' \<and>
     node_rel ms s' n c' \<and> (\<forall>m \<in> set (ef_messages e'). justified ms s' m))"

definition sent :: "node_id list \<Rightarrow> proto \<Rightarrow> effects \<Rightarrow> bool" where
  "sent ms s e \<longleftrightarrow> (\<forall>m \<in> set (ef_messages e). justified ms s m)"

lemma refined_stay: "sim_ok ms s \<Longrightarrow> node_rel ms s n c' \<Longrightarrow> sent ms s e' \<Longrightarrow> refined ms n s c' e'"
  unfolding refined_def sent_def by (intro exI [of _ s]) (auto intro: proto_steps.stay)

lemma refined_step:
  assumes "refined ms n s1 c' e'" and "proto_step ms s s1" and "only n s s1"
  shows "refined ms n s c' e'"
proof -
  obtain s' where "proto_steps ms s1 s'" "sim_ok ms s'" "only n s1 s'" "node_rel ms s' n c'"
    "\<forall>m \<in> set (ef_messages e'). justified ms s' m"
    using assms(1) by (auto simp: refined_def)
  then show ?thesis
    unfolding refined_def
    by (intro exI [of _ s']) (use assms proto_steps_trans proto_steps_one only_trans in blast)
qed

lemma sent_grows: "grows s s' \<Longrightarrow> sent ms s e \<Longrightarrow> sent ms s' e"
  by (auto simp: sent_def intro: grows_justified)

lemma sent_step: "proto_step ms s s' \<Longrightarrow> sim_ok ms s \<Longrightarrow> sent ms s e \<Longrightarrow> sent ms s' e"
  unfolding sim_ok_def by (blast intro: sent_grows step_grows)

lemma sim_ok_step:
  "proto_step ms s s' \<Longrightarrow> sim_ok ms s \<Longrightarrow> \<forall>t. contiguous 1 (p_llog s' t) \<Longrightarrow> sim_ok ms s'"
  using step_proto_inv by (auto simp: sim_ok_def)

lemma sent_push: "sent ms s (push_messages M e) \<longleftrightarrow> sent ms s e \<and> (\<forall>m \<in> set M. justified ms s m)"
  by (auto simp: sent_def push_messages_def)

text \<open>The part of the relation every move keeps.\<close>

lemma node_rel_frame:
  assumes "micro ev c e c' e'" and "node_rel ms s n c"
  shows "core_wf c' \<and> rc_nodeId c' = n \<and> rc_members c' = ms \<and> rc_snapshot c' = None"
proof -
  have "core_wf c" using assms(2) by (simp add: node_rel_def)
  then show ?thesis
    using micro_wf [OF assms(1)] micro_frame [OF assms(1) core_wf_log_ok] assms(2)
    by (simp add: node_rel_def)
qed

lemma follow_refines:
  assumes sim: "sim_ok ms s" and rel: "node_rel ms s n c" and msg: "sent ms s e"
    and le: "rc_currentTerm c \<le> t" and b: "becomeFollower t l c e = (c', e')"
  shows "refined ms n s c' e'"
proof -
  let ?s = "s\<lparr>p_term := (p_term s)(n := t)\<rparr>"
  note f = becomeFollower_fields [OF b]
  have frame: "core_wf c' \<and> rc_nodeId c' = n \<and> rc_members c' = ms \<and> rc_snapshot c' = None"
    using node_rel_frame [OF micro.follow [OF le b] rel] .
  have r: "rc_currentTerm c = p_term s n" "rc_entries c = p_log s n"
    "rc_commitIndex c = int (p_commit s n)" "rc_votedFor c = p_votes s (p_term s n) n"
    using rel by (simp_all add: node_rel_def)
  have inv: "proto_inv ms s" using sim by (simp add: sim_ok_def)
  have step: "proto_step ms s ?s" using le r by (intro proto_step.new_term) simp
  have "sim_ok ms ?s" using sim by (intro sim_ok_step [OF step]) (simp_all add: sim_ok_def)
  moreover have "p_votes s t n = rc_votedFor c'"
    using f(10) le r no_vote_ahead [OF inv, of n t] by (auto simp: order_le_less)
  then have "node_rel ms ?s n c'" using frame f le r by (simp add: node_rel_def max_def)
  moreover have "sent ms ?s e'" using sent_step [OF step sim msg] f(16) by (simp add: sent_def)
  ultimately show ?thesis
    by (intro refined_step [OF refined_stay step]) (auto simp: only_def)
qed

lemma campaign_refines:
  assumes sim: "sim_ok ms s" and rel: "node_rel ms s n c" and msg: "sent ms s e"
    and role: "rc_role c \<noteq> Leader" and b: "begin_election c e = (c', e')"
  shows "refined ms n s c' e'"
proof -
  let ?t = "p_term s n + 1"
  let ?s = "s\<lparr>p_term := (p_term s)(n := ?t), p_votes := upd2 (p_votes s) ?t n (Some n),
      p_vlog := upd2 (p_vlog s) ?t n (p_log s n),
      p_clog := upd2 (p_clog s) ?t n (Some (p_log s n))\<rparr>"
  note f = begin_election_fields [OF b]
  have frame: "core_wf c' \<and> rc_nodeId c' = n \<and> rc_members c' = ms \<and> rc_snapshot c' = None"
    using node_rel_frame [OF micro.campaign [OF role b] rel] .
  have r: "rc_currentTerm c = p_term s n" "rc_entries c = p_log s n" "rc_nodeId c = n"
    "rc_commitIndex c = int (p_commit s n)" "rc_snapshot c = None" using rel by (simp_all add: node_rel_def)
  have inv: "proto_inv ms s" using sim by (simp add: sim_ok_def)
  have step: "proto_step ms s ?s" using node_rel_log(6) [OF rel] by (intro proto_step.stand) simp_all
  have "sim_ok ms ?s" using sim by (intro sim_ok_step [OF step]) (simp_all add: sim_ok_def)
  moreover have "p_elected s ?t \<noteq> Some n"
    using proto_invD(3) [OF inv] no_stand_ahead [OF inv, of n ?t] unfolding inv_lead_def
    by fastforce
  then have "node_rel ms ?s n c'"
    using frame f r by (simp add: node_rel_def candidate_rel_def)
  moreover have "sent ms ?s e'"
  proof -
    have "lastLogIndex c' = int (length (p_log s n))"
      using same_log(1) [of c' c] f r node_rel_log(3) [OF rel] by simp
    moreover have "termAt_or_0 c' (int (length (p_log s n))) = last_term (p_log s n)"
      using last_term_core [of c'] node_rel_log(1) [OF rel] f r by simp
    ultimately have "\<forall>p. justified ms ?s (envelope c' p
        (RequestVoteRequest (lastLogIndex c') (termAt_or_0 c' (lastLogIndex c'))))"
      using f r by (simp add: justified_def envelope_def)
    then show ?thesis using sent_step [OF step sim msg] f(18) by (auto simp: sent_def)
  qed
  ultimately show ?thesis
    by (intro refined_step [OF refined_stay step]) (auto simp: only_def)
qed

lemma extend_refines:
  assumes sim: "sim_ok ms s" and rel: "node_rel ms s n c" and msg: "sent ms s e"
    and role: "rc_role c = Leader" and b: "appendLocal ty payload cid c e = (c', e')"
  shows "refined ms n s c' e'"
proof -
  let ?t = "p_term s n"
  let ?x = "\<lparr>le_index = lastLogIndex c + 1, le_term = rc_currentTerm c, le_type = ty,
      le_payload = payload, le_commandId = cid\<rparr>"
  let ?s = "s\<lparr>p_log := (p_log s)(n := p_log s n @ [?x]), p_llog := (p_llog s)(?t := p_llog s ?t @ [?x]),
      p_acked := upd2 (p_acked s) ?t n (Suc (length (p_llog s ?t)))\<rparr>"
  note f = appendLocal_fields [OF b]
  have frame: "core_wf c' \<and> rc_nodeId c' = n \<and> rc_members c' = ms \<and> rc_snapshot c' = None"
    using node_rel_frame [OF micro.extend [OF role b] rel] .
  have r: "rc_currentTerm c = ?t" "rc_entries c = p_log s n"
    "rc_commitIndex c = int (p_commit s n)" "rc_votedFor c = p_votes s ?t n" "leader_rel s n c"
    using rel role by (simp_all add: node_rel_def)
  have inv: "proto_inv ms s" and idx: "\<forall>t. contiguous 1 (p_llog s t)"
    using sim by (simp_all add: sim_ok_def)
  have el: "p_elected s ?t = Some n" using r by (simp add: leader_rel_def)
  then have same: "p_log s n = p_llog s ?t" using proto_invD(3) [OF inv] by (simp add: inv_lead_def)
  have step: "proto_step ms s ?s" using el r by (intro proto_step.append) simp_all
  have "le_index ?x = 1 + int (length (p_llog s ?t))"
    using node_rel_log(3) [OF rel] r same by simp
  then have "sim_ok ms ?s" using idx by (intro sim_ok_step [OF step sim]) simp
  moreover have "leader_rel ?s n c'"
  proof -
    have "own ?s ?t k \<longrightarrow> k \<le> p_acked ?s ?t n" for k by (simp add: own_def)
    moreover have "p_acked s ?t q \<le> p_acked ?s ?t q" for q
      using acked_bound [OF inv, of ?t n] by simp
    then have "int (p_acked s ?t q) \<le> int (p_acked ?s ?t q)" for q by (simp only: of_nat_le_iff)
    ultimately show ?thesis
      using r el unfolding leader_rel_def f(1)
      by (auto intro: order_trans split: if_splits)
  qed
  then have "node_rel ms ?s n c'" using frame r role by (simp add: node_rel_def f(1))
  moreover have "sent ms ?s e'" using sent_step [OF step sim msg] by (simp add: sent_def f(2))
  ultimately show ?thesis
    using el by (intro refined_step [OF refined_stay step]) (auto simp: only_def)
qed

text \<open>Taking office is the protocol's election followed by the leader's first append.\<close>

definition in_office :: "raft_core \<Rightarrow> raft_core" where
  "in_office c = c\<lparr>rc_role := Leader, rc_leaderId := Some (rc_nodeId c), rc_progress :=
     map (\<lambda>p. (p, \<lparr>pp_nextIndex = lastLogIndex c + 1, pp_matchIndex = 0\<rparr>)) (peers c)\<rparr>"

lemma take_office_in_office: "take_office c e = appendLocal Noop [] None (in_office c) e"
  by (simp add: take_office_def in_office_def Let_def lastLogIndex_def snapshotIndex_def peers_def)

lemma in_office_simps [simp]:
  "rc_role (in_office c) = Leader" "rc_nodeId (in_office c) = rc_nodeId c"
  "rc_members (in_office c) = rc_members c" "rc_entries (in_office c) = rc_entries c"
  "rc_snapshot (in_office c) = rc_snapshot c" "rc_currentTerm (in_office c) = rc_currentTerm c"
  "rc_commitIndex (in_office c) = rc_commitIndex c" "rc_votedFor (in_office c) = rc_votedFor c"
  "rc_votes (in_office c) = rc_votes c" "rc_appliedIndex (in_office c) = rc_appliedIndex c"
  "rc_progress (in_office c) =
     map (\<lambda>p. (p, \<lparr>pp_nextIndex = lastLogIndex c + 1, pp_matchIndex = 0\<rparr>)) (peers c)"
  by (simp_all add: in_office_def)

lemma in_office_wf: "core_wf c \<Longrightarrow> core_wf (in_office c)"
  using log_ok_cong [of "in_office c" c] same_log(2) [of "in_office c" c]
  by (simp add: core_wf_def assertInvariants_None leader_table_def comp_def peers_def)

lemma quorum_majority:
  assumes "hasQuorum c (card V)" and "V \<subseteq> A" and "A \<subseteq> set (rc_members c)"
  shows "majority (rc_members c) A"
proof -
  have "card V \<le> card A" using assms by (intro card_mono) (auto intro: finite_subset)
  then show ?thesis using assms by (simp add: majority_def hasQuorum_def)
qed

lemma win_refines:
  assumes sim: "sim_ok ms s" and rel: "node_rel ms s n c" and msg: "sent ms s e"
    and role: "rc_role c = Candidate" and q: "hasQuorum c (card (rc_votes c))"
    and b: "take_office c e = (c', e')"
  shows "refined ms n s c' e'"
proof -
  let ?t = "p_term s n"
  let ?s = "s\<lparr>p_elected := (p_elected s)(?t := Some n), p_llog := (p_llog s)(?t := p_log s n)\<rparr>"
  have r: "rc_currentTerm c = ?t" "rc_entries c = p_log s n" "rc_members c = ms" "core_wf c"
    "rc_commitIndex c = int (p_commit s n)" "rc_votedFor c = p_votes s ?t n" "candidate_rel s n c"
    using rel role by (simp_all add: node_rel_def)
  have cand: "p_clog s ?t n = Some (p_log s n)" "p_elected s ?t \<noteq> Some n"
    "\<forall>m \<in> rc_votes c. p_votes s ?t m = Some n"
    using r by (simp_all add: candidate_rel_def)
  have inv: "proto_inv ms s" and idx: "\<forall>t. contiguous 1 (p_llog s t)"
    using sim by (simp_all add: sim_ok_def)
  have "rc_votes c \<subseteq> set ms" using r by (auto simp: core_wf_def)
  then have maj: "majority ms {m \<in> set ms. p_votes s ?t m = Some n}"
    using quorum_majority [OF q, of "{m \<in> set ms. p_votes s ?t m = Some n}"] r(3) cand(3) by auto
  have none: "p_elected s ?t = None"
  proof (cases "p_elected s ?t")
    case (Some l)
    then have "majority ms {m \<in> set ms. p_votes s ?t m = Some l}"
      using proto_invD(3) [OF inv] unfolding inv_lead_def by blast
    then have "n = l" by (rule one_leader [OF inv maj])
    then show ?thesis using Some cand(2) by simp
  qed
  have step: "proto_step ms s ?s"
    using none maj cand(1) node_rel_log(6) [OF rel] by (intro proto_step.elect) simp_all
  have sim1: "sim_ok ms ?s"
    using idx node_rel_log(1) [OF rel] r(2) by (intro sim_ok_step [OF step sim]) simp
  have young: "\<forall>x \<in> set (p_log s n). le_term x < ?t"
    using proto_invD(2) [OF inv] cand(1) unfolding inv_stand_def by blast
  have "\<not> own ?s ?t k" for k
  proof
    assume "own ?s ?t k"
    then have "k - 1 < length (p_log s n)" "le_term (p_log s n ! (k - 1)) = ?t"
      by (auto simp: own_def)
    then show False using young nth_mem by force
  qed
  then have "leader_rel ?s n (in_office c)"
    using r node_rel_log(3) [OF rel] by (auto simp: leader_rel_def)
  then have "node_rel ms ?s n (in_office c)"
    using rel in_office_wf r(4) by (simp add: node_rel_def)
  moreover have "sent ms ?s e" using sent_step [OF step sim msg] .
  ultimately have "refined ms n ?s c' e'"
    using b sim1 extend_refines [of ms ?s n "in_office c" e Noop "[]" None c' e']
    by (simp add: take_office_in_office)
  then show ?thesis using step none by (intro refined_step [OF _ step]) (auto simp: only_def)
qed

text \<open>A leader only sends what its log and commit position justify.\<close>

lemma commit_justified_node:
  assumes "proto_inv ms s" and "p_log s n = p_llog s (p_term s n)"
  shows "commit_justified ms s (p_term s n) (int (p_commit s n))"
proof (cases "p_commit s n = 0")
  case False
  then obtain u k where "chosen ms s u k" "p_commit s n \<le> k" "u \<le> p_term s n"
    "take (p_commit s n) (p_log s n) = take (p_commit s n) (p_llog s u)"
    using proto_invD(9) [OF assms(1)] unfolding inv_commit_def by metis
  then show ?thesis using assms(2) by (auto simp: commit_justified_def)
qed (simp add: commit_justified_def)

lemma appendFor_justified:
  assumes sim: "sim_ok ms s" and rel: "node_rel ms s n c" and role: "rc_role c = Leader"
    and a: "appendFor c p = Inr m"
  shows "justified ms s m"
proof -
  let ?t = "p_term s n" and ?L = "rc_entries c"
  have r: "rc_currentTerm c = ?t" "?L = p_log s n" "rc_snapshot c = None"
    "rc_commitIndex c = int (p_commit s n)" "leader_rel s n c"
    using rel role by (simp_all add: node_rel_def)
  have inv: "proto_inv ms s" using sim by (simp_all add: sim_ok_def)
  have el: "p_elected s ?t = Some n" using r by (simp add: leader_rel_def)
  then have same: "p_log s n = p_llog s ?t" using proto_invD(3) [OF inv] by (simp add: inv_lead_def)
  note lg = node_rel_log [OF rel]
  obtain pp where pp: "map_of (rc_progress c) p = Some pp"
    and m: "m = envelope c p (AppendEntriesRequest (pp_nextIndex pp - 1)
       (termAt_or_0 c (pp_nextIndex pp - 1))
       (filter (\<lambda>e. pp_nextIndex pp \<le> le_index e) ?L) (rc_commitIndex c))"
    using a by (auto simp: appendFor_def Let_def split: option.splits)
  have nx: "1 \<le> pp_nextIndex pp" "pp_nextIndex pp \<le> int (length ?L) + 1"
    using map_of_SomeD [OF pp] r(5) by (auto simp: leader_rel_def)
  define i where "i = nat (pp_nextIndex pp - 1)"
  have i: "pp_nextIndex pp = int i + 1" "i \<le> length ?L" using nx by (auto simp: i_def)
  have es: "filter (\<lambda>e. pp_nextIndex pp \<le> le_index e) ?L = drop i ?L"
    using contiguous_filter_ge [OF lg(1)] i(1) by simp
  have "term_at ?L i = termAt_or_0 c (int i)"
    using i(2) termAt_log [OF lg(1) r(3)] by (simp add: termAt_or_0_def)
  moreover have "int (p_commit s n) \<le> int (length ?L)" using lg(5) by simp
  ultimately show ?thesis
    using commit_justified_node [OF inv same] el i r same
    unfolding m es justified_def append_justified_def envelope_def by simp
qed

lemma replicate_refines:
  assumes sim: "sim_ok ms s" and rel: "node_rel ms s n c" and msg: "sent ms s e"
    and role: "rc_role c = Leader" and a: "appendFor c p = Inr m"
  shows "refined ms n s c (push_messages [m] e)"
  using appendFor_justified [OF sim rel role a] msg by (intro refined_stay [OF sim rel]) (simp add: sent_push)

text \<open>The leader counts itself and the peers that have acknowledged: a majority.\<close>

lemma replicated_majority:
  assumes "node_rel ms s n c" and "rc_role c = Leader" and "hasQuorum c (replicated c i)"
    and "0 < i" and "own s (p_term s n) (nat i)"
  shows "chosen ms s (p_term s n) (nat i)"
proof -
  let ?t = "p_term s n"
  let ?P = "filter (\<lambda>(p, progress). i \<le> pp_matchIndex progress) (rc_progress c)"
  have r: "rc_currentTerm c = ?t" "rc_members c = ms" "rc_nodeId c = n" "leader_rel s n c" "core_wf c"
    using assms(1,2) by (simp_all add: node_rel_def)
  have tab: "map fst (rc_progress c) = peers c"
    using r(5) assms(2) by (simp add: core_wf_def leader_table_def)
  have "distinct (map fst (rc_progress c))" using tab r(5) by (simp add: core_wf_def peers_def)
  then have "distinct (map fst ?P)" by (rule distinct_map_filter)
  then have "card (fst ` set ?P) = length ?P" using distinct_card [of "map fst ?P"] by simp
  moreover have "fst ` set (rc_progress c) = set (peers c)" using tab by (metis list.set_map)
  then have sub: "fst ` set ?P \<subseteq> set (peers c)" by auto
  then have "n \<notin> fst ` set ?P" using r(3) by (auto simp: peers_def)
  ultimately have "card (insert n (fst ` set ?P)) = replicated c i" by (simp add: replicated_def)
  then have q: "hasQuorum c (card (insert n (fst ` set ?P)))" using assms(3) by simp
  have "nat i \<le> p_acked s ?t q" if "q \<in> insert n (fst ` set ?P)" for q
  proof (cases "q = n")
    case True
    then show ?thesis using assms(5) r by (simp add: leader_rel_def)
  next
    case False
    then have "q \<in> fst ` set ?P" using that by simp
    then obtain pp where "(q, pp) \<in> set (rc_progress c)" "i \<le> pp_matchIndex pp" by force
    then have "i \<le> int (p_acked s ?t q)" using r(1,4) by (auto simp: leader_rel_def)
    then show ?thesis by simp
  qed
  then have "insert n (fst ` set ?P) \<subseteq> {m \<in> set ms. nat i \<le> p_acked s ?t m}"
    using sub node_rel_log(6) [OF assms(1)] r(2) by (auto simp: peers_def)
  then show ?thesis using assms(5) quorum_majority [OF q] r(2) by (simp add: chosen_def)
qed

lemma commit_refines:
  assumes sim: "sim_ok ms s" and rel: "node_rel ms s n c" and msg: "sent ms s e"
    and role: "rc_role c = Leader" and scan: "commit_scan c (lastLogIndex c) = Some i"
    and b: "c' = c\<lparr>rc_commitIndex := i\<rparr>" "e' = e\<lparr>ef_hardState := Some (hardState c')\<rparr>"
  shows "refined ms n s c' e'"
proof -
  let ?t = "p_term s n" and ?s = "s\<lparr>p_commit := (p_commit s)(n := nat i)\<rparr>"
  have frame: "core_wf c' \<and> rc_nodeId c' = n \<and> rc_members c' = ms \<and> rc_snapshot c' = None"
    using node_rel_frame [OF micro.commit [OF role scan b(1)] rel] .
  have r: "rc_currentTerm c = ?t" "rc_entries c = p_log s n" "rc_snapshot c = None"
    "rc_commitIndex c = int (p_commit s n)" "rc_votedFor c = p_votes s ?t n" "leader_rel s n c"
    using rel role by (simp_all add: node_rel_def)
  have inv: "proto_inv ms s" using sim by (simp add: sim_ok_def)
  have el: "p_elected s ?t = Some n" using r by (simp add: leader_rel_def)
  then have same: "p_log s n = p_llog s ?t" using proto_invD(3) [OF inv] by (simp add: inv_lead_def)
  note lg = node_rel_log [OF rel] and sc = commit_scan_Some [OF scan]
  have i: "int (p_commit s n) < i" "nat i \<le> length (p_log s n)" "0 < i"
    "term_at (p_log s n) (nat i) = ?t" "hasQuorum c (replicated c i)"
    using sc lg(3) r termAt_log [OF lg(1) r(3), of i] by (auto split: if_splits)
  have ow: "own s ?t (nat i)" using i el same by (simp add: own_def term_at_def split: if_splits)
  have ch: "chosen ms s ?t (nat i)" using replicated_majority [OF rel role i(5,3) ow] .
  have step: "proto_step ms s ?s"
    using i ch same by (intro proto_step.commit [where t = ?t and k = "nat i"]) auto
  have "sim_ok ms ?s" using sim by (intro sim_ok_step [OF step]) (simp_all add: sim_ok_def)
  moreover have "leader_rel ?s n c'" using r(6) by (simp add: leader_rel_def b own_def)
  then have "node_rel ms ?s n c'" using frame r i(3) role by (simp add: node_rel_def b(1))
  moreover have "sent ms ?s e'" using sent_step [OF step sim msg] by (simp add: sent_def b(2))
  ultimately show ?thesis
    by (intro refined_step [OF refined_stay step]) (auto simp: only_def)
qed

text \<open>Votes.\<close>

lemma vote_refines:
  assumes sim: "sim_ok ms s" and rel: "node_rel ms s n c" and msg: "sent ms s e"
    and ev: "justified ms s m" and body: "m_body m = RequestVoteRequest i t" and acc: "accepts c m"
    and le: "m_term m \<le> rc_currentTerm c" and b: "handleVoteRequest m i t c e = (c', e')"
  shows "refined ms n s c' e'"
proof (cases "grants_vote c m i t")
  case False
  then have "c' = c" "e' = push_messages [envelope c (m_from m) (RequestVoteResponse False)] e"
    using b [symmetric] by (simp_all add: handleVoteRequest_eq)
  then show ?thesis
    using msg by (intro refined_stay [OF sim]) (simp_all add: rel sent_push justified_def envelope_def)
next
  case True
  let ?t = "p_term s n" and ?v = "m_from m"
  let ?c = "c\<lparr>rc_role := Follower, rc_leaderId := None, rc_votedFor := Some ?v\<rparr>"
  have b': "c' = ?c" "e' = push_messages [envelope ?c ?v (RequestVoteResponse True)]
      (e\<lparr>ef_hardState := Some (hardState ?c)\<rparr>)"
    using b [symmetric] True by (simp_all add: handleVoteRequest_eq Let_def)
  have frame: "core_wf c' \<and> rc_nodeId c' = n \<and> rc_members c' = ms \<and> rc_snapshot c' = None"
    using node_rel_frame [OF micro.vote [OF refl acc body le b] rel] .
  have r: "rc_currentTerm c = ?t" "rc_entries c = p_log s n" "rc_snapshot c = None" "rc_nodeId c = n"
    "rc_commitIndex c = int (p_commit s n)" "rc_votedFor c = p_votes s ?t n"
    using rel by (simp_all add: node_rel_def)
  have g: "m_term m = ?t" "p_votes s ?t n = None \<or> p_votes s ?t n = Some ?v"
    using True r by (simp_all add: grants_vote_def)
  obtain L where L: "p_clog s ?t ?v = Some L" "i = int (length L)" "t = last_term L"
    using ev body g(1) by (auto simp: justified_def)
  note lg = node_rel_log [OF rel]
  have up: "up_to_date L (p_log s n)"
    using True L last_term_core [OF lg(1) r(3)] lg(3) r(2)
    by (auto simp: grants_vote_def up_to_date_def)
  have msgs: "sent ms s' e'" if "sent ms s' e" "p_votes s' ?t n = Some ?v" for s'
    using that r unfolding b' sent_push
    by (simp add: sent_def justified_def envelope_def)
  show ?thesis
  proof (cases "p_votes s ?t n")
    case (Some v)
    then have "node_rel ms s n c'" using frame g r by (simp add: node_rel_def b'(1))
    then show ?thesis using msgs [OF msg] Some g(2) by (intro refined_stay [OF sim]) simp_all
  next
    case None
    let ?s = "s\<lparr>p_votes := upd2 (p_votes s) ?t n (Some ?v), p_vlog := upd2 (p_vlog s) ?t n (p_log s n)\<rparr>"
    have step: "proto_step ms s ?s"
      using lg(6) None L(1) up by (intro proto_step.grant) simp_all
    have "sim_ok ms ?s" using sim by (intro sim_ok_step [OF step]) (simp_all add: sim_ok_def)
    moreover have "node_rel ms ?s n c'" using frame r by (simp add: node_rel_def b'(1))
    moreover have "sent ms ?s e'" using msgs [of ?s] sent_step [OF step sim msg] by simp
    ultimately show ?thesis
      by (intro refined_step [OF refined_stay step]) (auto simp: only_def)
  qed
qed

lemma tally_refines:
  assumes sim: "sim_ok ms s" and rel: "node_rel ms s n c" and msg: "sent ms s e"
    and ev: "justified ms s m" and body: "m_body m = RequestVoteResponse True" and acc: "accepts c m"
    and t: "m_term m = rc_currentTerm c" and role: "rc_role c = Candidate"
  shows "refined ms n s (c\<lparr>rc_votes := insert (m_from m) (rc_votes c)\<rparr>) e"
proof -
  let ?c = "c\<lparr>rc_votes := insert (m_from m) (rc_votes c)\<rparr>"
  have frame: "core_wf ?c \<and> rc_nodeId ?c = n \<and> rc_members ?c = ms \<and> rc_snapshot ?c = None"
    using node_rel_frame [OF micro.tally [OF refl acc body t role] rel] .
  have "p_votes s (rc_currentTerm c) (m_from m) = Some n"
    using ev body t acc rel by (simp add: justified_def accepts_def node_rel_def)
  then have "node_rel ms s n ?c"
    using rel role frame by (auto simp: node_rel_def candidate_rel_def)
  then show ?thesis using msg by (intro refined_stay [OF sim])
qed

text \<open>Accepting entries is the protocol's adoption followed by a commit.\<close>

lemma accept_refines:
  assumes sim: "sim_ok ms s" and rel: "node_rel ms s n c" and msg: "sent ms s e"
    and ev: "justified ms s m" and body: "m_body m = AppendEntriesRequest i pt es lc"
    and acc: "accepts c m" and t: "m_term m = rc_currentTerm c" and role: "rc_role c = Follower"
    and at: "termAt c i = Some pt" and eff: "ef_truncateFrom e = None" "ef_entries e = []"
    and loop: "append_loop c None [] es = (c2, Inr (trunc, app))"
    and b: "finish_append m i es lc trunc app c2 e = (c', e')"
  shows "refined ms n s c' e'"
proof -
  let ?t = "p_term s n" and ?q = "nat i + length es"
  let ?P = "p_llog s ?t"
  let ?L = "adopt (p_log s n) (take ?q ?P)"
  let ?s = "s\<lparr>p_log := (p_log s)(n := ?L), p_acked := upd2 (p_acked s) ?t n (max ?q (p_acked s ?t n))\<rparr>"
  have frame: "core_wf c' \<and> rc_nodeId c' = n \<and> rc_members c' = ms \<and> rc_snapshot c' = None"
    using node_rel_frame [OF micro.accept [OF refl acc body t role at eff loop b] rel] .
  have r: "rc_currentTerm c = ?t" "rc_entries c = p_log s n" "rc_snapshot c = None" "rc_nodeId c = n"
    "rc_commitIndex c = int (p_commit s n)" "rc_votedFor c = p_votes s ?t n"
    using rel by (simp_all add: node_rel_def)
  have a: "append_justified ms s ?t i pt es lc" using ev body t r by (simp add: justified_def)
  then have j: "p_elected s ?t \<noteq> None" "?q \<le> length ?P" "0 \<le> i" "lc \<le> int ?q"
    "commit_justified ms s ?t lc" "take ?q ?P = take (nat i) ?P @ es"
    by (simp_all add: append_justified_def)
  have inv: "proto_inv ms s" and idx: "contiguous 1 ?P" using sim by (simp_all add: sim_ok_def)
  obtain tr ap where "append_loop c None [] es = (c\<lparr>rc_entries := ?L\<rparr>, Inr (tr, ap))"
    using accept_justified [OF sim rel _ at, of es lc] a r(1) by auto
  then have c2: "c2 = c\<lparr>rc_entries := ?L\<rparr>" using loop by simp
  note f = finish_append_fields [OF b, unfolded c2]
  have step: "proto_step ms s ?s"
    using node_rel_log(6) [OF rel] j by (intro proto_step.adopt) simp_all
  have sim1: "sim_ok ms ?s" using sim by (intro sim_ok_step [OF step]) (simp_all add: sim_ok_def)
  have pre: "take ?q ?L = take ?q ?P" using j(2) by (simp add: adopt_def min_def)
  have len: "?q \<le> length ?L" using take_eq_length [OF pre [symmetric] j(2)] .
  have "snapshotIndex c' = 0" using frame by (simp add: snapshotIndex_def)
  then have cL: "contiguous 1 ?L"
    using frame core_wf_log_ok [of c'] f(9) by (simp add: log_ok_def)
  have last: "lastLogIndex (c\<lparr>rc_entries := ?L\<rparr>) = int (length ?L)"
    using lastLogIndex_eq [of "c\<lparr>rc_entries := ?L\<rparr>"] cL r(3) by (simp add: snapshotIndex_def)
  have ci: "rc_commitIndex c' = (if int (p_commit s n) < lc then lc else int (p_commit s n))"
  proof -
    have "int ?q \<le> int (length ?L)" using len by (simp only: of_nat_le_iff)
    then have "min lc (int (length ?L)) = lc" using j(4) by linarith
    then show ?thesis using f(11) r(5) last by simp
  qed
  have matched: "(if es \<noteq> [] then le_index (last es) else i) = int ?q"
  proof (cases "es = []")
    case False
    have "length (take (nat i) ?P) = nat i" using j(2) by simp
    moreover have "contiguous 1 (take (nat i) ?P @ es)" using contiguous_take [OF idx] j(6) by metis
    ultimately have "contiguous (1 + int (nat i)) es" by (simp only: contiguous_append)
    then show ?thesis using False contiguous_last [of _ es] j(3) by simp
  qed (use j(3) in simp)
  have msgs: "sent ms s' e'" if "sent ms s' e" "?q \<le> p_acked s' ?t n" for s'
    using that f(2,6) r(1,4) unfolding sent_def f(18) matched
    by (auto simp: justified_def appendResponse_def envelope_def)
  have sent1: "sent ms ?s e'" by (rule msgs [OF sent_step [OF step sim msg]]) simp
  have rel1: "node_rel ms s' n c'"
    if "p_term s' n = ?t" "p_log s' n = ?L" "p_votes s' ?t n = p_votes s ?t n"
      "int (p_commit s' n) = rc_commitIndex c'" for s'
    using that frame f r role by (simp add: node_rel_def)
  have only1: "only n s ?s" by (simp add: only_def)
  show ?thesis
  proof (cases "int (p_commit s n) < lc")
    case False
    then have "node_rel ms ?s n c'" using ci by (intro rel1) simp_all
    then show ?thesis using sim1 sent1 only1 by (intro refined_step [OF refined_stay step])
  next
    case True
    let ?s2 = "?s\<lparr>p_commit := (p_commit ?s)(n := nat lc)\<rparr>"
    have g: "grows s ?s" using step_grows [OF step inv] .
    obtain u k where uk: "chosen ms s u k" "lc \<le> int k" "u \<le> ?t"
      "take (nat lc) ?P = take (nat lc) (p_llog s u)"
      using j(5) True by (auto simp: commit_justified_def)
    have nlc: "nat lc \<le> ?q" using j(4) by (simp only: nat_le_iff)
    have "take (nat lc) ?L = take (nat lc) ?P" using take_eq_mono [OF pre nlc] .
    moreover have "nat lc \<le> length ?L" using nlc len by (rule order_trans)
    ultimately have step2: "proto_step ms ?s ?s2"
      using uk grows_chosen [OF g uk(1)] True
      by (intro proto_step.commit [where t = u and k = k]) auto
    have "sim_ok ms ?s2" using sim1 by (intro sim_ok_step [OF step2]) (simp_all add: sim_ok_def)
    moreover have "node_rel ms ?s2 n c'" using ci True by (intro rel1) simp_all
    moreover have "sent ms ?s2 e'" using sent_step [OF step2 sim1 sent1] .
    ultimately have "refined ms n ?s c' e'"
      by (intro refined_step [OF refined_stay step2]) (auto simp: only_def)
    then show ?thesis using step only1 by (rule refined_step)
  qed
qed

lemma ack_refines:
  assumes sim: "sim_ok ms s" and rel: "node_rel ms s n c" and msg: "sent ms s e"
    and ev: "justified ms s m" and body: "m_body m = AppendEntriesResponse ok match hint"
    and acc: "accepts c m" and t: "m_term m = rc_currentTerm c" and role: "rc_role c = Leader"
    and p: "map_of (rc_progress c) (m_from m) = Some p"
  shows "refined ms n s (set_progress (m_from m) (acknowledged ok match hint p) c) e"
    (is "refined ms n s ?c e")
proof -
  let ?t = "rc_currentTerm c" and ?v = "m_from m" and ?len = "length (rc_entries c)"
  let ?p = "acknowledged ok match hint p"
  have frame: "core_wf ?c \<and> rc_nodeId ?c = n \<and> rc_members ?c = ms \<and> rc_snapshot ?c = None"
    using node_rel_frame [OF micro.ack [OF refl acc body t role p] rel] .
  have r: "?t = p_term s n" "rc_entries c = p_log s n" "leader_rel s n c"
    using rel role by (simp_all add: node_rel_def)
  have inv: "proto_inv ms s" using sim by (simp add: sim_ok_def)
  have "p_log s n = p_llog s ?t"
    using proto_invD(3) [OF inv] r by (simp add: leader_rel_def inv_lead_def)
  then have bound: "p_acked s ?t ?v \<le> ?len" using acked_bound [OF inv] r(2) by simp
  have old: "0 \<le> pp_matchIndex p" "pp_matchIndex p \<le> int (p_acked s ?t ?v)" "1 \<le> pp_nextIndex p"
    "pp_nextIndex p \<le> int ?len + 1"
    using map_of_SomeD [OF p] r(3) by (auto simp: leader_rel_def)
  have "ok \<longrightarrow> match \<le> int (p_acked s ?t ?v)" using ev body t by (simp add: justified_def)
  then have new: "0 \<le> pp_matchIndex ?p" "pp_matchIndex ?p \<le> int (p_acked s ?t ?v)" "1 \<le> pp_nextIndex ?p"
    "pp_nextIndex ?p \<le> int ?len + 1"
    using old bound by (auto simp: acknowledged_def Let_def maxBigInt_def minBigInt_def)
  have "leader_rel s n ?c"
    using r(3) new by (auto simp: leader_rel_def set_progress_def split: if_splits)
  then have "node_rel ms s n ?c" using rel role frame by (simp add: node_rel_def)
  then show ?thesis using msg by (intro refined_stay [OF sim])
qed

section \<open>Events\<close>

lemma micro_refines:
  assumes "micro ev c e c' e'" and sim: "sim_ok ms s" and rel: "node_rel ms s n c"
    and msg: "sent ms s e" and ev: "event_justified ms s ev"
  shows "refined ms n s c' e'"
  using assms(1)
proof (cases rule: micro.cases)
  case (follow t l)
  then show ?thesis using follow_refines [OF sim rel msg] by blast
next
  case campaign
  then show ?thesis using campaign_refines [OF sim rel msg] by blast
next
  case win
  then show ?thesis using win_refines [OF sim rel msg] by blast
next
  case (extend ty payload cid)
  then show ?thesis using extend_refines [OF sim rel msg] by blast
next
  case (replicate p m)
  then show ?thesis using replicate_refines [OF sim rel msg] by blast
next
  case (commit i)
  then show ?thesis using commit_refines [OF sim rel msg] by blast
next
  case (vote m i t)
  then show ?thesis using vote_refines [OF sim rel msg] ev by (simp add: event_justified_def)
next
  case (tally m)
  then show ?thesis using tally_refines [OF sim rel msg] ev by (simp add: event_justified_def)
next
  case (refuse m x h)
  then show ?thesis
    using msg rel by (intro refined_stay [OF sim]) (simp_all add: sent_push justified_def appendResponse_def envelope_def)
next
  case (accept m i t es lc c2 trunc appended)
  then show ?thesis using accept_refines [OF sim rel msg] ev by (simp add: event_justified_def)
next
  case (ack m ok match hint p)
  then show ?thesis using ack_refines [OF sim rel msg] ev by (simp add: event_justified_def)
qed

lemma micros_refine:
  "micros ev c e c' e' \<Longrightarrow> sim_ok ms s \<Longrightarrow> node_rel ms s n c \<Longrightarrow> sent ms s e \<Longrightarrow>
    event_justified ms s ev \<Longrightarrow> refined ms n s c' e'"
proof (induction rule: micros.induct)
  case (none c e)
  then show ?case by (simp add: refined_stay)
next
  case (more c e c1 e1 c2 e2)
  then obtain s1 where s1: "proto_steps ms s s1" "sim_ok ms s1" "only n s s1" "node_rel ms s1 n c1"
    "sent ms s1 e1" by (auto simp: refined_def sent_def)
  have "grows s s1" using proto_steps_grows s1(1) more.prems(1) by (simp add: sim_ok_def)
  then have "event_justified ms s1 ev" using grows_event_justified more.prems by blast
  then obtain s2 where "proto_steps ms s1 s2" "sim_ok ms s2" "only n s1 s2" "node_rel ms s2 n c2"
    "\<forall>m \<in> set (ef_messages e2). justified ms s2 m"
    using micro_refines [OF more(2) s1(2,4,5)] by (auto simp: refined_def)
  then show ?case
    unfolding refined_def using s1 proto_steps_trans only_trans by (intro exI [of _ s2]) blast
qed

lemma sent_nothing: "sent ms s no_effects"
  by (simp add: sent_def no_effects_def)

text \<open>No justified event makes the core throw after it has changed.\<close>

lemma dispatch_throws_clean:
  assumes "dispatch ev c = (c', Inl err)" and sim: "sim_ok ms s" and rel: "node_rel ms s n c"
    and ev: "event_justified ms s ev"
  shows "c' = c"
proof (rule ccontr)
  assume ne: "c' \<noteq> c"
  have "core_wf c" using rel by (simp add: node_rel_def)
  then obtain m i t es lc c1 e1 where m: "ev = MessageEvent m" "m_body m = AppendEntriesRequest i t es lc"
    and run: "micros ev c no_effects c1 e1" and loop: "append_loop c1 None [] es = (c', Inl err)"
    and c1: "rc_currentTerm c1 = m_term m" "termAt c1 i = Some t"
    using dispatch_throws [OF assms(1)] ne by blast
  obtain s1 where s1: "proto_steps ms s s1" "sim_ok ms s1" "node_rel ms s1 n c1"
    using micros_refine [OF run sim rel sent_nothing ev] by (auto simp: refined_def)
  have "grows s s1" using proto_steps_grows s1(1) sim by (simp add: sim_ok_def)
  then have "justified ms s1 m" using grows_justified ev m(1) by (simp add: event_justified_def)
  then have "append_justified ms s1 (rc_currentTerm c1) i t es lc"
    using m(2) c1(1) by (simp add: justified_def)
  then show False using accept_justified [OF s1(2,3) _ c1(2)] loop by fastforce
qed

text \<open>An accepted justified message is never refused with an error.\<close>

lemma accepted_returns:
  assumes sim: "sim_ok ms s" and rel: "node_rel ms s n c" and j: "justified ms s m" and "accepts c m"
  shows "dispatch (MessageEvent m) c \<noteq> (c', Inl err)"
proof
  assume "dispatch (MessageEvent m) c = (c', Inl err)"
  then have hm: "handleMessage m c no_effects = (c', Inl err)" by (simp add: dispatch_def)
  have "core_wf c" using rel by (simp add: node_rel_def)
  then obtain i t es lc c1 e1 where m: "m_body m = AppendEntriesRequest i t es lc"
    and run: "micros (MessageEvent m) c no_effects c1 e1" and loop: "append_loop c1 None [] es = (c', Inl err)"
    and c1: "rc_currentTerm c1 = m_term m" "termAt c1 i = Some t"
    using accepted_throws [OF hm _ assms(4)] by blast
  have ev: "event_justified ms s (MessageEvent m)" using j by (simp add: event_justified_def)
  obtain s1 where s1: "proto_steps ms s s1" "sim_ok ms s1" "node_rel ms s1 n c1"
    using micros_refine [OF run sim rel sent_nothing ev] by (auto simp: refined_def)
  have "grows s s1" using proto_steps_grows s1(1) sim by (simp add: sim_ok_def)
  then have "justified ms s1 m" using grows_justified j by blast
  then have "append_justified ms s1 (rc_currentTerm c1) i t es lc"
    using m c1(1) by (simp add: justified_def)
  then show False using accept_justified [OF s1(2,3) _ c1(2)] loop by fastforce
qed

lemma node_rel_bookkeeping:
  "node_rel ms s n (c\<lparr>rc_readySequence := x, rc_outstanding := y\<rparr>) = node_rel ms s n c"
  by (simp add: node_rel_def core_wf_bookkeeping candidate_rel_def leader_rel_def)

lemma node_rel_applied:
  "node_rel ms s n c \<Longrightarrow> core_wf (c\<lparr>rc_appliedIndex := i\<rparr>) \<Longrightarrow> node_rel ms s n (c\<lparr>rc_appliedIndex := i\<rparr>)"
proof -
  have "candidate_rel s n (c\<lparr>rc_appliedIndex := i\<rparr>) = candidate_rel s n c"
    "leader_rel s n (c\<lparr>rc_appliedIndex := i\<rparr>) = leader_rel s n c"
    by (simp_all add: candidate_rel_def leader_rel_def)
  then show "node_rel ms s n c \<Longrightarrow> core_wf (c\<lparr>rc_appliedIndex := i\<rparr>) \<Longrightarrow>
      node_rel ms s n (c\<lparr>rc_appliedIndex := i\<rparr>)"
    unfolding node_rel_def by simp
qed

text \<open>A step of the core: what it does is matched, what it hands out is justified.\<close>

lemma core_step_refines:
  assumes "core_step ev c = (c', Inr r)" and sim: "sim_ok ms s" and rel: "node_rel ms s n c"
    and ev: "event_justified ms s ev"
  shows "\<exists>s'. proto_steps ms s s' \<and> sim_ok ms s' \<and> only n s s' \<and> node_rel ms s' n c' \<and>
    (\<forall>rd \<in> set_option r. \<forall>m \<in> set (rd_outboundMessages rd). justified ms s' m)"
proof -
  have wf: "core_wf c" using rel by (simp add: node_rel_def)
  obtain c1 e where run: "micros ev c no_effects c1 e" and mk: "makeReady c1 e = (c', r)"
    using core_step_Inr [OF assms(1) wf] by blast
  obtain s' where s': "proto_steps ms s s'" "sim_ok ms s'" "only n s s'" "node_rel ms s' n c1"
    "\<forall>m \<in> set (ef_messages e). justified ms s' m"
    using micros_refine [OF run sim rel sent_nothing ev] by (auto simp: refined_def)
  have "node_rel ms s' n c'" using s'(4) node_rel_bookkeeping makeReady_core [OF mk] by metis
  moreover have "\<forall>rd \<in> set_option r. rd_outboundMessages rd = ef_messages e"
    using mk by (auto simp: makeReady_def Let_def split: if_splits)
  ultimately show ?thesis using s' by auto
qed

lemma core_step_throws_clean:
  assumes "core_step ev c = (c', Inl err)" and "sim_ok ms s" and rel: "node_rel ms s n c"
    and "event_justified ms s ev"
  shows "c' = c"
proof -
  have wf: "core_wf c" using rel by (simp add: node_rel_def)
  show ?thesis using core_step_Inl [OF assms(1) wf] dispatch_throws_clean assms by blast
qed

end
