(* ===== verification/Cluster.thy ===== *)
theory Cluster
  imports Refinement NodeFacts Network
begin

text \<open>
  A cluster of nodes: every member has a core, a handle on a durable storage and the list of
  entries its state machine was handed, and all share one in-memory network.  The steps of
  \<open>#process\<close> and \<open>#processReady\<close> interleave freely with those of the other members, with
  crashes at every point, with injected storage failures and with every operation of the network
  harness.  \<open>cluster_inv\<close> relates a reachable cluster to the protocol of theory \<open>RaftProto\<close>.
\<close>

section \<open>State\<close>

text \<open>Where a member is in the cycle of \<open>#processReady\<close>; \<open>Halted\<close> is a node whose cycle was
  aborted by an error, which leaves the Ready batch outstanding and the core stuck.\<close>

datatype phase =
    Down
  | Halted
  | Idle
  | Persisting raft_ready
  | Sending raft_ready "raft_message list"
  | Applying raft_ready "log_entry list"

record member =
  mb_store :: storage_handle
  mb_core :: raft_core
  mb_phase :: phase
  mb_applied :: "log_entry list"

record cluster =
  cl_member :: "node_id \<Rightarrow> member"
  cl_net :: memory_network

definition put_member :: "node_id \<Rightarrow> member \<Rightarrow> cluster \<Rightarrow> cluster" where
  "put_member n mb cl = cl\<lparr>cl_member := (cl_member cl)(n := mb)\<rparr>"

section \<open>Steps of a member\<close>

definition after_step :: "raft_ready option outcome \<Rightarrow> member \<Rightarrow> member" where
  "after_step r mb = (case r of
     (c, Inl _) \<Rightarrow> mb\<lparr>mb_core := c\<rparr>
   | (c, Inr None) \<Rightarrow> mb\<lparr>mb_core := c\<rparr>
   | (c, Inr (Some rd)) \<Rightarrow> mb\<lparr>mb_core := c, mb_phase := Persisting rd\<rparr>)"

definition after_persist :: "raft_ready \<Rightarrow> (storage_handle, unit) io \<Rightarrow> member \<Rightarrow> member" where
  "after_persist rd r mb = (case r of
     (h, Inl _) \<Rightarrow> mb\<lparr>mb_store := h, mb_phase := Halted\<rparr>
   | (h, Inr _) \<Rightarrow> mb\<lparr>mb_store := h, mb_phase := Sending rd (rd_outboundMessages rd)\<rparr>)"

definition after_apply :: "raft_ready \<Rightarrow> log_entry \<Rightarrow> log_entry list \<Rightarrow> (storage_handle, unit) io
    \<Rightarrow> member \<Rightarrow> member" where
  "after_apply rd e es r mb = (case r of
     (h, Inl _) \<Rightarrow> mb\<lparr>mb_store := h, mb_applied := mb_applied mb @ [e], mb_phase := Halted\<rparr>
   | (h, Inr _) \<Rightarrow> mb\<lparr>mb_store := h, mb_applied := mb_applied mb @ [e], mb_phase := Applying rd es\<rparr>)"

definition after_advance :: "unit outcome \<Rightarrow> member \<Rightarrow> member" where
  "after_advance r mb = (case r of
     (c, Inl _) \<Rightarrow> mb\<lparr>mb_core := c, mb_phase := Halted\<rparr>
   | (c, Inr _) \<Rightarrow> mb\<lparr>mb_core := c, mb_phase := Idle\<rparr>)"

text \<open>Restart on the durable state: a new handle, the replay and the steps of \<open>create_node\<close>.\<close>

definition restart_member :: "node_options \<Rightarrow> member \<Rightarrow> member" where
  "restart_member opts mb =
     (let h = handle_open (sh_state (mb_store mb)); p = handle_view h in
      case settle_applied handle_persist handle_load p h of
        (h1, Inl _) \<Rightarrow> mb\<lparr>mb_store := h1\<rparr>
      | (h1, Inr p1) \<Rightarrow>
          (case new_RaftCore (core_options opts p1) of
             Inl _ \<Rightarrow> mb\<lparr>mb_store := h1\<rparr>
           | Inr c \<Rightarrow> \<lparr>mb_store = h1, mb_core = c, mb_phase = Idle, mb_applied = applied_part c\<rparr>))"

definition inject_failure :: "raft_error \<Rightarrow> member \<Rightarrow> member" where
  "inject_failure err mb =
     mb\<lparr>mb_store := (mb_store mb)\<lparr>sh_state := durable_failNext err (sh_state (mb_store mb))\<rparr>\<rparr>"

fun is_local :: "raft_event \<Rightarrow> bool" where
  "is_local (MessageEvent _) = False"
| "is_local _ = True"

inductive cluster_step :: "node_id list \<Rightarrow> (node_id \<Rightarrow> node_options) \<Rightarrow> cluster \<Rightarrow> cluster \<Rightarrow> bool"
  for ms opts where
  local_event: "n \<in> set ms \<Longrightarrow> mb = cl_member cl n \<Longrightarrow> mb_phase mb = Idle \<Longrightarrow> is_local ev \<Longrightarrow>
    cluster_step ms opts cl (put_member n (after_step (core_step ev (mb_core mb)) mb) cl)"
| deliver: "n \<in> set ms \<Longrightarrow> mb = cl_member cl n \<Longrightarrow> mb_phase mb = Idle \<Longrightarrow>
    net_deliver i (cl_net cl) = (net, Some m) \<Longrightarrow> m_to m = n \<Longrightarrow>
    cluster_step ms opts cl
      (put_member n (after_step (core_step (MessageEvent m) (mb_core mb)) mb) (cl\<lparr>cl_net := net\<rparr>))"
| persist: "n \<in> set ms \<Longrightarrow> mb = cl_member cl n \<Longrightarrow> mb_phase mb = Persisting rd \<Longrightarrow>
    cluster_step ms opts cl
      (put_member n (after_persist rd (handle_persist (ready_batch rd) (mb_store mb)) mb) cl)"
| send: "n \<in> set ms \<Longrightarrow> mb = cl_member cl n \<Longrightarrow> mb_phase mb = Sending rd (m # M) \<Longrightarrow>
    cluster_step ms opts cl
      (put_member n (mb\<lparr>mb_phase := Sending rd M\<rparr>) (cl\<lparr>cl_net := net_enqueue m (cl_net cl)\<rparr>))"
| send_fails: "n \<in> set ms \<Longrightarrow> mb = cl_member cl n \<Longrightarrow> mb_phase mb = Sending rd (m # M) \<Longrightarrow>
    cluster_step ms opts cl (put_member n (mb\<lparr>mb_phase := Sending rd M\<rparr>) cl)"
| all_sent: "n \<in> set ms \<Longrightarrow> mb = cl_member cl n \<Longrightarrow> mb_phase mb = Sending rd [] \<Longrightarrow>
    cluster_step ms opts cl (put_member n (mb\<lparr>mb_phase := Applying rd (rd_committedEntries rd)\<rparr>) cl)"
| applies: "n \<in> set ms \<Longrightarrow> mb = cl_member cl n \<Longrightarrow> mb_phase mb = Applying rd (e # es) \<Longrightarrow>
    cluster_step ms opts cl
      (put_member n (after_apply rd e es
         (handle_persist (applied_batch (le_index e)) (mb_store mb)) mb) cl)"
| apply_fails: "n \<in> set ms \<Longrightarrow> mb = cl_member cl n \<Longrightarrow> mb_phase mb = Applying rd (e # es) \<Longrightarrow>
    cluster_step ms opts cl (put_member n (mb\<lparr>mb_phase := Halted\<rparr>) cl)"
| advances: "n \<in> set ms \<Longrightarrow> mb = cl_member cl n \<Longrightarrow> mb_phase mb = Applying rd [] \<Longrightarrow>
    cluster_step ms opts cl
      (put_member n (after_advance (advance (rd_id rd) (mb_core mb)) mb) cl)"
| crash: "n \<in> set ms \<Longrightarrow> mb = cl_member cl n \<Longrightarrow>
    cluster_step ms opts cl (put_member n (mb\<lparr>mb_phase := Down\<rparr>) cl)"
| restart: "n \<in> set ms \<Longrightarrow> mb = cl_member cl n \<Longrightarrow> mb_phase mb = Down \<Longrightarrow>
    cluster_step ms opts cl (put_member n (restart_member (opts n) mb) cl)"
| inject: "n \<in> set ms \<Longrightarrow> mb = cl_member cl n \<Longrightarrow>
    cluster_step ms opts cl (put_member n (inject_failure err mb) cl)"
| network: "net_step (cl_net cl) net \<Longrightarrow> cluster_step ms opts cl (cl\<lparr>cl_net := net\<rparr>)"

definition fresh_member :: "raft_core \<Rightarrow> member" where
  "fresh_member c = \<lparr>mb_store = handle_open new_durable_state, mb_core = c, mb_phase = Down,
     mb_applied = []\<rparr>"

text \<open>A new cluster: empty storages, nobody started.\<close>

definition cluster_start :: "cluster \<Rightarrow> bool" where
  "cluster_start cl \<longleftrightarrow> cl_net cl = new_network \<and>
     (\<forall>n. \<exists>c. cl_member cl n = fresh_member c)"

inductive reachable :: "node_id list \<Rightarrow> (node_id \<Rightarrow> node_options) \<Rightarrow> cluster \<Rightarrow> bool"
  for ms opts where
  start: "cluster_start cl \<Longrightarrow> reachable ms opts cl"
| move: "reachable ms opts cl \<Longrightarrow> cluster_step ms opts cl cl' \<Longrightarrow> reachable ms opts cl'"

definition options_ok :: "node_id list \<Rightarrow> (node_id \<Rightarrow> node_options) \<Rightarrow> bool" where
  "options_ok ms opts \<longleftrightarrow> (\<forall>n \<in> set ms. no_nodeId (opts n) = n \<and> no_members (opts n) = ms)"

section \<open>The relation to the protocol\<close>

definition durable_rel :: "proto \<Rightarrow> node_id \<Rightarrow> persisted_raft_state \<Rightarrow> bool" where
  "durable_rel s n p \<longleftrightarrow> view_ok p \<and> ps_snapshot p = None \<and>
     hs_currentTerm (ps_hardState p) = p_term s n \<and> ps_entries p = p_log s n \<and>
     hs_commitIndex (ps_hardState p) = int (p_commit s n) \<and>
     hs_votedFor (ps_hardState p) = p_votes s (p_term s n) n"

definition live :: "node_id list \<Rightarrow> proto \<Rightarrow> node_id \<Rightarrow> raft_core \<Rightarrow> bool" where
  "live ms s n c \<longleftrightarrow> node_rel ms s n c \<and> 0 \<le> rc_appliedIndex c"

definition handed_out :: "raft_core \<Rightarrow> raft_ready \<Rightarrow> bool" where
  "handed_out c rd \<longleftrightarrow> (\<exists>c1 e. makeReady c1 e = (c, Some rd) \<and> core_wf c1)"

definition phase_rel :: "node_id list \<Rightarrow> proto \<Rightarrow> node_id \<Rightarrow> member \<Rightarrow> bool" where
  "phase_rel ms s n mb = (case mb_phase mb of
     Down \<Rightarrow> True
   | Halted \<Rightarrow> True
   | Idle \<Rightarrow> live ms s n (mb_core mb) \<and> rc_outstanding (mb_core mb) = None \<and>
       handle_view (mb_store mb) = core_image (mb_core mb) \<and> mb_applied mb = applied_part (mb_core mb)
   | Persisting rd \<Rightarrow> (\<exists>c0 ev. live ms s n c0 \<and> event_justified ms s ev \<and> event_wf ev \<and>
       core_step ev c0 = (mb_core mb, Inr (Some rd)) \<and>
       handle_view (mb_store mb) = core_image c0 \<and> mb_applied mb = applied_part c0)
   | Sending rd M \<Rightarrow> live ms s n (mb_core mb) \<and> handed_out (mb_core mb) rd \<and>
       handle_view (mb_store mb) = core_image (mb_core mb) \<and>
       mb_applied mb = applied_part (mb_core mb) \<and> (\<forall>m \<in> set M. justified ms s m)
   | Applying rd es \<Rightarrow> live ms s n (mb_core mb) \<and> handed_out (mb_core mb) rd \<and>
       (\<exists>past. rd_committedEntries rd = past @ es \<and>
         mb_applied mb = applied_part (mb_core mb) @ past \<and>
         handle_view (mb_store mb) = (core_image (mb_core mb))\<lparr>ps_appliedIndex :=
           rc_appliedIndex (mb_core mb) + int (length past)\<rparr>))"

definition applied_ok :: "proto \<Rightarrow> node_id \<Rightarrow> log_entry list \<Rightarrow> bool" where
  "applied_ok s n xs \<longleftrightarrow> (\<exists>k \<le> p_commit s n. xs = take k (p_log s n))"

definition member_rel :: "node_id list \<Rightarrow> proto \<Rightarrow> node_id \<Rightarrow> member \<Rightarrow> bool" where
  "member_rel ms s n mb \<longleftrightarrow> durable_rel s n (handle_view (mb_store mb)) \<and>
     applied_ok s n (mb_applied mb) \<and> phase_rel ms s n mb"

definition cluster_rel :: "node_id list \<Rightarrow> proto \<Rightarrow> cluster \<Rightarrow> bool" where
  "cluster_rel ms s cl \<longleftrightarrow> sim_ok ms s \<and> net_wf (cl_net cl) \<and>
     (\<forall>m \<in> messages (cl_net cl). justified ms s m) \<and>
     (\<forall>n \<in> set ms. member_rel ms s n (cl_member cl n))"

section \<open>Facts about the parts\<close>

lemma durable_rel_node:
  "node_rel ms s n c \<Longrightarrow> durable_rel s n (core_image c)"
  using image_view_ok [of c] by (simp add: durable_rel_def node_rel_def)

lemma durable_rel_applied:
  "durable_rel s n p \<Longrightarrow> i \<le> hs_commitIndex (ps_hardState p) \<Longrightarrow>
    durable_rel s n (p\<lparr>ps_appliedIndex := i\<rparr>)"
  by (auto simp: durable_rel_def view_ok_def snapshot_index_def)

lemma member_rel_other:
  assumes "only n s s'" and "grows s s'" and "member_rel ms s m mb" and "m \<noteq> n"
  shows "member_rel ms s' m mb"
proof -
  have o: "p_term s' m = p_term s m" "p_log s' m = p_log s m" "p_commit s' m = p_commit s m"
    "\<And>t. p_votes s' t m = p_votes s t m"
    using assms(1,4) by (simp_all add: only_def)
  have l: "live ms s' m c" if "live ms s m c" for c
    using that node_rel_other [OF assms(1,2) _ assms(4)] by (simp add: live_def)
  have "phase_rel ms s m mb" using assms(3) by (simp add: member_rel_def)
  then have "phase_rel ms s' m mb"
    using l grows_justified [OF assms(2)] grows_event_justified [OF assms(2)]
    unfolding phase_rel_def by (cases "mb_phase mb") (simp_all, blast+)
  then show ?thesis using assms(3) o by (simp add: member_rel_def durable_rel_def applied_ok_def)
qed

text \<open>One member moves, the protocol follows on its behalf.\<close>

lemma cluster_rel_put:
  assumes rel: "cluster_rel ms s cl" and steps: "proto_steps ms s s'" and "sim_ok ms s'"
    and "only n s s'" and "member_rel ms s' n mb" and "net_wf net"
    and "\<forall>m \<in> messages net. justified ms s' m \<or> m \<in> messages (cl_net cl)"
  shows "cluster_rel ms s' (put_member n mb (cl\<lparr>cl_net := net\<rparr>))"
proof -
  have "proto_inv ms s" using rel by (simp add: cluster_rel_def sim_ok_def)
  then have g: "grows s s'" using steps proto_steps_grows by blast
  have "member_rel ms s' m (((cl_member cl)(n := mb)) m)" if "m \<in> set ms" for m
  proof (cases "m = n")
    case False
    then show ?thesis
      using member_rel_other [OF assms(4) g _ False] rel that by (simp add: cluster_rel_def)
  qed (use assms(5) in simp)
  moreover have "justified ms s' m" if "m \<in> messages net" for m
    using that assms(7) rel grows_justified [OF g] by (auto simp: cluster_rel_def)
  ultimately show ?thesis using assms(3,6) by (simp add: cluster_rel_def put_member_def)
qed

lemma cluster_rel_same:
  assumes "cluster_rel ms s cl" and "member_rel ms s n mb"
  shows "cluster_rel ms s (put_member n mb cl)"
  using cluster_rel_put [OF assms(1) proto_steps.stay _ only_refl assms(2), of "cl_net cl"] assms(1)
  by (simp add: cluster_rel_def)

lemma justified_wf:
  assumes "justified ms s m" and "sim_ok ms s"
  shows "event_wf (MessageEvent m)"
proof (cases "m_body m")
  case (AppendEntriesRequest i pt es lc)
  then have a: "append_justified ms s (m_term m) i pt es lc" using assms(1) by (simp add: justified_def)
  let ?P = "p_llog s (m_term m)"
  have "contiguous 1 (take (nat i) ?P @ es)"
    using a assms(2) contiguous_take [of 1 ?P "nat i + length es"]
    by (simp add: append_justified_def sim_ok_def)
  moreover have "length (take (nat i) ?P) = nat i" using a by (simp add: append_justified_def)
  ultimately have "contiguous (1 + int (nat i)) es" by (simp only: contiguous_append)
  then show ?thesis
    using a AppendEntriesRequest by (simp add: event_wf_def append_justified_def add.commute)
qed (simp_all add: event_wf_def)

lemma applied_part_take:
  assumes "live ms s n c"
  shows "applied_part c = take (nat (rc_appliedIndex c)) (p_log s n)"
    and "nat (rc_appliedIndex c) \<le> p_commit s n"
proof -
  have rel: "node_rel ms s n c" using assms by (simp add: live_def)
  have "filter (\<lambda>e. le_index e \<le> rc_appliedIndex c) (rc_entries c) =
      filter (\<lambda>e. le_index e < rc_appliedIndex c + 1) (rc_entries c)"
    by (rule filter_cong) auto
  then show "applied_part c = take (nat (rc_appliedIndex c)) (p_log s n)"
    using contiguous_filter_less [OF node_rel_log(1) [OF rel], of "rc_appliedIndex c + 1"] rel
    by (simp add: applied_part_def node_rel_def)
  have "rc_appliedIndex c \<le> int (p_commit s n)"
    using rel by (auto simp: node_rel_def core_wf_def assertInvariants_None)
  then show "nat (rc_appliedIndex c) \<le> p_commit s n" by (simp only: nat_le_iff)
qed

lemma applied_part_ok: "live ms s n c \<Longrightarrow> applied_ok s n (applied_part c)"
  using applied_part_take [of ms s n c] by (auto simp: applied_ok_def)

lemma applied_ok_prefix: "applied_ok s n (xs @ ys) \<Longrightarrow> applied_ok s n xs"
proof -
  assume "applied_ok s n (xs @ ys)"
  then obtain k where k: "k \<le> p_commit s n" "xs @ ys = take k (p_log s n)"
    by (auto simp: applied_ok_def)
  have "xs = take (length xs) (xs @ ys)" by simp
  also have "\<dots> = take (min (length xs) k) (p_log s n)" using k(2) by simp
  finally show ?thesis using k(1) unfolding applied_ok_def
    by (intro exI [of _ "min (length xs) k"]) simp
qed

text \<open>What the member has applied by the end of the cycle.\<close>

lemma handed_out_facts:
  assumes "live ms s n c" and "handed_out c rd"
  shows "contiguous (rc_appliedIndex c + 1) (rd_committedEntries rd)"
    and "rc_appliedIndex c + int (length (rd_committedEntries rd)) = rc_commitIndex c"
    and "\<exists>c'. advance (rd_id rd) c = (c', Inr ()) \<and> live ms s n c' \<and> rc_outstanding c' = None \<and>
      core_image c' = (core_image c)\<lparr>ps_appliedIndex :=
        rc_appliedIndex c + int (length (rd_committedEntries rd))\<rparr> \<and>
      applied_part c' = applied_part c @ rd_committedEntries rd"
proof -
  have rel: "node_rel ms s n c" and pos: "0 \<le> rc_appliedIndex c" using assms(1) by (simp_all add: live_def)
  obtain c1 e where mk: "makeReady c1 e = (c, Some rd)" and wf1: "core_wf c1"
    using assms(2) by (auto simp: handed_out_def)
  note f = ready_fields [OF mk]
  have "snapshotIndex c1 = snapshotIndex c" using f(9) by (simp add: snapshotIndex_def)
  then have snap: "snapshotIndex c1 = 0" using node_rel_log(2) [OF rel] by simp
  have app: "rc_appliedIndex c = rc_appliedIndex c1" "rc_commitIndex c = rc_commitIndex c1"
    "rc_entries c = rc_entries c1" using f(9) by simp_all
  have le: "snapshotIndex c1 \<le> rc_appliedIndex c1" using snap pos app by simp
  show "contiguous (rc_appliedIndex c + 1) (rd_committedEntries rd)"
    "rc_appliedIndex c + int (length (rd_committedEntries rd)) = rc_commitIndex c"
    using committed_contiguous(1,3) [OF wf1] le f(6) app snap by simp_all
  obtain c' where c': "advance (rd_id rd) c = (c', Inr ())" "core_wf c'" "rc_outstanding c' = None"
    "c' = c\<lparr>rc_appliedIndex := rc_commitIndex c, rc_outstanding := None\<rparr>"
    "core_image c' = (core_image c)\<lparr>ps_appliedIndex := rc_appliedIndex c + int (length (rd_committedEntries rd))\<rparr>"
    using advance_ready [OF mk wf1 le] by blast
  have "core_wf (c\<lparr>rc_appliedIndex := rc_commitIndex c\<rparr>)"
    using c'(2) core_wf_bookkeeping [of _ _ "c\<lparr>rc_appliedIndex := rc_commitIndex c\<rparr>"]
    unfolding c'(4) by (metis core_wf_bookkeeping raft_core.surjective raft_core.update_convs(15,16))
  then have "node_rel ms s n (c\<lparr>rc_appliedIndex := rc_commitIndex c\<rparr>)" using node_rel_applied rel by blast
  then have "node_rel ms s n c'"
    unfolding c'(4) by (metis node_rel_bookkeeping raft_core.surjective raft_core.update_convs(15,16))
  moreover have "0 \<le> rc_appliedIndex c'" using rel c'(4) by (simp add: node_rel_def)
  moreover have "applied_part c' = applied_part c @ rd_committedEntries rd"
  proof -
    have cont: "contiguous 1 (rc_entries c1)" using node_rel_log(1) [OF rel] app(3) by simp
    have "rc_appliedIndex c1 \<le> rc_commitIndex c1" using wf1 by (simp add: core_wf_def assertInvariants_None)
    then show ?thesis
      using contiguous_split [OF cont] f(6) app c'(4) by (simp add: applied_part_def committedEntries_def)
  qed
  ultimately show "\<exists>c'. advance (rd_id rd) c = (c', Inr ()) \<and> live ms s n c' \<and> rc_outstanding c' = None \<and>
      core_image c' = (core_image c)\<lparr>ps_appliedIndex :=
        rc_appliedIndex c + int (length (rd_committedEntries rd))\<rparr> \<and>
      applied_part c' = applied_part c @ rd_committedEntries rd"
    using c' by (auto simp: live_def)
qed

section \<open>Every step keeps the relation\<close>

text \<open>The event step: a throw or a quiet return leaves the member idle; a Ready batch is handed
  out and nothing is durable yet.\<close>

lemma event_rel:
  assumes rel: "cluster_rel ms s cl" and n: "n \<in> set ms" and idle: "mb_phase (cl_member cl n) = Idle"
    and ev: "event_justified ms s ev" "event_wf ev" and net: "net_wf net" "messages net \<subseteq> messages (cl_net cl)"
  shows "\<exists>s'. cluster_rel ms s' (put_member n
    (after_step (core_step ev (mb_core (cl_member cl n))) (cl_member cl n)) (cl\<lparr>cl_net := net\<rparr>))"
proof -
  let ?mb = "cl_member cl n"
  let ?c = "mb_core ?mb"
  have sim: "sim_ok ms s" and m: "member_rel ms s n ?mb" using rel n by (simp_all add: cluster_rel_def)
  have i: "live ms s n ?c" "rc_outstanding ?c = None" "handle_view (mb_store ?mb) = core_image ?c"
    "mb_applied ?mb = applied_part ?c"
    using m idle by (simp_all add: member_rel_def phase_rel_def)
  have nr: "node_rel ms s n ?c" using i(1) by (simp add: live_def)
  then have wf: "core_wf ?c" by (simp add: node_rel_def)
  have put: "\<exists>s'. cluster_rel ms s' (put_member n mb' (cl\<lparr>cl_net := net\<rparr>))"
    if "proto_steps ms s s'" "sim_ok ms s'" "only n s s'" "member_rel ms s' n mb'" for s' mb'
    using cluster_rel_put [OF rel that net(1)] net(2) by blast
  obtain c' x where step: "core_step ev ?c = (c', x)" by fastforce
  consider (throws) err where "x = Inl err" | (quiet) "x = Inr None" | (ready) rd where "x = Inr (Some rd)"
    by (cases x) auto
  then show ?thesis
  proof cases
    case throws
    then have "c' = ?c" using core_step_throws_clean step sim nr ev(1) by blast
    then have "after_step (core_step ev ?c) ?mb = ?mb" using step throws by (simp add: after_step_def)
    then show ?thesis using put [OF proto_steps.stay sim only_refl m] by simp
  next
    case quiet
    obtain s' where s': "proto_steps ms s s'" "sim_ok ms s'" "only n s s'" "node_rel ms s' n c'"
      using core_step_refines step quiet sim nr ev(1) by blast
    note q = no_ready_unchanged [OF step [unfolded quiet] wf ev(2)]
    obtain c1 e where run: "micros ev ?c no_effects c1 e" and mk: "makeReady c1 e = (c', None)"
      using core_step_Inr [OF step [unfolded quiet] wf] by blast
    have "c' = c1" using mk by (auto simp: makeReady_def Let_def split: if_splits)
    then have ap: "applied_part c' = applied_part ?c" "rc_appliedIndex c' = rc_appliedIndex ?c"
      using step_keeps_applied [OF run wf ev(2)] micros_frame [OF run wf] by simp_all
    have l: "live ms s' n c'" using s'(4) i(1) ap by (simp add: live_def)
    have d: "durable_rel s' n (core_image ?c)" using durable_rel_node [OF s'(4)] q(1) by simp
    have a: "applied_ok s' n (applied_part ?c)" using applied_part_ok [OF l] ap by simp
    have "member_rel ms s' n (?mb\<lparr>mb_core := c'\<rparr>)"
      using l q(1,2) i(3,4) ap d a idle by (simp add: member_rel_def phase_rel_def)
    then show ?thesis using put [OF s'(1-3)] step quiet by (simp add: after_step_def)
  next
    case (ready rd)
    have "member_rel ms s n (?mb\<lparr>mb_core := c', mb_phase := Persisting rd\<rparr>)"
      using m i ev step ready unfolding member_rel_def phase_rel_def by auto
    then show ?thesis using put [OF proto_steps.stay sim only_refl] step ready by (simp add: after_step_def)
  qed
qed

text \<open>Persisting the batch is the moment the protocol moves.\<close>

lemma persist_rel:
  assumes rel: "cluster_rel ms s cl" and n: "n \<in> set ms" and ph: "mb_phase (cl_member cl n) = Persisting rd"
  shows "\<exists>s'. cluster_rel ms s' (put_member n (after_persist rd
    (handle_persist (ready_batch rd) (mb_store (cl_member cl n))) (cl_member cl n)) cl)"
proof -
  let ?mb = "cl_member cl n"
  have sim: "sim_ok ms s" and m: "member_rel ms s n ?mb" using rel n by (simp_all add: cluster_rel_def)
  obtain c0 ev where i: "live ms s n c0" "event_justified ms s ev" "event_wf ev"
    "core_step ev c0 = (mb_core ?mb, Inr (Some rd))" "handle_view (mb_store ?mb) = core_image c0"
    "mb_applied ?mb = applied_part c0"
    using m ph unfolding member_rel_def phase_rel_def by auto
  have nr: "node_rel ms s n c0" using i(1) by (simp add: live_def)
  then have wf: "core_wf c0" by (simp add: node_rel_def)
  obtain c1 e where run: "micros ev c0 no_effects c1 e" and wf1: "core_wf c1"
    and mk: "makeReady c1 e = (mb_core ?mb, Some rd)"
    using core_step_Inr [OF i(4) wf] by blast
  note f = ready_fields [OF mk] and acc = ready_accepted [OF i(4) wf i(3)]
  have snap: "pb_snapshot (ready_batch rd) = None"
    using f(4) micros_frame [OF run wf] by (simp add: ready_batch_def no_effects_def)
  obtain h x where p: "handle_persist (ready_batch rd) (mb_store ?mb) = (h, x)" by fastforce
  show ?thesis
  proof (cases x)
    case (Inl err)
    have "handle_view h = handle_view (mb_store ?mb)"
      using durable.persist_refuses p Inl by blast
    then have "member_rel ms s n (?mb\<lparr>mb_store := h, mb_phase := Halted\<rparr>)"
      using m by (simp add: member_rel_def phase_rel_def)
    then show ?thesis using cluster_rel_same [OF rel] p Inl by (auto simp: after_persist_def)
  next
    case (Inr u)
    have v: "handle_view h = core_image (mb_core ?mb)"
      using durable.persist_checks [OF p [unfolded Inr] _ snap] i(5) acc(2) image_view_ok [OF wf] by simp
    obtain s' where s': "proto_steps ms s s'" "sim_ok ms s'" "only n s s'" "node_rel ms s' n (mb_core ?mb)"
      "\<forall>m \<in> set (rd_outboundMessages rd). justified ms s' m"
      using core_step_refines [OF i(4) sim nr i(2)] by auto
    have ap: "applied_part (mb_core ?mb) = applied_part c0" "rc_appliedIndex (mb_core ?mb) = rc_appliedIndex c0"
      using step_keeps_applied [OF run wf i(3)] micros_frame [OF run wf] f(9) by (simp_all add: applied_part_def)
    have l: "live ms s' n (mb_core ?mb)" using s'(4) i(1) ap by (simp add: live_def)
    have "handed_out (mb_core ?mb) rd" using mk wf1 by (auto simp: handed_out_def)
    then have "member_rel ms s' n (?mb\<lparr>mb_store := h, mb_phase := Sending rd (rd_outboundMessages rd)\<rparr>)"
      using l v ap(1) i(6) s'(5) durable_rel_node [OF s'(4)] applied_part_ok [OF l]
      by (simp add: member_rel_def phase_rel_def)
    then have "cluster_rel ms s' (put_member n (?mb\<lparr>mb_store := h,
        mb_phase := Sending rd (rd_outboundMessages rd)\<rparr>) (cl\<lparr>cl_net := cl_net cl\<rparr>))"
      using rel by (intro cluster_rel_put [OF rel s'(1-3)]) (simp_all add: cluster_rel_def)
    then show ?thesis using p Inr by (auto simp: after_persist_def)
  qed
qed

lemma apply_rel:
  assumes rel: "cluster_rel ms s cl" and n: "n \<in> set ms"
    and ph: "mb_phase (cl_member cl n) = Applying rd (e # es)"
  shows "cluster_rel ms s (put_member n (after_apply rd e es
    (handle_persist (applied_batch (le_index e)) (mb_store (cl_member cl n))) (cl_member cl n)) cl)"
proof -
  let ?mb = "cl_member cl n"
  let ?c = "mb_core ?mb"
  have m: "member_rel ms s n ?mb" using rel n by (simp add: cluster_rel_def)
  obtain past where i: "live ms s n ?c" "handed_out ?c rd" "rd_committedEntries rd = past @ e # es"
    "mb_applied ?mb = applied_part ?c @ past"
    "handle_view (mb_store ?mb) = (core_image ?c)\<lparr>ps_appliedIndex := rc_appliedIndex ?c + int (length past)\<rparr>"
    using m ph unfolding member_rel_def phase_rel_def by auto
  note facts = handed_out_facts [OF i(1,2)]
  have idx: "le_index e = rc_appliedIndex ?c + int (length past) + 1"
    using facts(1) i(3) by (simp add: add.commute)
  obtain c' where c': "live ms s n c'" "applied_part c' = (applied_part ?c @ past @ [e]) @ es"
    using facts(3) i(3) by auto
  have a: "applied_ok s n (applied_part ?c @ past @ [e])"
    using applied_part_ok [OF c'(1)] applied_ok_prefix unfolding c'(2) by blast
  have d: "durable_rel s n (handle_view (mb_store ?mb))" using m by (simp add: member_rel_def)
  then have v: "view_ok (handle_view (mb_store ?mb))" by (simp add: durable_rel_def)
  obtain g x where p: "handle_persist (applied_batch (le_index e)) (mb_store ?mb) = (g, x)" by fastforce
  show ?thesis
  proof (cases x)
    case (Inl err)
    have "handle_view g = handle_view (mb_store ?mb)" using durable.persist_refuses p Inl by blast
    then have "member_rel ms s n (?mb\<lparr>mb_store := g, mb_applied := mb_applied ?mb @ [e], mb_phase := Halted\<rparr>)"
      using a d i(4) by (simp add: member_rel_def phase_rel_def)
    then show ?thesis using cluster_rel_same [OF rel] p Inl by (simp add: after_apply_def)
  next
    case (Inr u)
    have k: "batch_ok (applied_batch (le_index e)) (handle_view (mb_store ?mb)) \<and>
        handle_view g = apply_batch (applied_batch (le_index e)) (handle_view (mb_store ?mb))"
      using durable.persist_checks [OF p [unfolded Inr] v] by simp
    then have le: "le_index e \<le> hs_commitIndex (ps_hardState (handle_view (mb_store ?mb)))"
      by (simp add: batch_ok_def applied_batch_def batch_hard_def batch_applied_def Let_def)
    have g0: "handle_view g = (handle_view (mb_store ?mb))\<lparr>ps_appliedIndex := le_index e\<rparr>"
      using k applied_batch_ok(2) [OF _ le v] idx i(5) by simp
    then have g: "handle_view g = (core_image ?c)\<lparr>ps_appliedIndex := rc_appliedIndex ?c + int (length (past @ [e]))\<rparr>"
      using g0 i(5) idx by (simp add: algebra_simps)
    have "durable_rel s n (handle_view g)"
      using durable_rel_applied [OF d le] unfolding g0 .
    then have "member_rel ms s n (?mb\<lparr>mb_store := g, mb_applied := mb_applied ?mb @ [e],
        mb_phase := Applying rd es\<rparr>)"
      using a i(1-4) g unfolding member_rel_def phase_rel_def
      by (auto intro: exI [of _ "past @ [e]"])
    then show ?thesis using cluster_rel_same [OF rel] p Inr by (simp add: after_apply_def)
  qed
qed

lemma advance_rel:
  assumes rel: "cluster_rel ms s cl" and n: "n \<in> set ms" and ph: "mb_phase (cl_member cl n) = Applying rd []"
  shows "cluster_rel ms s (put_member n (after_advance (advance (rd_id rd) (mb_core (cl_member cl n)))
    (cl_member cl n)) cl)"
proof -
  let ?mb = "cl_member cl n"
  let ?c = "mb_core ?mb"
  have m: "member_rel ms s n ?mb" using rel n by (simp add: cluster_rel_def)
  have i: "live ms s n ?c" "handed_out ?c rd" "mb_applied ?mb = applied_part ?c @ rd_committedEntries rd"
    "handle_view (mb_store ?mb) = (core_image ?c)\<lparr>ps_appliedIndex :=
       rc_appliedIndex ?c + int (length (rd_committedEntries rd))\<rparr>"
    using m ph unfolding member_rel_def phase_rel_def by auto
  obtain c' where "advance (rd_id rd) ?c = (c', Inr ())" "live ms s n c'" "rc_outstanding c' = None"
    "core_image c' = handle_view (mb_store ?mb)" "applied_part c' = mb_applied ?mb"
    using handed_out_facts(3) [OF i(1,2)] i(3,4) by auto
  then have "member_rel ms s n (after_advance (advance (rd_id rd) ?c) ?mb)"
    using m by (simp add: after_advance_def member_rel_def phase_rel_def)
  then show ?thesis using cluster_rel_same [OF rel] by blast
qed

text \<open>Recovery from whatever is durable.\<close>

lemma restart_rel:
  assumes m: "member_rel ms s n mb" and down: "mb_phase mb = Down" and sim: "sim_ok ms s"
    and opts: "no_nodeId opts = n" "no_members opts = ms"
  shows "member_rel ms s n (restart_member opts mb)"
proof -
  let ?h = "handle_open (sh_state (mb_store mb))"
  let ?p = "handle_view ?h"
  have same: "?p = handle_view (mb_store mb)" by (simp add: handle_view_def handle_open_def)
  have d: "durable_rel s n ?p" using m same by (simp add: member_rel_def)
  then have v: "view_ok ?p" by (simp add: durable_rel_def)
  obtain h1 x where st: "settle_applied handle_persist handle_load ?p ?h = (h1, x)" by fastforce
  have d1: "durable_rel s n (handle_view h1) \<and> (\<forall>p1. x = Inr p1 \<longrightarrow> p1 = handle_view h1 \<and>
      ps_appliedIndex p1 = hs_commitIndex (ps_hardState p1))"
  proof (cases "handle_ready ?h")
    case False
    have "ps_appliedIndex ?p \<le> hs_commitIndex (ps_hardState ?p)" using v by (simp add: view_ok_def)
    moreover obtain err where "du_failure (sh_state ?h) = Some err"
      using False by (auto simp: handle_ready_def handle_open_def)
    then have "handle_persist b ?h = (?h\<lparr>sh_state := (sh_state ?h)\<lparr>du_failure := None\<rparr>\<rparr>, Inl err)" for b
      by (simp add: handle_persist_def handle_guarded_def durable_persist_def handle_open_def)
    ultimately show ?thesis
      using st d by (auto simp: settle_applied_def handle_view_def durable_inspect_def split: if_splits)
  next
    case True
    show ?thesis
    proof (cases x)
      case (Inr p1)
      have "p1 = ?p\<lparr>ps_appliedIndex := hs_commitIndex (ps_hardState ?p)\<rparr> \<and> handle_view h1 = p1"
        using durable.settle_synced [OF st [unfolded Inr] True v] by simp
      then show ?thesis using durable_rel_applied [OF d order_refl] Inr by simp
    next
      case (Inl err)
      show ?thesis
      proof (cases "ps_appliedIndex ?p < hs_commitIndex (ps_hardState ?p)")
        case lt: True
        obtain h2 where "handle_persist (applied_batch (hs_commitIndex (ps_hardState ?p))) ?h = (h2, Inr ())"
          "handle_ready h2"
          using durable.persist_accepts [OF True v applied_batch_ok(1) [OF less_imp_le [OF lt] order_refl v]]
          by blast
        then show ?thesis using st lt Inl durable.load_view by (simp add: settle_applied_def)
      next
        case False
        then show ?thesis using st Inl by (simp add: settle_applied_def)
      qed
    qed
  qed
  have keep: "member_rel ms s n (mb\<lparr>mb_store := h1\<rparr>)"
    using m d1 down by (simp add: member_rel_def phase_rel_def)
  show ?thesis
  proof (cases "\<exists>p1 c. x = Inr p1 \<and> new_RaftCore (core_options opts p1) = Inr c")
    case True
    then obtain p1 c where p1: "x = Inr p1" "new_RaftCore (core_options opts p1) = Inr c" by blast
    then have e: "p1 = handle_view h1" "ps_appliedIndex p1 = hs_commitIndex (ps_hardState p1)"
      "durable_rel s n p1" using d1 by auto
    then have "view_ok p1" by (simp add: durable_rel_def)
    then have c: "core_wf c" "rc_outstanding c = None" "core_image c = p1" "rc_role c = Follower"
      "rc_nodeId c = n" "rc_members c = ms"
      using new_RaftCore_image [OF p1(2) _ _ e(2)] opts by (simp_all add: core_options_def)
    have f: "rc_snapshot c = None" "rc_currentTerm c = p_term s n" "rc_entries c = p_log s n"
      "rc_commitIndex c = int (p_commit s n)" "rc_votedFor c = p_votes s (p_term s n) n"
      "rc_appliedIndex c = rc_commitIndex c"
      using e(2,3) unfolding c(3) [symmetric] by (simp_all add: durable_rel_def)
    have l: "live ms s n c" using c f by (simp add: live_def node_rel_def)
    have "restart_member opts mb =
        \<lparr>mb_store = h1, mb_core = c, mb_phase = Idle, mb_applied = applied_part c\<rparr>"
      using st p1 by (simp add: restart_member_def Let_def)
    then show ?thesis
      using d1 c(2,3) e(1) l applied_part_ok [OF l] by (simp add: member_rel_def phase_rel_def)
  next
    case False
    then have "restart_member opts mb = mb\<lparr>mb_store := h1\<rparr>"
      using st by (auto simp: restart_member_def Let_def split: sum.splits)
    then show ?thesis using keep by simp
  qed
qed

theorem cluster_step_rel:
  assumes "cluster_step ms opts cl cl'" and "options_ok ms opts" and rel: "cluster_rel ms s cl"
  shows "\<exists>s'. cluster_rel ms s' cl'"
  using assms(1)
proof (cases rule: cluster_step.cases)
  case (local_event n mb ev)
  have "event_justified ms s ev" "event_wf ev"
    using local_event(5) by (cases ev; simp add: event_justified_def event_wf_def)+
  then show ?thesis
    using event_rel [OF rel local_event(2), of ev "cl_net cl"] local_event rel by (simp add: cluster_rel_def)
next
  case (deliver n mb i net m)
  have "m \<in> messages (cl_net cl)" using net_deliver_message(2) [OF deliver(5)] by simp
  then have j: "justified ms s m" using rel by (simp add: cluster_rel_def)
  then have "event_wf (MessageEvent m)" using justified_wf rel by (simp add: cluster_rel_def)
  then show ?thesis
    using event_rel [OF rel deliver(2), of "MessageEvent m" net] deliver rel j
      net_deliver_message(1,3) [OF deliver(5)]
    by (simp add: cluster_rel_def event_justified_def)
next
  case (persist n mb rd)
  then show ?thesis using persist_rel [OF rel] by blast
next
  case (send n mb rd m M)
  have "member_rel ms s n mb" using rel send by (simp add: cluster_rel_def)
  then have m: "member_rel ms s n (mb\<lparr>mb_phase := Sending rd M\<rparr>)" "justified ms s m"
    using send by (auto simp: member_rel_def phase_rel_def)
  have "cluster_rel ms s cl'"
    unfolding send(1) using rel m net_enqueue_wf net_enqueue_messages [of m "cl_net cl"]
    by (intro cluster_rel_put [OF rel proto_steps.stay _ only_refl]) (auto simp: cluster_rel_def)
  then show ?thesis by blast
next
  case (send_fails n mb rd m M)
  have "member_rel ms s n mb" using rel send_fails by (simp add: cluster_rel_def)
  then have "member_rel ms s n (mb\<lparr>mb_phase := Sending rd M\<rparr>)"
    using send_fails by (auto simp: member_rel_def phase_rel_def)
  then show ?thesis using cluster_rel_same [OF rel] send_fails by blast
next
  case (all_sent n mb rd)
  have "member_rel ms s n mb" using rel all_sent by (simp add: cluster_rel_def)
  then have "member_rel ms s n (mb\<lparr>mb_phase := Applying rd (rd_committedEntries rd)\<rparr>)"
    using all_sent by (auto simp: member_rel_def phase_rel_def core_image_def)
  then show ?thesis using cluster_rel_same [OF rel] all_sent by blast
next
  case (applies n mb rd e es)
  then show ?thesis using apply_rel [OF rel] by blast
next
  case (apply_fails n mb rd e es)
  have "member_rel ms s n mb" using rel apply_fails by (simp add: cluster_rel_def)
  then have "member_rel ms s n (mb\<lparr>mb_phase := Halted\<rparr>)" by (simp add: member_rel_def phase_rel_def)
  then show ?thesis using cluster_rel_same [OF rel] apply_fails by blast
next
  case (advances n mb rd)
  then show ?thesis using advance_rel [OF rel] by blast
next
  case (crash n mb)
  have "member_rel ms s n mb" using rel crash by (simp add: cluster_rel_def)
  then have "member_rel ms s n (mb\<lparr>mb_phase := Down\<rparr>)" by (simp add: member_rel_def phase_rel_def)
  then show ?thesis using cluster_rel_same [OF rel] crash by blast
next
  case (restart n mb)
  have "member_rel ms s n mb" "sim_ok ms s" using rel restart by (simp_all add: cluster_rel_def)
  then have "member_rel ms s n (restart_member (opts n) mb)"
    using restart_rel restart assms(2) by (simp add: options_ok_def)
  then show ?thesis using cluster_rel_same [OF rel] restart by blast
next
  case (inject n mb err)
  have "member_rel ms s n mb" using rel inject by (simp add: cluster_rel_def)
  moreover have "handle_view (mb_store (inject_failure err mb)) = handle_view (mb_store mb)"
    by (simp add: inject_failure_def handle_view_def durable_failNext_def durable_inspect_def)
  ultimately have "member_rel ms s n (inject_failure err mb)"
    by (simp add: member_rel_def phase_rel_def inject_failure_def split: phase.splits)
  then show ?thesis using cluster_rel_same [OF rel] inject by blast
next
  case (network net)
  then have "net_wf net \<and> messages net \<subseteq> messages (cl_net cl)"
    using net_step_keeps rel by (simp add: cluster_rel_def)
  then have "cluster_rel ms s cl'" using rel network by (auto simp: cluster_rel_def)
  then show ?thesis by blast
qed

lemma cluster_start_rel:
  assumes "cluster_start cl"
  shows "cluster_rel ms proto_init cl"
proof -
  have "member_rel ms proto_init n (cl_member cl n)" for n
  proof -
    obtain c where "cl_member cl n = fresh_member c" using assms by (auto simp: cluster_start_def)
    then show ?thesis
      by (simp add: member_rel_def durable_rel_def phase_rel_def applied_ok_def fresh_member_def
          handle_view_def handle_open_def new_durable_state_def durable_inspect_def view_ok_def
          snapshot_index_def tip_index_def proto_init_def)
  qed
  moreover have "sim_ok ms proto_init"
    using proto_init_inv by (simp add: sim_ok_def) (simp add: proto_init_def)
  ultimately show ?thesis
    using assms by (simp add: cluster_rel_def cluster_start_def new_network_def net_wf_def messages_def)
qed

theorem reachable_rel:
  "reachable ms opts cl \<Longrightarrow> options_ok ms opts \<Longrightarrow> \<exists>s. cluster_rel ms s cl"
proof (induction rule: reachable.induct)
  case (start cl)
  then show ?case using cluster_start_rel by blast
next
  case (move cl cl')
  then show ?case using cluster_step_rel by blast
qed

end
