(* ===== verification/Schedule.thy ===== *)
theory Schedule
  imports Cluster CoreLaws
begin

text \<open>
  An executable reading of the step relation of theory \<open>Cluster\<close>: a schedule is a list of
  actions, \<open>exec_all\<close> runs it, and every run is a path of the relation.  The schedule \<open>demo\<close>
  takes a cluster of three from empty storages to an elected leader whose first entry is
  committed and applied on two members; the properties of the cluster are tried on it.
\<close>

datatype action =
    Local node_id raft_event
  | Deliver node_id int
  | Persist node_id
  | Send node_id
  | AllSent node_id
  | Apply node_id
  | Advance node_id
  | Crash node_id
  | Restart node_id
  | Register node_id

definition exec_deliver :: "node_id \<Rightarrow> int \<Rightarrow> cluster \<Rightarrow> cluster option" where
  "exec_deliver n i cl =
     (case net_deliver i (cl_net cl) of
        (net, Some m) \<Rightarrow>
          if m_to m = n
          then Some (put_member n (after_step (core_step (MessageEvent m) (mb_core (cl_member cl n)))
                 (cl_member cl n)) (cl\<lparr>cl_net := net\<rparr>))
          else None
      | (net, None) \<Rightarrow> None)"

fun exec :: "(node_id \<Rightarrow> node_options) \<Rightarrow> action \<Rightarrow> cluster \<Rightarrow> cluster option" where
  "exec opts (Local n ev) cl =
     (let mb = cl_member cl n in
      if mb_phase mb = Idle \<and> is_local ev
      then Some (put_member n (after_step (core_step ev (mb_core mb)) mb) cl) else None)"
| "exec opts (Deliver n i) cl = (if mb_phase (cl_member cl n) = Idle then exec_deliver n i cl else None)"
| "exec opts (Persist n) cl =
     (let mb = cl_member cl n in case mb_phase mb of
        Persisting rd \<Rightarrow> Some (put_member n
          (after_persist rd (handle_persist (ready_batch rd) (mb_store mb)) mb) cl)
      | _ \<Rightarrow> None)"
| "exec opts (Send n) cl =
     (let mb = cl_member cl n in case mb_phase mb of
        Sending rd (m # M) \<Rightarrow> Some (put_member n (mb\<lparr>mb_phase := Sending rd M\<rparr>)
          (cl\<lparr>cl_net := net_enqueue m (cl_net cl)\<rparr>))
      | _ \<Rightarrow> None)"
| "exec opts (AllSent n) cl =
     (let mb = cl_member cl n in case mb_phase mb of
        Sending rd [] \<Rightarrow> Some (put_member n
          (mb\<lparr>mb_phase := Applying rd (rd_committedEntries rd)\<rparr>) cl)
      | _ \<Rightarrow> None)"
| "exec opts (Apply n) cl =
     (let mb = cl_member cl n in case mb_phase mb of
        Applying rd (e # es) \<Rightarrow> Some (put_member n (after_apply rd e es
          (handle_persist (applied_batch (le_index e)) (mb_store mb)) mb) cl)
      | _ \<Rightarrow> None)"
| "exec opts (Advance n) cl =
     (let mb = cl_member cl n in case mb_phase mb of
        Applying rd [] \<Rightarrow> Some (put_member n (after_advance (advance (rd_id rd) (mb_core mb)) mb) cl)
      | _ \<Rightarrow> None)"
| "exec opts (Crash n) cl = Some (put_member n ((cl_member cl n)\<lparr>mb_phase := Down\<rparr>) cl)"
| "exec opts (Restart n) cl =
     (let mb = cl_member cl n in
      if mb_phase mb = Down then Some (put_member n (restart_member (opts n) mb) cl) else None)"
| "exec opts (Register n) cl =
     (case net_register n (cl_net cl) of
        (net, Inr _) \<Rightarrow> Some (cl\<lparr>cl_net := net\<rparr>) | (net, Inl _) \<Rightarrow> None)"

fun actor :: "action \<Rightarrow> node_id" where
  "actor (Local n _) = n"
| "actor (Deliver n _) = n"
| "actor (Persist n) = n"
| "actor (Send n) = n"
| "actor (AllSent n) = n"
| "actor (Apply n) = n"
| "actor (Advance n) = n"
| "actor (Crash n) = n"
| "actor (Restart n) = n"
| "actor (Register n) = n"

lemma exec_step:
  assumes "exec opts a cl = Some cl'" and "actor a \<in> set ms"
  shows "cluster_step ms opts cl cl'"
proof (cases a)
  case (Local n ev)
  then show ?thesis using assms
    by (auto simp: Let_def intro: cluster_step.local_event split: if_splits)
next
  case (Deliver n i)
  then obtain net m where d: "net_deliver i (cl_net cl) = (net, Some m)" "m_to m = n"
    "mb_phase (cl_member cl n) = Idle"
    "cl' = put_member n (after_step (core_step (MessageEvent m) (mb_core (cl_member cl n)))
       (cl_member cl n)) (cl\<lparr>cl_net := net\<rparr>)"
    using assms(1) by (auto simp: exec_deliver_def split: if_splits prod.splits option.splits)
  show ?thesis
    unfolding d(4) using Deliver assms(2) d(1-3) by (intro cluster_step.deliver) simp_all
next
  case (Persist n)
  then show ?thesis using assms
    by (auto simp: Let_def intro: cluster_step.persist split: phase.splits)
next
  case (Send n)
  then show ?thesis using assms
    by (auto simp: Let_def intro: cluster_step.send split: phase.splits list.splits)
next
  case (AllSent n)
  then show ?thesis using assms
    by (auto simp: Let_def intro: cluster_step.all_sent split: phase.splits list.splits)
next
  case (Apply n)
  then show ?thesis using assms
    by (auto simp: Let_def intro: cluster_step.applies split: phase.splits list.splits)
next
  case (Advance n)
  then show ?thesis using assms
    by (auto simp: Let_def intro: cluster_step.advances split: phase.splits list.splits)
next
  case (Crash n)
  then show ?thesis using assms by (auto intro: cluster_step.crash)
next
  case (Restart n)
  then show ?thesis using assms
    by (auto simp: Let_def intro: cluster_step.restart split: if_splits)
next
  case (Register n)
  then show ?thesis using assms
    by (auto intro: cluster_step.network net_step.register split: prod.splits sum.splits)
qed

fun exec_all :: "(node_id \<Rightarrow> node_options) \<Rightarrow> action list \<Rightarrow> cluster \<Rightarrow> cluster option" where
  "exec_all opts [] cl = Some cl"
| "exec_all opts (a # as) cl = (case exec opts a cl of None \<Rightarrow> None | Some cl1 \<Rightarrow> exec_all opts as cl1)"

lemma exec_all_reachable:
  "exec_all opts as cl = Some cl' \<Longrightarrow> reachable ms opts cl \<Longrightarrow> actor ` set as \<subseteq> set ms \<Longrightarrow>
    reachable ms opts cl'"
proof (induction as arbitrary: cl)
  case (Cons a as)
  then obtain cl1 where one: "exec opts a cl = Some cl1" "exec_all opts as cl1 = Some cl'"
    by (auto split: option.splits)
  have "reachable ms opts cl1"
    using reachable.move [OF Cons.prems(2) exec_step [OF one(1)]] Cons.prems(3) by simp
  then show ?case using Cons.IH [OF one(2)] Cons.prems(3) by simp
qed simp

section \<open>A run of three members\<close>

definition trio :: "node_id list" where
  "trio = [''a'', ''b'', ''c'']"

definition demo_options :: "node_id \<Rightarrow> node_options" where
  "demo_options n = \<lparr>no_nodeId = n, no_clusterId = ''k'', no_members = trio,
     no_heartbeatInterval = 1, no_electionTimeoutMinMs = 5, no_electionTimeoutMaxMs = 9,
     no_maxMessageBytes = None\<rparr>"

definition demo_start :: cluster where
  "demo_start = \<lparr>cl_member = (\<lambda>_. fresh_member (unborn (core_options (demo_options ''a'')
     (durable_inspect new_durable_state)))), cl_net = new_network\<rparr>"

definition demo_schedule :: "action list" where
  "demo_schedule =
     [Restart ''a'', Restart ''b'', Restart ''c'', Register ''a'', Register ''b'', Register ''c'',
      Local ''a'' (ElectionTimeout 5), Persist ''a'', Send ''a'', Send ''a'', AllSent ''a'', Advance ''a'',
      Deliver ''b'' 0, Persist ''b'', Send ''b'', AllSent ''b'', Advance ''b'',
      Deliver ''a'' 1, Persist ''a'', Send ''a'', Send ''a'', AllSent ''a'', Advance ''a'',
      Deliver ''b'' 1, Persist ''b'', Send ''b'', AllSent ''b'', Advance ''b'',
      Deliver ''a'' 2, Persist ''a'', Send ''a'', Send ''a'', AllSent ''a'', Apply ''a'', Advance ''a'',
      Deliver ''b'' 2, Persist ''b'', Send ''b'', AllSent ''b'', Apply ''b'', Advance ''b'']"

definition demo :: cluster where
  "demo = the (exec_all demo_options demo_schedule demo_start)"

end
