(* ===== verification/ClusterSafety.thy ===== *)
theory ClusterSafety
  imports Schedule
begin

text \<open>
  What the relation to the protocol gives for every reachable cluster, and the facts about the
  run \<open>demo\<close> that the properties are tried on.
\<close>

definition up :: "member \<Rightarrow> bool" where
  "up mb \<longleftrightarrow> mb_phase mb \<noteq> Down \<and> mb_phase mb \<noteq> Halted"

definition stored :: "cluster \<Rightarrow> node_id \<Rightarrow> persisted_raft_state" where
  "stored cl n = handle_view (mb_store (cl_member cl n))"

definition core_of :: "cluster \<Rightarrow> node_id \<Rightarrow> raft_core" where
  "core_of cl n = mb_core (cl_member cl n)"

definition commit_of :: "cluster \<Rightarrow> node_id \<Rightarrow> nat" where
  "commit_of cl n = nat (hs_commitIndex (ps_hardState (stored cl n)))"

lemma up_rel:
  assumes "member_rel ms s n mb" and "up mb" and "sim_ok ms s"
  shows "\<exists>s'. proto_steps ms s s' \<and> sim_ok ms s' \<and> only n s s' \<and> node_rel ms s' n (mb_core mb)"
proof (cases "\<exists>rd. mb_phase mb = Persisting rd")
  case True
  then obtain rd c0 ev where i: "live ms s n c0" "event_justified ms s ev"
    "core_step ev c0 = (mb_core mb, Inr (Some rd))"
    using assms(1) by (auto simp: member_rel_def phase_rel_def)
  then show ?thesis using core_step_refines [OF i(3) assms(3) _ i(2)] by (auto simp: live_def)
next
  case False
  then have "live ms s n (mb_core mb)"
    using assms(1,2) by (cases "mb_phase mb") (auto simp: member_rel_def phase_rel_def up_def)
  then show ?thesis using assms(3) proto_steps.stay by (auto simp: live_def)
qed

text \<open>The cores of two members that are up, seen from one protocol state.\<close>

lemma two_up_rel:
  assumes rel: "cluster_rel ms s cl" and n: "a \<in> set ms" "b \<in> set ms" "a \<noteq> b"
    and up: "up (cl_member cl a)" "up (cl_member cl b)"
  shows "\<exists>s'. sim_ok ms s' \<and> node_rel ms s' a (core_of cl a) \<and> node_rel ms s' b (core_of cl b)"
proof -
  have m: "member_rel ms s a (cl_member cl a)" "member_rel ms s b (cl_member cl b)" "sim_ok ms s"
    using rel n by (simp_all add: cluster_rel_def)
  obtain s1 where s1: "proto_steps ms s s1" "sim_ok ms s1" "only a s s1"
    "node_rel ms s1 a (core_of cl a)"
    using up_rel [OF m(1) up(1) m(3)] by (auto simp: core_of_def)
  have "grows s s1" using proto_steps_grows [OF s1(1)] m(3) by (simp add: sim_ok_def)
  then have "member_rel ms s1 b (cl_member cl b)" using member_rel_other [OF s1(3) _ m(2)] n by blast
  then obtain s2 where s2: "proto_steps ms s1 s2" "sim_ok ms s2" "only b s1 s2"
    "node_rel ms s2 b (core_of cl b)"
    using up_rel [OF _ up(2) s1(2)] by (auto simp: core_of_def)
  have "grows s1 s2" using proto_steps_grows [OF s2(1)] s1(2) by (simp add: sim_ok_def)
  then have "node_rel ms s2 a (core_of cl a)" using node_rel_other [OF s2(3) _ s1(4)] n by blast
  then show ?thesis using s2 by blast
qed

lemma node_rel_elected:
  "node_rel ms s n c \<Longrightarrow> rc_role c = Leader \<Longrightarrow> p_elected s (rc_currentTerm c) = Some n"
  unfolding node_rel_def leader_rel_def by blast

lemma same_term_leaders:
  assumes "cluster_rel ms s cl" and "a \<in> set ms" "b \<in> set ms"
    and "up (cl_member cl a)" "up (cl_member cl b)"
    and "rc_role (core_of cl a) = Leader" "rc_role (core_of cl b) = Leader"
    and "rc_currentTerm (core_of cl a) = rc_currentTerm (core_of cl b)"
  shows "a = b"
proof (rule ccontr)
  assume ne: "a \<noteq> b"
  obtain s' where r: "node_rel ms s' a (core_of cl a)" "node_rel ms s' b (core_of cl b)"
    using two_up_rel [OF assms(1-3) ne assms(4,5)] by blast
  show False
    using node_rel_elected [OF r(1) assms(6)] node_rel_elected [OF r(2) assms(7)] assms(8) ne by simp
qed

lemma stored_rel: "cluster_rel ms s cl \<Longrightarrow> n \<in> set ms \<Longrightarrow> durable_rel s n (stored cl n)"
  by (simp add: cluster_rel_def member_rel_def stored_def)

lemma stored_fields:
  assumes "cluster_rel ms s cl" and "n \<in> set ms"
  shows "ps_entries (stored cl n) = p_log s n" and "commit_of cl n = p_commit s n"
    and "hs_currentTerm (ps_hardState (stored cl n)) = p_term s n"
  using stored_rel [OF assms] by (simp_all add: durable_rel_def commit_of_def)

lemma stored_matching:
  assumes "cluster_rel ms s cl" and "a \<in> set ms" "b \<in> set ms"
    and "i < length (ps_entries (stored cl a))" "i < length (ps_entries (stored cl b))"
    and "le_term (ps_entries (stored cl a) ! i) = le_term (ps_entries (stored cl b) ! i)"
  shows "take (Suc i) (ps_entries (stored cl a)) = take (Suc i) (ps_entries (stored cl b))"
proof -
  have "proto_inv ms s" using assms(1) by (simp add: cluster_rel_def sim_ok_def)
  then have "valid s (p_log s a)" "valid s (p_log s b)" using proto_invD(4) by (auto simp: inv_logs_def)
  then show ?thesis
    using valid_matching assms(4-6) stored_fields(1) [OF assms(1,2)] stored_fields(1) [OF assms(1,3)]
    by metis
qed

lemma stored_committed_agree:
  assumes "cluster_rel ms s cl" and "a \<in> set ms" "b \<in> set ms"
    and "j \<le> commit_of cl a" "j \<le> commit_of cl b"
  shows "take j (ps_entries (stored cl a)) = take j (ps_entries (stored cl b))"
proof -
  have "proto_inv ms s" using assms(1) by (simp add: cluster_rel_def sim_ok_def)
  then show ?thesis
    using committed_agree assms(4,5) stored_fields(1,2) [OF assms(1,2)] stored_fields(1,2) [OF assms(1,3)]
    by metis
qed

text \<open>A leader holds what any member of an earlier or the same term has committed.\<close>

lemma leader_complete:
  assumes rel: "cluster_rel ms s cl" and n: "a \<in> set ms" "b \<in> set ms" and "up (cl_member cl a)"
    and lead: "rc_role (core_of cl a) = Leader"
    and le: "hs_currentTerm (ps_hardState (stored cl b)) \<le> rc_currentTerm (core_of cl a)"
  shows "take (commit_of cl b) (ps_entries (stored cl b)) = take (commit_of cl b) (rc_entries (core_of cl a))"
proof -
  have m: "member_rel ms s a (cl_member cl a)" "sim_ok ms s"
    using rel n by (simp_all add: cluster_rel_def)
  note f = stored_fields [OF rel n(2)]
  obtain s1 where s1: "proto_steps ms s s1" "sim_ok ms s1" "only a s s1"
    "node_rel ms s1 a (core_of cl a)"
    using up_rel [OF m(1) assms(4) m(2)] by (auto simp: core_of_def)
  let ?t = "p_term s1 a"
  have inv: "proto_inv ms s1" using s1(2) by (simp add: sim_ok_def)
  have el: "p_elected s1 ?t = Some a" "rc_entries (core_of cl a) = p_log s1 a"
    "rc_currentTerm (core_of cl a) = ?t"
    using s1(4) node_rel_elected [OF s1(4) lead] by (simp_all add: node_rel_def)
  have own: "p_log s1 a = p_llog s1 ?t" using proto_invD(3) [OF inv] el(1) unfolding inv_lead_def by blast
  have "take (p_commit s b) (p_log s b) = take (p_commit s b) (p_llog s1 ?t)"
  proof (cases "b = a")
    case False
    then have o: "p_term s1 b = p_term s b" "p_log s1 b = p_log s b" "p_commit s1 b = p_commit s b"
      using s1(3) by (simp_all add: only_def)
    then have "p_term s1 b \<le> ?t" using le f(3) el(3) by simp
    then show ?thesis using committed_in_leader [OF inv, of ?t b] el(1) o by simp
  next
    case True
    have invs: "proto_inv ms s" using m(2) by (simp add: sim_ok_def)
    have g: "grows s s1" using proto_steps_grows [OF s1(1) invs] .
    show ?thesis
    proof (cases "p_commit s a = 0")
      case False
      then obtain u k where uk: "chosen ms s u k" "p_commit s a \<le> k" "u \<le> p_term s a"
        "take (p_commit s a) (p_log s a) = take (p_commit s a) (p_llog s u)"
        using proto_invD(9) [OF invs] unfolding inv_commit_def by metis
      have o: "p_elected s u \<noteq> None" "k \<le> length (p_llog s u)" using uk(1) by (simp_all add: chosen_def own_def)
      have "u \<le> ?t" using uk(3) growsD(1) [OF g, of a] by simp
      then have "take k (p_llog s1 ?t) = take k (p_llog s1 u)"
        using chosen_in_leader [OF inv grows_chosen [OF g uk(1)]] el(1) by simp
      then have "take (p_commit s a) (p_llog s1 ?t) = take (p_commit s a) (p_llog s1 u)"
        using take_eq_mono uk(2) by metis
      moreover have "take (p_commit s a) (p_llog s1 u) = take (p_commit s a) (p_llog s u)"
        using grows_llog(2) [OF g o(1)] o(2) uk(2) by simp
      ultimately show ?thesis using True uk(4) by simp
    qed (simp add: True)
  qed
  then show ?thesis using f(1,2) el(2) own by simp
qed

lemma applied_is_committed:
  assumes "cluster_rel ms s cl" and "n \<in> set ms"
  shows "\<exists>k \<le> commit_of cl n. mb_applied (cl_member cl n) = take k (ps_entries (stored cl n))"
  using assms stored_fields [OF assms] by (simp add: cluster_rel_def member_rel_def applied_ok_def)

lemma applied_agree:
  assumes "cluster_rel ms s cl" and "a \<in> set ms" "b \<in> set ms"
    and "j \<le> length (mb_applied (cl_member cl a))" "j \<le> length (mb_applied (cl_member cl b))"
  shows "take j (mb_applied (cl_member cl a)) = take j (mb_applied (cl_member cl b))"
proof -
  obtain k l where kl: "k \<le> commit_of cl a" "mb_applied (cl_member cl a) = take k (ps_entries (stored cl a))"
    "l \<le> commit_of cl b" "mb_applied (cl_member cl b) = take l (ps_entries (stored cl b))"
    using applied_is_committed [OF assms(1,2)] applied_is_committed [OF assms(1,3)] by blast
  have jk: "j \<le> k" "j \<le> l" using assms(4,5) kl by auto
  then have "take j (ps_entries (stored cl a)) = take j (ps_entries (stored cl b))"
    using kl by (intro stored_committed_agree [OF assms(1-3)]) auto
  then show ?thesis using kl jk by (simp add: min_def)
qed

text \<open>Messages of the cluster never make a core throw, and the storage takes every batch.\<close>

lemma delivered_returns:
  assumes rel: "cluster_rel ms s cl" and n: "n \<in> set ms" and "mb_phase (cl_member cl n) = Idle"
    and d: "net_deliver i (cl_net cl) = (net, Some m)" and acc: "accepts (core_of cl n) m"
  shows "\<exists>c' r. core_step (MessageEvent m) (core_of cl n) = (c', Inr r)"
proof -
  have l: "live ms s n (core_of cl n)" "rc_outstanding (core_of cl n) = None"
    using rel n assms(3) by (auto simp: cluster_rel_def member_rel_def phase_rel_def core_of_def)
  have nr: "node_rel ms s n (core_of cl n)" using l(1) by (simp add: live_def)
  have j: "justified ms s m" using rel net_deliver_message(2) [OF d] by (simp add: cluster_rel_def)
  have sim: "sim_ok ms s" using rel by (simp add: cluster_rel_def)
  obtain c' x where step: "core_step (MessageEvent m) (core_of cl n) = (c', x)" by fastforce
  show ?thesis
  proof (cases x)
    case (Inl err)
    have "core_wf (core_of cl n)" using nr by (simp add: node_rel_def)
    then have "dispatch (MessageEvent m) (core_of cl n) = (c', Inl err)"
      using core_step_Inl step Inl l(2) by blast
    then show ?thesis using accepted_returns [OF sim nr j acc] by blast
  qed (use step in blast)
qed

lemma batch_accepted:
  assumes rel: "cluster_rel ms s cl" and n: "n \<in> set ms" and ph: "mb_phase (cl_member cl n) = Persisting rd"
    and "handle_ready (mb_store (cl_member cl n))"
  shows "\<exists>h. handle_persist (ready_batch rd) (mb_store (cl_member cl n)) = (h, Inr ()) \<and>
    handle_view h = core_image (core_of cl n)"
proof -
  have "member_rel ms s n (cl_member cl n)" using rel n by (simp add: cluster_rel_def)
  then obtain c0 ev where i: "live ms s n c0" "event_wf ev"
    "core_step ev c0 = (core_of cl n, Inr (Some rd))"
    "handle_view (mb_store (cl_member cl n)) = core_image c0"
    using ph by (auto simp: member_rel_def phase_rel_def core_of_def)
  have wf: "core_wf c0" using i(1) by (simp add: live_def node_rel_def)
  note acc = ready_accepted [OF i(3) wf i(2)]
  show ?thesis
    using durable.persist_accepts [OF assms(4), of "ready_batch rd"] image_view_ok [OF wf] acc i(4) by auto
qed

section \<open>Durable state only moves forward\<close>

lemma handle_persist_safe:
  assumes "view_ok (handle_view h)" and "pb_snapshot b = None" and "handle_persist b h = (h', r)"
  shows "safe_change (handle_view h) (handle_view h')"
  using durable.persist_safe [OF assms(1,2)] assms(3) by simp

lemma restart_safe:
  assumes "view_ok (handle_view (mb_store mb))"
  shows "safe_change (handle_view (mb_store mb)) (handle_view (mb_store (restart_member opts mb)))"
proof -
  let ?h = "handle_open (sh_state (mb_store mb))"
  have same: "handle_view ?h = handle_view (mb_store mb)" by (simp add: handle_view_def handle_open_def)
  obtain h1 x where st: "settle_applied handle_persist handle_load (handle_view ?h) ?h = (h1, x)"
    by fastforce
  have load: "handle_load h = (h', r) \<Longrightarrow> handle_view h' = handle_view h" for h h' r
    by (auto simp: handle_load_def handle_guarded_def handle_view_def split: if_splits)
  have "safe_change (handle_view ?h) (handle_view h1)"
  proof (cases "ps_appliedIndex (handle_view ?h) < hs_commitIndex (ps_hardState (handle_view ?h))")
    case True
    let ?b = "applied_batch (hs_commitIndex (ps_hardState (handle_view ?h)))"
    obtain h2 y where p: "handle_persist ?b ?h = (h2, y)" by fastforce
    have "handle_view h1 = handle_view h2"
      using st True p load by (cases y) (auto simp: settle_applied_def)
    then show ?thesis using handle_persist_safe [OF _ _ p] assms same by simp
  next
    case False
    then show ?thesis using st by (auto simp: settle_applied_def safe_change_refl)
  qed
  moreover have "mb_store (restart_member opts mb) = h1"
    using st by (auto simp: restart_member_def Let_def split: sum.splits)
  ultimately show ?thesis using same by simp
qed

lemma stored_put: "stored (put_member n mb cl) m = (if m = n then handle_view (mb_store mb) else stored cl m)"
  by (simp add: stored_def put_member_def)

lemma stored_net [simp]: "stored (cl\<lparr>cl_net := net\<rparr>) m = stored cl m"
  by (simp add: stored_def)

lemma step_stored_safe:
  assumes "cluster_step ms opts cl cl'" and rel: "cluster_rel ms s cl" and n: "m \<in> set ms"
  shows "safe_change (stored cl m) (stored cl' m)"
proof -
  have v: "view_ok (handle_view (mb_store (cl_member cl n)))" if "n \<in> set ms" for n
    using stored_rel [OF rel that] by (simp add: durable_rel_def stored_def)
  have put: "safe_change (stored cl m) (stored (put_member n mb cl) m)"
    if "safe_change (handle_view (mb_store (cl_member cl n))) (handle_view (mb_store mb))" for n mb
    using that safe_change_refl by (simp add: stored_put) (simp add: stored_def)
  have put': "safe_change (stored cl m) (stored (put_member n mb (cl\<lparr>cl_net := net\<rparr>)) m)"
    if "mb_store mb = mb_store (cl_member cl n)" for n mb net
    using that safe_change_refl by (simp add: stored_put) (simp add: stored_def)
  have quiet: "safe_change (stored cl m) (stored (put_member n mb cl) m)"
    if "mb_store mb = mb_store (cl_member cl n)" for n mb
    using put that safe_change_refl by simp
  have after: "mb_store (after_step r mb) = mb_store mb" for r mb
    by (auto simp: after_step_def split: prod.splits sum.splits option.splits)
  have adv: "mb_store (after_advance r mb) = mb_store mb" for r mb
    by (auto simp: after_advance_def split: prod.splits sum.splits)
  show ?thesis
    using assms(1)
  proof (cases rule: cluster_step.cases)
    case (local_event n mb ev)
    then show ?thesis using quiet after by simp
  next
    case (deliver n mb i net x)
    then show ?thesis using put' after by simp
  next
    case (persist n mb rd)
    have "member_rel ms s n (cl_member cl n)" using rel persist(2) by (simp add: cluster_rel_def)
    then obtain c0 ev where i: "live ms s n c0" "core_step ev c0 = (mb_core mb, Inr (Some rd))"
      using persist by (auto simp: member_rel_def phase_rel_def)
    then have wf: "core_wf c0" by (simp add: live_def node_rel_def)
    obtain c1 e where "micros ev c0 no_effects c1 e" "makeReady c1 e = (mb_core mb, Some rd)"
      using core_step_Inr [OF i(2) wf] by blast
    then have "pb_snapshot (ready_batch rd) = None"
      using ready_fields(4) micros_frame [OF _ wf] by (fastforce simp: ready_batch_def no_effects_def)
    then show ?thesis
      using persist handle_persist_safe [OF v [OF persist(2)]]
      by (auto simp: after_persist_def intro!: put split: prod.splits sum.splits)
  next
    case (send n mb rd x M)
    then show ?thesis using put' by simp
  next
    case (send_fails n mb rd x M)
    then show ?thesis using quiet by simp
  next
    case (all_sent n mb rd)
    then show ?thesis using quiet by simp
  next
    case (applies n mb rd e es)
    then show ?thesis
      using handle_persist_safe [OF v [OF applies(2)] applied_batch_snapshot]
      by (auto simp: after_apply_def intro!: put split: prod.splits sum.splits)
  next
    case (apply_fails n mb rd e es)
    then show ?thesis using quiet by simp
  next
    case (advances n mb rd)
    then show ?thesis using quiet adv by simp
  next
    case (crash n mb)
    then show ?thesis using quiet by simp
  next
    case (restart n mb)
    then show ?thesis using put restart_safe [OF v [OF restart(2)]] by simp
  next
    case (inject n mb err)
    have "handle_view (mb_store (inject_failure err mb)) = handle_view (mb_store mb)"
      by (simp add: inject_failure_def handle_view_def durable_failNext_def durable_inspect_def)
    then show ?thesis using inject put safe_change_refl by simp
  next
    case (network net)
    then show ?thesis using safe_change_refl by simp
  qed
qed

section \<open>The run of three members\<close>

lemma demo_runs: "exec_all demo_options demo_schedule demo_start = Some demo"
proof -
  have "exec_all demo_options demo_schedule demo_start \<noteq> None" by code_simp
  then show ?thesis by (auto simp: demo_def)
qed

lemma demo_options_ok: "options_ok trio demo_options"
  by (simp add: options_ok_def demo_options_def)

lemma demo_reachable: "reachable trio demo_options demo"
proof (rule exec_all_reachable [OF demo_runs])
  show "reachable trio demo_options demo_start"
    by (rule reachable.start) (auto simp: cluster_start_def demo_start_def)
  show "actor ` set demo_schedule \<subseteq> set trio" by (simp add: demo_schedule_def trio_def)
qed

lemma trio_members: "''a'' \<in> set trio" "''b'' \<in> set trio" "''c'' \<in> set trio"
  by (simp_all add: trio_def)

end
