(* ===== verification/Runtime.thy ===== *)
theory Runtime
  imports ClusterSafety
begin

text \<open>
  The node runtime of theory \<open>RaftNode\<close> over a durable storage and the in-memory transport is a
  member of the cluster of theory \<open>Cluster\<close>: one call of \<open>process\<close> is a path of the step relation
  that touches only its own member and the network.  The fine-grained relation, which lets the
  members interleave between any two steps of the cycle, covers in particular the runs in which
  every call is completed before the next begins.
\<close>

section \<open>Members and paths\<close>

abbreviation cluster_steps :: "node_id list \<Rightarrow> (node_id \<Rightarrow> node_options) \<Rightarrow> cluster \<Rightarrow> cluster \<Rightarrow> bool" where
  "cluster_steps ms opts \<equiv> rtranclp (cluster_step ms opts)"

type_synonym ('sm, 'res) live_node =
  "(storage_handle, 'sm, memory_transport \<times> memory_network, 'res) raft_node"

type_synonym ('sm, 'cmd, 'res) live_env =
  "(storage_handle, 'sm, memory_transport \<times> memory_network, 'cmd, 'res) node_env"

definition env_ok :: "('sm, 'cmd, 'res) live_env \<Rightarrow> bool" where
  "env_ok env \<longleftrightarrow> ne_persist env = handle_persist \<and> ne_load env = handle_load \<and>
     ne_send env = transport_send \<and> 0 \<le> ne_retention env"

text \<open>The member \<open>mb\<close> is the node \<open>nd\<close>; \<open>sm0\<close> is the state its state machine started from.\<close>

definition runs_as :: "('sm, 'cmd, 'res) live_env \<Rightarrow> 'sm \<Rightarrow> member \<Rightarrow> ('sm, 'res) live_node \<Rightarrow> bool" where
  "runs_as env sm0 mb nd \<longleftrightarrow> mb_core mb = nd_core nd \<and> mb_store mb = nd_storage nd \<and>
     run_commands env (mb_applied mb) sm0 = (nd_machine nd, Inr ())"

lemma put_simps [simp]:
  "cl_member (put_member n mb cl) = (cl_member cl)(n := mb)" "cl_net (put_member n mb cl) = cl_net cl"
  "put_member n mb' (put_member n mb cl) = put_member n mb' cl"
  "(put_member n mb cl)\<lparr>cl_net := net\<rparr> = put_member n mb (cl\<lparr>cl_net := net\<rparr>)"
  by (simp_all add: put_member_def)

lemma put_same [simp]: "put_member n (cl_member cl n) cl = cl"
  by (simp add: put_member_def)

lemma steps_reachable:
  "cluster_steps ms opts cl cl' \<Longrightarrow> reachable ms opts cl \<Longrightarrow> reachable ms opts cl'"
  by (induction rule: rtranclp_induct) (auto intro: reachable.move)

lemma step_steps:
  "cluster_step ms opts a b \<Longrightarrow> cluster_steps ms opts b c \<Longrightarrow> cluster_steps ms opts a c"
  by (rule converse_rtranclp_into_rtranclp)

section \<open>Sending\<close>

lemma send_all_path:
  assumes "ne_send env = transport_send" and "n \<in> set ms"
  shows "mb_phase (cl_member cl n) = Sending rd M \<Longrightarrow> snd (nd_net nd) = cl_net cl \<Longrightarrow>
    cluster_steps ms opts cl (put_member n ((cl_member cl n)\<lparr>mb_phase := Sending rd []\<rparr>)
      (cl\<lparr>cl_net := snd (nd_net (send_all env M nd))\<rparr>)) \<and>
    mt_nodeId (fst (nd_net (send_all env M nd))) = mt_nodeId (fst (nd_net nd))"
proof (induction M arbitrary: cl nd)
  case Nil
  then have "(cl_member cl n)\<lparr>mb_phase := Sending rd []\<rparr> = cl_member cl n" by simp
  then have "put_member n ((cl_member cl n)\<lparr>mb_phase := Sending rd []\<rparr>) cl = cl"
    by (metis put_same)
  then show ?case using Nil by simp
next
  case (Cons m M)
  let ?mb = "cl_member cl n"
  obtain t net r where send: "transport_send (m_to m) m (nd_net nd) = ((t, net), r)"
    by (metis surj_pair)
  have t: "mt_nodeId t = mt_nodeId (fst (nd_net nd))"
    and net: "net = (if r = Inr () then net_enqueue m (cl_net cl) else cl_net cl)"
    using send Cons.prems(2) by (auto simp: transport_send_def split: if_splits)
  let ?cl1 = "put_member n (?mb\<lparr>mb_phase := Sending rd M\<rparr>) (cl\<lparr>cl_net := net\<rparr>)"
  have step: "cluster_step ms opts cl ?cl1"
  proof (cases "r = Inr ()")
    case True
    then show ?thesis using cluster_step.send [OF assms(2) refl Cons.prems(1)] net by simp
  next
    case False
    then have "cl\<lparr>cl_net := net\<rparr> = cl" using net by simp
    then show ?thesis using cluster_step.send_fails [OF assms(2) refl Cons.prems(1)] by simp
  qed
  obtain nd1 where nd1: "send_all env (m # M) nd = send_all env M nd1" "nd_net nd1 = (t, net)"
    using send assms(1) by (cases r) (auto simp: emit_def)
  have "cluster_steps ms opts ?cl1 (put_member n (?mb\<lparr>mb_phase := Sending rd []\<rparr>)
      (cl\<lparr>cl_net := snd (nd_net (send_all env M nd1))\<rparr>)) \<and>
      mt_nodeId (fst (nd_net (send_all env M nd1))) = mt_nodeId t"
    using Cons.IH [of ?cl1 nd1] nd1(2) by simp
  then show ?case using nd1(1) t step_steps [OF step] by simp
qed

section \<open>Applying\<close>

lemma apply_frame:
  assumes "apply_entry env e nd = Some (nd', r)"
  shows "nd_net nd' = nd_net nd \<and> nd_core nd' = nd_core nd \<and> nd_started nd' = nd_started nd"
  using assms
  by (auto simp: apply_entry_def apply_command_def persist_at_def resolve_pending_def node_fail_def
      reject_pending_def emit_def Let_def split: if_splits option.splits sum.splits prod.splits)

text \<open>The storage takes the applied index of the next entry.\<close>

lemma applied_accepted:
  assumes rel: "cluster_rel ms s cl" and n: "n \<in> set ms"
    and ph: "mb_phase (cl_member cl n) = Applying rd (e # es)"
    and ready: "handle_ready (mb_store (cl_member cl n))"
  shows "\<exists>h. handle_persist (applied_batch (le_index e)) (mb_store (cl_member cl n)) = (h, Inr ()) \<and>
    handle_ready h"
proof -
  let ?mb = "cl_member cl n"
  have m: "member_rel ms s n ?mb" using rel n by (simp add: cluster_rel_def)
  then obtain past where p: "live ms s n (mb_core ?mb)" "handed_out (mb_core ?mb) rd"
    "rd_committedEntries rd = past @ e # es"
    "handle_view (mb_store ?mb) = (core_image (mb_core ?mb))\<lparr>ps_appliedIndex :=
       rc_appliedIndex (mb_core ?mb) + int (length past)\<rparr>"
    and v: "view_ok (handle_view (mb_store ?mb))"
    using ph by (auto simp: member_rel_def phase_rel_def durable_rel_def)
  note h = handed_out_facts(1,2) [OF p(1,2)]
  have "le_index e = rc_appliedIndex (mb_core ?mb) + 1 + int (length past)" using h(1) p(3) by simp
  then have i: "ps_appliedIndex (handle_view (mb_store ?mb)) \<le> le_index e"
    "le_index e \<le> hs_commitIndex (ps_hardState (handle_view (mb_store ?mb)))"
    using p(3,4) h(2) by simp_all
  show ?thesis using durable.persist_accepts [OF ready v applied_batch_ok(1) [OF i v]] by blast
qed

text \<open>What applying one entry can lead to: it succeeds, or it fails before anything is persisted.\<close>

lemma apply_entry_result:
  assumes "0 \<le> ne_retention env"
    and "ne_persist env (applied_batch (le_index e)) (nd_storage nd) = (h, Inr ())"
  shows "\<exists>nd' r. apply_entry env e nd = Some (nd', r) \<and>
    (r = Inr () \<longrightarrow> nd_storage nd' = h \<and> run_commands env [e] (nd_machine nd) = (nd_machine nd', Inr ())) \<and>
    (r \<noteq> Inr () \<longrightarrow> nd_storage nd' = nd_storage nd)"
proof (cases "le_type e = Command")
  case False
  then show ?thesis using assms by (simp add: apply_entry_def persist_at_def)
next
  case cmd: True
  show ?thesis
  proof (cases "le_commandId e")
    case None
    then show ?thesis using cmd by (simp add: apply_entry_def)
  next
    case (Some cid)
    show ?thesis
    proof (cases "ne_decode env (le_payload e)")
      case (Inl err)
      then show ?thesis using cmd Some by (simp add: apply_entry_def apply_command_def Let_def)
    next
      case (Inr command)
      obtain sm x where ap: "ne_apply env command
          \<lparr>ac_index = le_index e, ac_term = le_term e, ac_commandId = cid\<rparr> (nd_machine nd) = (sm, x)"
        by fastforce
      then show ?thesis
        using cmd Some Inr assms
        by (cases x) (simp_all add: apply_entry_def apply_command_def persist_at_def Let_def retain_Some)
    qed
  qed
qed

text \<open>A run over the remaining entries ends with all of them applied, or stops in front of the
  entry that failed.\<close>

lemma apply_entries_path:
  assumes env: "env_ok env" and opts: "options_ok ms opts" and n: "n \<in> set ms"
  shows "reachable ms opts cl \<Longrightarrow> mb_phase (cl_member cl n) = Applying rd es \<Longrightarrow>
    runs_as env sm0 (cl_member cl n) nd \<Longrightarrow> handle_ready (nd_storage nd) \<Longrightarrow>
    apply_entries env es nd = Some (nd', r) \<Longrightarrow>
    \<exists>mb'. cluster_steps ms opts cl (put_member n mb' cl) \<and> handle_ready (mb_store mb') \<and>
      mb_core mb' = nd_core nd' \<and> mb_store mb' = nd_storage nd' \<and>
      nd_net nd' = nd_net nd \<and> nd_core nd' = nd_core nd \<and> nd_started nd' = nd_started nd \<and>
      (r = Inr () \<and> mb_phase mb' = Applying rd [] \<and> runs_as env sm0 mb' nd' \<or>
       r \<noteq> Inr () \<and> (\<exists>e es'. mb_phase mb' = Applying rd (e # es')))"
proof (induction es arbitrary: cl nd)
  case Nil
  then show ?case by (intro exI [of _ "cl_member cl n"]) (auto simp: runs_as_def)
next
  case (Cons e es)
  let ?mb = "cl_member cl n"
  obtain s where rel: "cluster_rel ms s cl" using reachable_rel [OF Cons.prems(1) opts] by blast
  have st: "mb_store ?mb = nd_storage nd" "mb_core ?mb = nd_core nd"
    "run_commands env (mb_applied ?mb) sm0 = (nd_machine nd, Inr ())"
    using Cons.prems(3) by (simp_all add: runs_as_def)
  obtain h where h: "handle_persist (applied_batch (le_index e)) (nd_storage nd) = (h, Inr ())" "handle_ready h"
    using applied_accepted [OF rel n Cons.prems(2)] Cons.prems(4) st(1) by auto
  obtain nd1 x where one: "apply_entry env e nd = Some (nd1, x)"
    and ok: "x = Inr () \<Longrightarrow> nd_storage nd1 = h \<and> run_commands env [e] (nd_machine nd) = (nd_machine nd1, Inr ())"
    and bad: "x \<noteq> Inr () \<Longrightarrow> nd_storage nd1 = nd_storage nd"
    using apply_entry_result [of env e nd h] h(1) env by (auto simp: env_ok_def)
  note frame = apply_frame [OF one]
  show ?case
  proof (cases x)
    case (Inl err)
    then have "nd' = nd1" "r = Inl err" using Cons.prems(5) one by (simp_all add: run_bind_def)
    then show ?thesis
      using frame bad Inl st Cons.prems(2,4) by (intro exI [of _ ?mb]) simp
  next
    case (Inr u)
    let ?mb1 = "?mb\<lparr>mb_store := h, mb_applied := mb_applied ?mb @ [e], mb_phase := Applying rd es\<rparr>"
    let ?cl1 = "put_member n ?mb1 cl"
    have step: "cluster_step ms opts cl ?cl1"
      using cluster_step.applies [OF n refl Cons.prems(2)] h(1) st(1) by (simp add: after_apply_def)
    have "runs_as env sm0 ?mb1 nd1"
      using ok Inr st frame by (simp add: runs_as_def run_commands_append)
    then obtain mb' where mb': "cluster_steps ms opts ?cl1 (put_member n mb' ?cl1)" "handle_ready (mb_store mb')"
      "mb_core mb' = nd_core nd'" "mb_store mb' = nd_storage nd'" "nd_net nd' = nd_net nd1"
      "nd_core nd' = nd_core nd1" "nd_started nd' = nd_started nd1"
      "r = Inr () \<and> mb_phase mb' = Applying rd [] \<and> runs_as env sm0 mb' nd' \<or>
       r \<noteq> Inr () \<and> (\<exists>e es'. mb_phase mb' = Applying rd (e # es'))"
      using Cons.IH [OF reachable.move [OF Cons.prems(1) step], of nd1] ok Inr h(2) one Cons.prems(5)
      by (auto simp: run_bind_def)
    then show ?thesis
      using frame step_steps [OF step] by (intro exI [of _ mb']) auto
  qed
qed

section \<open>One Ready batch, one event\<close>

definition stuck :: "member \<Rightarrow> bool" where
  "stuck mb \<longleftrightarrow> (\<exists>rd e es. mb_phase mb = Applying rd (e # es))"

lemma send_all_frame2:
  "nd_core (send_all env M nd) = nd_core nd \<and> nd_storage (send_all env M nd) = nd_storage nd \<and>
    nd_machine (send_all env M nd) = nd_machine nd \<and> nd_started (send_all env M nd) = nd_started nd"
  by (induction env M nd rule: send_all.induct) (auto simp: emit_def split: prod.splits sum.splits)

lemma ready_path:
  assumes env: "env_ok env" and opts: "options_ok ms opts" and n: "n \<in> set ms"
    and reach: "reachable ms opts cl" and ph: "mb_phase (cl_member cl n) = Persisting rd"
    and run: "runs_as env sm0 (cl_member cl n) nd" and ready: "handle_ready (nd_storage nd)"
    and net: "snd (nd_net nd) = cl_net cl"
    and exec: "process_ready env rd nd = Some (nd', r)"
  shows "\<exists>mb' net'. cluster_steps ms opts cl (put_member n mb' (cl\<lparr>cl_net := net'\<rparr>)) \<and>
    handle_ready (nd_storage nd') \<and> mb_core mb' = nd_core nd' \<and> mb_store mb' = nd_storage nd' \<and>
    snd (nd_net nd') = net' \<and> mt_nodeId (fst (nd_net nd')) = mt_nodeId (fst (nd_net nd)) \<and>
    nd_started nd' = nd_started nd \<and>
    (r = Inr () \<and> mb_phase mb' = Idle \<and> runs_as env sm0 mb' nd' \<or> r \<noteq> Inr () \<and> stuck mb')"
proof -
  let ?mb = "cl_member cl n"
  obtain s where rel: "cluster_rel ms s cl" using reachable_rel [OF reach opts] by blast
  have st: "mb_store ?mb = nd_storage nd" "mb_core ?mb = nd_core nd"
    "run_commands env (mb_applied ?mb) sm0 = (nd_machine nd, Inr ())"
    using run by (simp_all add: runs_as_def)
  have e: "ne_persist env = handle_persist" "ne_send env = transport_send" using env by (simp_all add: env_ok_def)
  obtain h where h: "handle_persist (ready_batch rd) (nd_storage nd) = (h, Inr ())"
    using batch_accepted [OF rel n ph] ready st(1) by auto
  have hr: "handle_ready h"
    using h ready by (auto simp: handle_persist_def handle_guarded_def handle_ready_def durable_persist_def Let_def
        split: if_splits option.splits sum.splits)
  let ?mb1 = "?mb\<lparr>mb_store := h, mb_phase := Sending rd (rd_outboundMessages rd)\<rparr>"
  let ?nd1 = "nd\<lparr>nd_storage := h\<rparr>" and ?cl1 = "put_member n ?mb1 cl"
  let ?nd2 = "send_all env (rd_outboundMessages rd) ?nd1"
  let ?net2 = "snd (nd_net ?nd2)"
  let ?mb2 = "?mb1\<lparr>mb_phase := Sending rd []\<rparr>" and ?mb3 = "?mb1\<lparr>mb_phase := Applying rd (rd_committedEntries rd)\<rparr>"
  let ?cl2 = "put_member n ?mb2 (cl\<lparr>cl_net := ?net2\<rparr>)" and ?cl3 = "put_member n ?mb3 (cl\<lparr>cl_net := ?net2\<rparr>)"
  have step1: "cluster_step ms opts cl ?cl1"
    using cluster_step.persist [OF n refl ph] h st(1) by (simp add: after_persist_def)
  have path2: "cluster_steps ms opts ?cl1 ?cl2 \<and> mt_nodeId (fst (nd_net ?nd2)) = mt_nodeId (fst (nd_net nd))"
    using send_all_path [OF e(2) n, of ?cl1 rd "rd_outboundMessages rd" ?nd1] net by simp
  have step3: "cluster_step ms opts ?cl2 ?cl3"
    using cluster_step.all_sent [OF n refl, of ?cl2 rd] by simp
  have path3: "cluster_steps ms opts cl ?cl3"
    using step1 path2 step3 by (meson converse_rtranclp_into_rtranclp rtranclp.rtrancl_into_rtrancl)
  have reach3: "reachable ms opts ?cl3" by (rule steps_reachable [OF path3 reach])
  note f2 = send_all_frame2 [of env "rd_outboundMessages rd" ?nd1]
  obtain nd3 x where ap: "apply_entries env (rd_committedEntries rd) ?nd2 = Some (nd3, x)"
    using exec h by (auto simp: process_ready_def persist_at_def e run_bind_def split: option.splits)
  have ra: "runs_as env sm0 (cl_member ?cl3 n) ?nd2" using st f2 by (simp add: runs_as_def)
  obtain mb4 where mb4: "cluster_steps ms opts ?cl3 (put_member n mb4 ?cl3)" "handle_ready (mb_store mb4)"
    "mb_core mb4 = nd_core nd3" "mb_store mb4 = nd_storage nd3" "nd_net nd3 = nd_net ?nd2"
    "nd_core nd3 = nd_core ?nd2" "nd_started nd3 = nd_started ?nd2"
    and res: "x = Inr () \<and> mb_phase mb4 = Applying rd [] \<and> runs_as env sm0 mb4 nd3 \<or>
       x \<noteq> Inr () \<and> (\<exists>e es'. mb_phase mb4 = Applying rd (e # es'))"
    using apply_entries_path [OF env opts n reach3 _ ra _ ap, of rd] hr f2 by auto
  have path4: "cluster_steps ms opts cl (put_member n mb4 (cl\<lparr>cl_net := ?net2\<rparr>))"
    using rtranclp_trans [OF path3 mb4(1)] by simp
  show ?thesis
  proof (cases x)
    case (Inl err)
    then have "nd' = nd3" "r = Inl err"
      using exec h ap by (simp_all add: process_ready_def persist_at_def e run_bind_def)
    then show ?thesis
      using path4 mb4 res Inl path2 f2 by (intro exI [of _ mb4] exI [of _ ?net2]) (auto simp: stuck_def)
  next
    case (Inr u)
    then have ph4: "mb_phase mb4 = Applying rd []" and ra4: "runs_as env sm0 mb4 nd3" using res by auto
    let ?cl4 = "put_member n mb4 (cl\<lparr>cl_net := ?net2\<rparr>)"
    have reach4: "reachable ms opts ?cl4" by (rule steps_reachable [OF path4 reach])
    obtain s4 where rel4: "cluster_rel ms s4 ?cl4" using reachable_rel [OF reach4 opts] by blast
    then have "member_rel ms s4 n (cl_member ?cl4 n)" using n unfolding cluster_rel_def by blast
    then have "member_rel ms s4 n mb4" by simp
    then have l: "live ms s4 n (mb_core mb4)" "handed_out (mb_core mb4) rd"
      using ph4 by (simp_all add: member_rel_def phase_rel_def)
    obtain c' where adv: "advance (rd_id rd) (mb_core mb4) = (c', Inr ())"
      using handed_out_facts(3) [OF l] by blast
    have nd': "nd' = nd3\<lparr>nd_core := c'\<rparr>" "r = Inr ()"
      using exec h ap Inr adv mb4(3) by (simp_all add: process_ready_def persist_at_def e run_bind_def)
    let ?mb5 = "mb4\<lparr>mb_core := c', mb_phase := Idle\<rparr>"
    have "cluster_step ms opts ?cl4 (put_member n ?mb5 ?cl4)"
      using cluster_step.advances [OF n refl, of ?cl4 rd] ph4 adv by (simp add: after_advance_def)
    then have "cluster_steps ms opts cl (put_member n ?mb5 (cl\<lparr>cl_net := ?net2\<rparr>))"
      using path4 by (simp add: rtranclp.rtrancl_into_rtrancl)
    then show ?thesis
      using mb4 ra4 nd' path2 f2
      by (intro exI [of _ ?mb5] exI [of _ ?net2]) (simp add: runs_as_def)
  qed
qed

lemma event_path:
  assumes env: "env_ok env" and opts: "options_ok ms opts" and n: "n \<in> set ms"
    and reach: "reachable ms opts cl"
    and first: "cluster_step ms opts cl
      (put_member n (after_step (core_step ev (mb_core (cl_member cl n))) (cl_member cl n)) (cl\<lparr>cl_net := net\<rparr>))"
    and idle: "mb_phase (cl_member cl n) = Idle"
    and run: "runs_as env sm0 (cl_member cl n) nd" and ready: "handle_ready (nd_storage nd)"
    and net: "snd (nd_net nd) = net" and exec: "process env ev nd = Some (nd', r)"
  shows "\<exists>mb' net'. cluster_steps ms opts cl (put_member n mb' (cl\<lparr>cl_net := net'\<rparr>)) \<and>
    handle_ready (nd_storage nd') \<and> mb_core mb' = nd_core nd' \<and> mb_store mb' = nd_storage nd' \<and>
    snd (nd_net nd') = net' \<and> mt_nodeId (fst (nd_net nd')) = mt_nodeId (fst (nd_net nd)) \<and>
    nd_started nd' = nd_started nd \<and>
    (mb_phase mb' = Idle \<and> runs_as env sm0 mb' nd' \<or> r \<noteq> Inr () \<and> stuck mb')"
proof -
  let ?mb = "cl_member cl n"
  let ?cl1 = "put_member n (after_step (core_step ev (mb_core ?mb)) ?mb) (cl\<lparr>cl_net := net\<rparr>)"
  have st: "mb_core ?mb = nd_core nd" "mb_store ?mb = nd_storage nd"
    "run_commands env (mb_applied ?mb) sm0 = (nd_machine nd, Inr ())"
    using run by (simp_all add: runs_as_def)
  obtain c x where step: "core_step ev (nd_core nd) = (c, x)" by fastforce
  consider (throws) err where "x = Inl err" | (quiet) "x = Inr None" | (batch) rd where "x = Inr (Some rd)"
    by (cases x) auto
  then show ?thesis
  proof cases
    case throws
    then have nd': "nd' = nd\<lparr>nd_core := c\<rparr>" using exec step by (simp add: process_def)
    have "cluster_steps ms opts cl (put_member n (?mb\<lparr>mb_core := c\<rparr>) (cl\<lparr>cl_net := net\<rparr>))"
      using step_steps [OF first] st(1) step throws by (simp add: after_step_def)
    then show ?thesis using st nd' idle ready net
      by (intro exI [of _ "?mb\<lparr>mb_core := c\<rparr>"] exI [of _ net]) (simp add: runs_as_def)
  next
    case quiet
    then have nd': "nd' = note_role (rc_role (nd_core nd)) (nd\<lparr>nd_core := c\<rparr>)"
      using exec step by (simp add: process_def run_bind_def)
    have "cluster_steps ms opts cl (put_member n (?mb\<lparr>mb_core := c\<rparr>) (cl\<lparr>cl_net := net\<rparr>))"
      using step_steps [OF first] st(1) step quiet by (simp add: after_step_def)
    then show ?thesis using st nd' idle ready net
      by (intro exI [of _ "?mb\<lparr>mb_core := c\<rparr>"] exI [of _ net])
        (simp add: runs_as_def)
  next
    case (batch rd)
    let ?mb1 = "?mb\<lparr>mb_core := c, mb_phase := Persisting rd\<rparr>" and ?nd1 = "nd\<lparr>nd_core := c\<rparr>"
    have cl1: "?cl1 = put_member n ?mb1 (cl\<lparr>cl_net := net\<rparr>)"
      using st(1) step batch by (simp add: after_step_def)
    have reach1: "reachable ms opts ?cl1" by (rule reachable.move [OF reach first])
    obtain nd2 y where rdy: "process_ready env rd ?nd1 = Some (nd2, y)"
      and fin: "(y = Inr () \<and> nd' = note_role (rc_role (nd_core nd)) nd2 \<and> r = Inr ()) \<or>
        (\<exists>err. y = Inl err \<and> nd' = nd2 \<and> r = Inl err)"
      using exec step batch by (auto simp: process_def run_bind_def split: option.splits sum.splits)
    obtain mb' net' where p: "cluster_steps ms opts ?cl1 (put_member n mb' (?cl1\<lparr>cl_net := net'\<rparr>))"
      "handle_ready (nd_storage nd2)" "mb_core mb' = nd_core nd2" "mb_store mb' = nd_storage nd2"
      "snd (nd_net nd2) = net'" "mt_nodeId (fst (nd_net nd2)) = mt_nodeId (fst (nd_net nd))"
      "nd_started nd2 = nd_started nd"
      and res: "y = Inr () \<and> mb_phase mb' = Idle \<and> runs_as env sm0 mb' nd2 \<or> y \<noteq> Inr () \<and> stuck mb'"
      using ready_path [OF env opts n reach1, of rd sm0 ?nd1 nd2 y] st ready net rdy
      unfolding cl1 by (auto simp: runs_as_def)
    have "cluster_steps ms opts cl (put_member n mb' (cl\<lparr>cl_net := net'\<rparr>))"
      using step_steps [OF first p(1)] by simp
    then show ?thesis using p res fin
      by (intro exI [of _ mb'] exI [of _ net'])
        (auto simp: runs_as_def)
  qed
qed

text \<open>With a retention that is not negative every call ends.\<close>

lemma apply_entry_ends: "0 \<le> ne_retention env \<Longrightarrow> apply_entry env e nd \<noteq> None"
  by (auto simp: apply_entry_def apply_command_def persist_at_def Let_def retain_Some
      split: option.splits sum.splits prod.splits)

lemma apply_entries_end: "0 \<le> ne_retention env \<Longrightarrow> apply_entries env es nd \<noteq> None"
proof (induction env es nd rule: apply_entries.induct)
  case (2 env e es nd)
  obtain nd1 x where "apply_entry env e nd = Some (nd1, x)" using apply_entry_ends "2.prems" by fastforce
  then show ?case using "2.IH" "2.prems" by (cases x) (simp_all add: run_bind_def)
qed simp

lemma process_ready_ends:
  assumes "0 \<le> ne_retention env"
  shows "process_ready env rd nd \<noteq> None"
proof -
  obtain st x where st: "ne_persist env (ready_batch rd) (nd_storage nd) = (st, x)" by fastforce
  let ?nd1 = "send_all env (rd_outboundMessages rd) (nd\<lparr>nd_storage := st\<rparr>)"
  obtain nd2 y where "apply_entries env (rd_committedEntries rd) ?nd1 = Some (nd2, y)"
    using apply_entries_end [OF assms, of "rd_committedEntries rd" ?nd1] by auto
  then show ?thesis
    using st by (cases x; cases y)
      (simp_all add: process_ready_def persist_at_def run_bind_def Let_def split: prod.splits)
qed

lemma process_ends:
  assumes "0 \<le> ne_retention env"
  shows "process env ev nd \<noteq> None"
proof -
  obtain c x where step: "core_step ev (nd_core nd) = (c, x)" by fastforce
  have "run_bind r (\<lambda>nd1 u. Some (f nd1, Inr ())) \<noteq> None" if "r \<noteq> None"
    for r :: "(('a, 'b, 'c, 'e) raft_node, unit) run" and f :: "('a, 'b, 'c, 'e) raft_node \<Rightarrow> ('a, 'b, 'c, 'e) raft_node"
    using that by (auto simp: run_bind_def split: sum.splits)
  then show ?thesis
    using step process_ready_ends [OF assms]
    by (cases x) (auto simp: process_def split: option.splits)
qed

text \<open>A node that stopped in front of an entry it cannot apply handles no further event.\<close>

lemma stuck_outstanding:
  assumes "cluster_rel ms s cl" and "n \<in> set ms" and "stuck (cl_member cl n)"
  shows "rc_outstanding (mb_core (cl_member cl n)) \<noteq> None \<and>
    rc_appliedIndex (mb_core (cl_member cl n)) < rc_commitIndex (mb_core (cl_member cl n))"
proof -
  have m: "member_rel ms s n (cl_member cl n)" using assms(1,2) by (simp add: cluster_rel_def)
  obtain rd e es where ph: "mb_phase (cl_member cl n) = Applying rd (e # es)" using assms(3) by (auto simp: stuck_def)
  then obtain past where l: "live ms s n (mb_core (cl_member cl n))" "handed_out (mb_core (cl_member cl n)) rd"
    "rd_committedEntries rd = past @ e # es"
    using m by (auto simp: member_rel_def phase_rel_def)
  have "rc_outstanding (mb_core (cl_member cl n)) = Some rd"
    using l(2) ready_fields(7) by (auto simp: handed_out_def)
  then show ?thesis using handed_out_facts(2) [OF l(1,2)] l(3) by simp
qed

lemma stuck_process:
  "rc_outstanding (nd_core nd) \<noteq> None \<Longrightarrow>
    process env ev nd = Some (nd, Inl (PlainError ''advance the outstanding Ready before stepping again''))"
  by (simp add: process_def core_step_def)

end
