(* ===== verification/LiveCluster.thy ===== *)
theory LiveCluster
  imports Runtime
begin

text \<open>
  Live nodes over durable storages and one in-memory network, the world that the test cluster
  (\<open>packages/raft-testing/src/test-cluster.ts\<close>) and the simulation of the visualizer
  (\<open>packages/raft-visualizer/src/server/simulation-controller.ts\<close>) have in common; their states extend the
  record \<open>live_cluster\<close>.

  The network and the durable states are objects that a node shares with its owner.  A live node carries the
  current state of its storage in its handle; the network is copied into a node before a call and back after
  it.  An awaited call is completed before the next begins.
\<close>

section \<open>State\<close>

record ('sm, 'res) live_cluster =
  lc_network :: memory_network
  lc_members :: "node_id list"
  lc_storage :: "(node_id \<times> durable_state) list"
  lc_live :: "(node_id \<times> ('sm, 'res) live_node) list"

definition put_live :: "node_id \<Rightarrow> ('sm, 'res) live_node \<Rightarrow> ('sm, 'res, 'z) live_cluster_scheme
    \<Rightarrow> ('sm, 'res, 'z) live_cluster_scheme" where
  "put_live m nd lc = lc\<lparr>lc_live := map_set m nd (lc_live lc), lc_network := snd (nd_net nd)\<rparr>"

text \<open>The durable state of a member.\<close>

definition member_storage :: "node_id \<Rightarrow> ('sm, 'res, 'z) live_cluster_scheme \<Rightarrow> durable_state option" where
  "member_storage m lc = (case map_of (lc_storage lc) m of
     None \<Rightarrow> None
   | Some d \<Rightarrow> Some (case map_of (lc_live lc) m of None \<Rightarrow> d | Some nd \<Rightarrow> sh_state (nd_storage nd)))"

section \<open>Operations\<close>

text \<open>Call an operation of a live node.\<close>

definition node_call :: "node_id \<Rightarrow> (('sm, 'res) live_node \<Rightarrow> (('sm, 'res) live_node, 'a) run)
    \<Rightarrow> ('sm, 'res) live_node \<Rightarrow> ('sm, 'res, 'z) live_cluster_scheme
    \<Rightarrow> (('sm, 'res, 'z) live_cluster_scheme, 'a) run" where
  "node_call m f nd lc =
     (case f (nd\<lparr>nd_net := (fst (nd_net nd), lc_network lc)\<rparr>) of
        None \<Rightarrow> None
      | Some (nd1, r) \<Rightarrow> Some (put_live m nd1 lc, r))"

text \<open>Stop a live node: its storage outlives it.\<close>

definition node_halt :: "('sm, 'cmd, 'res) live_env \<Rightarrow> node_id \<Rightarrow> ('sm, 'res) live_node
    \<Rightarrow> ('sm, 'res, 'z) live_cluster_scheme \<Rightarrow> ('sm, 'res, 'z) live_cluster_scheme" where
  "node_halt env m nd lc =
     (let nd1 = node_stop env (nd\<lparr>nd_net := (fst (nd_net nd), lc_network lc)\<rparr>)
      in lc\<lparr>lc_live := map_delete m (lc_live lc), lc_network := snd (nd_net nd1),
            lc_storage := map_set m (sh_state (nd_storage nd1)) (lc_storage lc)\<rparr>)"

text \<open>Create a node over a durable state and start it.\<close>

definition node_launch :: "('sm, 'cmd, 'res) live_env \<Rightarrow> node_options \<Rightarrow> 'sm \<Rightarrow> node_id \<Rightarrow> durable_state
    \<Rightarrow> ('sm, 'res, 'z) live_cluster_scheme \<Rightarrow> (('sm, 'res, 'z) live_cluster_scheme, unit) io" where
  "node_launch env no sm0 m d lc =
     (case create_node env no (net_endpoint m, lc_network lc) (handle_open d) sm0 of
        ((st, sm), Inl err) \<Rightarrow> (lc\<lparr>lc_storage := map_set m (sh_state st) (lc_storage lc)\<rparr>, Inl err)
      | ((st, sm), Inr nd) \<Rightarrow>
          (case node_start env nd of
             (nd1, Inl err) \<Rightarrow>
               (lc\<lparr>lc_storage := map_set m (sh_state (nd_storage nd1)) (lc_storage lc),
                   lc_network := snd (nd_net nd1)\<rparr>, Inl err)
           | (nd1, Inr _) \<Rightarrow> (put_live m nd1 lc, Inr ())))"

text \<open>\<open>deliver\<close> of the network: the handler is the one the live node has registered.\<close>

definition handle_message :: "('sm, 'cmd, 'res) live_env \<Rightarrow> raft_message
    \<Rightarrow> ('sm, 'res, 'z) live_cluster_scheme \<Rightarrow> (('sm, 'res, 'z) live_cluster_scheme, unit) run" where
  "handle_message env m lc =
     (case map_of (lc_live lc) (m_to m) of
        None \<Rightarrow> Some (lc, Inl (PlainError (''member '' @ m_to m @ '' is not running'')))
      | Some nd \<Rightarrow> node_call (m_to m) (process env (MessageEvent m)) nd lc)"

section \<open>The relation to the cluster\<close>

text \<open>A live node is a member that runs the same core over the same storage, or is stuck in an apply; \<open>low\<close>
  gives lower bounds of the term, the commit index and the applied index of each member.\<close>

definition above :: "int \<times> int \<times> int \<Rightarrow> int \<Rightarrow> int \<Rightarrow> int \<Rightarrow> bool" where
  "above b t c a \<longleftrightarrow> fst b \<le> t \<and> fst (snd b) \<le> c \<and> snd (snd b) \<le> a"

definition live_ok :: "('sm, 'cmd, 'res) live_env \<Rightarrow> (node_id \<Rightarrow> 'sm) \<Rightarrow> node_id \<Rightarrow> member
    \<Rightarrow> ('sm, 'res) live_node \<Rightarrow> bool" where
  "live_ok env machine m mb nd \<longleftrightarrow>
     nd_started nd \<and> handle_ready (nd_storage nd) \<and> mt_nodeId (fst (nd_net nd)) = m \<and>
     mb_core mb = nd_core nd \<and> mb_store mb = nd_storage nd \<and>
     (mb_phase mb = Idle \<and> runs_as env (machine m) mb nd \<or> stuck mb)"

definition down_ok :: "durable_state \<Rightarrow> member \<Rightarrow> bool" where
  "down_ok d mb \<longleftrightarrow> mb_phase mb = Down \<and> sh_state (mb_store mb) = d \<and> du_failure d = None"

definition member_ok :: "('sm, 'cmd, 'res) live_env \<Rightarrow> (node_id \<Rightarrow> 'sm) \<Rightarrow> (node_id \<Rightarrow> int \<times> int \<times> int)
    \<Rightarrow> ('sm, 'res, 'z) live_cluster_scheme \<Rightarrow> node_id \<Rightarrow> member \<Rightarrow> bool" where
  "member_ok env machine low lc m mb \<longleftrightarrow> (case map_of (lc_live lc) m of
     Some nd \<Rightarrow> live_ok env machine m mb nd \<and> above (low m) (rc_currentTerm (nd_core nd))
       (rc_commitIndex (nd_core nd)) (rc_appliedIndex (nd_core nd))
   | None \<Rightarrow> (\<exists>d. map_of (lc_storage lc) m = Some d \<and> down_ok d mb \<and>
       above (low m) (hs_currentTerm (du_hardState d)) (hs_commitIndex (du_hardState d)) (du_appliedIndex d)))"

definition lc_rel :: "('sm, 'cmd, 'res) live_env \<Rightarrow> (node_id list \<Rightarrow> node_id \<Rightarrow> node_options)
    \<Rightarrow> (node_id \<Rightarrow> 'sm) \<Rightarrow> (node_id \<Rightarrow> int \<times> int \<times> int) \<Rightarrow> ('sm, 'res, 'z) live_cluster_scheme
    \<Rightarrow> cluster \<Rightarrow> bool" where
  "lc_rel env opts machine low lc cl \<longleftrightarrow> reachable (lc_members lc) (opts (lc_members lc)) cl \<and>
     cl_net cl = lc_network lc \<and> distinct (map fst (lc_live lc)) \<and>
     set (map fst (lc_live lc)) \<subseteq> set (lc_members lc) \<and>
     set (map fst (lc_storage lc)) = set (lc_members lc) \<and>
     (\<forall>m \<in> set (lc_members lc). member_ok env machine low lc m (cl_member cl m))"

text \<open>A state that is related to some reachable state of the cluster.\<close>

definition lc_ok :: "('sm, 'cmd, 'res) live_env \<Rightarrow> (node_id list \<Rightarrow> node_id \<Rightarrow> node_options)
    \<Rightarrow> (node_id \<Rightarrow> 'sm) \<Rightarrow> (node_id \<Rightarrow> int \<times> int \<times> int) \<Rightarrow> ('sm, 'res, 'z) live_cluster_scheme \<Rightarrow> bool"
  where
  "lc_ok env opts machine low lc \<longleftrightarrow> (\<exists>cl. lc_rel env opts machine low lc cl)"

text \<open>Calls of a node that do nothing to what the relation reads, or process one local event.\<close>

definition same_run :: "('sm, 'res) live_node \<Rightarrow> ('sm, 'res) live_node \<Rightarrow> bool" where
  "same_run nd nd' \<longleftrightarrow> nd_core nd' = nd_core nd \<and> nd_storage nd' = nd_storage nd \<and>
     nd_machine nd' = nd_machine nd \<and> nd_started nd' = nd_started nd \<and>
     mt_nodeId (fst (nd_net nd')) = mt_nodeId (fst (nd_net nd))"

definition local_call :: "('sm, 'cmd, 'res) live_env
    \<Rightarrow> (('sm, 'res) live_node \<Rightarrow> (('sm, 'res) live_node, 'a) run) \<Rightarrow> bool" where
  "local_call env f \<longleftrightarrow> (\<forall>nd nd' r. f nd = Some (nd', r) \<longrightarrow>
     same_run nd nd' \<and> snd (nd_net nd') = snd (nd_net nd) \<or>
     (\<exists>ev nd1 nd2 y. is_local ev \<and> same_run nd nd1 \<and> snd (nd_net nd1) = snd (nd_net nd) \<and>
       process env ev nd1 = Some (nd2, y) \<and> same_run nd2 nd' \<and> snd (nd_net nd') = snd (nd_net nd2)))"

end
