(* ===== verification/TestCluster.thy ===== *)
theory TestCluster
  imports LiveCluster Primitives
begin

text \<open>
  The deterministic test cluster, class \<open>TestCluster\<close> of \<open>packages/raft-testing/src/test-cluster.ts\<close>:
  three nodes over durable storages and one in-memory network, with the assertions it evaluates
  after every operation.

  The live nodes, their storages and the network are those of theory \<open>LiveCluster\<close>; a proposal has been
  processed by its node when \<open>drain\<close> starts.
\<close>

section \<open>State\<close>

record ('sm, 'cmd, 'res) test_options =
  to_encode :: "'cmd \<Rightarrow> raft_error + bytes"
  to_decode :: "bytes \<Rightarrow> raft_error + 'cmd"
  to_sha256 :: "bytes \<Rightarrow> string"
  to_apply :: "'cmd \<Rightarrow> apply_context \<Rightarrow> 'sm \<Rightarrow> ('sm, 'res) io"
  to_restore :: "bytes \<Rightarrow> restore_context \<Rightarrow> 'sm \<Rightarrow> ('sm, unit) io"
  to_createStateMachine :: "node_id \<Rightarrow> 'sm"
  to_stateHash :: "('sm \<Rightarrow> string) option"
  to_seed :: "int option"
  to_nodeIds :: "(string \<times> string \<times> string) option"

record ('sm, 'res) test_cluster = "('sm, 'res) live_cluster" +
  tc_random :: seeded_random
  tc_lastTerms :: "(node_id \<times> int) list"
  tc_lastCommits :: "(node_id \<times> int) list"
  tc_lastApplied :: "(node_id \<times> int) list"

definition tc_env :: "('sm, 'cmd, 'res) test_options \<Rightarrow> ('sm, 'cmd, 'res) live_env" where
  "tc_env opts = \<lparr>ne_persist = handle_persist, ne_load = handle_load, ne_close = handle_close,
     ne_start = transport_start, ne_send = transport_send, ne_stop = transport_stop,
     ne_apply = to_apply opts, ne_restore = to_restore opts, ne_encode = to_encode opts,
     ne_decode = to_decode opts, ne_hash = to_sha256 opts, ne_retention = 10000\<rparr>"

definition tc_node_options :: "node_id list \<Rightarrow> node_id \<Rightarrow> node_options" where
  "tc_node_options members m = \<lparr>no_nodeId = m, no_clusterId = ''deterministic-test-cluster'',
     no_members = members, no_heartbeatInterval = 2, no_electionTimeoutMinMs = 10,
     no_electionTimeoutMaxMs = 20, no_maxMessageBytes = None\<rparr>"

definition violation :: "int \<Rightarrow> string \<Rightarrow> node_id option \<Rightarrow> raft_error" where
  "violation seed msg member =
     PlainError (''Raft invariant violation'' @
       (case member of None \<Rightarrow> '''' | Some m \<Rightarrow> '' on '' @ m) @ '': '' @ msg @ ''; seed='' @
       bigint_to_string seed)"

section \<open>Access\<close>

definition getLive :: "node_id \<Rightarrow> ('sm, 'res) test_cluster \<Rightarrow> raft_error + ('sm, 'res) live_node" where
  "getLive m tc = (case map_of (lc_live tc) m of
     None \<Rightarrow> Inl (PlainError (''member '' @ m @ '' is not running'')) | Some nd \<Rightarrow> Inr nd)"

definition tc_seed :: "('sm, 'res) test_cluster \<Rightarrow> int" where
  "tc_seed tc = sr_seed (tc_random tc)"

definition tc_node :: "node_id \<Rightarrow> ('sm, 'res) test_cluster \<Rightarrow> raft_error + ('sm, 'res) live_node" where
  "tc_node m tc = getLive m tc"

definition tc_machine :: "node_id \<Rightarrow> ('sm, 'res) test_cluster \<Rightarrow> raft_error + 'sm" where
  "tc_machine m tc = (case getLive m tc of Inl err \<Rightarrow> Inl err | Inr nd \<Rightarrow> Inr (nd_machine nd))"

definition durableState :: "node_id \<Rightarrow> ('sm, 'res) test_cluster \<Rightarrow> raft_error + durable_state" where
  "durableState m tc = (case map_of (lc_storage tc) m of
     None \<Rightarrow> Inl (PlainError (''unknown member '' @ m))
   | Some d \<Rightarrow> Inr (case map_of (lc_live tc) m of
        None \<Rightarrow> d | Some nd \<Rightarrow> sh_state (nd_storage nd)))"

definition tc_status :: "node_id \<Rightarrow> ('sm, 'res) test_cluster \<Rightarrow> raft_error + raft_status" where
  "tc_status m tc = (case getLive m tc of Inl err \<Rightarrow> Inl err | Inr nd \<Rightarrow> Inr (status (nd_core nd)))"

text \<open>Call an operation of a live node.\<close>

definition on_live :: "node_id
    \<Rightarrow> (('sm, 'res) live_node \<Rightarrow> (('sm, 'res) live_node, 'a) run)
    \<Rightarrow> ('sm, 'res) test_cluster \<Rightarrow> (('sm, 'res) test_cluster, 'a) run" where
  "on_live m f tc = (case getLive m tc of
     Inl err \<Rightarrow> Some (tc, Inl err)
   | Inr nd \<Rightarrow> node_call m f nd tc)"

section \<open>The assertions\<close>

definition last_of :: "node_id \<Rightarrow> (node_id \<times> int) list \<Rightarrow> int" where
  "last_of m xs = or_else (map_of xs m) 0"

definition status_violation :: "node_id \<Rightarrow> raft_status \<Rightarrow> ('sm, 'res) test_cluster \<Rightarrow> string option" where
  "status_violation m st tc =
     (if st_currentTerm st < last_of m (tc_lastTerms tc) then Some ''current term decreased''
      else if st_commitIndex st < last_of m (tc_lastCommits tc) then Some ''commit index decreased''
      else if st_appliedIndex st < last_of m (tc_lastApplied tc) then Some ''applied index decreased''
      else if st_commitIndex st < st_appliedIndex st then Some ''applied index exceeds commit index''
      else if st_lastLogIndex st < st_commitIndex st then Some ''commit index exceeds last log index''
      else None)"

definition note_status :: "node_id \<Rightarrow> raft_status \<Rightarrow> ('sm, 'res) test_cluster \<Rightarrow> ('sm, 'res) test_cluster" where
  "note_status m st tc = tc\<lparr>tc_lastTerms := map_set m (st_currentTerm st) (tc_lastTerms tc),
     tc_lastCommits := map_set m (st_commitIndex st) (tc_lastCommits tc),
     tc_lastApplied := map_set m (st_appliedIndex st) (tc_lastApplied tc)\<rparr>"

fun check_live :: "(node_id \<times> ('sm, 'res) live_node) list \<Rightarrow> (int \<times> node_id) list
    \<Rightarrow> ('sm, 'res) test_cluster \<Rightarrow> (('sm, 'res) test_cluster, unit) io" where
  "check_live [] leaders tc = (tc, Inr ())"
| "check_live ((m, nd) # rest) leaders tc =
     (let st = status (nd_core nd); seed = sr_seed (tc_random tc) in
      case status_violation m st tc of
        Some msg \<Rightarrow> (tc, Inl (violation seed msg (Some m)))
      | None \<Rightarrow>
          let tc1 = note_status m st tc in
          if st_role st = Leader
          then if \<exists>existing \<in> set_option (map_of leaders (st_currentTerm st)). existing \<noteq> m
               then (tc1, Inl (violation seed (''two leaders in term '' @ bigint_to_string (st_currentTerm st)) (Some m)))
               else check_live rest (map_set (st_currentTerm st) m leaders) tc1
          else check_live rest leaders tc1)"

text \<open>UTF-8 of a string of code units below 256.\<close>

definition text_bytes :: "string \<Rightarrow> bytes" where
  "text_bytes s = concat (map (\<lambda>c. let n = of_char c :: nat in
     if n < 128 then [of_nat n] else [of_nat (192 + n div 64), of_nat (128 + n mod 64)]) s)"

fun entry_type_name :: "entry_type \<Rightarrow> string" where
  "entry_type_name Command = ''command''"
| "entry_type_name Configuration = ''configuration''"
| "entry_type_name Noop = ''noop''"

definition entryFingerprint :: "(bytes \<Rightarrow> string) \<Rightarrow> log_entry \<Rightarrow> string" where
  "entryFingerprint sha256 e = sha256 (text_bytes (bigint_to_string (le_term e)) @ [0] @
     text_bytes (entry_type_name (le_type e)) @ [0] @ text_bytes (or_else (le_commandId e) '''') @ [0] @
     le_payload e)"

fun check_entries :: "(bytes \<Rightarrow> string) \<Rightarrow> int \<Rightarrow> node_id \<Rightarrow> int \<Rightarrow> int \<Rightarrow> log_entry list
    \<Rightarrow> (int \<times> string) list \<Rightarrow> raft_error + (int \<times> string) list" where
  "check_entries sha256 seed m commit expected [] committed = Inr committed"
| "check_entries sha256 seed m commit expected (e # es) committed =
     (if le_index e \<noteq> expected then Inl (violation seed ''durable log is not contiguous'' (Some m))
      else if le_index e \<le> commit
      then let fingerprint = entryFingerprint sha256 e in
           if \<exists>known \<in> set_option (map_of committed (le_index e)). known \<noteq> fingerprint
           then Inl (violation seed (''committed entry '' @ bigint_to_string (le_index e) @ '' differs'') (Some m))
           else check_entries sha256 seed m commit (expected + 1) es
                  (map_set (le_index e) fingerprint committed)
      else check_entries sha256 seed m commit (expected + 1) es committed)"

fun check_durable :: "(bytes \<Rightarrow> string) \<Rightarrow> ('sm, 'res) test_cluster \<Rightarrow> node_id list
    \<Rightarrow> (int \<times> string) list \<Rightarrow> raft_error + unit" where
  "check_durable sha256 tc [] committed = Inr ()"
| "check_durable sha256 tc (m # ms) committed =
     (case durableState m tc of
        Inl err \<Rightarrow> Inl err
      | Inr d \<Rightarrow>
          let p = durable_inspect d in
          case check_entries sha256 (sr_seed (tc_random tc)) m (hs_commitIndex (ps_hardState p))
                 (snapshot_index (ps_snapshot p) + 1) (ps_entries p) committed of
            Inl err \<Rightarrow> Inl err
          | Inr committed1 \<Rightarrow> check_durable sha256 tc ms committed1)"

definition caught_up :: "(node_id \<times> ('sm, 'res) live_node) list \<Rightarrow> ('sm, 'res) live_node list" where
  "caught_up members = filter (\<lambda>nd. rc_appliedIndex (nd_core nd) = rc_commitIndex (nd_core nd)) (map snd members)"

definition highest_applied :: "('sm, 'res) live_node list \<Rightarrow> int" where
  "highest_applied nds = foldl (\<lambda>highest nd. if highest < rc_appliedIndex (nd_core nd)
     then rc_appliedIndex (nd_core nd) else highest) 0 nds"

definition hashes_differ :: "('sm \<Rightarrow> string) \<Rightarrow> (node_id \<times> ('sm, 'res) live_node) list \<Rightarrow> bool" where
  "hashes_differ stateHash members =
     (let caughtUp = caught_up members;
          hashes = map (\<lambda>nd. stateHash (nd_machine nd))
            (filter (\<lambda>nd. rc_appliedIndex (nd_core nd) = highest_applied caughtUp) caughtUp)
      in \<exists>h \<in> set hashes. h \<noteq> hd hashes)"

definition tc_assertInvariants :: "('sm, 'cmd, 'res) test_options \<Rightarrow> ('sm, 'res) test_cluster
    \<Rightarrow> (('sm, 'res) test_cluster, unit) io" where
  "tc_assertInvariants opts tc =
     (case check_live (lc_live tc) [] tc of
        (tc1, Inl err) \<Rightarrow> (tc1, Inl err)
      | (tc1, Inr _) \<Rightarrow>
          (case check_durable (to_sha256 opts) tc1 (lc_members tc1) [] of
             Inl err \<Rightarrow> (tc1, Inl err)
           | Inr _ \<Rightarrow>
               (case to_stateHash opts of
                  None \<Rightarrow> (tc1, Inr ())
                | Some stateHash \<Rightarrow>
                    if hashes_differ stateHash (lc_live tc1)
                    then (tc1, Inl (violation (sr_seed (tc_random tc1))
                            ''caught-up state-machine hashes differ'' None))
                    else (tc1, Inr ()))))"

definition asserting :: "('sm, 'cmd, 'res) test_options \<Rightarrow> (('sm, 'res) test_cluster, 'a) run
    \<Rightarrow> (('sm, 'res) test_cluster, 'a) run" where
  "asserting opts r = run_bind r (\<lambda>tc x. case tc_assertInvariants opts tc of
     (tc1, Inl err) \<Rightarrow> Some (tc1, Inl err) | (tc1, Inr _) \<Rightarrow> Some (tc1, Inr x))"

section \<open>Operations\<close>

definition startMember :: "('sm, 'cmd, 'res) test_options \<Rightarrow> node_id \<Rightarrow> ('sm, 'res) test_cluster
    \<Rightarrow> (('sm, 'res) test_cluster, unit) io" where
  "startMember opts m tc =
     (case durableState m tc of
        Inl err \<Rightarrow> (tc, Inl err)
      | Inr d \<Rightarrow> node_launch (tc_env opts) (tc_node_options (lc_members tc) m)
                  (to_createStateMachine opts m) m d tc)"

fun start_all :: "('sm, 'cmd, 'res) test_options \<Rightarrow> node_id list \<Rightarrow> ('sm, 'res) test_cluster
    \<Rightarrow> (('sm, 'res) test_cluster, unit) io" where
  "start_all opts [] tc = (tc, Inr ())"
| "start_all opts (m # ms) tc =
     (case startMember opts m tc of
        (tc1, Inl err) \<Rightarrow> (tc1, Inl err)
      | (tc1, Inr _) \<Rightarrow> start_all opts ms tc1)"

definition new_test_cluster :: "('sm, 'cmd, 'res) test_options
    \<Rightarrow> raft_error + ('sm, 'res) test_cluster" where
  "new_test_cluster opts =
     (case or_else (to_nodeIds opts) (''node-0'', ''node-1'', ''node-2'') of
        (a, b, c) \<Rightarrow>
          (case (nodeId a, nodeId b, nodeId c) of
             (Inl err, _, _) \<Rightarrow> Inl err
           | (Inr _, Inl err, _) \<Rightarrow> Inl err
           | (Inr _, Inr _, Inl err) \<Rightarrow> Inl err
           | (Inr a', Inr b', Inr c') \<Rightarrow>
               Inr \<lparr>lc_network = new_network, lc_members = [a', b', c'],
                    lc_storage = map_set c' new_durable_state (map_set b' new_durable_state
                      [(a', new_durable_state)]),
                    lc_live = [], tc_random = new_random (or_else (to_seed opts) 1), tc_lastTerms = [], tc_lastCommits = [], tc_lastApplied = []\<rparr>))"

definition tc_create :: "('sm, 'cmd, 'res) test_options
    \<Rightarrow> raft_error + ('sm, 'res) test_cluster" where
  "tc_create opts =
     (case new_test_cluster opts of
        Inl err \<Rightarrow> Inl err
      | Inr tc \<Rightarrow>
          (case start_all opts (lc_members tc) tc of
             (tc1, Inl err) \<Rightarrow> Inl err
           | (tc1, Inr _) \<Rightarrow>
               (case tc_assertInvariants opts tc1 of
                  (tc2, Inl err) \<Rightarrow> Inl err | (tc2, Inr _) \<Rightarrow> Inr tc2)))"

definition tc_campaign :: "('sm, 'cmd, 'res) test_options \<Rightarrow> node_id \<Rightarrow> ('sm, 'res) test_cluster
    \<Rightarrow> (('sm, 'res) test_cluster, unit) run" where
  "tc_campaign opts m tc =
     (case getLive m tc of
        Inl err \<Rightarrow> Some (tc, Inl err)
      | Inr _ \<Rightarrow>
          (case random_integer 10 21 (tc_random tc) of
             (r, Inl err) \<Rightarrow> Some (tc\<lparr>tc_random := r\<rparr>, Inl err)
           | (r, Inr timeout) \<Rightarrow>
               asserting opts (on_live m (campaign (tc_env opts) timeout) (tc\<lparr>tc_random := r\<rparr>))))"

definition tc_heartbeat :: "('sm, 'cmd, 'res) test_options \<Rightarrow> node_id \<Rightarrow> ('sm, 'res) test_cluster
    \<Rightarrow> (('sm, 'res) test_cluster, unit) run" where
  "tc_heartbeat opts m tc = asserting opts (on_live m (heartbeat (tc_env opts)) tc)"

definition tc_deliver :: "('sm, 'cmd, 'res) test_options \<Rightarrow> int \<Rightarrow> ('sm, 'res) test_cluster
    \<Rightarrow> (('sm, 'res) test_cluster, unit) run" where
  "tc_deliver opts index tc =
     (case net_deliver index (lc_network tc) of
        (net, None) \<Rightarrow> Some (tc\<lparr>lc_network := net\<rparr>, Inr ())
      | (net, Some m) \<Rightarrow> handle_message (tc_env opts) m (tc\<lparr>lc_network := net\<rparr>))"

function drain_from :: "('sm, 'cmd, 'res) test_options \<Rightarrow> int \<Rightarrow> ('sm, 'res) test_cluster
    \<Rightarrow> (('sm, 'res) test_cluster, unit) run" where
  "drain_from opts delivered tc =
     (if net_pending (lc_network tc) = 0 then Some (tc, Inr ())
      else if 10000 < delivered + 1
      then Some (tc, Inl (PlainError (''network drain limit exceeded; seed='' @
             bigint_to_string (sr_seed (tc_random tc)))))
      else case random_integer 0 (int (net_pending (lc_network tc))) (tc_random tc) of
          (r, Inl err) \<Rightarrow> Some (tc\<lparr>tc_random := r\<rparr>, Inl err)
        | (r, Inr index) \<Rightarrow>
            (case asserting opts (tc_deliver opts index (tc\<lparr>tc_random := r\<rparr>)) of
               None \<Rightarrow> None
             | Some (tc1, Inl err) \<Rightarrow> Some (tc1, Inl err)
             | Some (tc1, Inr _) \<Rightarrow> drain_from opts (delivered + 1) tc1))"
  by pat_completeness auto
termination
  by (relation "measure (\<lambda>(opts, delivered, tc). nat (10000 - delivered))") auto

declare drain_from.simps [simp del]

definition tc_drain :: "('sm, 'cmd, 'res) test_options \<Rightarrow> ('sm, 'res) test_cluster
    \<Rightarrow> (('sm, 'res) test_cluster, unit) run" where
  "tc_drain opts tc = drain_from opts 0 tc"

definition tc_settleLocalWork :: "('sm, 'cmd, 'res) test_options \<Rightarrow> ('sm, 'res) test_cluster
    \<Rightarrow> (('sm, 'res) test_cluster, unit) run" where
  "tc_settleLocalWork opts tc = asserting opts (Some (tc, Inr ()))"

text \<open>The outcome of a proposal after the network is drained: the first settlement of its ticket, or
  the error of its timer.\<close>

definition outcome_of :: "'res proposal \<Rightarrow> ('sm, 'res) live_node \<Rightarrow> raft_error + 'res" where
  "outcome_of p nd = (case p of
     Settled r \<Rightarrow> r
   | Joined t \<Rightarrow> or_else (map_of (nd_settled nd) t)
       (Inl (ProposalTimeoutError ''proposal outcome is ambiguous; retry with the same command ID''))
   | Registered t _ \<Rightarrow> or_else (map_of (nd_settled nd) t)
       (Inl (ProposalTimeoutError ''proposal outcome is ambiguous; retry with the same command ID'')))"

definition tc_propose :: "('sm, 'cmd, 'res) test_options \<Rightarrow> node_id \<Rightarrow> 'cmd \<Rightarrow> string
    \<Rightarrow> ('sm, 'res) test_cluster \<Rightarrow> (('sm, 'res) test_cluster, 'res) run" where
  "tc_propose opts m command commandId tc =
     run_bind (on_live m (\<lambda>nd. map_option (\<lambda>(nd1, p). (nd1, Inr p))
                 (propose_node (tc_env opts) command commandId nd)) tc)
       (\<lambda>tc1 p.
          if net_pending (lc_network tc1) = 0
          then Some (tc1, Inl (PlainError ''no network message became pending within 1000ms''))
          else run_bind (tc_drain opts tc1)
            (\<lambda>tc2 _. asserting opts (case getLive m tc2 of
                Inl err \<Rightarrow> Some (tc2, Inl err)
              | Inr nd \<Rightarrow> Some (tc2, outcome_of p nd))))"

definition tc_partition :: "node_id list \<Rightarrow> node_id list \<Rightarrow> ('sm, 'res) test_cluster
    \<Rightarrow> ('sm, 'res) test_cluster" where
  "tc_partition left right tc = tc\<lparr>lc_network := net_partition left right (lc_network tc)\<rparr>"

definition tc_heal :: "('sm, 'res) test_cluster \<Rightarrow> ('sm, 'res) test_cluster" where
  "tc_heal tc = tc\<lparr>lc_network := net_heal (lc_network tc)\<rparr>"

definition tc_duplicatePending :: "int \<Rightarrow> ('sm, 'res) test_cluster \<Rightarrow> ('sm, 'res) test_cluster" where
  "tc_duplicatePending index tc = tc\<lparr>lc_network := net_duplicate index (lc_network tc)\<rparr>"

definition tc_reorderPending :: "('sm, 'res) test_cluster \<Rightarrow> ('sm, 'res) test_cluster" where
  "tc_reorderPending tc = tc\<lparr>lc_network := net_reorder (lc_network tc)\<rparr>"

definition tc_crash :: "('sm, 'cmd, 'res) test_options \<Rightarrow> node_id \<Rightarrow> ('sm, 'res) test_cluster
    \<Rightarrow> (('sm, 'res) test_cluster, unit) run" where
  "tc_crash opts m tc =
     (case getLive m tc of
        Inl err \<Rightarrow> Some (tc, Inl err)
      | Inr nd \<Rightarrow> asserting opts (Some (node_halt (tc_env opts) m nd tc, Inr ())))"

definition tc_restart :: "('sm, 'cmd, 'res) test_options \<Rightarrow> node_id \<Rightarrow> ('sm, 'res) test_cluster
    \<Rightarrow> (('sm, 'res) test_cluster, unit) run" where
  "tc_restart opts m tc =
     (if map_of (lc_live tc) m \<noteq> None
      then Some (tc, Inl (PlainError (''member '' @ m @ '' is already running'')))
      else asserting opts (Some (startMember opts m tc)))"

definition tc_stop :: "('sm, 'cmd, 'res) test_options \<Rightarrow> ('sm, 'res) test_cluster \<Rightarrow> ('sm, 'res) test_cluster" where
  "tc_stop opts tc = foldl (\<lambda>t (m, nd). node_halt (tc_env opts) m nd t) tc (lc_live tc)"

text \<open>What a test does with \<open>durableState(m).failNext(err)\<close>.\<close>

definition tc_failNext :: "node_id \<Rightarrow> raft_error \<Rightarrow> ('sm, 'res) test_cluster
    \<Rightarrow> (('sm, 'res) test_cluster, unit) io" where
  "tc_failNext m err tc =
     (case durableState m tc of
        Inl unknown \<Rightarrow> (tc, Inl unknown)
      | Inr d \<Rightarrow>
          (case map_of (lc_live tc) m of
             None \<Rightarrow> (tc\<lparr>lc_storage := map_set m (durable_failNext err d) (lc_storage tc)\<rparr>, Inr ())
           | Some nd \<Rightarrow>
               (tc\<lparr>lc_live := map_set m (nd\<lparr>nd_storage := (nd_storage nd)\<lparr>sh_state := durable_failNext err d\<rparr>\<rparr>)
                      (lc_live tc)\<rparr>, Inr ())))"

section \<open>Scripts\<close>

text \<open>One call of the public interface; a test is a sequence of them.\<close>

datatype 'cmd tc_op =
    OpCampaign node_id
  | OpHeartbeat node_id
  | OpDrain
  | OpSettle
  | OpPropose node_id 'cmd string
  | OpPartition "node_id list" "node_id list"
  | OpHeal
  | OpDuplicate int
  | OpReorder
  | OpCrash node_id
  | OpRestart node_id
  | OpStop

definition no_result :: "('n, unit) run \<Rightarrow> ('n, 'res option) run" where
  "no_result r = run_bind r (\<lambda>tc _. Some (tc, Inr None))"

fun tc_exec :: "('sm, 'cmd, 'res) test_options \<Rightarrow> 'cmd tc_op \<Rightarrow> ('sm, 'res) test_cluster
    \<Rightarrow> (('sm, 'res) test_cluster, 'res option) run" where
  "tc_exec opts (OpCampaign m) tc = no_result (tc_campaign opts m tc)"
| "tc_exec opts (OpHeartbeat m) tc = no_result (tc_heartbeat opts m tc)"
| "tc_exec opts OpDrain tc = no_result (tc_drain opts tc)"
| "tc_exec opts OpSettle tc = no_result (tc_settleLocalWork opts tc)"
| "tc_exec opts (OpPropose m command commandId) tc =
     run_bind (tc_propose opts m command commandId tc) (\<lambda>tc1 x. Some (tc1, Inr (Some x)))"
| "tc_exec opts (OpPartition left right) tc = Some (tc_partition left right tc, Inr None)"
| "tc_exec opts OpHeal tc = Some (tc_heal tc, Inr None)"
| "tc_exec opts (OpDuplicate index) tc = Some (tc_duplicatePending index tc, Inr None)"
| "tc_exec opts OpReorder tc = Some (tc_reorderPending tc, Inr None)"
| "tc_exec opts (OpCrash m) tc = no_result (tc_crash opts m tc)"
| "tc_exec opts (OpRestart m) tc = no_result (tc_restart opts m tc)"
| "tc_exec opts OpStop tc = Some (tc_stop opts tc, Inr None)"

text \<open>The state a script leaves, whatever the calls answer; \<open>None\<close> when one of them does not return.\<close>

fun tc_script :: "('sm, 'cmd, 'res) test_options \<Rightarrow> 'cmd tc_op list \<Rightarrow> ('sm, 'res) test_cluster
    \<Rightarrow> ('sm, 'res) test_cluster option" where
  "tc_script opts [] tc = Some tc"
| "tc_script opts (op # ops) tc = (case tc_exec opts op tc of
     None \<Rightarrow> None | Some (tc1, _) \<Rightarrow> tc_script opts ops tc1)"

end
