(* ===== verification/LiveClusterFacts.thy ===== *)
theory LiveClusterFacts
  imports LiveCluster
begin

text \<open>
  Every call of a live node is a path of the cluster relation.  The locale \<open>live_config\<close> holds what the
  owner of the nodes has to supply: the durable storage and the in-memory transport as the environment of
  its nodes, and options that name the node itself and all members.
\<close>

section \<open>The core of a node never goes back\<close>

lemma apply_entries_core:
  "apply_entries env es nd = Some (nd', r) \<Longrightarrow> nd_core nd' = nd_core nd"
proof (induction env es nd rule: apply_entries.induct)
  case (2 env e es nd)
  obtain nd1 x where one: "apply_entry env e nd = Some (nd1, x)"
    using "2.prems" by (auto simp: run_bind_def split: option.splits)
  have "nd_core nd1 = nd_core nd"
    using one by (auto simp: apply_entry_def apply_command_def persist_at_def resolve_pending_def
        node_fail_def reject_pending_def emit_def Let_def
        split: if_splits option.splits sum.splits prod.splits)
  then show ?case using 2 one by (cases x) (auto simp: run_bind_def)
qed simp

lemma process_core:
  assumes "process env ev nd = Some (nd', r)"
  shows "nd_core nd' = fst (core_step ev (nd_core nd)) \<or>
    (\<exists>c rd. core_step ev (nd_core nd) = (c, Inr (Some rd)) \<and> nd_core nd' = fst (advance (rd_id rd) c))"
proof -
  obtain c x where step: "core_step ev (nd_core nd) = (c, x)" by fastforce
  consider (throws) err where "x = Inl err" | (quiet) "x = Inr None" | (batch) rd where "x = Inr (Some rd)"
    by (cases x) auto
  then show ?thesis
  proof cases
    case (batch rd)
    obtain nd2 y where rdy: "process_ready env rd (nd\<lparr>nd_core := c\<rparr>) = Some (nd2, y)"
      and same: "nd_core nd' = nd_core nd2"
      using assms step batch by (auto simp: process_def run_bind_def split: option.splits sum.splits)
    obtain st z where st: "ne_persist env (ready_batch rd) (nd_storage nd) = (st, z)" by fastforce
    have "nd_core nd2 = c \<or> nd_core nd2 = fst (advance (rd_id rd) c)"
    proof (cases z)
      case (Inl err)
      then show ?thesis using rdy st by (auto simp: process_ready_def persist_at_def Let_def)
    next
      case (Inr u)
      let ?nd1 = "send_all env (rd_outboundMessages rd) (nd\<lparr>nd_core := c, nd_storage := st\<rparr>)"
      obtain nd3 w where ap: "apply_entries env (rd_committedEntries rd) ?nd1 = Some (nd3, w)"
        using rdy st Inr by (auto simp: process_ready_def persist_at_def run_bind_def split: option.splits)
      have "nd_core nd3 = c" using apply_entries_core [OF ap] by simp
      then show ?thesis
        using rdy st Inr ap
        by (cases w) (auto simp: process_ready_def persist_at_def run_bind_def split: prod.splits)
    qed
    then show ?thesis using step batch same by auto
  qed (use assms step in \<open>auto simp: process_def run_bind_def\<close>)
qed

definition not_before :: "raft_core \<Rightarrow> raft_core \<Rightarrow> bool" where
  "not_before c c' \<longleftrightarrow> rc_currentTerm c \<le> rc_currentTerm c' \<and> rc_commitIndex c \<le> rc_commitIndex c' \<and>
     rc_appliedIndex c \<le> rc_appliedIndex c'"

lemma process_not_before:
  assumes "process env ev nd = Some (nd', r)" and "core_wf (nd_core nd)"
  shows "not_before (nd_core nd) (nd_core nd')"
proof -
  note mono = core_step_monotone [OF assms(2), of ev]
  consider (same) "nd_core nd' = fst (core_step ev (nd_core nd))"
    | (advanced) c rd where "core_step ev (nd_core nd) = (c, Inr (Some rd))" "nd_core nd' = fst (advance (rd_id rd) c)"
    using process_core [OF assms(1)] by blast
  then show ?thesis
  proof cases
    case same
    then show ?thesis using mono by (simp add: not_before_def)
  next
    case (advanced c rd)
    obtain c1 e where mk: "makeReady c1 e = (c, Some rd)"
      using core_step_Inr [OF advanced(1) assms(2)] by blast
    note f = ready_fields [OF mk]
    have "\<forall>x \<in> set (rd_committedEntries rd). rc_appliedIndex c < le_index x"
      using f(6,9) by (simp add: committedEntries_def)
    then have "rd_committedEntries rd \<noteq> [] \<Longrightarrow> rc_appliedIndex c < le_index (last (rd_committedEntries rd))"
      by simp
    then have "not_before c (fst (advance (rd_id rd) c))"
      using f(7) by (auto simp: not_before_def advance_def Let_def split: option.splits)
    then show ?thesis using mono advanced by (auto simp: not_before_def)
  qed
qed

section \<open>The relation\<close>

text \<open>A live core and its storage.\<close>

lemma live_durable:
  assumes "cluster_rel ms s cl" and "m \<in> set ms" and "mb_phase (cl_member cl m) = Idle \<or> stuck (cl_member cl m)"
  shows "core_wf (mb_core (cl_member cl m)) \<and>
    hs_currentTerm (ps_hardState (stored cl m)) = rc_currentTerm (mb_core (cl_member cl m)) \<and>
    hs_commitIndex (ps_hardState (stored cl m)) = rc_commitIndex (mb_core (cl_member cl m)) \<and>
    rc_appliedIndex (mb_core (cl_member cl m)) \<le> ps_appliedIndex (stored cl m)"
proof -
  have "member_rel ms s m (cl_member cl m)" using assms(1,2) by (simp add: cluster_rel_def)
  then show ?thesis
    using assms(3) unfolding stuck_def stored_def
    by (auto simp: member_rel_def phase_rel_def live_def node_rel_def)
qed

text \<open>One member moves.\<close>

lemma member_ok_cong:
  assumes "member_ok env machine low lc m mb" and "map_of (lc_live lc') m = map_of (lc_live lc) m"
    and "map_of (lc_storage lc') m = map_of (lc_storage lc) m"
  shows "member_ok env machine low lc' m mb"
  using assms by (auto simp: member_ok_def above_def split: option.splits)

definition same_frame :: "node_id \<Rightarrow> ('sm, 'res, 'z) live_cluster_scheme \<Rightarrow> ('sm, 'res, 'z) live_cluster_scheme \<Rightarrow> bool" where
  "same_frame m lc lc' \<longleftrightarrow> lc_members lc' = lc_members lc \<and>
     distinct (map fst (lc_live lc')) \<and> set (map fst (lc_live lc')) \<subseteq> insert m (set (map fst (lc_live lc))) \<and>
     set (map fst (lc_storage lc)) \<subseteq> set (map fst (lc_storage lc')) \<and>
     set (map fst (lc_storage lc')) \<subseteq> insert m (set (map fst (lc_storage lc))) \<and>
     (\<forall>q. q \<noteq> m \<longrightarrow> map_of (lc_live lc') q = map_of (lc_live lc) q \<and>
       map_of (lc_storage lc') q = map_of (lc_storage lc) q)"

lemma lc_rel_member:
  assumes rel: "lc_rel env opts machine low lc cl" and m: "m \<in> set (lc_members lc)"
    and path: "cluster_steps (lc_members lc) (opts (lc_members lc)) cl
      (put_member m mb (cl\<lparr>cl_net := lc_network lc'\<rparr>))"
    and frame: "same_frame m lc lc'" and ok: "member_ok env machine low lc' m mb"
  shows "lc_rel env opts machine low lc' (put_member m mb (cl\<lparr>cl_net := lc_network lc'\<rparr>))"
proof -
  have "member_ok env machine low lc' q (((cl_member cl)(m := mb)) q)" if "q \<in> set (lc_members lc)" for q
  proof (cases "q = m")
    case False
    then show ?thesis
      using rel frame that member_ok_cong [of env machine low lc q _ lc'] by (simp add: lc_rel_def same_frame_def)
  qed (use ok in simp)
  moreover have "reachable (lc_members lc) (opts (lc_members lc))
      (put_member m mb (cl\<lparr>cl_net := lc_network lc'\<rparr>))"
    using steps_reachable [OF path] rel by (simp add: lc_rel_def)
  moreover have "set (map fst (lc_live lc')) \<subseteq> set (lc_members lc)"
    using rel frame m unfolding lc_rel_def same_frame_def by blast
  moreover have "set (map fst (lc_storage lc')) = set (lc_members lc)"
    using rel frame m unfolding lc_rel_def same_frame_def by blast
  ultimately show ?thesis
    using rel frame unfolding lc_rel_def same_frame_def by auto
qed

lemma lc_rel_cong:
  assumes "lc_rel env opts machine low lc cl" and "lc_members lc' = lc_members lc" "lc_network lc' = lc_network lc"
    "lc_live lc' = lc_live lc" "lc_storage lc' = lc_storage lc"
  shows "lc_rel env opts machine low lc' cl"
  using assms member_ok_cong [of env machine low lc _ _ lc'] by (auto simp: lc_rel_def)

lemma put_live_frame:
  assumes "lc_rel env opts machine low lc cl"
  shows "same_frame m lc (put_live m nd lc)"
  using assms map_set_distinct [of "lc_live lc" m nd] map_set_keys [of m nd "lc_live lc"]
  by (auto simp: same_frame_def put_live_def lc_rel_def)

lemma put_live_simps [simp]:
  "lc_network (put_live m nd lc) = snd (nd_net nd)" "lc_members (put_live m nd lc) = lc_members lc"
  "lc_storage (put_live m nd lc) = lc_storage lc"
  "map_of (lc_live (put_live m nd lc)) = (map_of (lc_live lc))(m \<mapsto> nd)"
  "put_live m nd (lc\<lparr>lc_network := net\<rparr>) = put_live m nd lc"
  by (simp_all add: put_live_def above_def fun_eq_iff)

lemma live_ok_same: "live_ok env machine m mb nd \<Longrightarrow> same_run nd nd' \<Longrightarrow> live_ok env machine m mb nd'"
  by (auto simp: live_ok_def same_run_def runs_as_def)

lemma live_member:
  assumes "lc_rel env opts machine low lc cl" and "m \<in> set (lc_members lc)" and "map_of (lc_live lc) m = Some nd"
  shows "live_ok env machine m (cl_member cl m) nd" and "above (low m) (rc_currentTerm (nd_core nd))
    (rc_commitIndex (nd_core nd)) (rc_appliedIndex (nd_core nd))"
  using assms by (auto simp: lc_rel_def member_ok_def)

text \<open>A node that is left alone, with the network moved on by the owner.\<close>

lemma live_quiet:
  assumes rel: "lc_rel env opts machine low lc cl" and m: "m \<in> set (lc_members lc)"
    and nd: "map_of (lc_live lc) m = Some nd" and same: "same_run nd nd'"
    and net: "snd (nd_net nd') = lc_network lc \<or> net_step (lc_network lc) (snd (nd_net nd'))"
  shows "\<exists>cl'. lc_rel env opts machine low (put_live m nd' lc) cl'"
proof -
  let ?cl' = "put_member m (cl_member cl m) (cl\<lparr>cl_net := snd (nd_net nd')\<rparr>)"
  have cl': "?cl' = cl\<lparr>cl_net := snd (nd_net nd')\<rparr>" by (simp add: put_member_def)
  have n: "cl_net cl = lc_network lc" using rel by (simp add: lc_rel_def)
  have path: "cluster_steps (lc_members lc) (opts (lc_members lc)) cl ?cl'"
  proof (cases "snd (nd_net nd') = lc_network lc")
    case True
    then have "cl\<lparr>cl_net := snd (nd_net nd')\<rparr> = cl" using n by simp
    then show ?thesis unfolding cl' by simp
  next
    case False
    then show ?thesis unfolding cl' using net n by (intro r_into_rtranclp cluster_step.network) simp
  qed
  have "member_ok env machine low (put_live m nd' lc) m (cl_member cl m)"
    using live_member [OF rel m nd] live_ok_same [OF _ same] same
    by (simp add: member_ok_def same_run_def)
  then show ?thesis
    using lc_rel_member [OF rel m _ put_live_frame [OF rel], of "cl_member cl m" nd'] path by auto
qed

lemma deliver_drops:
  "net_deliver i net = (net', Some x) \<Longrightarrow> net_step net net'"
  by (rule net_step.dropped [of i net net' True])
    (auto simp: net_deliver_def net_drop_def Let_def split: prod.splits option.splits if_splits)

section \<open>Calls\<close>

locale live_config =
  fixes env :: "('sm, 'cmd, 'res) live_env"
    and opts :: "node_id list \<Rightarrow> node_id \<Rightarrow> node_options"
    and machine :: "node_id \<Rightarrow> 'sm"
  assumes env_ok: "env_ok env"
    and closes: "ne_close env = handle_close"
    and transport: "ne_start env = transport_start" "ne_stop env = transport_stop"
    and opts_ok: "options_ok ms (opts ms)"
    and opts_valid: "validateOptions (opts ms m) = None"
begin

lemma persist_load: "ne_persist env = handle_persist" "ne_load env = handle_load" "0 \<le> ne_retention env"
  using env_ok by (simp_all add: env_ok_def)

lemma lc_rel_cluster: "lc_rel env opts machine low lc cl \<Longrightarrow> \<exists>s. cluster_rel (lc_members lc) s cl"
  using reachable_rel opts_ok by (auto simp: lc_rel_def)

text \<open>A node handles an event.\<close>

lemma live_event:
  assumes rel: "lc_rel env opts machine low lc cl" and m: "m \<in> set (lc_members lc)"
    and nd: "map_of (lc_live lc) m = Some nd" and same: "same_run nd nd0"
    and ev: "is_local ev \<and> snd (nd_net nd0) = lc_network lc \<or>
      (\<exists>i x. ev = MessageEvent x \<and> net_deliver i (lc_network lc) = (snd (nd_net nd0), Some x) \<and> m_to x = m)"
    and exec: "process env ev nd0 = Some (nd1, r)"
    and after: "same_run nd1 nd'" "snd (nd_net nd') = snd (nd_net nd1)"
  shows "\<exists>cl'. lc_rel env opts machine low (put_live m nd' lc) cl'"
proof -
  let ?ms = "lc_members lc" and ?mb = "cl_member cl m" and ?net = "snd (nd_net nd0)"
  have reach: "reachable ?ms (opts ?ms) cl" and n: "cl_net cl = lc_network lc"
    using rel by (simp_all add: lc_rel_def)
  obtain s where crel: "cluster_rel ?ms s cl" using lc_rel_cluster [OF rel] by blast
  note ok = live_member [OF rel m nd]
  have ok0: "live_ok env machine m ?mb nd0" using live_ok_same [OF ok(1) same] .
  have core: "mb_core ?mb = nd_core nd0" "mb_store ?mb = nd_storage nd0" "nd_core nd0 = nd_core nd"
    using ok0 same by (simp_all add: live_ok_def same_run_def)
  show ?thesis
  proof (cases "stuck ?mb")
    case True
    have "rc_outstanding (nd_core nd0) \<noteq> None" using stuck_outstanding [OF crel m True] core by simp
    then have "nd1 = nd0" using exec by (simp add: stuck_process)
    then have "same_run nd nd'" using same after by (simp add: same_run_def)
    moreover have "snd (nd_net nd') = lc_network lc \<or> net_step (lc_network lc) (snd (nd_net nd'))"
      using ev after \<open>nd1 = nd0\<close> deliver_drops by auto
    ultimately show ?thesis by (rule live_quiet [OF rel m nd])
  next
    case False
    then have idle: "mb_phase ?mb = Idle" and run: "runs_as env (machine m) ?mb nd0"
      using ok0 by (auto simp: live_ok_def)
    have first: "cluster_step ?ms (opts ?ms) cl
        (put_member m (after_step (core_step ev (mb_core ?mb)) ?mb) (cl\<lparr>cl_net := ?net\<rparr>))"
      using ev
    proof
      assume l: "is_local ev \<and> ?net = lc_network lc"
      then have "cl\<lparr>cl_net := ?net\<rparr> = cl" using n by simp
      then show ?thesis using cluster_step.local_event [OF m refl idle, of ev] l by simp
    next
      assume "\<exists>i x. ev = MessageEvent x \<and> net_deliver i (lc_network lc) = (?net, Some x) \<and> m_to x = m"
      then obtain i x where d: "ev = MessageEvent x" "net_deliver i (lc_network lc) = (?net, Some x)" "m_to x = m"
        by blast
      show ?thesis
        unfolding d(1) by (rule cluster_step.deliver [OF m refl idle _ d(3)]) (use d(2) n in simp)
    qed
    obtain mb' net' where p: "cluster_steps ?ms (opts ?ms) cl (put_member m mb' (cl\<lparr>cl_net := net'\<rparr>))"
      "handle_ready (nd_storage nd1)" "mb_core mb' = nd_core nd1" "mb_store mb' = nd_storage nd1"
      "snd (nd_net nd1) = net'" "mt_nodeId (fst (nd_net nd1)) = mt_nodeId (fst (nd_net nd0))"
      "nd_started nd1 = nd_started nd0"
      and res: "mb_phase mb' = Idle \<and> runs_as env (machine m) mb' nd1 \<or> stuck mb'"
      using event_path [OF env_ok opts_ok m reach first idle run _ refl exec] ok0
      unfolding live_ok_def by blast
    have "live_ok env machine m mb' nd1" using p res ok0 by (auto simp: live_ok_def)
    then have live: "live_ok env machine m mb' nd'" by (rule live_ok_same [OF _ after(1)])
    have "core_wf (nd_core nd0)" using live_durable [OF crel m] idle core by simp
    then have "not_before (nd_core nd) (nd_core nd')"
      using process_not_before [OF exec] core(3) after(1) by (simp add: same_run_def)
    then have "member_ok env machine low (put_live m nd' lc) m mb'"
      using live ok(2) by (auto simp: member_ok_def above_def not_before_def)
    then show ?thesis
      using lc_rel_member [OF rel m _ put_live_frame [OF rel], of mb' nd'] p(1,5) after(2) by auto
  qed
qed

text \<open>A node stops.\<close>

lemma stop_rel:
  assumes rel: "lc_rel env opts machine low lc cl" and m: "m \<in> set (lc_members lc)"
    and nd: "map_of (lc_live lc) m = Some nd"
  shows "\<exists>cl'. lc_rel env opts machine low (node_halt env m nd lc) cl'"
proof -
  let ?ms = "lc_members lc" and ?mb = "cl_member cl m"
  let ?lc' = "node_halt env m nd lc" and ?mb' = "(cl_member cl m)\<lparr>mb_phase := Down\<rparr>"
  note ok = live_member [OF rel m nd]
  obtain s where crel: "cluster_rel ?ms s cl" using lc_rel_cluster [OF rel] by blast
  have st: "nd_started nd" "handle_ready (nd_storage nd)" "mt_nodeId (fst (nd_net nd)) = m"
    "mb_core ?mb = nd_core nd" "mb_store ?mb = nd_storage nd" "mb_phase ?mb = Idle \<or> stuck ?mb"
    using ok(1) by (auto simp: live_ok_def)
  have lc': "lc_network ?lc' = net_unregister m (lc_network lc)"
    "lc_live ?lc' = map_delete m (lc_live lc)"
    "lc_storage ?lc' = map_set m (sh_state (nd_storage nd)) (lc_storage lc)"
    "lc_members ?lc' = ?ms"
    using st(1,3) by (simp_all add: node_halt_def Let_def node_stop_def transport closes transport_stop_def
        reject_pending_def handle_close_def)
  have step1: "cluster_step ?ms (opts ?ms) cl (put_member m ?mb' cl)"
    by (rule cluster_step.crash [OF m refl])
  have "net_step (cl_net (put_member m ?mb' cl)) (lc_network ?lc')"
    using rel lc'(1) net_step.unregister by (simp add: lc_rel_def)
  note step2 = cluster_step.network [OF this, of ?ms "opts ?ms"]
  have path: "cluster_steps ?ms (opts ?ms) cl (put_member m ?mb' (cl\<lparr>cl_net := lc_network ?lc'\<rparr>))"
    using step_steps [OF step1 r_into_rtranclp [of "cluster_step ?ms (opts ?ms)", OF step2]] by simp
  have "distinct (map fst (lc_live lc))" using rel by (simp add: lc_rel_def)
  then have frame: "same_frame m lc ?lc'"
    unfolding same_frame_def lc'
    using map_delete_distinct [of "lc_live lc" m] map_delete_keys [of m "lc_live lc"]
      map_set_keys [of m "sh_state (nd_storage nd)" "lc_storage lc"] by auto
  have "member_ok env machine low ?lc' m ?mb'"
    using live_durable [OF crel m st(6)] ok(2) st(2,4,5)
    by (auto simp: member_ok_def lc' down_ok_def above_def handle_ready_def stored_def handle_view_def durable_inspect_def)
  then show ?thesis using lc_rel_member [OF rel m path frame] by blast
qed

text \<open>A node starts.\<close>

lemma settle_ok:
  assumes "handle_ready h" and v: "view_ok (handle_view h)"
  shows "\<exists>h1. settle_applied handle_persist handle_load (handle_view h) h = (h1, Inr (handle_view h1)) \<and>
    handle_ready h1 \<and>
    handle_view h1 = (handle_view h)\<lparr>ps_appliedIndex := hs_commitIndex (ps_hardState (handle_view h))\<rparr>"
proof -
  let ?p = "handle_view h" and ?k = "hs_commitIndex (ps_hardState (handle_view h))"
  have a: "ps_appliedIndex ?p \<le> ?k" using v by (simp add: view_ok_def)
  have "\<exists>h1 p1. settle_applied handle_persist handle_load ?p h = (h1, Inr p1)"
  proof (cases "ps_appliedIndex ?p < ?k")
    case True
    obtain h1 where "handle_persist (applied_batch ?k) h = (h1, Inr ())" "handle_ready h1"
      using durable.persist_accepts [OF assms applied_batch_ok(1) [OF a order_refl v]] by blast
    then show ?thesis using True durable.load_view by (simp add: settle_applied_def)
  qed (simp add: settle_applied_def)
  then obtain h1 p1 where st: "settle_applied handle_persist handle_load ?p h = (h1, Inr p1)" by blast
  then show ?thesis using durable.settle_synced [OF st assms] by auto
qed

text \<open>The outcomes of \<open>create_node\<close> on the storage of a stopped member.\<close>

lemma create_cases:
  assumes h: "handle_ready h" "view_ok (handle_view h)" "ps_snapshot (handle_view h) = None"
    and opts: "validateOptions no = None"
    and cr: "create_node env no net h sm = ((st, sm'), r)"
  shows "(\<exists>err. r = Inl err) \<and> st = h \<or>
    (\<exists>h1. settle_applied handle_persist handle_load (handle_view h) h = (h1, Inr (handle_view h1)) \<and> st = h1 \<and>
      ((\<exists>err. r = Inl err \<and> new_RaftCore (core_options no (handle_view h1)) = Inl err) \<or>
       (\<exists>c. r = Inr (new_node c h1 sm' net) \<and> new_RaftCore (core_options no (handle_view h1)) = Inr c)))"
proof -
  obtain h1 where h1: "settle_applied handle_persist handle_load (handle_view h) h = (h1, Inr (handle_view h1))"
    using settle_ok h(1,2) by blast
  have ld: "handle_load h = (h, Inr (handle_view h))" using durable.load_view [OF h(1)] by simp
  have rs: "restore_machine env (handle_view h) sm = (sm, Inr ())"
    using h(3) by (simp add: restore_machine_def)
  obtain sm2 y where rp: "replay env 0 (hs_commitIndex (ps_hardState (handle_view h)))
      (ps_entries (handle_view h)) sm = (sm2, y)" by fastforce
  show ?thesis
    using cr opts ld rs rp h1 h(3)
    by (cases y) (auto simp: create_node_def persist_load snapshot_index_def split: sum.splits)
qed

lemma down_member:
  assumes "lc_rel env opts machine low lc cl" and "m \<in> set (lc_members lc)" and "map_of (lc_live lc) m = None"
  shows "\<exists>d. map_of (lc_storage lc) m = Some d \<and> down_ok d (cl_member cl m) \<and>
    above (low m) (hs_currentTerm (du_hardState d)) (hs_commitIndex (du_hardState d)) (du_appliedIndex d)"
proof -
  have "member_ok env machine low lc m (cl_member cl m)" using assms(1,2) by (simp add: lc_rel_def)
  then show ?thesis using assms(3) by (simp add: member_ok_def)
qed

text \<open>A stopped member stays stopped, with more of its log marked as applied.\<close>

lemma stays_down:
  assumes rel: "lc_rel env opts machine low lc cl" and m: "m \<in> set (lc_members lc)" and down: "map_of (lc_live lc) m = None"
    and d: "map_of (lc_storage lc) m = Some d" "du_failure d' = None"
      "du_hardState d' = du_hardState d" "du_appliedIndex d \<le> du_appliedIndex d'"
    and path: "cluster_steps (lc_members lc) (opts (lc_members lc)) cl (put_member m mb' cl)"
    and mb': "mb_phase mb' = Down" "sh_state (mb_store mb') = d'"
  shows "\<exists>cl'. lc_rel env opts machine low (lc\<lparr>lc_storage := map_set m d' (lc_storage lc)\<rparr>) cl'"
proof -
  let ?lc' = "lc\<lparr>lc_storage := map_set m d' (lc_storage lc)\<rparr>"
  have cl: "cl\<lparr>cl_net := lc_network ?lc'\<rparr> = cl" using rel by (simp add: lc_rel_def)
  have frame: "same_frame m lc ?lc'"
    using rel map_set_keys [of m d' "lc_storage lc"] by (auto simp: same_frame_def lc_rel_def)
  have "member_ok env machine low ?lc' m mb'"
    using down_member [OF rel m down] d down mb' by (auto simp: member_ok_def down_ok_def above_def)
  then show ?thesis
    using lc_rel_member [OF rel m, of mb' ?lc'] path frame unfolding cl by blast
qed

text \<open>A stopped member starts on what it had stored.\<close>

lemma starts_up:
  assumes rel: "lc_rel env opts machine low lc cl" and m: "m \<in> set (lc_members lc)" and down: "map_of (lc_live lc) m = None"
    and path: "cluster_steps (lc_members lc) (opts (lc_members lc)) cl
      (put_member m mb' (cl\<lparr>cl_net := snd (nd_net nd)\<rparr>))"
    and d: "map_of (lc_storage lc) m = Some d" "du_appliedIndex d \<le> hs_commitIndex (du_hardState d)"
    and live: "live_ok env machine m mb' nd" and core: "core_image (nd_core nd) =
      (durable_inspect d)\<lparr>ps_appliedIndex := hs_commitIndex (du_hardState d)\<rparr>"
  shows "\<exists>cl'. lc_rel env opts machine low (put_live m nd lc) cl'"
proof -
  have "hardState (nd_core nd) = du_hardState d" "rc_appliedIndex (nd_core nd) = hs_commitIndex (du_hardState d)"
    using arg_cong [OF core, of ps_hardState] arg_cong [OF core, of ps_appliedIndex] by simp_all
  then have "rc_currentTerm (nd_core nd) = hs_currentTerm (du_hardState d)"
    "rc_commitIndex (nd_core nd) = hs_commitIndex (du_hardState d)"
    "rc_appliedIndex (nd_core nd) = hs_commitIndex (du_hardState d)"
    using hardState_simps [of "nd_core nd"] by simp_all
  then have "member_ok env machine low (put_live m nd lc) m mb'"
    using down_member [OF rel m down] d live by (auto simp: member_ok_def above_def)
  then show ?thesis
    using lc_rel_member [OF rel m _ put_live_frame [OF rel], of mb' nd] path by auto
qed

lemma start_rel:
  assumes rel: "lc_rel env opts machine low lc cl" and m: "m \<in> set (lc_members lc)" and down: "map_of (lc_live lc) m = None"
    and d: "map_of (lc_storage lc) m = Some d" and run: "node_launch env (opts (lc_members lc) m) (machine m) m d lc = (lc', r)"
  shows "\<exists>cl'. lc_rel env opts machine low lc' cl'"
proof -
  let ?ms = "lc_members lc" and ?mb = "cl_member cl m" and ?no = "opts (lc_members lc) m"
  let ?new = "\<lambda>c h sm. new_node c h sm (net_endpoint m, lc_network lc) :: ('sm, 'res) live_node"
  obtain s where crel: "cluster_rel ?ms s cl" using lc_rel_cluster [OF rel] by blast
  have net: "cl_net cl = lc_network lc" using rel by (simp add: lc_rel_def)
  let ?h = "handle_open d"
  have dk: "down_ok d ?mb" using down_member [OF rel m down] d by auto
  have mb: "mb_phase ?mb = Down" "sh_state (mb_store ?mb) = d" "handle_ready ?h" "du_failure d = None"
    using dk by (simp_all add: down_ok_def handle_ready_def handle_open_def)
  have view: "handle_view ?h = stored cl m" "handle_view ?h = durable_inspect d"
    using mb(2) by (simp_all add: stored_def handle_view_def handle_open_def)
  have ok: "view_ok (handle_view ?h)" "ps_snapshot (handle_view ?h) = None"
    using stored_rel [OF crel m] view by (simp_all add: durable_rel_def)
  then have le: "du_appliedIndex d \<le> hs_commitIndex (du_hardState d)" using view(2) by (simp add: view_ok_def)
  have val: "validateOptions ?no = None" by (simp add: opts_valid)
  obtain st sm' x where cr: "create_node env ?no (net_endpoint m, lc_network lc) ?h
      (machine m) = ((st, sm'), x)" by (metis surj_pair)
  note stay = stays_down [OF rel m down d]
  consider (early) err where "x = Inl err" "st = ?h"
    | (settled) h1 where "settle_applied handle_persist handle_load (handle_view ?h) ?h = (h1, Inr (handle_view h1))"
        "st = h1" "(\<exists>err. x = Inl err \<and> new_RaftCore (core_options ?no (handle_view h1)) = Inl err) \<or>
         (\<exists>c. x = Inr (?new c h1 sm') \<and> new_RaftCore (core_options ?no (handle_view h1)) = Inr c)"
    using create_cases [OF mb(3) ok val cr] by blast
  then show ?thesis
  proof cases
    case early
    then have "lc' = lc\<lparr>lc_storage := map_set m d (lc_storage lc)\<rparr>"
      using run cr by (simp add: node_launch_def handle_open_def)
    then show ?thesis using stay [of d ?mb] mb by simp
  next
    case settled
    have h1: "handle_ready h1" "durable_inspect (sh_state h1) =
        (durable_inspect d)\<lparr>ps_appliedIndex := hs_commitIndex (du_hardState d)\<rparr>"
      using settle_ok [OF mb(3) ok(1)] settled(1) view(2) by (auto simp: handle_view_def handle_open_def)
    then have s1: "du_hardState (sh_state h1) = du_hardState d" "du_failure (sh_state h1) = None"
      "du_appliedIndex d \<le> du_appliedIndex (sh_state h1)"
      using le by (simp_all add: durable_inspect_def handle_ready_def)
    have restart: "cluster_step ?ms (opts ?ms) cl (put_member m (restart_member ?no ?mb) cl)"
      by (rule cluster_step.restart [OF m refl mb(1)])
    show ?thesis
    proof (cases "new_RaftCore (core_options ?no (handle_view h1))")
      case (Inl err)
      then have x: "x = Inl err" using settled(3) by auto
      have mb': "restart_member ?no ?mb = ?mb\<lparr>mb_store := h1\<rparr>"
        using settled(1) Inl mb(2) by (simp add: restart_member_def Let_def)
      have "lc' = lc\<lparr>lc_storage := map_set m (sh_state h1) (lc_storage lc)\<rparr>"
        using run cr x settled(2) by (simp add: node_launch_def)
      then show ?thesis
        using stay [OF s1(2,1,3), of "?mb\<lparr>mb_store := h1\<rparr>"] mb(1)
          r_into_rtranclp [of "cluster_step ?ms (opts ?ms)", OF restart] by (simp add: mb')
    next
      case (Inr c)
      then have x: "x = Inr (?new c h1 sm')" using settled(3) by auto
      let ?mb1 = "\<lparr>mb_store = h1, mb_core = c, mb_phase = Idle, mb_applied = applied_part c\<rparr>"
      have step1: "cluster_step ?ms (opts ?ms) cl (put_member m ?mb1 cl)"
        using restart settled(1) Inr mb(2) by (simp add: restart_member_def Let_def)
      obtain net1 y where reg: "net_register m (lc_network lc) = (net1, y)" by fastforce
      note start = node_launch_def node_start_def new_node_def transport transport_start_def net_endpoint_def
      show ?thesis
      proof (cases y)
        case (Inl err)
        then have "net1 = lc_network lc" using reg by (simp add: net_register_def split: if_splits)
        then have lc': "lc' = lc\<lparr>lc_storage := map_set m (sh_state h1) (lc_storage lc)\<rparr>"
          using run cr x reg Inl by (simp add: start)
        have "cluster_step ?ms (opts ?ms) (put_member m ?mb1 cl) (put_member m (?mb1\<lparr>mb_phase := Down\<rparr>) cl)"
          using cluster_step.crash [OF m refl, of "opts ?ms" "put_member m ?mb1 cl"] by simp
        then show ?thesis
          using stay [OF s1(2,1,3), of "?mb1\<lparr>mb_phase := Down\<rparr>"] step_steps [OF step1] by (auto simp: lc')
      next
        case (Inr u)
        let ?nd = "(?new c h1 sm')\<lparr>nd_net := (\<lparr>mt_nodeId = m, mt_started = True\<rparr>, net1), nd_started := True\<rparr>"
        have lc': "lc' = put_live m ?nd lc" using run cr x reg Inr by (simp add: start)
        have "cluster_step ?ms (opts ?ms) (put_member m ?mb1 cl) (put_member m ?mb1 (cl\<lparr>cl_net := net1\<rparr>))"
          using cluster_step.network [of "put_member m ?mb1 cl" net1] net_step.register [of m "lc_network lc" net1]
            reg Inr net by simp
        then have path: "cluster_steps ?ms (opts ?ms) cl (put_member m ?mb1 (cl\<lparr>cl_net := net1\<rparr>))"
          using step_steps [OF step1] by auto
        have synced: "core_image c = (durable_inspect d)\<lparr>ps_appliedIndex := hs_commitIndex (du_hardState d)\<rparr> \<and>
            machine_ok env (machine m) (?new c h1 sm')"
          using durable.create_synced [OF cr [unfolded x] _ _ mb(3) ok(1)] ok(2) view(2)
          by (simp add: persist_load new_node_def)
        then have "live_ok env machine m ?mb1 ?nd"
          using h1(1) by (simp add: live_ok_def new_node_def runs_as_def machine_ok_def)
        then show ?thesis
          using starts_up [OF rel m down _ d le, of ?mb1 ?nd] path synced by (simp add: lc' new_node_def)
      qed
    qed
  qed
qed

end

end
