(* ===== verification/LiveClusterCalls.thy ===== *)
theory LiveClusterCalls
  imports LiveClusterFacts
begin

text \<open>
  The calls of live nodes at the level of states: each keeps a state related to some reachable state of the
  cluster, and each returns.
\<close>

section \<open>Runs\<close>

text \<open>All states a call can leave satisfy \<open>P\<close>.\<close>

definition leaves :: "('n \<Rightarrow> bool) \<Rightarrow> ('n \<times> 'x) option \<Rightarrow> bool" where
  "leaves P r \<longleftrightarrow> (\<forall>s x. r = Some (s, x) \<longrightarrow> P s)"

definition returns :: "'x option \<Rightarrow> bool" where
  "returns r \<longleftrightarrow> r \<noteq> None"

lemma leaves_Some [simp]: "leaves P (Some (s, x)) \<longleftrightarrow> P s" and leaves_None [simp]: "leaves P None"
  by (simp_all add: leaves_def)

lemma returns_Some [simp]: "returns (Some x)"
  by (simp add: returns_def)

lemma leaves_bind:
  assumes "leaves P r" and "\<And>s x. P s \<Longrightarrow> leaves P (k s x)"
  shows "leaves P (run_bind r k)"
proof (cases r)
  case (Some p)
  then show ?thesis using assms by (cases p; cases "snd p") (auto simp: run_bind_def leaves_def)
qed (simp add: run_bind_def)

lemma returns_bind: "returns r \<Longrightarrow> (\<And>s x. returns (k s x)) \<Longrightarrow> returns (run_bind r k)"
  by (auto simp: returns_def run_bind_def split: option.splits sum.splits)

section \<open>Calls of a node\<close>

lemma same_run_refl: "same_run nd nd"
  by (simp add: same_run_def)

lemma process_local: "is_local ev \<Longrightarrow> local_call env (process env ev)"
  unfolding local_call_def same_run_def by blast

lemma campaign_local: "local_call env (campaign env timeout)"
  using process_local [of "ElectionTimeout timeout" env] same_run_refl
  by (auto simp: local_call_def campaign_def split: option.splits)

lemma heartbeat_local: "local_call env (heartbeat env)"
  using process_local [of HeartbeatTimeout env] same_run_refl
  by (auto simp: local_call_def heartbeat_def split: option.splits)

lemma propose_begin_same:
  "propose_begin env command cid nd = (nd1, p) \<Longrightarrow> same_run nd nd1 \<and> snd (nd_net nd1) = snd (nd_net nd)"
  by (auto simp: propose_begin_def same_run_def Let_def split: option.splits sum.splits if_splits)

lemma propose_local:
  "local_call env (\<lambda>nd. map_option (\<lambda>(nd1, p). (nd1, Inr p)) (propose_node env command cid nd))"
  unfolding local_call_def
proof (intro allI impI, goal_cases)
  case (1 nd nd' r)
  obtain nd1 p where b: "propose_begin env command cid nd = (nd1, p)" by fastforce
  note same = propose_begin_same [OF b]
  show ?case
  proof (cases "\<exists>t payload. p = Registered t payload")
    case True
    then obtain t payload where p: "p = Registered t payload" by blast
    then obtain nd2 y where pr: "process env (Propose cid payload) nd1 = Some (nd2, y)"
      and "same_run nd2 nd'" "snd (nd_net nd') = snd (nd_net nd2)"
      using 1 b by (auto simp: propose_node_def propose_run_def same_run_def split: option.splits sum.splits)
    moreover have "is_local (Propose cid payload)" by simp
    ultimately show ?thesis using pr same by blast
  next
    case False
    then have "nd' = nd1" using 1 b by (cases p) (auto simp: propose_node_def)
    then show ?thesis using same by simp
  qed
qed

section \<open>The relation is kept\<close>

lemma lc_ok_cong:
  assumes "lc_network lc' = lc_network lc" "lc_members lc' = lc_members lc" "lc_live lc' = lc_live lc"
    "lc_storage lc' = lc_storage lc"
  shows "lc_ok env opts machine low lc' = lc_ok env opts machine low lc"
proof -
  have "lc_ok env opts machine low b" if "lc_ok env opts machine low a" "lc_network b = lc_network a"
    "lc_members b = lc_members a" "lc_live b = lc_live a" "lc_storage b = lc_storage a" for a b
    using that lc_rel_cong [of env opts machine low a _ b] by (auto simp: lc_ok_def)
  then show ?thesis using assms by metis
qed

lemma live_keys:
  assumes "lc_rel env opts machine low lc cl" and "map_of (lc_live lc) m = Some nd"
  shows "m \<in> set (lc_members lc)"
proof -
  have "m \<in> set (map fst (lc_live lc))" using map_of_SomeD [OF assms(2)] by force
  then show ?thesis using assms(1) by (auto simp: lc_rel_def)
qed

lemma lc_ok_network:
  assumes "lc_ok env opts machine low lc" and "net_step (lc_network lc) net"
  shows "lc_ok env opts machine low (lc\<lparr>lc_network := net\<rparr>)"
proof -
  obtain cl where rel: "lc_rel env opts machine low lc cl" using assms(1) by (auto simp: lc_ok_def)
  then have "cluster_step (lc_members lc) (opts (lc_members lc)) cl (cl\<lparr>cl_net := net\<rparr>)"
    using assms(2) by (intro cluster_step.network) (simp add: lc_rel_def)
  then have "reachable (lc_members lc) (opts (lc_members lc)) (cl\<lparr>cl_net := net\<rparr>)"
    using rel reachable.move by (auto simp: lc_rel_def)
  moreover have "member_ok env machine low (lc\<lparr>lc_network := net\<rparr>) q mb" if "member_ok env machine low lc q mb" for q mb
    by (rule member_ok_cong [OF that]) simp_all
  ultimately have "lc_rel env opts machine low (lc\<lparr>lc_network := net\<rparr>) (cl\<lparr>cl_net := net\<rparr>)"
    using rel by (simp add: lc_rel_def)
  then show ?thesis by (auto simp: lc_ok_def)
qed

text \<open>A new cluster with nothing running.\<close>

lemma new_cluster_ok:
  assumes "lc_network lc = new_network" and "lc_live lc = []"
    and "set (map fst (lc_storage lc)) = set (lc_members lc)"
    and "\<forall>m \<in> set (lc_members lc). map_of (lc_storage lc) m = Some new_durable_state"
    and "\<forall>m \<in> set (lc_members lc). above (low m) 0 0 0"
  shows "lc_ok env opts machine low lc"
proof -
  let ?cl = "\<lparr>cl_member = (\<lambda>n. fresh_member undefined), cl_net = new_network\<rparr>"
  have "reachable (lc_members lc) (opts (lc_members lc)) ?cl"
    by (rule reachable.start) (auto simp: cluster_start_def)
  moreover have "member_ok env machine low lc m (fresh_member undefined)" if "m \<in> set (lc_members lc)" for m
    using that assms(2,4,5)
    by (auto simp: member_ok_def down_ok_def fresh_member_def handle_open_def new_durable_state_def)
  ultimately have "lc_rel env opts machine low lc ?cl"
    using assms(1-3) by (simp add: lc_rel_def)
  then show ?thesis by (auto simp: lc_ok_def)
qed

context live_config
begin

lemma call_ok:
  assumes ok: "lc_ok env opts machine low lc" and call: "local_call env f"
    and nd: "map_of (lc_live lc) m = Some nd"
  shows "leaves (lc_ok env opts machine low) (node_call m f nd lc)"
proof -
  obtain cl where rel: "lc_rel env opts machine low lc cl" using ok by (auto simp: lc_ok_def)
  let ?nd0 = "nd\<lparr>nd_net := (fst (nd_net nd), lc_network lc)\<rparr>"
  have "lc_ok env opts machine low (put_live m nd' lc)" if f: "f ?nd0 = Some (nd', r)" for nd' r
  proof -
    note m = live_keys [OF rel nd]
    have same: "same_run nd ?nd0" by (simp add: same_run_def)
    consider (quiet) "same_run ?nd0 nd'" "snd (nd_net nd') = snd (nd_net ?nd0)"
      | (event) ev nd1 nd2 y where "is_local ev" "same_run ?nd0 nd1" "snd (nd_net nd1) = snd (nd_net ?nd0)"
          "process env ev nd1 = Some (nd2, y)" "same_run nd2 nd'" "snd (nd_net nd') = snd (nd_net nd2)"
      using call f unfolding local_call_def by blast
    then show ?thesis
    proof cases
      case quiet
      then have "same_run nd nd'" using same by (simp add: same_run_def)
      then show ?thesis using live_quiet [OF rel m nd] quiet(2) by (auto simp: lc_ok_def)
    next
      case event
      then have "same_run nd nd1" using same by (simp add: same_run_def)
      then show ?thesis
        using live_event [OF rel m nd _ _ event(4-6)] event(1,3) by (auto simp: lc_ok_def)
    qed
  qed
  then show ?thesis by (auto simp: leaves_def node_call_def split: option.splits)
qed

text \<open>A delivered message, handled by the node it reaches.\<close>

lemma deliver_ok:
  assumes ok: "lc_ok env opts machine low lc" and d: "net_deliver index (lc_network lc) = (net, Some msg)"
  shows "leaves (lc_ok env opts machine low) (handle_message env msg (lc\<lparr>lc_network := net\<rparr>))"
proof (cases "map_of (lc_live lc) (m_to msg)")
  case None
  then show ?thesis
    using lc_ok_network [OF ok deliver_drops [OF d]] by (simp add: handle_message_def)
next
  case (Some nd)
  obtain cl where rel: "lc_rel env opts machine low lc cl" using ok by (auto simp: lc_ok_def)
  have "lc_ok env opts machine low (put_live (m_to msg) nd' (lc\<lparr>lc_network := net\<rparr>))"
    if p: "process env (MessageEvent msg) (nd\<lparr>nd_net := (fst (nd_net nd), net)\<rparr>) = Some (nd', r)" for nd' r
  proof -
    let ?nd0 = "nd\<lparr>nd_net := (fst (nd_net nd), net)\<rparr>"
    have same: "same_run nd ?nd0" by (simp add: same_run_def)
    have "\<exists>cl'. lc_rel env opts machine low (put_live (m_to msg) nd' lc) cl'"
      using d by (intro live_event [OF rel live_keys [OF rel Some] Some same _ p same_run_refl refl]) auto
    then show ?thesis by (simp add: lc_ok_def)
  qed
  then show ?thesis using Some by (auto simp: leaves_def handle_message_def node_call_def split: option.splits)
qed

lemma halt_ok:
  assumes "lc_ok env opts machine low lc" and "map_of (lc_live lc) m = Some nd"
  shows "lc_ok env opts machine low (node_halt env m nd lc)"
  using assms stop_rel live_keys unfolding lc_ok_def by blast

lemma launch_ok:
  assumes ok: "lc_ok env opts machine low lc" and down: "map_of (lc_live lc) m = None"
    and d: "map_of (lc_storage lc) m = Some d"
    and s: "node_launch env (opts (lc_members lc) m) (machine m) m d lc = (lc', r)"
  shows "lc_ok env opts machine low lc'"
proof -
  obtain cl where rel: "lc_rel env opts machine low lc cl" using ok by (auto simp: lc_ok_def)
  have "m \<in> set (map fst (lc_storage lc))" using map_of_SomeD [OF d] by force
  then have "m \<in> set (lc_members lc)" using rel by (auto simp: lc_rel_def)
  then show ?thesis using start_rel [OF rel _ down d s] by (auto simp: lc_ok_def)
qed

text \<open>A live node, seen in the cluster.\<close>

lemma live_facts:
  assumes rel: "lc_rel env opts machine low lc cl" and nd: "map_of (lc_live lc) m = Some nd"
  shows "m \<in> set (lc_members lc)" and "up (cl_member cl m)" and "core_of cl m = nd_core nd"
    and "rc_nodeId (nd_core nd) = m"
proof -
  obtain s where crel: "cluster_rel (lc_members lc) s cl" using lc_rel_cluster [OF rel] by blast
  show m: "m \<in> set (lc_members lc)" by (rule live_keys [OF rel nd])
  note ok = live_member(1) [OF rel m nd]
  show up: "up (cl_member cl m)" using ok by (auto simp: live_ok_def up_def stuck_def)
  show core: "core_of cl m = nd_core nd" using ok by (simp add: live_ok_def core_of_def)
  have "member_rel (lc_members lc) s m (cl_member cl m)" "sim_ok (lc_members lc) s"
    using crel m by (simp_all add: cluster_rel_def)
  then obtain s' where "node_rel (lc_members lc) s' m (mb_core (cl_member cl m))"
    using up_rel [OF _ up] by blast
  then show "rc_nodeId (nd_core nd) = m" using core by (simp add: node_rel_def core_of_def)
qed

lemma member_storage_stored:
  assumes rel: "lc_rel env opts machine low lc cl" and m: "m \<in> set (lc_members lc)"
  shows "\<exists>d. member_storage m lc = Some d \<and> durable_inspect d = stored cl m"
proof (cases "map_of (lc_live lc) m")
  case None
  then show ?thesis
    using down_member [OF assms] by (auto simp: member_storage_def stored_def handle_view_def down_ok_def)
next
  case (Some nd)
  have "set (map fst (lc_storage lc)) = set (lc_members lc)" using rel by (simp add: lc_rel_def)
  then have "map_of (lc_storage lc) m \<noteq> None" using m by (auto simp: map_of_eq_None_iff)
  then show ?thesis
    using live_member [OF rel m Some] Some by (auto simp: member_storage_def stored_def handle_view_def live_ok_def)
qed

lemma live_leaders:
  assumes ok: "lc_ok env opts machine low lc"
    and a: "map_of (lc_live lc) a = Some x" "rc_role (nd_core x) = Leader"
    and b: "map_of (lc_live lc) b = Some y" "rc_role (nd_core y) = Leader"
    and same: "rc_currentTerm (nd_core x) = rc_currentTerm (nd_core y)"
  shows "a = b"
proof -
  obtain cl where rel: "lc_rel env opts machine low lc cl" using ok by (auto simp: lc_ok_def)
  obtain s where crel: "cluster_rel (lc_members lc) s cl" using lc_rel_cluster [OF rel] by blast
  note fa = live_facts [OF rel a(1)] and fb = live_facts [OF rel b(1)]
  show ?thesis
    by (rule same_term_leaders [OF crel fa(1) fb(1) fa(2) fb(2)]) (simp_all add: fa(3) fb(3) a(2) b(2) same)
qed

text \<open>State machines that have applied the same number of entries are in the same state.\<close>

lemma same_applied_same_machine:
  assumes rel: "lc_rel env opts machine low lc cl" and un: "machine a = machine b"
    and a: "map_of (lc_live lc) a = Some x" "rc_appliedIndex (nd_core x) = rc_commitIndex (nd_core x)"
    and b: "map_of (lc_live lc) b = Some y" "rc_appliedIndex (nd_core y) = rc_commitIndex (nd_core y)"
    and same: "rc_appliedIndex (nd_core x) = rc_appliedIndex (nd_core y)"
  shows "nd_machine x = nd_machine y"
proof -
  obtain s where crel: "cluster_rel (lc_members lc) s cl" using lc_rel_cluster [OF rel] by blast
  have run: "run_commands env (take (nat (rc_appliedIndex (nd_core nd))) (ps_entries (stored cl n))) (machine n) =
      (nd_machine nd, Inr ()) \<and> nat (rc_appliedIndex (nd_core nd)) \<le> commit_of cl n"
    if nd: "map_of (lc_live lc) n = Some nd" "rc_appliedIndex (nd_core nd) = rc_commitIndex (nd_core nd)" for n nd
  proof -
    note n = live_keys [OF rel nd(1)] and ok = live_member [OF rel live_keys [OF rel nd(1)] nd(1)]
    have core: "mb_core (cl_member cl n) = nd_core nd" using ok(1) by (simp add: live_ok_def)
    then have "\<not> stuck (cl_member cl n)" using stuck_outstanding [OF crel n] nd(2) by fastforce
    then have idle: "mb_phase (cl_member cl n) = Idle" and r: "runs_as env (machine n) (cl_member cl n) nd"
      using ok(1) by (auto simp: live_ok_def)
    have "member_rel (lc_members lc) s n (cl_member cl n)" using crel n by (simp add: cluster_rel_def)
    then have l: "live (lc_members lc) s n (nd_core nd)" "mb_applied (cl_member cl n) = applied_part (nd_core nd)"
      using idle core by (simp_all add: member_rel_def phase_rel_def)
    then show ?thesis
      using applied_part_take [OF l(1)] stored_fields(1,2) [OF crel n] r by (simp add: runs_as_def)
  qed
  note ra = run [OF a] and rb = run [OF b]
  have "take (nat (rc_appliedIndex (nd_core x))) (ps_entries (stored cl a)) =
      take (nat (rc_appliedIndex (nd_core x))) (ps_entries (stored cl b))"
    using stored_committed_agree [OF crel live_keys [OF rel a(1)] live_keys [OF rel b(1)]] ra rb same by simp
  then show ?thesis using ra rb same un by simp
qed

text \<open>Calls return.\<close>

lemma process_returns: "process env ev nd \<noteq> None"
  using process_ends persist_load(3) by blast

lemma returns_call: "(\<And>nd. returns (f nd)) \<Longrightarrow> returns (node_call m f nd lc)"
  unfolding node_call_def returns_def
  by (metis (mono_tags, lifting) option.case_eq_if option.collapse option.distinct(1) prod.case_eq_if)

lemma returns_node_calls: "returns (campaign env timeout nd)" "returns (heartbeat env nd)"
  using process_returns by (auto simp: campaign_def heartbeat_def returns_def split: option.split)

lemma returns_propose:
  "returns (map_option (\<lambda>(nd1, p). (nd1, Inr p)) (propose_node env command cid nd))"
proof -
  obtain nd1 p where b: "propose_begin env command cid nd = (nd1, p)" by fastforce
  have "propose_run env cid t payload nd1 \<noteq> None" for t payload
    using process_returns [of "Propose cid payload" nd1] by (auto simp: propose_run_def split: option.split sum.split)
  then show ?thesis using b by (cases p) (auto simp: propose_node_def returns_def)
qed

lemma returns_handle: "returns (handle_message env m lc)"
  using returns_call [of "process env (MessageEvent m)"] process_returns
  by (auto simp: handle_message_def returns_def split: option.split)

end

section \<open>What a launch leaves alone\<close>

lemma put_live_members: "lc_members (put_live m nd lc) = lc_members lc"
  by simp

lemma call_frame:
  "node_call m f nd lc = Some (lc', r) \<Longrightarrow> \<exists>nd'. lc' = put_live m nd' lc"
  by (auto simp: node_call_def split: option.splits)

lemma launch_Inr:
  assumes "node_launch env no sm0 m d lc = (lc', Inr ())"
  shows "\<exists>p c. new_RaftCore (core_options no p) = Inr c" and "\<exists>nd. lc' = put_live m nd lc"
proof -
  obtain st sm nd nd1 where cr: "create_node env no (net_endpoint m, lc_network lc) (handle_open d) sm0 = ((st, sm), Inr nd)"
    and lc': "lc' = put_live m nd1 lc"
    using assms by (auto simp: node_launch_def split: sum.splits prod.splits)
  show "\<exists>p c. new_RaftCore (core_options no p) = Inr c"
    using cr by (auto simp: create_node_def split: option.splits sum.splits prod.splits)
  show "\<exists>nd. lc' = put_live m nd lc" using lc' by blast
qed

lemma halt_live [simp]: "lc_live (node_halt env m nd lc) = map_delete m (lc_live lc)"
  "lc_members (node_halt env m nd lc) = lc_members lc"
  by (simp_all add: node_halt_def Let_def)

end
