(* ===== verification/TestClusterFacts.thy ===== *)
theory TestClusterFacts
  imports TestCluster LiveClusterCalls
begin

text \<open>
  The test cluster is a live cluster: the locale \<open>live_config\<close> is interpreted on its nodes, with the terms and
  indexes it has recorded as lower bounds.  Its assertions hold in every related state, and every operation
  keeps the relation.
\<close>

section \<open>The relation\<close>

interpretation harness: live_config "tc_env opts" tc_node_options "to_createStateMachine opts"
  for opts :: "('sm, 'cmd, 'res) test_options"
  by unfold_locales (simp_all add: env_ok_def tc_env_def options_ok_def tc_node_options_def validateOptions_def)

definition lasts :: "('sm, 'res) test_cluster \<Rightarrow> node_id \<Rightarrow> int \<times> int \<times> int" where
  "lasts tc m = (last_of m (tc_lastTerms tc), last_of m (tc_lastCommits tc), last_of m (tc_lastApplied tc))"

abbreviation tc_rel :: "('sm, 'cmd, 'res) test_options \<Rightarrow> ('sm, 'res) test_cluster \<Rightarrow> cluster \<Rightarrow> bool" where
  "tc_rel opts tc cl \<equiv> lc_rel (tc_env opts) tc_node_options (to_createStateMachine opts) (lasts tc) tc cl"

abbreviation tc_ok :: "('sm, 'cmd, 'res) test_options \<Rightarrow> ('sm, 'res) test_cluster \<Rightarrow> bool" where
  "tc_ok opts tc \<equiv> lc_ok (tc_env opts) tc_node_options (to_createStateMachine opts) (lasts tc) tc"

lemma lasts_simps [simp]:
  "lasts (put_live m nd tc) = lasts tc" "lasts (node_halt env m nd tc) = lasts tc"
  "lasts (tc\<lparr>lc_network := net\<rparr>) = lasts tc" "lasts (tc\<lparr>tc_random := r\<rparr>) = lasts tc"
  "lasts (tc\<lparr>lc_storage := st\<rparr>) = lasts tc"
  by (simp_all add: lasts_def put_live_def node_halt_def Let_def fun_eq_iff)

section \<open>The assertions hold\<close>

text \<open>The status of the live members.\<close>

lemma live_status:
  assumes rel: "tc_rel opts tc cl" and m: "m \<in> set (lc_members tc)"
    and nd: "map_of (lc_live tc) m = Some nd"
  shows "status_violation m (status (nd_core nd)) tc = None" and "up (cl_member cl m)"
    and "core_of cl m = nd_core nd"
proof -
  obtain s where crel: "cluster_rel (lc_members tc) s cl" using harness.lc_rel_cluster [OF rel] by blast
  note ok = live_member [OF rel m nd]
  have ph: "mb_phase (cl_member cl m) = Idle \<or> stuck (cl_member cl m)"
    and core: "mb_core (cl_member cl m) = nd_core nd" using ok(1) by (auto simp: live_ok_def)
  have "core_wf (nd_core nd)" using live_durable [OF crel m ph] core by simp
  then have "rc_appliedIndex (nd_core nd) \<le> rc_commitIndex (nd_core nd) \<and>
      rc_commitIndex (nd_core nd) \<le> lastLogIndex (nd_core nd)"
    by (simp add: core_wf_def assertInvariants_None log_ok_def)
  then show "status_violation m (status (nd_core nd)) tc = None"
    using ok(2) by (simp add: status_violation_def status_def lasts_def above_def)
  show "up (cl_member cl m)" and "core_of cl m = nd_core nd" using harness.live_facts [OF rel nd] by simp_all
qed

lemma note_status_rel:
  assumes rel: "tc_rel opts tc cl" and m: "m \<in> set (lc_members tc)"
    and nd: "map_of (lc_live tc) m = Some nd"
  shows "tc_rel opts (note_status m (status (nd_core nd)) tc) cl"
proof -
  let ?tc' = "note_status m (status (nd_core nd)) tc"
  have same: "lc_live ?tc' = lc_live tc" "lc_storage ?tc' = lc_storage tc"
    "above (lasts ?tc' q) t c a = (if q = m then rc_currentTerm (nd_core nd) \<le> t \<and>
       rc_commitIndex (nd_core nd) \<le> c \<and> rc_appliedIndex (nd_core nd) \<le> a else above (lasts tc q) t c a)" for q t c a
    by (auto simp: note_status_def lasts_def above_def last_of_def status_def)
  have "member_ok (tc_env opts) (to_createStateMachine opts) (lasts ?tc') ?tc' q (cl_member cl q)"
    if "q \<in> set (lc_members tc)" for q
  proof -
    have "member_ok (tc_env opts) (to_createStateMachine opts) (lasts tc) tc q (cl_member cl q)"
      using rel that by (simp add: lc_rel_def)
    then show ?thesis using nd by (cases "q = m") (auto simp: member_ok_def same split: option.splits)
  qed
  then show ?thesis using rel by (simp add: lc_rel_def note_status_def)
qed

definition noted_leaders :: "('sm, 'res) test_cluster \<Rightarrow> (int \<times> node_id) list \<Rightarrow> bool" where
  "noted_leaders tc leaders \<longleftrightarrow> (\<forall>t q. map_of leaders t = Some q \<longrightarrow> q \<in> set (lc_members tc) \<and>
     (\<exists>nd. map_of (lc_live tc) q = Some nd \<and> rc_role (nd_core nd) = Leader \<and> rc_currentTerm (nd_core nd) = t))"

lemma check_live_ok:
  assumes "tc_rel opts tc cl" and "\<forall>(m, nd) \<in> set xs. m \<in> set (lc_members tc) \<and> map_of (lc_live tc) m = Some nd"
    and "noted_leaders tc leaders"
  shows "\<exists>tc1. check_live xs leaders tc = (tc1, Inr ()) \<and> tc_rel opts tc1 cl \<and>
    lc_live tc1 = lc_live tc \<and> lc_members tc1 = lc_members tc \<and> tc_random tc1 = tc_random tc"
  using assms
proof (induction xs arbitrary: leaders tc)
  case (Cons x xs)
  obtain m nd where x: "x = (m, nd)" by fastforce
  have m: "m \<in> set (lc_members tc)" "map_of (lc_live tc) m = Some nd" using Cons.prems(2) x by auto
  note st = live_status [OF Cons.prems(1) m]
  let ?st = "status (nd_core nd)" and ?tc = "note_status m (status (nd_core nd)) tc"
  have same: "lc_live ?tc = lc_live tc" "lc_members ?tc = lc_members tc" "tc_random ?tc = tc_random tc"
    by (simp_all add: note_status_def)
  have r: "st_role ?st = rc_role (nd_core nd)" "st_currentTerm ?st = rc_currentTerm (nd_core nd)"
    by (simp_all add: status_def)
  note IH = Cons.IH [OF note_status_rel [OF Cons.prems(1) m]]
  have noted: "noted_leaders ?tc leaders" using Cons.prems(3) by (simp add: noted_leaders_def same)
  show ?case
  proof (cases "rc_role (nd_core nd) = Leader")
    case False
    then show ?thesis using IH [of leaders] noted Cons.prems(2) st(1) by (auto simp: x Let_def r same)
  next
    case True
    have "q = m" if q: "map_of leaders (rc_currentTerm (nd_core nd)) = Some q" for q
    proof -
      obtain nd' where nd': "q \<in> set (lc_members tc)" "map_of (lc_live tc) q = Some nd'"
        "rc_role (nd_core nd') = Leader" "rc_currentTerm (nd_core nd') = rc_currentTerm (nd_core nd)"
        using Cons.prems(3) q by (auto simp: noted_leaders_def)
      note st' = live_status [OF Cons.prems(1) nd'(1,2)]
      obtain s where "cluster_rel (lc_members tc) s cl" using harness.lc_rel_cluster [OF Cons.prems(1)] by blast
      then show ?thesis using same_term_leaders nd' m(1) True st(2,3) st'(2,3) by metis
    qed
    moreover have "noted_leaders ?tc (map_set (rc_currentTerm (nd_core nd)) m leaders)"
      using noted m True by (auto simp: noted_leaders_def same)
    ultimately show ?thesis
      using IH [of "map_set (rc_currentTerm (nd_core nd)) m leaders"] Cons.prems(2) st(1) True
      by (auto simp: x Let_def r same)
  qed
qed simp

text \<open>The durable logs.\<close>

lemma durableState_stored:
  assumes "tc_rel opts tc cl" and "m \<in> set (lc_members tc)"
  shows "\<exists>d. durableState m tc = Inr d \<and> durable_inspect d = stored cl m"
proof (cases "map_of (lc_live tc) m")
  case None
  then show ?thesis
    using harness.down_member [OF assms] by (auto simp: durableState_def stored_def handle_view_def down_ok_def)
next
  case (Some nd)
  have "set (map fst (lc_storage tc)) = set (lc_members tc)" using assms(1) by (simp add: lc_rel_def)
  then have "map_of (lc_storage tc) m \<noteq> None" using assms(2) by (auto simp: map_of_eq_None_iff)
  then show ?thesis
    using live_member [OF assms Some] Some by (auto simp: durableState_def stored_def handle_view_def live_ok_def)
qed

lemma stored_contiguous:
  assumes "cluster_rel ms s cl" and "n \<in> set ms"
  shows "contiguous 1 (ps_entries (stored cl n))" and "ps_snapshot (stored cl n) = None"
proof -
  have d: "durable_rel s n (stored cl n)" using stored_rel [OF assms] .
  then show none: "ps_snapshot (stored cl n) = None" by (simp add: durable_rel_def)
  have "view_ok (stored cl n)" using d by (simp add: durable_rel_def)
  then show "contiguous 1 (ps_entries (stored cl n))" using none by (simp add: view_ok_def snapshot_index_def)
qed

definition committed_at :: "cluster \<Rightarrow> node_id \<Rightarrow> log_entry \<Rightarrow> bool" where
  "committed_at cl m e \<longleftrightarrow> e \<in> set (ps_entries (stored cl m)) \<and> le_index e \<le> hs_commitIndex (ps_hardState (stored cl m))"

lemma committed_unique:
  assumes rel: "cluster_rel ms s cl" and n: "a \<in> set ms" "b \<in> set ms"
    and "committed_at cl a x" "committed_at cl b y" and same: "le_index x = le_index y"
  shows "x = y"
proof -
  have at: "z = ps_entries (stored cl n) ! nat (le_index z - 1) \<and> 1 \<le> le_index z \<and>
      nat (le_index z) \<le> commit_of cl n \<and> nat (le_index z - 1) < length (ps_entries (stored cl n))"
    if zn: "n \<in> set ms" "committed_at cl n z" for n z
  proof -
    note c = stored_contiguous(1) [OF rel zn(1)]
    obtain i where i: "i < length (ps_entries (stored cl n))" "ps_entries (stored cl n) ! i = z"
      using zn(2) by (auto simp: committed_at_def in_set_conv_nth)
    then have "le_index z = 1 + int i" using contiguous_nth [OF c i(1)] by simp
    moreover have "nat (le_index z) \<le> commit_of cl n"
      using zn(2) nat_mono by (simp add: committed_at_def commit_of_def)
    ultimately show ?thesis using i by simp
  qed
  note x = at [OF n(1) assms(4)] and y = at [OF n(2) assms(5)]
  have "take (nat (le_index x)) (ps_entries (stored cl a)) = take (nat (le_index x)) (ps_entries (stored cl b))"
    using stored_committed_agree [OF rel n] x y same by simp
  then have "ps_entries (stored cl a) ! nat (le_index x - 1) = ps_entries (stored cl b) ! nat (le_index x - 1)"
    using take_eq_nth [of "nat (le_index x)" "ps_entries (stored cl a)" "ps_entries (stored cl b)" "nat (le_index x - 1)"]
      x by auto
  then show ?thesis using x y same by metis
qed

definition noted_committed :: "(bytes \<Rightarrow> string) \<Rightarrow> cluster \<Rightarrow> node_id list \<Rightarrow> (int \<times> string) list \<Rightarrow> bool" where
  "noted_committed sha256 cl ms committed \<longleftrightarrow> (\<forall>i h. map_of committed i = Some h \<longrightarrow>
     (\<exists>m e. m \<in> set ms \<and> committed_at cl m e \<and> le_index e = i \<and> entryFingerprint sha256 e = h))"

lemma check_entries_ok:
  assumes rel: "cluster_rel ms s cl" and m: "m \<in> set ms"
  shows "set es \<subseteq> set (ps_entries (stored cl m)) \<Longrightarrow> contiguous k es \<Longrightarrow>
    noted_committed sha256 cl ms committed \<Longrightarrow>
    \<exists>committed1. check_entries sha256 seed m (hs_commitIndex (ps_hardState (stored cl m))) k es committed =
      Inr committed1 \<and> noted_committed sha256 cl ms committed1"
proof (induction es arbitrary: k committed)
  case (Cons e es)
  let ?commit = "hs_commitIndex (ps_hardState (stored cl m))"
  have k: "le_index e = k" "contiguous (k + 1) es" using Cons.prems(2) by simp_all
  show ?case
  proof (cases "le_index e \<le> ?commit")
    case False
    then show ?thesis using Cons.IH [of "k + 1" committed] Cons.prems k by simp
  next
    case True
    then have c: "committed_at cl m e" using Cons.prems(1) by (simp add: committed_at_def)
    have "h = entryFingerprint sha256 e" if "map_of committed (le_index e) = Some h" for h
      using that Cons.prems(3) committed_unique [OF rel _ m _ c] by (auto simp: noted_committed_def)
    moreover have "noted_committed sha256 cl ms (map_set (le_index e) (entryFingerprint sha256 e) committed)"
      using Cons.prems(3) c m by (auto simp: noted_committed_def)
    ultimately show ?thesis
      using Cons.IH [of "k + 1" "map_set (le_index e) (entryFingerprint sha256 e) committed"] Cons.prems True k
      by (auto simp: Let_def)
  qed
qed simp

lemma check_durable_ok:
  assumes rel: "tc_rel opts tc cl"
  shows "set ms \<subseteq> set (lc_members tc) \<Longrightarrow> noted_committed sha256 cl (lc_members tc) committed \<Longrightarrow>
    check_durable sha256 tc ms committed = Inr ()"
proof (induction ms arbitrary: committed)
  case (Cons m ms)
  obtain s where crel: "cluster_rel (lc_members tc) s cl" using harness.lc_rel_cluster [OF rel] by blast
  have m: "m \<in> set (lc_members tc)" using Cons.prems(1) by simp
  obtain d where d: "durableState m tc = Inr d" "durable_inspect d = stored cl m"
    using durableState_stored [OF rel m] by blast
  have "contiguous (snapshot_index (ps_snapshot (stored cl m)) + 1) (ps_entries (stored cl m))"
    using stored_contiguous [OF crel m] by (simp add: snapshot_index_def)
  then obtain c1 where "check_entries sha256 (sr_seed (tc_random tc)) m (hs_commitIndex (ps_hardState (stored cl m)))
      (snapshot_index (ps_snapshot (stored cl m)) + 1) (ps_entries (stored cl m)) committed = Inr c1"
    "noted_committed sha256 cl (lc_members tc) c1"
    using check_entries_ok [OF crel m order_refl _ Cons.prems(2)] by blast
  then show ?case using Cons d by (simp add: Let_def)
qed simp

text \<open>State machines that have applied the same number of entries are in the same state.\<close>

definition uniform :: "('sm, 'cmd, 'res) test_options \<Rightarrow> bool" where
  "uniform opts \<longleftrightarrow> (\<exists>sm. to_createStateMachine opts = (\<lambda>m. sm))"

lemma hashes_agree:
  assumes rel: "tc_rel opts tc cl" and un: "uniform opts"
  shows "\<not> hashes_differ h (lc_live tc)"
proof -
  let ?top = "filter (\<lambda>nd. rc_appliedIndex (nd_core nd) = highest_applied (caught_up (lc_live tc)))
    (caught_up (lc_live tc))"
  have "distinct (map fst (lc_live tc))" "set (map fst (lc_live tc)) \<subseteq> set (lc_members tc)"
    using rel by (simp_all add: lc_rel_def)
  then have mem: "\<exists>m. map_of (lc_live tc) m = Some nd \<and> m \<in> set (lc_members tc) \<and>
      rc_appliedIndex (nd_core nd) = rc_commitIndex (nd_core nd)" if "nd \<in> set ?top" for nd
    using that by (fastforce simp: caught_up_def)
  have "nd_machine x = nd_machine y" if xy: "x \<in> set ?top" "y \<in> set ?top" for x y
  proof -
    obtain a b where "map_of (lc_live tc) a = Some x" "a \<in> set (lc_members tc)"
      "rc_appliedIndex (nd_core x) = rc_commitIndex (nd_core x)"
      "map_of (lc_live tc) b = Some y" "b \<in> set (lc_members tc)"
      "rc_appliedIndex (nd_core y) = rc_commitIndex (nd_core y)"
      using mem xy by blast
    moreover have "to_createStateMachine opts a = to_createStateMachine opts b" using un by (auto simp: uniform_def)
    ultimately show ?thesis using harness.same_applied_same_machine [OF rel] xy by simp
  qed
  note same = this
  show ?thesis
  proof (cases ?top)
    case (Cons x rest)
    then have "x \<in> set ?top" by (simp only: list.set_intros)
    then have "nd_machine y = nd_machine x" if "y \<in> set ?top" for y by (rule same [OF that])
    then have "\<forall>y \<in> set (x # rest). nd_machine y = nd_machine x" unfolding Cons by blast
    then show ?thesis unfolding hashes_differ_def Let_def Cons by auto
  next
    case Nil
    show ?thesis unfolding hashes_differ_def Let_def Nil by simp
  qed
qed

lemma assert_ok:
  assumes rel: "tc_rel opts tc cl" and un: "uniform opts"
  shows "\<exists>tc1. tc_assertInvariants opts tc = (tc1, Inr ()) \<and> tc_rel opts tc1 cl"
proof -
  have "\<forall>(m, nd) \<in> set (lc_live tc). m \<in> set (lc_members tc) \<and> map_of (lc_live tc) m = Some nd"
    using rel by (fastforce simp: lc_rel_def)
  then obtain tc1 where tc1: "check_live (lc_live tc) [] tc = (tc1, Inr ())" "tc_rel opts tc1 cl"
    using check_live_ok [OF rel, of "lc_live tc" "[]"] by (auto simp: noted_leaders_def)
  have "check_durable (to_sha256 opts) tc1 (lc_members tc1) [] = Inr ()"
    using check_durable_ok [OF tc1(2) order_refl] by (simp add: noted_committed_def)
  then show ?thesis
    using tc1 hashes_agree [OF tc1(2) un] by (auto simp: tc_assertInvariants_def split: option.splits)
qed

section \<open>Every operation keeps the relation\<close>

abbreviation leaves_ok :: "('sm, 'cmd, 'res) test_options \<Rightarrow> (('sm, 'res) test_cluster, 'a) run \<Rightarrow> bool" where
  "leaves_ok opts r \<equiv> leaves (tc_ok opts) r"

lemma leaves_asserting:
  assumes "uniform opts" and "leaves_ok opts r"
  shows "leaves_ok opts (asserting opts r)"
  unfolding asserting_def
proof (rule leaves_bind [OF assms(2)])
  fix tc x assume "tc_ok opts tc"
  then obtain cl where rel: "tc_rel opts tc cl" by (auto simp: lc_ok_def)
  obtain tc1 where "tc_assertInvariants opts tc = (tc1, Inr ())" "tc_rel opts tc1 cl"
    using assert_ok [OF rel assms(1)] by blast
  then show "leaves_ok opts (case tc_assertInvariants opts tc of
      (tc1, Inl err) \<Rightarrow> Some (tc1, Inl err) | (tc1, Inr _) \<Rightarrow> Some (tc1, Inr x))"
    by (auto simp: lc_ok_def)
qed

lemma tc_ok_random [simp]:
  "lc_ok env opts machine low (tc\<lparr>tc_random := r\<rparr>) = lc_ok env opts machine low tc"
  by (rule lc_ok_cong) simp_all

lemma tc_ok_network:
  "tc_ok opts tc \<Longrightarrow> net_step (lc_network tc) net \<Longrightarrow> tc_ok opts (tc\<lparr>lc_network := net\<rparr>)"
  unfolding lasts_simps by (rule lc_ok_network)

text \<open>A call leaves what the assertions have recorded alone.\<close>

lemma call_leaves_ok:
  assumes "leaves (lc_ok (tc_env opts) tc_node_options (to_createStateMachine opts) (lasts tc)) (node_call m f nd tc1)"
    and "lasts tc1 = lasts tc"
  shows "leaves_ok opts (node_call m f nd tc1)"
  using assms call_frame [of m f nd tc1] by (fastforce simp: leaves_def)

lemma on_live_ok:
  assumes ok: "tc_ok opts tc" and call: "local_call (tc_env opts) f"
  shows "leaves_ok opts (on_live m f tc)"
  using ok call_leaves_ok [OF harness.call_ok [OF ok call] refl]
  by (auto simp: on_live_def getLive_def split: option.split)

lemma tc_deliver_ok:
  assumes ok: "tc_ok opts tc"
  shows "leaves_ok opts (tc_deliver opts index tc)"
proof -
  obtain net x where d: "net_deliver index (lc_network tc) = (net, x)" by fastforce
  show ?thesis
  proof (cases x)
    case None
    then show ?thesis using d tc_ok_network [OF ok net_step.lost] by (auto simp: tc_deliver_def)
  next
    case (Some msg)
    let ?r = "handle_message (tc_env opts) msg (tc\<lparr>lc_network := net\<rparr>)"
    have "lasts tc' = lasts tc" if "?r = Some (tc', y)" for tc' y
      using that call_frame [of "m_to msg" _ _ "tc\<lparr>lc_network := net\<rparr>"]
      by (fastforce simp: handle_message_def split: option.splits)
    then show ?thesis using d Some harness.deliver_ok [OF ok, of index net msg]
      by (simp add: tc_deliver_def leaves_def)
  qed
qed

lemma drain_ok:
  "uniform opts \<Longrightarrow> tc_ok opts tc \<Longrightarrow> leaves_ok opts (drain_from opts delivered tc)"
proof (induction opts delivered tc rule: drain_from.induct)
  case (1 opts delivered tc)
  show ?case
  proof (cases "net_pending (lc_network tc) = 0 \<or> 10000 < delivered + 1")
    case True
    then show ?thesis using "1.prems" by (subst drain_from.simps) auto
  next
    case False
    obtain r x where ri: "random_integer 0 (int (net_pending (lc_network tc))) (tc_random tc) = (r, x)" by fastforce
    show ?thesis
    proof (cases x)
      case (Inl err)
      then show ?thesis using False ri "1.prems" by (subst drain_from.simps) simp
    next
      case (Inr index)
      let ?r = "asserting opts (tc_deliver opts index (tc\<lparr>tc_random := r\<rparr>))"
      have ok: "leaves_ok opts ?r"
        using "1.prems" by (intro leaves_asserting tc_deliver_ok) simp_all
      show ?thesis
      proof (cases ?r)
        case None
        then show ?thesis using False ri Inr by (subst drain_from.simps) (simp add: leaves_def)
      next
        case (Some p)
        obtain tc1 y where p: "p = (tc1, y)" by fastforce
        then have "tc_ok opts tc1" using ok Some by simp
        then show ?thesis
          using False ri Inr Some p "1.IH" [OF _ _ ri [symmetric] Inr Some p [symmetric]] "1.prems"
          by (cases y) (subst drain_from.simps, simp)+
      qed
    qed
  qed
qed

lemma outcome_ok: "tc_ok opts tc \<Longrightarrow> leaves_ok opts (case getLive m tc of
    Inl err \<Rightarrow> Some (tc, Inl err) | Inr nd \<Rightarrow> Some (tc, outcome_of p nd))"
  by (simp split: sum.split)

lemma propose_ok:
  assumes "uniform opts" and "tc_ok opts tc"
  shows "leaves_ok opts (tc_propose opts m command cid tc)"
  unfolding tc_propose_def tc_drain_def
  by (intro leaves_bind on_live_ok propose_local assms)
    (simp add: leaves_bind leaves_asserting drain_ok outcome_ok assms)

text \<open>Stopping and starting members.\<close>

lemma stop_ok:
  assumes "tc_ok opts tc" and "map_of (lc_live tc) m = Some nd"
  shows "tc_ok opts (node_halt (tc_env opts) m nd tc)"
  using harness.halt_ok [OF assms] by simp

lemma stop_all_ok:
  "tc_ok opts tc \<Longrightarrow> distinct (map fst xs) \<Longrightarrow> \<forall>(m, nd) \<in> set xs. map_of (lc_live tc) m = Some nd \<Longrightarrow>
    tc_ok opts (foldl (\<lambda>t (m, nd). node_halt (tc_env opts) m nd t) tc xs)"
proof (induction xs arbitrary: tc)
  case (Cons x xs)
  obtain m nd where x: "x = (m, nd)" by fastforce
  have "tc_ok opts (node_halt (tc_env opts) m nd tc)" using stop_ok Cons.prems(1,3) x by auto
  moreover have "\<forall>(q, nd') \<in> set xs. map_of (lc_live (node_halt (tc_env opts) m nd tc)) q = Some nd'"
    using Cons.prems(2,3) x by (force simp: halt_live(1))
  ultimately show ?case using Cons.IH Cons.prems(2) x by simp
qed simp

lemma tc_stop_ok: "tc_ok opts tc \<Longrightarrow> tc_ok opts (tc_stop opts tc)"
  unfolding tc_stop_def by (rule stop_all_ok) (auto simp: lc_ok_def lc_rel_def)

lemma start_ok:
  assumes ok: "tc_ok opts tc" and down: "map_of (lc_live tc) m = None"
    and s: "startMember opts m tc = (tc', r)"
  shows "tc_ok opts tc'"
proof (cases "map_of (lc_storage tc) m")
  case None
  then show ?thesis using ok s by (simp add: startMember_def durableState_def)
next
  case (Some d)
  then have l: "node_launch (tc_env opts) (tc_node_options (lc_members tc) m) (to_createStateMachine opts m) m d tc = (tc', r)"
    using s down by (simp add: startMember_def durableState_def)
  then have "lasts tc' = lasts tc" by (auto simp: node_launch_def lasts_def split: prod.splits sum.splits)
  then show ?thesis using harness.launch_ok [OF ok down Some l] by simp
qed

lemma no_result_ok: "leaves_ok opts r \<Longrightarrow> leaves_ok opts (no_result r)"
  unfolding no_result_def by (rule leaves_bind) simp_all

lemma net_ops_ok:
  assumes "tc_ok opts tc"
  shows "tc_ok opts (tc_partition left right tc)" and "tc_ok opts (tc_heal tc)"
    and "tc_ok opts (tc_duplicatePending index tc)" and "tc_ok opts (tc_reorderPending tc)"
  using tc_ok_network [OF assms] net_step.intros
  by (simp_all add: tc_partition_def tc_heal_def tc_duplicatePending_def tc_reorderPending_def)

theorem tc_exec_ok:
  assumes un: "uniform opts" and ok: "tc_ok opts tc"
  shows "leaves_ok opts (tc_exec opts op tc)"
proof (cases op)
  case (OpCampaign m)
  have "leaves_ok opts (tc_campaign opts m tc)"
    using ok leaves_asserting [OF un on_live_ok [OF _ campaign_local]]
    by (auto simp: tc_campaign_def split: sum.split prod.split)
  then show ?thesis using OpCampaign no_result_ok by simp
next
  case (OpHeartbeat m)
  then show ?thesis
    using leaves_asserting [OF un on_live_ok [OF ok heartbeat_local]] by (simp add: tc_heartbeat_def no_result_ok)
next
  case OpDrain
  then show ?thesis using drain_ok [OF un ok] by (simp add: tc_drain_def no_result_ok)
next
  case OpSettle
  then show ?thesis
    using leaves_asserting [OF un, of "Some (tc, Inr ())"] ok by (simp add: tc_settleLocalWork_def no_result_ok)
next
  case (OpPropose m command cid)
  then show ?thesis using propose_ok [OF un ok] by (simp add: leaves_bind)
next
  case (OpCrash m)
  have "leaves_ok opts (tc_crash opts m tc)"
    using ok stop_ok [OF ok]
    by (auto simp: tc_crash_def getLive_def intro!: leaves_asserting [OF un] split: option.split)
  then show ?thesis using OpCrash no_result_ok by simp
next
  case (OpRestart m)
  have "leaves_ok opts (tc_restart opts m tc)"
    using ok start_ok [OF ok] leaves_asserting [OF un, of "Some (startMember opts m tc)"]
    by (cases "startMember opts m tc") (auto simp: tc_restart_def)
  then show ?thesis using OpRestart no_result_ok by simp
qed (use ok net_ops_ok tc_stop_ok in simp_all)

text \<open>A new cluster.\<close>

lemma fresh_ok:
  assumes "new_test_cluster opts = Inr tc"
  shows "tc_ok opts tc" and "lc_live tc = []"
proof -
  obtain a b c where tc: "lc_network tc = new_network" "lc_members tc = [a, b, c]" "lc_live tc = []"
    "lc_storage tc = map_set c new_durable_state (map_set b new_durable_state [(a, new_durable_state)])"
    "tc_lastTerms tc = []" "tc_lastCommits tc = []" "tc_lastApplied tc = []"
    using assms by (auto simp: new_test_cluster_def split: prod.splits sum.splits)
  show "lc_live tc = []" using tc(3) .
  have "set (map fst (lc_storage tc)) = set (lc_members tc)"
    unfolding tc(2,4) map_set_keys by auto
  moreover have "\<forall>m \<in> set (lc_members tc). map_of (lc_storage tc) m = Some new_durable_state"
    by (auto simp: tc(2,4))
  ultimately show "tc_ok opts tc"
    using tc by (intro new_cluster_ok) (auto simp: lasts_def above_def last_of_def or_else_def)
qed

lemma startMember_Inr:
  assumes "startMember opts m tc = (tc', Inr ())"
  shows "distinct (lc_members tc)" and "\<exists>nd. lc_live tc' = map_set m nd (lc_live tc)"
proof -
  obtain d where l: "node_launch (tc_env opts) (tc_node_options (lc_members tc) m) (to_createStateMachine opts m) m d tc =
      (tc', Inr ())"
    using assms by (auto simp: startMember_def split: sum.splits)
  obtain p c where "new_RaftCore (core_options (tc_node_options (lc_members tc) m) p) = Inr c"
    using launch_Inr(1) [OF l] by blast
  then have "card (set (lc_members tc)) = length (lc_members tc)"
    by (auto simp: new_RaftCore_def core_options_def tc_node_options_def Let_def split: if_splits)
  then show "distinct (lc_members tc)" by (rule card_distinct)
  show "\<exists>nd. lc_live tc' = map_set m nd (lc_live tc)" using launch_Inr(2) [OF l] by (auto simp: put_live_def)
qed

lemma start_all_ok:
  "start_all opts ms tc = (tc', Inr ()) \<Longrightarrow> tc_ok opts tc \<Longrightarrow> distinct ms \<Longrightarrow>
    \<forall>m \<in> set ms. map_of (lc_live tc) m = None \<Longrightarrow> tc_ok opts tc'"
proof (induction opts ms tc rule: start_all.induct)
  case (2 opts m ms tc)
  obtain tc1 where s: "startMember opts m tc = (tc1, Inr ())" and rest: "start_all opts ms tc1 = (tc', Inr ())"
    using "2.prems"(1) by (auto split: prod.splits sum.splits)
  have "tc_ok opts tc1" using start_ok [OF _ _ s] "2.prems" by simp
  moreover have "\<forall>q \<in> set ms. map_of (lc_live tc1) q = None"
    using startMember_Inr(2) [OF s] "2.prems"(3,4) by auto
  ultimately show ?case using "2.IH" [OF s [symmetric] refl] rest "2.prems"(3) by simp
qed simp

lemma create_ok:
  assumes un: "uniform opts" and "tc_create opts = Inr tc"
  shows "tc_ok opts tc"
proof -
  obtain tc0 tc1 where n: "new_test_cluster opts = Inr tc0" and s: "start_all opts (lc_members tc0) tc0 = (tc1, Inr ())"
    and a: "tc_assertInvariants opts tc1 = (tc, Inr ())"
    using assms(2) by (auto simp: tc_create_def split: sum.splits prod.splits)
  obtain m ms where ms: "lc_members tc0 = m # ms"
    using n by (auto simp: new_test_cluster_def split: prod.splits sum.splits)
  then obtain t where "startMember opts m tc0 = (t, Inr ())" using s by (auto split: prod.splits sum.splits)
  then have "distinct (lc_members tc0)" by (rule startMember_Inr(1))
  then have "tc_ok opts tc1" using start_all_ok [OF s] fresh_ok [OF n] by simp
  then have "leaves_ok opts (asserting opts (Some (tc1, Inr ())))" by (simp add: leaves_asserting [OF un])
  then show ?thesis using a by (simp add: asserting_def run_bind_def)
qed

section \<open>Every operation returns\<close>

lemma returns_asserting: "returns r \<Longrightarrow> returns (asserting opts r)"
  unfolding asserting_def by (rule returns_bind) (auto split: prod.split sum.split)

lemma returns_on_live: "(\<And>nd. returns (f nd)) \<Longrightarrow> returns (on_live m f tc)"
  by (auto simp: on_live_def intro: harness.returns_call split: sum.split)

lemma returns_deliver: "returns (tc_deliver opts index tc)"
  using harness.returns_handle by (auto simp: tc_deliver_def split: option.split prod.split)

lemma returns_drain: "returns (drain_from opts delivered tc)"
proof (induction opts delivered tc rule: drain_from.induct)
  case (1 opts delivered tc)
  obtain r x where ri: "random_integer 0 (int (net_pending (lc_network tc))) (tc_random tc) = (r, x)" by fastforce
  show ?case
  proof (cases "net_pending (lc_network tc) = 0 \<or> 10000 < delivered + 1 \<or> (\<exists>err. x = Inl err)")
    case True
    then show ?thesis using ri by (subst drain_from.simps) auto
  next
    case False
    then obtain index where x: "x = Inr index" by (cases x) auto
    have "returns (asserting opts (tc_deliver opts index (tc\<lparr>tc_random := r\<rparr>)))"
      by (rule returns_asserting [OF returns_deliver])
    then obtain tc1 y where a: "asserting opts (tc_deliver opts index (tc\<lparr>tc_random := r\<rparr>)) = Some (tc1, y)"
      by (auto simp: returns_def)
    show ?thesis
      using False ri x a "1.IH" [OF _ _ ri [symmetric] x a refl]
      by (cases y) (subst drain_from.simps, simp)+
  qed
qed

lemma returns_exec: "returns (tc_exec opts op tc)"
proof -
  have nr: "returns (no_result r)" if "returns r" for r
    unfolding no_result_def using that by (rule returns_bind) simp
  have "returns (tc_campaign opts m tc)" for m
    using returns_asserting [OF returns_on_live [OF harness.returns_node_calls(1)]]
    by (auto simp: tc_campaign_def split: sum.split prod.split)
  moreover have "returns (tc_propose opts m command cid tc)" for m command cid
    unfolding tc_propose_def tc_drain_def
    by (intro returns_bind returns_on_live harness.returns_propose)
      (auto simp: returns_bind returns_drain returns_asserting split: sum.split)
  ultimately show ?thesis
    by (cases op)
      (auto simp: nr tc_heartbeat_def returns_asserting returns_on_live harness.returns_node_calls tc_drain_def returns_drain
        tc_settleLocalWork_def tc_crash_def tc_restart_def returns_bind split: sum.split)
qed

lemma script_returns: "tc_script opts ops tc \<noteq> None"
proof (induction ops arbitrary: tc)
  case (Cons op ops)
  obtain tc1 r where "tc_exec opts op tc = Some (tc1, r)"
    using returns_exec [of opts op tc] by (auto simp: returns_def)
  then show ?case using Cons by simp
qed simp

end
