(* ===== verification/TestClusterTheorems.thy ===== *)
theory TestClusterTheorems
  imports TestClusterFacts
begin

text \<open>
  The properties of the test cluster: in every state its operations can reach the assertions hold, so a test
  that does not inject a storage failure never raises a false alarm; and every operation returns.
\<close>

section \<open>Properties\<close>

text \<open>The states a test can bring the cluster to.\<close>

inductive tc_reachable :: "('sm, 'cmd, 'res) test_options \<Rightarrow> ('sm, 'res) test_cluster \<Rightarrow> bool" for opts where
  created: "tc_create opts = Inr tc \<Longrightarrow> tc_reachable opts tc"
| called: "tc_reachable opts tc \<Longrightarrow> tc_exec opts op tc = Some (tc', r) \<Longrightarrow> tc_reachable opts tc'"

lemma tc_reachable_ok:
  assumes "tc_reachable opts tc" and un: "uniform opts"
  shows "tc_ok opts tc"
  using assms(1)
proof (induction rule: tc_reachable.induct)
  case (called tc op tc' r)
  then show ?case using tc_exec_ok [OF un called.IH, of op] by simp
qed (rule create_ok [OF un])

lemma script_reachable:
  "tc_script opts ops tc = Some tc' \<Longrightarrow> tc_reachable opts tc \<Longrightarrow> tc_reachable opts tc'"
  by (induction ops arbitrary: tc) (auto split: option.splits prod.splits dest: tc_reachable.called)

text \<open>A run of the harness with an adding state machine.\<close>

definition byte_decode :: "bytes \<Rightarrow> raft_error + int" where
  "byte_decode b = (case b of [x] \<Rightarrow> Inr (uint x) | _ \<Rightarrow> Inl (PlainError ''not a command''))"

definition counter_options :: "(int, int, int) test_options" where
  "counter_options = \<lparr>to_encode = (\<lambda>n. Inr [word_of_int n]), to_decode = byte_decode,
     to_sha256 = map (\<lambda>b. char_of (unat b)), to_apply = (\<lambda>n ctx sm. (sm + n, Inr (sm + n))),
     to_restore = (\<lambda>b ctx sm. (sm, Inr ())), to_createStateMachine = (\<lambda>m. 0),
     to_stateHash = Some bigint_to_string, to_seed = None, to_nodeIds = None\<rparr>"

definition counter_cluster :: "(int, int) test_cluster" where
  "counter_cluster = (case tc_create counter_options of Inr tc \<Rightarrow> tc)"

definition counter_script :: "int tc_op list" where
  "counter_script = [OpCampaign ''node-0'', OpDrain, OpPropose ''node-0'' 5 ''x'', OpPartition [''node-0''] [''node-1''],
     OpPropose ''node-0'' 3 ''y'', OpCrash ''node-2'', OpRestart ''node-2'', OpHeal, OpHeartbeat ''node-0'', OpDrain]"

definition counter_end :: "(int, int) test_cluster" where
  "counter_end = the (tc_script counter_options counter_script counter_cluster)"

lemma counter_uniform: "uniform counter_options"
  by (auto simp: uniform_def counter_options_def)

lemma counter_created: "tc_create counter_options = Inr counter_cluster"
proof -
  have "case tc_create counter_options of Inr tc \<Rightarrow> True | Inl _ \<Rightarrow> False" by code_simp
  then show ?thesis by (simp add: counter_cluster_def split: sum.splits)
qed

lemma counter_reachable: "tc_reachable counter_options counter_end"
proof (rule script_reachable)
  show "tc_script counter_options counter_script counter_cluster = Some counter_end"
    using script_returns [of counter_options counter_script counter_cluster] by (auto simp: counter_end_def)
qed (rule tc_reachable.created [OF counter_created])


text \<open>C8: No false alarm: in every state that the operations of the harness can reach (elections,
  proposals, partitions, duplication, reordering, crashes and restarts in any order, with operations that failed
  in between) the assertions hold, as long as no storage failure is injected and the state machines start
  equal.\<close>

theorem assertions_hold:
  assumes "tc_reachable opts tc" and "uniform opts"
  shows "\<exists>tc1. tc_assertInvariants opts tc = (tc1, Inr ())"
  using tc_reachable_ok [OF assms] assert_ok [OF _ assms(2)] by (auto simp: lc_ok_def)

theorem assertions_hold_witness:
  "\<exists>tc1. tc_assertInvariants counter_options counter_end = (tc1, Inr ())"
  by (rule assertions_hold [OF counter_reachable counter_uniform])

text \<open>C9: The harness runs the cluster: every state its operations can reach is a reachable state of the
  fine-grained cluster with the same network, the same cores of the live members and the same durable
  states, so that what is proved of the cluster holds of every test.\<close>

theorem harness_refines_cluster:
  assumes "tc_reachable opts tc" and "uniform opts"
  shows "\<exists>cl. reachable (lc_members tc) (tc_node_options (lc_members tc)) cl \<and> cl_net cl = lc_network tc \<and>
    (\<forall>m nd. map_of (lc_live tc) m = Some nd \<longrightarrow>
       core_of cl m = nd_core nd \<and> mb_store (cl_member cl m) = nd_storage nd) \<and>
    (\<forall>m \<in> set (lc_members tc). \<exists>d. durableState m tc = Inr d \<and> durable_inspect d = stored cl m)"
proof -
  obtain cl where rel: "tc_rel opts tc cl" using tc_reachable_ok [OF assms] by (auto simp: lc_ok_def)
  have "core_of cl m = nd_core nd \<and> mb_store (cl_member cl m) = nd_storage nd"
    if "map_of (lc_live tc) m = Some nd" for m nd
    using live_member(1) [OF rel live_keys [OF rel that] that] by (simp add: live_ok_def core_of_def)
  then show ?thesis using rel durableState_stored [OF rel] by (intro exI [of _ cl]) (simp add: lc_rel_def)
qed

lemma counter_members: "lc_members counter_cluster = [''node-0'', ''node-1'', ''node-2'']"
  by code_simp

theorem harness_refines_cluster_witness:
  "\<exists>cl. cl_net cl = lc_network counter_cluster \<and>
    reachable (lc_members counter_cluster) (tc_node_options (lc_members counter_cluster)) cl"
  using harness_refines_cluster [OF tc_reachable.created [OF counter_created] counter_uniform] by blast

definition alarm_run :: "((int, int) test_cluster, unit) run" where
  "alarm_run =
     (case tc_failNext ''node-0'' (PlainError ''injected storage failure'') counter_cluster of (tc, _) \<Rightarrow>
      (case tc_script counter_options [OpCampaign ''node-0'', OpSettle, OpCrash ''node-0''] tc of
         None \<Rightarrow> None | Some tc1 \<Rightarrow> tc_restart counter_options ''node-0'' tc1))"

text \<open>An injected storage failure makes the harness raise a false alarm: a campaign whose Ready batch the
  storage refuses raises the term of the core only; the next assertion records that term, and after a crash
  and a restart, which return to the stored term, the harness reports a violation of Raft that is none.\<close>

theorem injected_failure_false_alarm:
  "snd (the alarm_run) = Inl (violation 1 ''current term decreased'' (Some ''node-0''))"
  by code_simp

end
