(* ===== verification/JsText.thy ===== *)
theory JsText
  imports Prelude
begin

text \<open>
  Strings of the language and their UTF-8 form, as \<open>TextEncoder\<close> and \<open>TextDecoder\<close> compute it.  A
  string is a list of 16-bit code units, surrogates and all; the encoder replaces a lone surrogate by
  U+FFFD, the decoder is the UTF-8 decoder of the Encoding standard: a state with the number of bytes
  still needed and the range of the next one.
\<close>

type_synonym js_string = "16 word list"

definition js :: "string \<Rightarrow> js_string" where
  "js s = map of_char s"

section \<open>UTF-16\<close>

definition is_high :: "16 word \<Rightarrow> bool" where
  "is_high u \<longleftrightarrow> 0xD800 \<le> u \<and> u \<le> 0xDBFF"

definition is_low :: "16 word \<Rightarrow> bool" where
  "is_low u \<longleftrightarrow> 0xDC00 \<le> u \<and> u \<le> 0xDFFF"

definition pair_code :: "16 word \<Rightarrow> 16 word \<Rightarrow> nat" where
  "pair_code h l = 0x10000 + (unat h - 0xD800) * 0x400 + (unat l - 0xDC00)"

definition REPLACEMENT :: nat where
  "REPLACEMENT = 0xFFFD"

text \<open>The code points of a string.\<close>

fun scalars :: "js_string \<Rightarrow> nat list" where
  "scalars [] = []"
| "scalars [u] = [if is_high u \<or> is_low u then REPLACEMENT else unat u]"
| "scalars (u # v # us) =
     (if is_high u \<and> is_low v then pair_code u v # scalars us
      else (if is_high u \<or> is_low u then REPLACEMENT else unat u) # scalars (v # us))"

definition units_of :: "nat \<Rightarrow> js_string" where
  "units_of c = (if c < 0x10000 then [of_nat c]
     else [of_nat (0xD800 + (c - 0x10000) div 0x400), of_nat (0xDC00 + (c - 0x10000) mod 0x400)])"

text \<open>For evaluation: a number is unary there, so small code points are told first.\<close>

lemma units_of_code [code]:
  "units_of c = (if c < 0x80 then [of_nat c] else if c < 0x10000 then [of_nat c]
     else [of_nat (0xD800 + (c - 0x10000) div 0x400), of_nat (0xDC00 + (c - 0x10000) mod 0x400)])"
  by (simp add: units_of_def)

text \<open>No lone surrogate.\<close>

fun well_formed :: "js_string \<Rightarrow> bool" where
  "well_formed [] = True"
| "well_formed [u] = (\<not> is_high u \<and> \<not> is_low u)"
| "well_formed (u # v # us) =
     (if is_high u then is_low v \<and> well_formed us else \<not> is_low u \<and> well_formed (v # us))"

section \<open>UTF-8\<close>

definition utf8 :: "nat \<Rightarrow> nat list" where
  "utf8 c =
     (if c < 0x80 then [c]
      else if c < 0x800 then [0xC0 + c div 0x40, 0x80 + c mod 0x40]
      else if c < 0x10000 then [0xE0 + c div 0x1000, 0x80 + c div 0x40 mod 0x40, 0x80 + c mod 0x40]
      else [0xF0 + c div 0x40000, 0x80 + c div 0x1000 mod 0x40, 0x80 + c div 0x40 mod 0x40, 0x80 + c mod 0x40])"

definition text_encode :: "js_string \<Rightarrow> bytes" where
  "text_encode s = map of_nat (concat (map utf8 (scalars s)))"

record utf8_state =
  u8_code :: nat
  u8_needed :: nat
  u8_lower :: nat
  u8_upper :: nat

definition utf8_start :: utf8_state where
  "utf8_start = \<lparr>u8_code = 0, u8_needed = 0, u8_lower = 0x80, u8_upper = 0xBF\<rparr>"

text \<open>The first byte of a sequence: what it emits, an error being \<open>None\<close>, and the next state.\<close>

definition utf8_lead :: "nat \<Rightarrow> nat option list \<times> utf8_state" where
  "utf8_lead b =
     (if b < 0x80 then ([Some b], utf8_start)
      else if 0xC2 \<le> b \<and> b \<le> 0xDF then ([], utf8_start\<lparr>u8_code := b - 0xC0, u8_needed := 1\<rparr>)
      else if 0xE0 \<le> b \<and> b \<le> 0xEF
      then ([], \<lparr>u8_code = b - 0xE0, u8_needed = 2, u8_lower = (if b = 0xE0 then 0xA0 else 0x80),
                u8_upper = (if b = 0xED then 0x9F else 0xBF)\<rparr>)
      else if 0xF0 \<le> b \<and> b \<le> 0xF4
      then ([], \<lparr>u8_code = b - 0xF0, u8_needed = 3, u8_lower = (if b = 0xF0 then 0x90 else 0x80),
                u8_upper = (if b = 0xF4 then 0x8F else 0xBF)\<rparr>)
      else ([None], utf8_start))"

definition utf8_feed :: "utf8_state \<Rightarrow> nat \<Rightarrow> nat option list \<times> utf8_state" where
  "utf8_feed st b =
     (if u8_needed st = 0 then utf8_lead b
      else if b < u8_lower st \<or> u8_upper st < b
      then (None # fst (utf8_lead b), snd (utf8_lead b))
      else let c = u8_code st * 0x40 + (b - 0x80) in
        if u8_needed st = 1 then ([Some c], utf8_start)
        else ([], \<lparr>u8_code = c, u8_needed = u8_needed st - 1, u8_lower = 0x80, u8_upper = 0xBF\<rparr>))"

fun utf8_run :: "utf8_state \<Rightarrow> nat list \<Rightarrow> nat option list" where
  "utf8_run st [] = (if u8_needed st = 0 then [] else [None])"
| "utf8_run st (b # bs) = (case utf8_feed st b of (out, st1) \<Rightarrow> out @ utf8_run st1 bs)"

text \<open>A byte order mark at the start is dropped.\<close>

definition strip_bom :: "nat list \<Rightarrow> nat list" where
  "strip_bom bs = (if take 3 bs = [0xEF, 0xBB, 0xBF] then drop 3 bs else bs)"

definition utf8_points :: "bytes \<Rightarrow> nat option list" where
  "utf8_points bs = utf8_run utf8_start (strip_bom (map unat bs))"

text \<open>With \<open>fatal\<close> an error throws, without it is U+FFFD.\<close>

definition text_decode_fatal :: "bytes \<Rightarrow> js_string option" where
  "text_decode_fatal bs =
     (if None \<in> set (utf8_points bs) then None else Some (concat (map (\<lambda>c. units_of (the c)) (utf8_points bs))))"

definition text_decode :: "bytes \<Rightarrow> js_string" where
  "text_decode bs = concat (map (\<lambda>c. units_of (case c of None \<Rightarrow> REPLACEMENT | Some x \<Rightarrow> x)) (utf8_points bs))"

section \<open>Round trip\<close>

definition scalar_value :: "nat \<Rightarrow> bool" where
  "scalar_value c \<longleftrightarrow> c < 0x110000 \<and> \<not> (0xD800 \<le> c \<and> c \<le> 0xDFFF)"

lemma well_formed_units:
  "well_formed s \<Longrightarrow> concat (map units_of (scalars s)) = s \<and> (\<forall>c \<in> set (scalars s). scalar_value c)"
proof (induction s rule: well_formed.induct)
  case (2 u)
  then show ?case
    using unsigned_less [of u, where ?'a = nat]
    by (auto simp: units_of_def scalar_value_def is_high_def is_low_def word_le_nat_alt)
next
  case (3 u v us)
  show ?case
  proof (cases "is_high u")
    case True
    then have l: "is_low v" "well_formed us" using "3.prems" by simp_all
    define h k where "h = unat u - 0xD800" and "k = unat v - 0xDC00"
    have hk: "unat u = 0xD800 + h" "unat v = 0xDC00 + k" "h < 0x400" "k < 0x400"
      using True l(1) by (auto simp: h_def k_def is_high_def is_low_def word_le_nat_alt)
    have "of_nat (unat u) = u" "of_nat (unat v) = v" by simp_all
    then have "of_nat (0xD800 + h) = u" "of_nat (0xDC00 + k) = v" unfolding hk(1,2) .
    then have "units_of (pair_code u v) = [u, v]"
      using hk by (simp add: units_of_def pair_code_def)
    moreover have "scalar_value (pair_code u v)"
      using hk by (simp add: scalar_value_def pair_code_def)
    ultimately show ?thesis using "3.IH"(1) True l by simp
  next
    case False
    then have "\<not> is_low u" "well_formed (v # us)" using "3.prems" by simp_all
    then show ?thesis
      using "3.IH"(2) False unsigned_less [of u, where ?'a = nat]
      by (auto simp: units_of_def scalar_value_def is_high_def is_low_def word_le_nat_alt)
  qed
qed simp

lemma utf8_bytes: "scalar_value c \<Longrightarrow> \<forall>b \<in> set (utf8 c). b < 256"
  by (auto simp: utf8_def scalar_value_def)

lemma utf8_run_point:
  assumes "scalar_value c"
  shows "utf8_run utf8_start (utf8 c @ bs) = Some c # utf8_run utf8_start bs"
proof -
  note defs = utf8_feed_def utf8_lead_def utf8_start_def Let_def
  consider (one) "c < 0x80" | (two) "0x80 \<le> c" "c < 0x800" | (three) "0x800 \<le> c" "c < 0x10000"
    | (four) "0x10000 \<le> c" "c < 0x110000"
    using assms by (force simp: scalar_value_def)
  then show ?thesis
  proof cases
    case two
    define a b where "a = c div 0x40" and "b = c mod 0x40"
    have c: "c = 0x40 * a + b" "b < 0x40" by (simp_all add: a_def b_def)
    have "2 \<le> a" "a < 0x20" using two c by linarith+
    moreover have "utf8 c = [0xC0 + a, 0x80 + b]" using two by (simp add: utf8_def a_def b_def)
    ultimately show ?thesis using c by (simp add: defs)
  next
    case three
    define a b d where "a = c div 0x1000" and "b = c div 0x40 mod 0x40" and "d = c mod 0x40"
    have "c div 0x40 = 0x40 * (c div 0x40 div 0x40) + b" by (simp add: b_def)
    then have "c div 0x40 = 0x40 * a + b" by (simp add: a_def div_mult2_eq [symmetric])
    moreover have "c = 0x40 * (c div 0x40) + d" by (simp add: d_def)
    ultimately have c: "c = 0x1000 * a + 0x40 * b + d" "b < 0x40" "d < 0x40"
      by (simp, simp_all add: b_def d_def)
    have "a < 0x10" "a = 0 \<Longrightarrow> 0x20 \<le> b" "a = 0xD \<Longrightarrow> b \<le> 0x1F"
      using three c assms by (auto simp: scalar_value_def)
    moreover have "utf8 c = [0xE0 + a, 0x80 + b, 0x80 + d]" using three by (simp add: utf8_def a_def b_def d_def)
    ultimately show ?thesis using c by (auto simp: defs)
  next
    case four
    define a b d e where "a = c div 0x40000" and "b = c div 0x1000 mod 0x40" and "d = c div 0x40 mod 0x40"
      and "e = c mod 0x40"
    have "c div 0x1000 = 0x40 * (c div 0x1000 div 0x40) + b" by (simp add: b_def)
    moreover have "c div 0x40 = 0x40 * (c div 0x40 div 0x40) + d" by (simp add: d_def)
    ultimately have "c div 0x40 = 0x1000 * a + 0x40 * b + d" by (simp add: a_def div_mult2_eq [symmetric])
    moreover have "c = 0x40 * (c div 0x40) + e" by (simp add: e_def)
    ultimately have c: "c = 0x40000 * a + 0x1000 * b + 0x40 * d + e" "b < 0x40" "d < 0x40" "e < 0x40"
      by (simp, simp_all add: b_def d_def e_def)
    have "a \<le> 4" "a = 0 \<Longrightarrow> 0x10 \<le> b" "a = 4 \<Longrightarrow> b \<le> 0xF" using four c by linarith+
    moreover have "utf8 c = [0xF0 + a, 0x80 + b, 0x80 + d, 0x80 + e]"
      using four by (simp add: utf8_def a_def b_def d_def e_def)
    ultimately show ?thesis using c by (auto simp: defs)
  qed (simp add: defs utf8_def)
qed

lemma utf8_run_points:
  "\<forall>c \<in> set cs. scalar_value c \<Longrightarrow> utf8_run utf8_start (concat (map utf8 cs)) = map Some cs"
  by (induction cs) (simp_all add: utf8_run_point, simp add: utf8_start_def)

lemma text_bytes: "well_formed s \<Longrightarrow> map unat (text_encode s) = concat (map utf8 (scalars s))"
proof -
  assume wf: "well_formed s"
  have "\<forall>b \<in> set (concat (map utf8 (scalars s))). b < 256" using well_formed_units [OF wf] utf8_bytes by auto
  then show ?thesis by (auto simp: text_encode_def unat_of_nat intro!: map_idI)
qed

lemma run_of_text: "well_formed s \<Longrightarrow> utf8_run utf8_start (map unat (text_encode s)) = map Some (scalars s)"
  using text_bytes utf8_run_points well_formed_units by simp

text \<open>A text that starts with an ASCII character, as every JSON text does.\<close>

lemma text_round_trip:
  assumes wf: "well_formed (u # us)" and ascii: "u < 0x80"
  shows "utf8_points (text_encode (u # us)) = map Some (scalars (u # us))"
    and "text_decode_fatal (text_encode (u # us)) = Some (u # us)"
    and "text_decode (text_encode (u # us)) = u # us"
proof -
  note sc = well_formed_units [OF wf]
  let ?bs = "concat (map utf8 (scalars (u # us)))"
  note bytes = text_bytes [OF wf]
  have "\<not> is_high u \<and> \<not> is_low u \<and> unat u < 0x80"
    using ascii by (auto simp: is_high_def is_low_def word_le_nat_alt word_less_nat_alt)
  then have "scalars (u # us) = unat u # scalars us \<and> utf8 (unat u) = [unat u] \<and> unat u < 0x80"
    by (cases us) (auto simp: utf8_def)
  then have "strip_bom ?bs = ?bs" by (auto simp: strip_bom_def)
  then show p: "utf8_points (text_encode (u # us)) = map Some (scalars (u # us))"
    using utf8_run_points sc by (simp add: utf8_points_def bytes)
  have "map (\<lambda>c. units_of (the c)) (map Some cs) = map units_of cs" "None \<notin> set (map Some cs)" for cs
    by auto
  then show "text_decode_fatal (text_encode (u # us)) = Some (u # us)"
    using sc unfolding text_decode_fatal_def p by metis
  have "map (\<lambda>c. units_of (case c of None \<Rightarrow> REPLACEMENT | Some x \<Rightarrow> x)) (map Some cs) = map units_of cs" for cs
    by simp
  then show "text_decode (text_encode (u # us)) = u # us"
    using sc unfolding text_decode_def p by metis
qed

end
