(* ===== verification/Json.thy ===== *)
theory Json
  imports JsText
begin

text \<open>
  \<open>JSON.stringify\<close> and \<open>JSON.parse\<close>.  A value keeps the members of an object in order; a number is a
  decimal \<open>m * 10 ^ e\<close>, and only integers are printed (the program prints no other numbers).  The parser
  follows the grammar of the standard, with white space, escapes and, for an object, the last member of a
  name winning; it is a descent with a fuel that is more than any text can use.
\<close>

datatype json =
    JNull
  | JBool bool
  | JNumber int int
  | JString js_string
  | JArray "json list"
  | JObject "(js_string \<times> json) list"

section \<open>Printing\<close>

definition hex_digit :: "nat \<Rightarrow> 16 word" where
  "hex_digit d = (if d < 10 then of_nat (0x30 + d) else of_nat (0x57 + d))"

definition unicode_escape :: "16 word \<Rightarrow> js_string" where
  "unicode_escape u = (let n = unat u in
     [0x5C, 0x75, hex_digit (n div 0x1000), hex_digit (n div 0x100 mod 0x10), hex_digit (n div 0x10 mod 0x10),
      hex_digit (n mod 0x10)])"

definition quote_unit :: "16 word \<Rightarrow> js_string" where
  "quote_unit u =
     (if u = 0x08 then [0x5C, 0x62] else if u = 0x09 then [0x5C, 0x74] else if u = 0x0A then [0x5C, 0x6E]
      else if u = 0x0C then [0x5C, 0x66] else if u = 0x0D then [0x5C, 0x72] else if u = 0x22 then [0x5C, 0x22]
      else if u = 0x5C then [0x5C, 0x5C] else if u < 0x20 \<or> is_high u \<or> is_low u then unicode_escape u
      else [u])"

fun quote_body :: "js_string \<Rightarrow> js_string" where
  "quote_body [] = []"
| "quote_body [u] = quote_unit u"
| "quote_body (u # v # us) =
     (if is_high u \<and> is_low v then [u, v] @ quote_body us else quote_unit u @ quote_body (v # us))"

definition quote :: "js_string \<Rightarrow> js_string" where
  "quote s = [0x22] @ quote_body s @ [0x22]"

fun join :: "js_string list \<Rightarrow> js_string" where
  "join [] = []"
| "join [s] = s"
| "join (s # ss) = s @ [0x2C] @ join ss"

definition number_text :: "int \<Rightarrow> int \<Rightarrow> js_string" where
  "number_text m e = js (bigint_to_string m) @ (if e = 0 then [] else [0x65] @ js (bigint_to_string e))"

fun stringify :: "json \<Rightarrow> js_string" where
  "stringify JNull = js ''null''"
| "stringify (JBool True) = js ''true''"
| "stringify (JBool False) = js ''false''"
| "stringify (JNumber m e) = number_text m e"
| "stringify (JString s) = quote s"
| "stringify (JArray vs) = [0x5B] @ join (map stringify vs) @ [0x5D]"
| "stringify (JObject ms) = [0x7B] @ join (map (\<lambda>(k, v). quote k @ 0x3A # stringify v) ms) @ [0x7D]"

section \<open>Parsing\<close>

definition is_space :: "16 word \<Rightarrow> bool" where
  "is_space u \<longleftrightarrow> u = 0x20 \<or> u = 0x09 \<or> u = 0x0A \<or> u = 0x0D"

definition skip_ws :: "js_string \<Rightarrow> js_string" where
  "skip_ws cs = dropWhile is_space cs"

definition is_digit :: "16 word \<Rightarrow> bool" where
  "is_digit u \<longleftrightarrow> 0x30 \<le> u \<and> u \<le> 0x39"

definition hex_value :: "16 word \<Rightarrow> nat option" where
  "hex_value u = (if is_digit u then Some (unat u - 0x30)
     else if 0x61 \<le> u \<and> u \<le> 0x66 then Some (unat u - 0x57)
     else if 0x41 \<le> u \<and> u \<le> 0x46 then Some (unat u - 0x37) else None)"

definition hex4 :: "16 word \<Rightarrow> 16 word \<Rightarrow> 16 word \<Rightarrow> 16 word \<Rightarrow> 16 word option" where
  "hex4 a b c d = (case (hex_value a, hex_value b, hex_value c, hex_value d) of
     (Some w, Some x, Some y, Some z) \<Rightarrow> Some (of_nat (0x1000 * w + 0x100 * x + 0x10 * y + z)) | _ \<Rightarrow> None)"

definition escaped :: "16 word \<Rightarrow> 16 word option" where
  "escaped u =
     (if u = 0x22 \<or> u = 0x5C \<or> u = 0x2F then Some u else if u = 0x62 then Some 0x08
      else if u = 0x66 then Some 0x0C else if u = 0x6E then Some 0x0A else if u = 0x72 then Some 0x0D
      else if u = 0x74 then Some 0x09 else None)"

text \<open>The rest of a string literal.\<close>

definition cons_fst :: "'a \<Rightarrow> ('a list \<times> 'b) option \<Rightarrow> ('a list \<times> 'b) option" where
  "cons_fst x r = map_option (\<lambda>(xs, y). (x # xs, y)) r"

fun parse_chars :: "js_string \<Rightarrow> (js_string \<times> js_string) option" where
  "parse_chars [] = None"
| "parse_chars (c # cs) =
     (if c = 0x22 then Some ([], cs)
      else if c < 0x20 then None
      else if c \<noteq> 0x5C then cons_fst c (parse_chars cs)
      else case cs of
        [] \<Rightarrow> None
      | e # cs1 \<Rightarrow>
          if e = 0x75
          then (case cs1 of
              h1 # h2 # h3 # h4 # rest \<Rightarrow>
                (case hex4 h1 h2 h3 h4 of None \<Rightarrow> None | Some u \<Rightarrow> cons_fst u (parse_chars rest))
            | _ \<Rightarrow> None)
          else (case escaped e of None \<Rightarrow> None | Some u \<Rightarrow> cons_fst u (parse_chars cs1)))"

fun digits_value :: "nat \<Rightarrow> js_string \<Rightarrow> nat" where
  "digits_value n [] = n"
| "digits_value n (d # ds) = digits_value (10 * n + (unat d - 0x30)) ds"

definition span_digits :: "js_string \<Rightarrow> js_string \<times> js_string" where
  "span_digits cs = (takeWhile is_digit cs, dropWhile is_digit cs)"

text \<open>Optional fraction and exponent: the digits of the fraction, the exponent, the rest.\<close>

definition parse_fraction :: "js_string \<Rightarrow> (js_string \<times> js_string) option" where
  "parse_fraction cs = (case cs of
     c # r \<Rightarrow> if c = 0x2E
       then (case span_digits r of (ds, r1) \<Rightarrow> if ds = [] then None else Some (ds, r1)) else Some ([], cs)
   | [] \<Rightarrow> Some ([], cs))"

definition parse_exponent :: "js_string \<Rightarrow> (int \<times> js_string) option" where
  "parse_exponent cs = (case cs of
     c # r \<Rightarrow>
       if c = 0x65 \<or> c = 0x45
       then let (sign, r1) = (case r of
              s # r' \<Rightarrow> if s = 0x2D then (-1, r') else if s = 0x2B then (1, r') else (1, r) | [] \<Rightarrow> (1, r))
            in case span_digits r1 of
                 (ds, r2) \<Rightarrow> if ds = [] then None else Some (sign * int (digits_value 0 ds), r2)
       else Some (0, cs)
   | [] \<Rightarrow> Some (0, cs))"

definition parse_number :: "js_string \<Rightarrow> (json \<times> js_string) option" where
  "parse_number cs =
     (let (sign, cs1) = (case cs of c # r \<Rightarrow> if c = 0x2D then (-1, r) else (1, cs) | [] \<Rightarrow> (1, cs));
          (whole, cs2) = (case cs1 of c # r \<Rightarrow> if c = 0x30 then ([c], r) else span_digits cs1 | [] \<Rightarrow> ([], cs1))
      in if whole = [] then None
         else case parse_fraction cs2 of
           None \<Rightarrow> None
         | Some (frac, cs3) \<Rightarrow>
             (case parse_exponent cs3 of
                None \<Rightarrow> None
              | Some (e, cs4) \<Rightarrow>
                  Some (JNumber (sign * int (digits_value 0 (whole @ frac))) (e - int (length frac)), cs4)))"

text \<open>A literal name.\<close>

definition parse_word :: "string \<Rightarrow> json \<Rightarrow> js_string \<Rightarrow> (json \<times> js_string) option" where
  "parse_word w v cs =
     (if take (length w) cs = js w then Some (v, drop (length w) cs) else None)"

definition new_object :: "(js_string \<times> json) list \<Rightarrow> json" where
  "new_object ms = JObject (foldl (\<lambda>xs (k, v). map_set k v xs) [] ms)"

fun parse_value :: "nat \<Rightarrow> js_string \<Rightarrow> (json \<times> js_string) option"
  and parse_elements :: "nat \<Rightarrow> js_string \<Rightarrow> (json list \<times> js_string) option"
  and parse_members :: "nat \<Rightarrow> js_string \<Rightarrow> ((js_string \<times> json) list \<times> js_string) option" where
  "parse_value 0 cs = None"
| "parse_value (Suc n) cs =
     (case skip_ws cs of
        [] \<Rightarrow> None
      | c # r \<Rightarrow>
          if c = 0x22 then map_option (\<lambda>(s, r1). (JString s, r1)) (parse_chars r)
          else if c = 0x5B
          then (case skip_ws r of
              d # r1 \<Rightarrow> if d = 0x5D then Some (JArray [], r1)
                else map_option (\<lambda>(vs, r2). (JArray vs, r2)) (parse_elements n r)
            | [] \<Rightarrow> None)
          else if c = 0x7B
          then (case skip_ws r of
              d # r1 \<Rightarrow> if d = 0x7D then Some (JObject [], r1)
                else map_option (\<lambda>(ms, r2). (new_object ms, r2)) (parse_members n r)
            | [] \<Rightarrow> None)
          else if c = 0x6E then parse_word ''null'' JNull (c # r)
          else if c = 0x74 then parse_word ''true'' (JBool True) (c # r)
          else if c = 0x66 then parse_word ''false'' (JBool False) (c # r)
          else parse_number (c # r))"
| "parse_elements 0 cs = None"
| "parse_elements (Suc n) cs =
     (case parse_value n cs of
        None \<Rightarrow> None
      | Some (v, r) \<Rightarrow>
          (case skip_ws r of
             c # r1 \<Rightarrow> if c = 0x2C then cons_fst v (parse_elements n r1)
               else if c = 0x5D then Some ([v], r1) else None
           | [] \<Rightarrow> None))"
| "parse_members 0 cs = None"
| "parse_members (Suc n) cs =
     (case skip_ws cs of
        c # r \<Rightarrow>
          if c \<noteq> 0x22 then None
          else (case parse_chars r of
              None \<Rightarrow> None
            | Some (k, r1) \<Rightarrow>
                (case skip_ws r1 of
                   d # r2 \<Rightarrow>
                     if d \<noteq> 0x3A then None
                     else (case parse_value n r2 of
                         None \<Rightarrow> None
                       | Some (v, r3) \<Rightarrow>
                           (case skip_ws r3 of
                              f # r4 \<Rightarrow> if f = 0x2C then cons_fst (k, v) (parse_members n r4)
                                else if f = 0x7D then Some ([(k, v)], r4) else None
                            | [] \<Rightarrow> None))
                 | [] \<Rightarrow> None))
      | [] \<Rightarrow> None)"

declare parse_value.simps [simp del] parse_elements.simps [simp del] parse_members.simps [simp del]

definition json_parse :: "js_string \<Rightarrow> json option" where
  "json_parse cs = (case parse_value (2 * length cs + 1) cs of
     Some (v, r) \<Rightarrow> if skip_ws r = [] then Some v else None | None \<Rightarrow> None)"

end
