(* ===== verification/JsonFacts.thy ===== *)
theory JsonFacts
  imports Json
begin

text \<open>
  What \<open>JSON.stringify\<close> prints is read back by \<open>JSON.parse\<close>, and it is well-formed UTF-16, so that it
  also survives the encoder and the decoder; the fuel of the parser is enough for every text.
\<close>

section \<open>String literals\<close>

lemma unat_offset [simp]:
  assumes "numeral k + n < 0x10000"
  shows "unat (numeral k + of_nat n :: 16 word) = numeral k + n"
proof -
  have "unat (of_nat (numeral k + n) :: 16 word) = numeral k + n" using assms by (simp only: unat_of_nat) simp
  then show ?thesis by simp
qed

lemma hex_value_digit: "d < 16 \<Longrightarrow> hex_value (hex_digit d) = Some d"
  by (auto simp: hex_value_def hex_digit_def is_digit_def word_le_nat_alt unat_of_nat)

lemma hex_digits_sum:
  assumes "n < 0x10000"
  shows "0x1000 * (n div 0x1000) + 0x100 * (n div 0x100 mod 0x10) + 0x10 * (n div 0x10 mod 0x10) + n mod 0x10 = (n :: nat)"
proof -
  define a b c where "a = n div 0x10" and "b = n div 0x100" and "c = n div 0x1000"
  have "b = 0x10 * c + b mod 0x10" "a = 0x10 * b + a mod 0x10"
    by (simp_all add: a_def b_def c_def div_mult2_eq [of n "0x100" "0x10", simplified]
      div_mult2_eq [of n "0x10" "0x10", simplified])
  moreover have "n = 0x10 * a + n mod 0x10" by (simp add: a_def)
  ultimately show ?thesis unfolding a_def [symmetric] b_def [symmetric] c_def [symmetric] by linarith
qed

lemma parse_unicode_escape: "parse_chars (unicode_escape u @ rest) = cons_fst u (parse_chars rest)"
proof -
  have n: "unat u < 0x10000" using unsigned_less [of u, where ?'a = nat] by simp
  then have "unat u div 0x1000 < 16" by simp
  then have "hex4 (hex_digit (unat u div 0x1000)) (hex_digit (unat u div 0x100 mod 0x10))
      (hex_digit (unat u div 0x10 mod 0x10)) (hex_digit (unat u mod 0x10)) = Some u"
    by (simp add: hex4_def hex_value_digit hex_digits_sum [OF n])
  then show ?thesis by (simp add: unicode_escape_def Let_def)
qed

lemma parse_quote_unit: "parse_chars (quote_unit u @ rest) = cons_fst u (parse_chars rest)"
  by (simp add: quote_unit_def parse_unicode_escape escaped_def)

lemma high_low_plain: "is_high u \<or> is_low u \<Longrightarrow> \<not> u < 0x20 \<and> u \<noteq> 0x22 \<and> u \<noteq> 0x5C"
  by (auto simp: is_high_def is_low_def word_le_nat_alt word_less_nat_alt)

lemma parse_quote_body: "parse_chars (quote_body s @ 0x22 # rest) = Some (s, rest)"
proof (induction s rule: quote_body.induct)
  case (3 u v us)
  then show ?case
    using high_low_plain [of u] high_low_plain [of v] by (simp add: parse_quote_unit cons_fst_def)
qed (simp_all add: parse_quote_unit cons_fst_def)

section \<open>Numbers\<close>

lemma js_append: "js (s @ t) = js s @ js t"
  by (simp add: js_def)

lemma digit_unit: "d < 10 \<Longrightarrow> of_char (digit_char d) = (of_nat (0x30 + d) :: 16 word)"
  using of_nat_of_char [of "digit_char d", where ?'a = "16 word"] by (simp add: digit_char_def)

lemma digits_value_append: "digits_value n (xs @ ys) = digits_value (digits_value n xs) ys"
  by (induction n xs rule: digits_value.induct) simp_all

lemma nat_to_string_digits:
  "(\<forall>u \<in> set (js (nat_to_string n)). is_digit u) \<and> digits_value 0 (js (nat_to_string n)) = n \<and>
    js (nat_to_string n) \<noteq> [] \<and> (hd (js (nat_to_string n)) = 0x30 \<longrightarrow> n = 0)"
proof (induction n rule: nat_to_string.induct)
  case (1 n)
  have unit: "is_digit (of_nat (0x30 + d))" "unat (of_nat (0x30 + d) :: 16 word) = 0x30 + d" if "d < 10" for d
    using that by (simp_all add: is_digit_def word_le_nat_alt unat_of_nat)
  show ?case
  proof (cases "n < 10")
    case True
    then have "js (nat_to_string n) = [of_nat (0x30 + n)]"
      by (simp add: nat_to_string.simps [of n] js_def digit_unit)
    moreover have "of_nat (0x30 + n) = (0x30 :: 16 word) \<Longrightarrow> n = 0"
      using unit(2) [OF True] by simp
    ultimately show ?thesis using unit [OF True] by simp
  next
    case False
    then have s: "js (nat_to_string n) = js (nat_to_string (n div 10)) @ [of_nat (0x30 + n mod 10)]"
      by (simp add: nat_to_string.simps [of n] js_def digit_unit)
    have "n mod 10 < 10" by simp
    note u = unit [OF this]
    show ?thesis using 1 False u unfolding s by (auto simp: digits_value_append)
  qed
qed

definition no_number :: "js_string \<Rightarrow> bool" where
  "no_number rest \<longleftrightarrow> (case rest of [] \<Rightarrow> True
     | c # r \<Rightarrow> \<not> is_digit c \<and> c \<noteq> 0x2E \<and> c \<noteq> 0x65 \<and> c \<noteq> 0x45)"

lemma span_digits_append:
  "\<forall>u \<in> set ds. is_digit u \<Longrightarrow> no_number rest \<Longrightarrow> span_digits (ds @ rest) = (ds, rest)"
  by (cases rest) (auto simp: span_digits_def no_number_def takeWhile_append dropWhile_append)

lemma parse_nat_text:
  assumes "no_number rest"
  shows "parse_number (js (nat_to_string n) @ rest) = Some (JNumber (int n) 0, rest)"
    and "parse_number (0x2D # js (nat_to_string n) @ rest) = Some (JNumber (- int n) 0, rest)"
proof -
  let ?ds = "js (nat_to_string n)"
  note d = nat_to_string_digits [of n]
  obtain c ds where ds: "?ds = c # ds" using d by (cases ?ds) auto
  have minus: "c \<noteq> 0x2D" using d ds by (auto simp: is_digit_def word_le_nat_alt)
  have "(if c = 0x30 then ([c], ds @ rest) else span_digits (c # ds @ rest)) = (?ds, rest)"
  proof (cases "c = 0x30")
    case True
    then have "n = 0" using d ds by simp
    then have "ds = []" using ds by (simp add: nat_to_string.simps js_def)
    then show ?thesis using True ds by simp
  next
    case False
    then show ?thesis using span_digits_append [of ?ds rest] d assms ds by simp
  qed
  moreover have "parse_fraction rest = Some ([], rest)" "parse_exponent rest = Some (0, rest)"
    using assms by (auto simp: parse_fraction_def parse_exponent_def no_number_def split: list.splits)
  ultimately show "parse_number (?ds @ rest) = Some (JNumber (int n) 0, rest)"
    "parse_number (0x2D # ?ds @ rest) = Some (JNumber (- int n) 0, rest)"
    using d minus by (simp_all add: parse_number_def ds Let_def)
qed

lemma parse_int_text:
  assumes "no_number rest"
  shows "parse_number (js (bigint_to_string i) @ rest) = Some (JNumber i 0, rest)"
proof (cases "i < 0")
  case True
  then have "js (bigint_to_string i) = 0x2D # js (nat_to_string (nat (- i)))"
    by (simp add: bigint_to_string_def js_def)
  then show ?thesis using parse_nat_text(2) [OF assms, of "nat (- i)"] True by simp
next
  case False
  then show ?thesis using parse_nat_text(1) [OF assms, of "nat i"] by (simp add: bigint_to_string_def)
qed

section \<open>The fuel is enough\<close>

lemma skip_ws_length: "length (skip_ws cs) \<le> length cs"
  by (simp add: skip_ws_def length_dropWhile_le)

lemma cons_fst_Some: "cons_fst x r = Some (xs, y) \<longleftrightarrow> (\<exists>zs. r = Some (zs, y) \<and> xs = x # zs)"
  by (auto simp: cons_fst_def)

lemma parse_chars_shorter: "parse_chars cs = Some (s, r) \<Longrightarrow> length r < length cs"
proof (induction cs arbitrary: s rule: parse_chars.induct)
  case (2 c cs)
  then show ?case
    by (fastforce simp: cons_fst_Some split: if_splits list.splits option.splits)
qed simp

lemma span_digits_shorter: "span_digits cs = (ds, r) \<Longrightarrow> length cs = length ds + length r"
  by (auto simp: span_digits_def) (metis length_append takeWhile_dropWhile_id)

lemma parse_number_shorter: "parse_number cs = Some (v, r) \<Longrightarrow> length r < length cs"
proof -
  assume a: "parse_number cs = Some (v, r)"
  obtain sign cs1 where s: "(case cs of c # r \<Rightarrow> if c = 0x2D then (-1 :: int, r) else (1, cs) | [] \<Rightarrow> (1, cs)) = (sign, cs1)"
    by fastforce
  obtain whole cs2 where w: "(case cs1 of c # r \<Rightarrow> if c = 0x30 then ([c], r) else span_digits cs1 | [] \<Rightarrow> ([], cs1)) = (whole, cs2)"
    by fastforce
  obtain frac cs3 e where f: "whole \<noteq> []" "parse_fraction cs2 = Some (frac, cs3)" "parse_exponent cs3 = Some (e, r)"
    using a by (auto simp: parse_number_def Let_def s w split: if_splits option.splits)
  have "length cs1 \<le> length cs" using s by (auto split: list.splits if_splits)
  moreover have "length cs2 < length cs1"
    using w f(1) span_digits_shorter [of cs1 whole cs2] by (auto split: list.splits if_splits)
  moreover have "length cs3 \<le> length cs2"
    using f(2) by (auto simp: parse_fraction_def split: list.splits if_splits prod.splits dest: span_digits_shorter)
  moreover have "length r \<le> length cs3"
    using f(3) by (auto simp: parse_exponent_def Let_def split: list.splits if_splits prod.splits dest: span_digits_shorter)
  ultimately show ?thesis by linarith
qed

lemma parse_word_shorter: "parse_word w x cs = Some (v, r) \<Longrightarrow> w \<noteq> [] \<Longrightarrow> length r < length cs"
proof -
  assume a: "parse_word w x cs = Some (v, r)" "w \<noteq> []"
  then have "take (length w) cs = js w" "r = drop (length w) cs" by (auto simp: parse_word_def split: if_splits)
  then have "length (take (length w) cs) = length w" and r: "length r = length cs - length w"
    by (simp_all add: js_def)
  then have "length w \<le> length cs" by (metis length_take min.cobounded1)
  moreover have "0 < length w" using a(2) by simp
  ultimately show ?thesis using r by linarith
qed

lemmas parse_steps = parse_value.simps(2) parse_elements.simps(2) parse_members.simps(2)
lemmas parse_stops = parse_value.simps(1) parse_elements.simps(1) parse_members.simps(1)

lemma parse_shorter:
  "(\<forall>cs v r. parse_value n cs = Some (v, r) \<longrightarrow> length r < length cs) \<and>
   (\<forall>cs vs r. parse_elements n cs = Some (vs, r) \<longrightarrow> length r < length cs) \<and>
   (\<forall>cs ms r. parse_members n cs = Some (ms, r) \<longrightarrow> length r < length cs)"
proof (induction n)
  case (Suc n)
  have skip: "skip_ws cs = c # r \<Longrightarrow> length r < length cs" for cs c r
    using skip_ws_length [of cs] by simp
  have v: "length r < length cs" if pv: "parse_value (Suc n) cs = Some (v, r)" for cs v r
  proof -
    obtain c cs1 where c: "skip_ws cs = c # cs1" using pv by (cases "skip_ws cs") (auto simp: parse_steps)
    have "length r < length (c # cs1)"
      using pv c Suc parse_chars_shorter [of cs1] parse_number_shorter parse_word_shorter skip [of cs1]
      by (fastforce simp: parse_steps split: if_splits list.splits)
    then show ?thesis using skip_ws_length [of cs] c by simp
  qed
  have e: "length r < length cs" if pe: "parse_elements (Suc n) cs = Some (vs, r)" for cs vs r
  proof -
    obtain v cs1 where v: "parse_value n cs = Some (v, cs1)" using pe by (auto simp: parse_steps split: option.splits)
    then have "length cs1 < length cs" using Suc by blast
    moreover obtain c cs2 where c: "skip_ws cs1 = c # cs2" using pe v by (cases "skip_ws cs1") (auto simp: parse_steps)
    moreover have "length r \<le> length cs2"
      using pe v c Suc by (fastforce simp: parse_steps cons_fst_Some split: if_splits)
    ultimately show ?thesis using skip [OF c] by linarith
  qed
  have m: "length r < length cs" if m: "parse_members (Suc n) cs = Some (ms, r)" for cs ms r
  proof -
    obtain c cs1 where c: "skip_ws cs = c # cs1" "c = 0x22"
      using m by (cases "skip_ws cs") (auto simp: parse_steps split: if_splits)
    obtain k cs2 where k: "parse_chars cs1 = Some (k, cs2)" using m c by (auto simp: parse_steps split: option.splits)
    obtain d cs3 where d: "skip_ws cs2 = d # cs3" "d = 0x3A"
      using m c k by (cases "skip_ws cs2") (auto simp: parse_steps split: if_splits)
    obtain v cs4 where v: "parse_value n cs3 = Some (v, cs4)" using m c k d by (auto simp: parse_steps split: option.splits)
    obtain f cs5 where f: "skip_ws cs4 = f # cs5" using m c k d v by (cases "skip_ws cs4") (auto simp: parse_steps)
    have "length r \<le> length cs5" using m c k d v f Suc by (fastforce simp: parse_steps cons_fst_Some split: if_splits)
    moreover have "length cs4 < length cs3" using v Suc by blast
    ultimately show ?thesis
      using skip [OF c(1)] parse_chars_shorter [OF k] skip [OF d(1)] skip [OF f] by linarith
  qed
  show ?case using v e m by blast
qed (simp add: parse_stops)

lemma fuel_step:
  "(\<forall>cs. 2 * length cs + 1 \<le> n \<longrightarrow> parse_value (Suc n) cs = parse_value n cs) \<and>
   (\<forall>cs. 2 * length cs + 2 \<le> n \<longrightarrow> parse_elements (Suc n) cs = parse_elements n cs) \<and>
   (\<forall>cs. 2 * length cs + 2 \<le> n \<longrightarrow> parse_members (Suc n) cs = parse_members n cs)"
proof (induction n)
  case (Suc n)
  have skip: "skip_ws cs = c # r \<Longrightarrow> length r < length cs" for cs c r
    using skip_ws_length [of cs] by simp
  have v: "parse_value (Suc (Suc n)) cs = parse_value (Suc n) cs" if "2 * length cs + 1 \<le> Suc n" for cs
  proof (cases "skip_ws cs")
    case (Cons c r)
    then have "2 * length r + 2 \<le> n" using skip [OF Cons] that by linarith
    then have "parse_elements (Suc n) r = parse_elements n r" "parse_members (Suc n) r = parse_members n r"
      using Suc by blast+
    then show ?thesis
      unfolding parse_value.simps(2) [of "Suc n" cs] parse_value.simps(2) [of n cs] Cons by (simp split: list.split)
  qed (simp add: parse_steps)
  have e: "parse_elements (Suc (Suc n)) cs = parse_elements (Suc n) cs" if "2 * length cs + 2 \<le> Suc n" for cs
  proof -
    have same: "parse_value (Suc n) cs = parse_value n cs" using Suc that by (metis Suc_le_mono add_2_eq_Suc' add.commute plus_1_eq_Suc)
    show ?thesis
    proof (cases "parse_value n cs")
      case (Some p)
      obtain x r where p: "p = (x, r)" by fastforce
      have r: "length r < length cs" using Some p parse_shorter by blast
      have "parse_elements (Suc n) r1 = parse_elements n r1" if "skip_ws r = c # r1" for c r1
      proof -
        have "2 * length r1 + 2 \<le> n" using skip [OF that] r \<open>2 * length cs + 2 \<le> Suc n\<close> by linarith
        then show ?thesis using Suc by blast
      qed
      then show ?thesis
        unfolding parse_elements.simps(2) [of "Suc n" cs] parse_elements.simps(2) [of n cs] same
        using Some p by (simp split: list.split)
    qed (simp add: parse_elements.simps(2) [of "Suc n" cs] parse_elements.simps(2) [of n cs] same)
  qed
  have m: "parse_members (Suc (Suc n)) cs = parse_members (Suc n) cs" if len: "2 * length cs + 2 \<le> Suc n" for cs
  proof -
    have inner: "parse_value (Suc n) r2 = parse_value n r2 \<and>
        (\<forall>v r3 f r4. parse_value n r2 = Some (v, r3) \<longrightarrow> skip_ws r3 = f # r4 \<longrightarrow>
          parse_members (Suc n) r4 = parse_members n r4)"
      if "skip_ws cs = c # r" "parse_chars r = Some (k, r1)" "skip_ws r1 = d # r2" for c r k r1 d r2
    proof -
      have l: "length r2 + 3 \<le> length cs"
        using skip [OF that(1)] parse_chars_shorter [OF that(2)] skip [OF that(3)] by linarith
      have "2 * length r4 + 2 \<le> n" if "parse_value n r2 = Some (v, r3)" "skip_ws r3 = f # r4" for v r3 f r4
      proof -
        have "length r3 < length r2" using that(1) parse_shorter by blast
        then show ?thesis using skip [OF that(2)] l len by linarith
      qed
      moreover have "2 * length r2 + 1 \<le> n" using l len by linarith
      ultimately show ?thesis using Suc by blast
    qed
    show ?thesis
      unfolding parse_members.simps(2) [of "Suc n" cs] parse_members.simps(2) [of n cs]
      using inner by (auto split: list.split option.split)
  qed
  show ?case using v e m by blast
qed simp

lemma fuel_enough:
  assumes "2 * length cs + 1 \<le> n"
  shows "parse_value n cs = parse_value (2 * length cs + 1) cs"
  using assms
proof (induction n rule: dec_induct)
  case (step n)
  then show ?case using fuel_step by metis
qed simp

section \<open>Round trip\<close>

text \<open>The values the program prints: integers, objects whose member names are distinct.\<close>

fun json_ok :: "json \<Rightarrow> bool" where
  "json_ok (JNumber m e) = (e = 0)"
| "json_ok (JArray vs) = list_all json_ok vs"
| "json_ok (JObject ms) = (distinct (map fst ms) \<and> list_all (\<lambda>(k, v). json_ok v) ms)"
| "json_ok v = True"

definition reads :: "json \<Rightarrow> bool" where
  "reads v \<longleftrightarrow> (\<exists>N. \<forall>n rest. N \<le> n \<longrightarrow> no_number rest \<longrightarrow> parse_value n (stringify v @ rest) = Some (v, rest))"

lemma readsI:
  assumes "\<And>n rest. N \<le> n \<Longrightarrow> no_number rest \<Longrightarrow> parse_value (Suc n) (stringify v @ rest) = Some (v, rest)"
  shows "reads v"
  unfolding reads_def
proof (intro exI [of _ "Suc N"] allI impI)
  fix n rest assume "Suc N \<le> n" "no_number rest"
  then show "parse_value n (stringify v @ rest) = Some (v, rest)" using assms by (cases n) auto
qed

lemma number_start: "\<exists>c r. js (bigint_to_string i) = c # r \<and> (c = 0x2D \<or> is_digit c)"
proof -
  obtain c r where "js (nat_to_string (nat i)) = c # r" "is_digit c"
    using nat_to_string_digits [of "nat i"] by (cases "js (nat_to_string (nat i))") auto
  then show ?thesis by (auto simp: bigint_to_string_def js_def)
qed

lemma digit_plain: "c = 0x2D \<or> is_digit c \<Longrightarrow> \<not> is_space c \<and> c \<noteq> 0x5D \<and> c \<noteq> 0x22 \<and> c \<noteq> 0x5B \<and> c \<noteq> 0x7B \<and>
    c \<noteq> 0x6E \<and> c \<noteq> 0x74 \<and> c \<noteq> 0x66"
  by (auto simp: is_digit_def is_space_def word_le_nat_alt)

lemma stringify_start:
  assumes "json_ok v"
  shows "\<exists>c r. stringify v = c # r \<and> \<not> is_space c \<and> c \<noteq> 0x5D"
proof (cases v)
  case (JBool b)
  then show ?thesis by (cases b) (auto simp: js_def is_space_def)
next
  case (JNumber m e)
  then show ?thesis using assms number_start [of m] digit_plain by (auto simp: number_text_def)
qed (auto simp: js_def quote_def is_space_def)

lemma skip_ws_plain: "\<not> is_space c \<Longrightarrow> skip_ws (c # r) = c # r"
  by (simp add: skip_ws_def)

lemma mark_plain: "skip_ws (0x22 # r) = 0x22 # r" "skip_ws (0x2C # r) = 0x2C # r" "skip_ws (0x5D # r) = 0x5D # r"
  "skip_ws (0x7D # r) = 0x7D # r" "skip_ws (0x3A # r) = 0x3A # r" "skip_ws (0x5B # r) = 0x5B # r"
  "skip_ws (0x7B # r) = 0x7B # r"
  "no_number (0x2C # r)" "no_number (0x5D # r)" "no_number (0x7D # r)"
  by (simp_all add: skip_ws_def is_space_def no_number_def is_digit_def word_le_nat_alt)

lemma read_elements:
  assumes "vs \<noteq> []" and "\<forall>v \<in> set vs. reads v"
  shows "\<exists>N. \<forall>n rest. N \<le> n \<longrightarrow> parse_elements n (join (map stringify vs) @ 0x5D # rest) = Some (vs, rest)"
  using assms
proof (induction vs rule: list_nonempty_induct)
  case (single v)
  then obtain N where "\<forall>n\<ge>N. \<forall>rest. no_number rest \<longrightarrow> parse_value n (stringify v @ rest) = Some (v, rest)"
    by (auto simp: reads_def)
  note N = this [rule_format]
  have "parse_elements n (stringify v @ 0x5D # rest) = Some ([v], rest)" if "Suc N \<le> n" for n rest
    using that N [of "n - 1" "0x5D # rest"] by (cases n) (simp_all add: parse_steps mark_plain)
  then show ?case by auto
next
  case (cons v vs)
  obtain N where "\<forall>n\<ge>N. \<forall>rest. no_number rest \<longrightarrow> parse_value n (stringify v @ rest) = Some (v, rest)"
    using cons.prems by (auto simp: reads_def)
  note N = this [rule_format]
  obtain M where M: "\<And>n rest. M \<le> n \<Longrightarrow> parse_elements n (join (map stringify vs) @ 0x5D # rest) = Some (vs, rest)"
    using cons by auto
  obtain w ws where ws: "vs = w # ws" using cons.hyps by (cases vs) auto
  have "parse_elements n (join (map stringify (v # vs)) @ 0x5D # rest) = Some (v # vs, rest)"
    if "Suc (N + M) \<le> n" for n rest
    using that N [of "n - 1" "0x2C # join (map stringify vs) @ 0x5D # rest"] M [of "n - 1" rest]
    by (cases n) (simp_all add: parse_steps mark_plain cons_fst_def ws)
  then show ?case by blast
qed

lemma parse_quote: "parse_chars (quote_body s @ [0x22] @ rest) = Some (s, rest)"
  using parse_quote_body by simp

lemma read_members:
  assumes "ms \<noteq> []" and "\<forall>(k, v) \<in> set ms. reads v"
  shows "\<exists>N. \<forall>n rest. N \<le> n \<longrightarrow>
    parse_members n (join (map (\<lambda>(k, v). quote k @ 0x3A # stringify v) ms) @ 0x7D # rest) = Some (ms, rest)"
  using assms
proof (induction ms rule: list_nonempty_induct)
  case (single m)
  obtain k v where m: "m = (k, v)" by fastforce
  obtain N where "\<forall>n\<ge>N. \<forall>rest. no_number rest \<longrightarrow> parse_value n (stringify v @ rest) = Some (v, rest)"
    using single m by (auto simp: reads_def)
  note N = this [rule_format]
  have "parse_members n (quote k @ 0x3A # stringify v @ 0x7D # rest) = Some ([(k, v)], rest)"
    if "Suc N \<le> n" for n rest
    using that N [of "n - 1" "0x7D # rest"]
    by (cases n) (simp_all add: parse_steps mark_plain quote_def parse_quote_body)
  then show ?case using m by auto
next
  case (cons m ms)
  obtain k v where m: "m = (k, v)" by fastforce
  let ?t = "join (map (\<lambda>(k, v). quote k @ 0x3A # stringify v) ms)"
  obtain N where "\<forall>n\<ge>N. \<forall>rest. no_number rest \<longrightarrow> parse_value n (stringify v @ rest) = Some (v, rest)"
    using cons.prems m by (auto simp: reads_def)
  note N = this [rule_format]
  obtain M where M: "\<And>n rest. M \<le> n \<Longrightarrow> parse_members n (?t @ 0x7D # rest) = Some (ms, rest)"
    using cons by auto
  obtain w ws where ws: "ms = w # ws" using cons.hyps by (cases ms) auto
  have t: "join (map (\<lambda>(k, v). quote k @ 0x3A # stringify v) (m # ms)) = quote k @ 0x3A # stringify v @ [0x2C] @ ?t"
    by (simp add: m ws)
  have "parse_members n (join (map (\<lambda>(k, v). quote k @ 0x3A # stringify v) (m # ms)) @ 0x7D # rest) = Some (m # ms, rest)"
    if "Suc (N + M) \<le> n" for n rest
    unfolding t using that N [of "n - 1" "0x2C # ?t @ 0x7D # rest"] M [of "n - 1" rest]
    by (cases n) (simp_all add: parse_steps mark_plain cons_fst_def quote_def parse_quote_body m)
  then show ?case by blast
qed

lemma new_object_distinct:
  assumes "distinct (map fst ms)"
  shows "new_object ms = JObject ms"
proof -
  have "foldl (\<lambda>xs (k, v). map_set k v xs) acc ms = acc @ ms" if "distinct (map fst (acc @ ms))" for acc ms
    using that
  proof (induction ms arbitrary: acc)
    case (Cons m ms)
    obtain k v where m: "m = (k, v)" by fastforce
    then have "map_of acc k = None" using Cons.prems by (auto simp: map_of_eq_None_iff)
    then show ?case using Cons.IH [of "acc @ [(k, v)]"] Cons.prems m by (simp add: map_set_def)
  qed simp
  from this [of "[]" ms] show ?thesis using assms by (simp add: new_object_def)
qed

lemma reads_ok: "json_ok v \<Longrightarrow> reads v"
proof (induction v)
  case JNull
  show ?case by (rule readsI [of 0]) (simp add: parse_steps js_def skip_ws_def is_space_def parse_word_def)
next
  case (JBool b)
  show ?case
    by (rule readsI [of 0]) (cases b; simp add: parse_steps js_def skip_ws_def is_space_def parse_word_def)
next
  case (JNumber m e)
  obtain c r where c: "js (bigint_to_string m) = c # r" "c = 0x2D \<or> is_digit c" using number_start by blast
  note p = digit_plain [OF c(2)]
  show ?case
    using JNumber parse_int_text [of _ m] c p
    by (intro readsI [of 0]) (simp add: parse_steps number_text_def skip_ws_plain)
next
  case (JString s)
  show ?case by (rule readsI [of 0]) (simp add: parse_steps quote_def mark_plain parse_quote_body)
next
  case (JArray vs)
  show ?case
  proof (cases vs)
    case Nil
    then show ?thesis by (intro readsI [of 0]) (simp add: parse_steps mark_plain)
  next
    case (Cons v ws)
    obtain N where N: "\<And>n rest. N \<le> n \<Longrightarrow> parse_elements n (join (map stringify vs) @ 0x5D # rest) = Some (vs, rest)"
      using read_elements [of vs] JArray Cons by (auto simp: list_all_iff)
    obtain c r where c: "stringify v = c # r" "\<not> is_space c" "c \<noteq> 0x5D"
      using stringify_start [of v] JArray.prems Cons by auto
    then have "\<exists>t. join (map stringify vs) = c # t" using Cons by (cases ws) auto
    then show ?thesis
      using N c(2,3) by (intro readsI [of N]) (auto simp: parse_steps mark_plain skip_ws_plain)
  qed
next
  case (JObject ms)
  show ?case
  proof (cases ms)
    case Nil
    then show ?thesis by (intro readsI [of 0]) (simp add: parse_steps mark_plain)
  next
    case (Cons m ws)
    let ?t = "join (map (\<lambda>(k, v). quote k @ 0x3A # stringify v) ms)"
    have "\<forall>(k, v) \<in> set ms. reads v" using JObject by (fastforce simp: list_all_iff)
    then obtain N where N: "\<And>n rest. N \<le> n \<Longrightarrow> parse_members n (?t @ 0x7D # rest) = Some (ms, rest)"
      using read_members [of ms] Cons by auto
    have "\<exists>t. ?t = 0x22 # t" using Cons by (cases ws) (auto simp: quote_def split: prod.splits)
    then obtain t where t: "?t = 0x22 # t" by blast
    show ?thesis
      using N [unfolded t] JObject.prems
      by (intro readsI [of N]) (simp add: t parse_steps mark_plain new_object_distinct)
  qed
qed

lemma parse_stringify:
  assumes "json_ok v"
  shows "json_parse (stringify v) = Some v"
proof -
  let ?F = "2 * length (stringify v) + 1"
  obtain N where "\<forall>n\<ge>N. \<forall>rest. no_number rest \<longrightarrow> parse_value n (stringify v @ rest) = Some (v, rest)"
    using reads_ok [OF assms] unfolding reads_def by blast
  note N = this [rule_format]
  have "parse_value ?F (stringify v) = parse_value (N + ?F) (stringify v)" using fuel_enough [of "stringify v" "N + ?F"] by simp
  also have "\<dots> = Some (v, [])" using N [of "N + ?F" "[]"] by (simp add: no_number_def)
  finally show ?thesis by (simp add: json_parse_def skip_ws_def)
qed

section \<open>Through the encoder\<close>

lemma well_formed_append: "well_formed s \<Longrightarrow> well_formed t \<Longrightarrow> well_formed (s @ t)"
proof (induction s rule: well_formed.induct)
  case (2 u)
  then show ?case by (cases t) auto
qed (auto split: if_splits)

lemma ascii_plain: "u < 0x80 \<Longrightarrow> \<not> is_high u \<and> \<not> is_low u"
  by (auto simp: is_high_def is_low_def word_le_nat_alt word_less_nat_alt)

lemma ascii_well_formed: "\<forall>u \<in> set s. u < 0x80 \<Longrightarrow> well_formed s"
  by (induction s rule: well_formed.induct) (auto simp: ascii_plain)

lemma digit_ascii: "is_digit u \<Longrightarrow> u < 0x80"
  by (auto simp: is_digit_def word_le_nat_alt word_less_nat_alt)

lemma number_ascii: "\<forall>u \<in> set (js (bigint_to_string i)). u < 0x80"
proof -
  have "\<forall>u \<in> set (js (nat_to_string n)). u < 0x80" for n using nat_to_string_digits [of n] digit_ascii by blast
  then show ?thesis by (auto simp: bigint_to_string_def js_def)
qed

lemma hex_digit_ascii: "d < 16 \<Longrightarrow> hex_digit d < 0x80"
  by (auto simp: hex_digit_def word_less_nat_alt)

lemma quote_unit_cases: "(\<forall>w \<in> set (quote_unit u). w < 0x80) \<or> quote_unit u = [u] \<and> \<not> is_high u \<and> \<not> is_low u"
proof -
  have "unat u < 0x10000" using unsigned_less [of u, where ?'a = nat] by simp
  then have "unat u div 0x1000 < 16" by simp
  then have "\<forall>w \<in> set (unicode_escape u). w < 0x80" by (simp add: unicode_escape_def Let_def hex_digit_ascii)
  then show ?thesis by (simp add: quote_unit_def)
qed

lemma quote_unit_well_formed: "well_formed (quote_unit u)"
  using quote_unit_cases [of u] ascii_well_formed by auto

lemma quote_body_well_formed: "well_formed (quote_body s)"
proof (induction s rule: quote_body.induct)
  case (3 u v us)
  then show ?case using well_formed_append [OF quote_unit_well_formed] by simp
qed (simp_all add: quote_unit_well_formed)

lemma mark_well_formed: "u < 0x80 \<Longrightarrow> well_formed s \<Longrightarrow> well_formed (u # s)"
  using well_formed_append [of "[u]" s] ascii_plain by simp

lemma quote_well_formed: "well_formed (quote s)"
  unfolding quote_def using well_formed_append [OF quote_body_well_formed, of "[0x22]"]
  by (auto intro!: mark_well_formed simp: ascii_plain)

lemma join_well_formed: "\<forall>s \<in> set ss. well_formed s \<Longrightarrow> well_formed (join ss)"
  by (induction ss rule: join.induct) (auto intro!: well_formed_append mark_well_formed)

lemma stringify_well_formed: "well_formed (stringify v)"
proof (induction v)
  case (JBool b)
  have "\<forall>u \<in> set (stringify (JBool b)). u < 0x80" by (cases b) (simp_all add: js_def)
  then show ?case by (rule ascii_well_formed)
next
  case (JNumber m e)
  then show ?case
    using number_ascii [of m] number_ascii [of e] by (intro ascii_well_formed) (auto simp: number_text_def)
next
  case (JArray vs)
  then have "well_formed (join (map stringify vs))" by (intro join_well_formed) auto
  then have "well_formed (join (map stringify vs) @ [0x5D])" by (intro well_formed_append) (simp_all add: ascii_plain)
  then show ?case by (auto intro: mark_well_formed)
next
  case (JObject ms)
  have "well_formed (quote k @ 0x3A # stringify v)" if "(k, v) \<in> set ms" for k v
  proof -
    have "well_formed (stringify v)" using JObject that by fastforce
    then show ?thesis by (intro well_formed_append quote_well_formed mark_well_formed) simp_all
  qed
  then have "well_formed (join (map (\<lambda>(k, v). quote k @ 0x3A # stringify v) ms))"
    by (intro join_well_formed) auto
  then have "well_formed (join (map (\<lambda>(k, v). quote k @ 0x3A # stringify v) ms) @ [0x7D])"
    by (intro well_formed_append) (simp_all add: ascii_plain)
  then show ?case by (auto intro: mark_well_formed)
qed (simp_all add: quote_well_formed js_def ascii_plain)

lemma stringify_ascii_start: "\<exists>u us. stringify v = u # us \<and> u < 0x80"
proof (cases v)
  case (JBool b)
  then show ?thesis by (cases b) (auto simp: js_def)
next
  case (JNumber m e)
  then show ?thesis using number_start [of m] digit_ascii by (auto simp: number_text_def)
qed (auto simp: js_def quote_def)

lemma json_text_round_trip:
  assumes "json_ok v"
  shows "text_decode_fatal (text_encode (stringify v)) = Some (stringify v)"
    and "text_decode (text_encode (stringify v)) = stringify v" and "json_parse (stringify v) = Some v"
proof -
  obtain u us where u: "stringify v = u # us" "u < 0x80" using stringify_ascii_start by blast
  note wf = stringify_well_formed [of v, unfolded u(1)]
  show "text_decode_fatal (text_encode (stringify v)) = Some (stringify v)"
    "text_decode (text_encode (stringify v)) = stringify v"
    unfolding u(1) by (rule text_round_trip [OF wf u(2)])+
  show "json_parse (stringify v) = Some v" by (rule parse_stringify [OF assms])
qed

end
