(* ===== verification/KvMachine.thy ===== *)
theory KvMachine
  imports JsonFacts RaftNode
begin

text \<open>
  The JSON command codec (\<open>packages/raft-node/src/json-codec.ts\<close>) and the two key-value state machines:
  the replicated-kv example (\<open>examples/replicated-kv/src/state-machine.ts\<close>, names starting with \<open>kv\<close>)
  and the one of the visualizer (\<open>packages/raft-visualizer/src/server/kv-state-machine.ts\<close>, names starting
  with \<open>viz\<close>).  A \<open>Map\<close> is an association list in insertion order.  The order of \<open>localeCompare\<close> depends on
  the locale of the machine; it is given by a collation key \<open>rank\<close> of each string.
\<close>

section \<open>JsonCommandCodec\<close>

text \<open>A command is a value of the language; \<open>to_json\<close> gives its properties in the order of creation.\<close>

definition codec_encode :: "('cmd \<Rightarrow> json) \<Rightarrow> 'cmd \<Rightarrow> bytes" where
  "codec_encode to_json command = text_encode (stringify (to_json command))"

definition codec_decode :: "(json \<Rightarrow> raft_error + 'cmd) \<Rightarrow> bytes \<Rightarrow> raft_error + 'cmd" where
  "codec_decode validate bs =
     (case text_decode_fatal bs of
        None \<Rightarrow> Inl (PlainError ''The encoded data was not valid for encoding utf-8'')
      | Some t \<Rightarrow>
          (case json_parse t of
             None \<Rightarrow> Inl (PlainError ''SyntaxError'')
           | Some v \<Rightarrow> validate v))"

section \<open>Reading a value\<close>

definition isRecord :: "json \<Rightarrow> bool" where
  "isRecord v = (case v of JObject ms \<Rightarrow> True | JArray vs \<Rightarrow> True | _ \<Rightarrow> False)"

text \<open>A property, \<open>None\<close> when it is undefined.\<close>

definition get_property :: "string \<Rightarrow> json \<Rightarrow> json option" where
  "get_property name v = (case v of JObject ms \<Rightarrow> map_of ms (js name) | _ \<Rightarrow> None)"

definition string_prop :: "string \<Rightarrow> json \<Rightarrow> js_string option" where
  "string_prop name v = (case get_property name v of Some (JString s) \<Rightarrow> Some s | _ \<Rightarrow> None)"

text \<open>The decimal \<open>m * 10 ^ e\<close> is read as the double 1: it lies between the midpoints to the neighbours of 1.\<close>

definition is_one :: "int \<Rightarrow> int \<Rightarrow> bool" where
  "is_one m e =
     (if 0 \<le> e then m = 1 \<and> e = 0
      else let q = 10 ^ nat (- e) in (2 ^ 54 - 1) * q \<le> 2 ^ 54 * m \<and> 2 ^ 53 * m \<le> (2 ^ 53 + 1) * q)"

text \<open>An entry of a snapshot: an array of two strings.\<close>

definition string_pair :: "json \<Rightarrow> (js_string \<times> js_string) option" where
  "string_pair v = (case v of JArray [JString a, JString b] \<Rightarrow> Some (a, b) | _ \<Rightarrow> None)"

definition pair_json :: "js_string \<times> js_string \<Rightarrow> json" where
  "pair_json p = JArray [JString (fst p), JString (snd p)]"

section \<open>The replicated-kv example\<close>

type_synonym kv_values = "(js_string \<times> js_string) list"

datatype kv_command =
    Put js_string js_string
  | Delete js_string
  | CompareAndSet js_string "js_string option" js_string

datatype kv_result =
    Applied "js_string option"
  | Conflict "js_string option"

definition kv_apply :: "kv_command \<Rightarrow> kv_values \<Rightarrow> kv_values \<times> kv_result" where
  "kv_apply command vs = (case command of
     Put key val \<Rightarrow> (map_set key val vs, Applied (Some val))
   | Delete key \<Rightarrow> (map_delete key vs, Applied (map_of vs key))
   | CompareAndSet key expected val \<Rightarrow>
       if map_of vs key \<noteq> expected then (vs, Conflict (map_of vs key))
       else (map_set key val vs, Applied (Some val)))"

definition kv_snapshot_json :: "(js_string \<Rightarrow> 'k::linorder) \<Rightarrow> kv_values \<Rightarrow> json" where
  "kv_snapshot_json rank vs = JObject [(js ''version'', JNumber 1 0),
     (js ''entries'', JArray (map pair_json (sort_key (\<lambda>p. rank (fst p)) vs)))]"

definition kv_createSnapshot :: "(js_string \<Rightarrow> 'k::linorder) \<Rightarrow> kv_values \<Rightarrow> bytes" where
  "kv_createSnapshot rank vs = text_encode (stringify (kv_snapshot_json rank vs))"

fun read_pairs :: "string \<Rightarrow> json list \<Rightarrow> raft_error + kv_values" where
  "read_pairs msg [] = Inr []"
| "read_pairs msg (v # vs) =
     (case string_pair v of
        None \<Rightarrow> Inl (PlainError msg)
      | Some p \<Rightarrow> (case read_pairs msg vs of Inl err \<Rightarrow> Inl err | Inr ps \<Rightarrow> Inr (p # ps)))"

definition validateSnapshot :: "json \<Rightarrow> raft_error + kv_values" where
  "validateSnapshot v =
     (case (get_property ''version'' v, get_property ''entries'' v) of
        (Some (JNumber m e), Some (JArray es)) \<Rightarrow>
          if is_one m e then read_pairs ''invalid KV snapshot entry'' es
          else Inl (PlainError ''unsupported KV snapshot'')
      | _ \<Rightarrow> Inl (PlainError ''unsupported KV snapshot''))"

definition set_all :: "kv_values \<Rightarrow> kv_values \<Rightarrow> kv_values" where
  "set_all ps vs = foldl (\<lambda>xs (k, v). map_set k v xs) vs ps"

definition kv_restoreSnapshot :: "bytes \<Rightarrow> kv_values \<Rightarrow> (kv_values, unit) io" where
  "kv_restoreSnapshot bs vs =
     (case codec_decode validateSnapshot bs of
        Inl err \<Rightarrow> (vs, Inl err) | Inr entries \<Rightarrow> (set_all entries [], Inr ()))"

definition kv_get :: "js_string \<Rightarrow> kv_values \<Rightarrow> js_string option" where
  "kv_get key vs = map_of vs key"

definition kv_stateHash :: "(bytes \<Rightarrow> string) \<Rightarrow> (js_string \<Rightarrow> 'k::linorder) \<Rightarrow> kv_values \<Rightarrow> string" where
  "kv_stateHash sha256 rank vs = sha256 (kv_createSnapshot rank vs)"

definition validateKvCommand :: "json \<Rightarrow> raft_error + kv_command" where
  "validateKvCommand v =
     (if \<not> isRecord v then Inl (PlainError ''invalid KV command'')
      else case (string_prop ''type'' v, string_prop ''key'' v) of
        (Some t, Some key) \<Rightarrow>
          if length key = 0 \<or> 1024 < length key then Inl (PlainError ''invalid KV key length'')
          else if t = js ''put''
          then (case string_prop ''value'' v of
              None \<Rightarrow> Inl (PlainError ''put value must be a string'')
            | Some val \<Rightarrow> Inr (Put key val))
          else if t = js ''delete'' then Inr (Delete key)
          else if t = js ''compare-and-set''
          then (case (string_prop ''value'' v, get_property ''expected'' v) of
              (Some val, Some JNull) \<Rightarrow> Inr (CompareAndSet key None val)
            | (Some val, Some (JString x)) \<Rightarrow> Inr (CompareAndSet key (Some x) val)
            | _ \<Rightarrow> Inl (PlainError ''invalid compare-and-set value''))
          else Inl (PlainError ''unknown KV command type'')
      | _ \<Rightarrow> Inl (PlainError ''invalid KV command''))"

text \<open>The object a validated command is.\<close>

fun kv_json :: "kv_command \<Rightarrow> json" where
  "kv_json (Put key val) =
     JObject [(js ''type'', JString (js ''put'')), (js ''key'', JString key), (js ''value'', JString val)]"
| "kv_json (Delete key) = JObject [(js ''type'', JString (js ''delete'')), (js ''key'', JString key)]"
| "kv_json (CompareAndSet key expected val) =
     JObject [(js ''type'', JString (js ''compare-and-set'')), (js ''key'', JString key),
       (js ''expected'', case expected of None \<Rightarrow> JNull | Some x \<Rightarrow> JString x), (js ''value'', JString val)]"

section \<open>The machine of the visualizer\<close>

datatype viz_command =
    VizPut js_string js_string
  | VizDelete js_string

record viz_result =
  vr_previousValue :: "js_string option"
  vr_value :: "js_string option"

fun viz_key :: "viz_command \<Rightarrow> js_string" where
  "viz_key (VizPut key val) = key"
| "viz_key (VizDelete key) = key"

definition viz_apply :: "viz_command \<Rightarrow> kv_values \<Rightarrow> kv_values \<times> viz_result" where
  "viz_apply command vs =
     (let previousValue = map_of vs (viz_key command);
          vs1 = (case command of VizPut key val \<Rightarrow> map_set key val vs | VizDelete key \<Rightarrow> map_delete key vs)
      in (vs1, \<lparr>vr_previousValue = previousValue, vr_value = map_of vs1 (viz_key command)\<rparr>))"

definition viz_createSnapshot :: "kv_values \<Rightarrow> bytes" where
  "viz_createSnapshot vs = text_encode (stringify (JArray (map pair_json vs)))"

fun viz_set_entries :: "json list \<Rightarrow> kv_values \<Rightarrow> (kv_values, unit) io" where
  "viz_set_entries [] vs = (vs, Inr ())"
| "viz_set_entries (e # es) vs =
     (case string_pair e of
        None \<Rightarrow> (vs, Inl (PlainError ''invalid visualizer KV entry''))
      | Some (k, v) \<Rightarrow> viz_set_entries es (map_set k v vs))"

definition viz_restoreSnapshot :: "bytes \<Rightarrow> kv_values \<Rightarrow> (kv_values, unit) io" where
  "viz_restoreSnapshot bs vs =
     (case json_parse (text_decode bs) of
        None \<Rightarrow> (vs, Inl (PlainError ''SyntaxError''))
      | Some (JArray es) \<Rightarrow> viz_set_entries es []
      | Some _ \<Rightarrow> (vs, Inl (PlainError ''invalid visualizer KV snapshot'')))"

text \<open>The properties of the object that \<open>inspect\<close> returns, in the order they are created.\<close>

definition viz_inspect :: "(js_string \<Rightarrow> 'k::linorder) \<Rightarrow> kv_values \<Rightarrow> kv_values" where
  "viz_inspect rank vs = sort_key (\<lambda>p. rank (fst p)) vs"

definition viz_validateKvCommand :: "json \<Rightarrow> raft_error + viz_command" where
  "viz_validateKvCommand v =
     (if \<not> isRecord v \<or> get_property ''type'' v = None \<or> get_property ''key'' v = None
      then Inl (PlainError ''invalid KV command'')
      else case string_prop ''key'' v of
        None \<Rightarrow> Inl (PlainError ''invalid KV key'')
      | Some key \<Rightarrow>
          if string_prop ''type'' v = Some (js ''delete'') then Inr (VizDelete key)
          else case string_prop ''value'' v of
            Some val \<Rightarrow>
              if string_prop ''type'' v = Some (js ''put'') then Inr (VizPut key val)
              else Inl (PlainError ''invalid KV command'')
          | None \<Rightarrow> Inl (PlainError ''invalid KV command''))"

fun viz_json :: "viz_command \<Rightarrow> json" where
  "viz_json (VizPut key val) =
     JObject [(js ''type'', JString (js ''put'')), (js ''key'', JString key), (js ''value'', JString val)]"
| "viz_json (VizDelete key) = JObject [(js ''type'', JString (js ''delete'')), (js ''key'', JString key)]"

end
