(* ===== verification/KvTheorems.thy ===== *)
theory KvTheorems
  imports KvMachine "HOL-Library.Multiset"
begin

text \<open>
  The contract of a replicated state machine, as a locale: a snapshot restores a machine that cannot be
  told from the original, and equivalent machines stay equivalent.  Both key-value machines satisfy it;
  commands survive the codec.
\<close>

section \<open>The contract\<close>

fun run_all :: "('cmd \<Rightarrow> 's \<Rightarrow> 's \<times> 'r) \<Rightarrow> 'cmd list \<Rightarrow> 's \<Rightarrow> 's \<times> 'r list" where
  "run_all app [] s = (s, [])"
| "run_all app (c # cs) s = (case app c s of (s1, r) \<Rightarrow> (case run_all app cs s1 of (s2, rs) \<Rightarrow> (s2, r # rs)))"

locale replicated_machine =
  fixes app :: "'cmd \<Rightarrow> 's \<Rightarrow> 's \<times> 'r"
    and snapshot :: "'s \<Rightarrow> bytes"
    and restore :: "bytes \<Rightarrow> 's \<Rightarrow> ('s, unit) io"
    and ok :: "'s \<Rightarrow> bool"
    and same :: "'s \<Rightarrow> 's \<Rightarrow> bool"
  assumes ok_app: "ok s \<Longrightarrow> ok (fst (app c s))"
    and restores: "ok s \<Longrightarrow> \<exists>s'. restore (snapshot s) t = (s', Inr ()) \<and> ok s' \<and> same s s'"
    and same_app: "same s t \<Longrightarrow> ok s \<Longrightarrow> ok t \<Longrightarrow>
      same (fst (app c s)) (fst (app c t)) \<and> snd (app c s) = snd (app c t)"
    and same_snapshot: "same s t \<Longrightarrow> ok s \<Longrightarrow> ok t \<Longrightarrow> snapshot s = snapshot t"
begin

lemma run_ok: "ok s \<Longrightarrow> ok (fst (run_all app cs s))"
proof (induction cs arbitrary: s)
  case (Cons c cs)
  then show ?case using ok_app [of s c] by (simp split: prod.split) (metis fst_conv)
qed simp

lemma run_same:
  "same s t \<Longrightarrow> ok s \<Longrightarrow> ok t \<Longrightarrow>
    same (fst (run_all app cs s)) (fst (run_all app cs t)) \<and> snd (run_all app cs s) = snd (run_all app cs t)"
proof (induction cs arbitrary: s t)
  case (Cons c cs)
  obtain s1 r where s1: "app c s = (s1, r)" by fastforce
  obtain t1 r' where t1: "app c t = (t1, r')" by fastforce
  have one: "same s1 t1" "r = r'" "ok s1" "ok t1"
    using same_app [OF Cons.prems, of c] ok_app [OF Cons.prems(2), of c] ok_app [OF Cons.prems(3), of c] s1 t1
    by simp_all
  then show ?case using Cons.IH [of s1 t1] s1 t1 by (simp split: prod.split) (metis fst_conv snd_conv)
qed simp

text \<open>Continuing from a restored snapshot gives the same results and, at the end, the same snapshot.\<close>

lemma restart_transparent:
  assumes "ok s"
  shows "\<exists>s'. restore (snapshot s) t = (s', Inr ()) \<and> snd (run_all app cs s') = snd (run_all app cs s) \<and>
    snapshot (fst (run_all app cs s')) = snapshot (fst (run_all app cs s))"
proof -
  obtain s' where s': "restore (snapshot s) t = (s', Inr ())" "ok s'" "same s s'" using restores [OF assms] by blast
  note r = run_same [OF s'(3) assms s'(2), of cs]
  have "snapshot (fst (run_all app cs s)) = snapshot (fst (run_all app cs s'))"
    using same_snapshot r run_ok assms s'(2) by blast
  then show ?thesis using s'(1) r by auto
qed

end

section \<open>Stable sorting\<close>

lemma sort_key_update:
  assumes "\<And>x. f (g x) = f x"
  shows "sort_key f (map g xs) = map g (sort_key f xs)"
proof -
  have "insort_key f (g x) (map g ys) = map g (insort_key f x ys)" for x ys
    by (induction ys) (simp_all add: assms)
  then show ?thesis by (induction xs) simp_all
qed

lemma sort_key_again: "sort_key f (sort_key f xs) = sort_key f xs"
  by (rule sort_key_id_if_sorted) simp

lemma sort_key_snoc: "sort_key f (xs @ [p]) = sort_key f (sort_key f xs @ [p])"
proof (rule properties_for_sort_key)
  show "mset (sort_key f (sort_key f xs @ [p])) = mset (xs @ [p])" by simp
  show "filter (\<lambda>x. f k = f x) (sort_key f (sort_key f xs @ [p])) = filter (\<lambda>x. f k = f x) (xs @ [p])" for k
  proof -
    have eq: "(\<lambda>x. f k = f x) = (\<lambda>x. f x = f k)" by auto
    show ?thesis unfolding eq by (simp add: sort_key_stable)
  qed
qed simp

lemma set_all_distinct: "distinct (map fst (vs @ ps)) \<Longrightarrow> set_all ps vs = vs @ ps"
proof (induction ps arbitrary: vs)
  case (Cons p ps)
  obtain k v where p: "p = (k, v)" by fastforce
  then have "map_of vs k = None" using Cons.prems by (auto simp: map_of_eq_None_iff)
  then show ?case using Cons.IH [of "vs @ [(k, v)]"] Cons.prems p by (simp add: set_all_def map_set_def)
qed (simp add: set_all_def)

section \<open>The example machine\<close>

abbreviation by_key :: "(js_string \<Rightarrow> 'k::linorder) \<Rightarrow> js_string \<times> js_string \<Rightarrow> 'k" where
  "by_key rank \<equiv> \<lambda>p. rank (fst p)"

definition kv_same :: "(js_string \<Rightarrow> 'k::linorder) \<Rightarrow> kv_values \<Rightarrow> kv_values \<Rightarrow> bool" where
  "kv_same rank xs ys \<longleftrightarrow> sort_key (by_key rank) xs = sort_key (by_key rank) ys"

abbreviation kv_ok :: "kv_values \<Rightarrow> bool" where
  "kv_ok vs \<equiv> distinct (map fst vs)"

lemma kv_same_map:
  assumes "kv_same rank xs ys" and "kv_ok xs" and "kv_ok ys"
  shows "map_of xs = map_of ys"
proof -
  have "set xs = set ys" using assms(1) by (metis kv_same_def set_sort)
  then show ?thesis using assms(2,3) map_of_inject_set by blast
qed

lemma kv_same_set:
  assumes "kv_same rank xs ys" and "kv_ok xs" and "kv_ok ys"
  shows "kv_same rank (map_set k v xs) (map_set k v ys)"
proof (cases "map_of xs k = None")
  case True
  then have "map_of ys k = None" using kv_same_map [OF assms] by simp
  then show ?thesis
    using True assms(1) sort_key_snoc [of "by_key rank" xs "(k, v)"] sort_key_snoc [of "by_key rank" ys "(k, v)"]
    by (simp add: kv_same_def map_set_def)
next
  case False
  then have "map_of ys k \<noteq> None" using kv_same_map [OF assms] by simp
  moreover have "sort_key (by_key rank) (map (\<lambda>(q, w). if q = k then (q, v) else (q, w)) zs) =
      map (\<lambda>(q, w). if q = k then (q, v) else (q, w)) (sort_key (by_key rank) zs)" for zs :: kv_values
    by (rule sort_key_update) (simp split: prod.split)
  moreover have "map_set k v zs = map (\<lambda>(q, w). if q = k then (q, v) else (q, w)) zs"
    if "map_of zs k \<noteq> None" for zs :: kv_values
    using that by (simp add: map_set_def)
  ultimately show ?thesis using False assms(1) by (simp only: kv_same_def simp_thms)
qed

lemma kv_same_delete: "kv_same rank xs ys \<Longrightarrow> kv_same rank (map_delete k xs) (map_delete k ys)"
  unfolding kv_same_def map_delete_def filter_sort [symmetric] by simp

lemma read_pairs_pairs: "read_pairs msg (map pair_json ps) = Inr ps"
  by (induction ps) (simp_all add: string_pair_def pair_json_def)

lemma pairs_json_ok: "list_all json_ok (map pair_json ps)"
  by (simp add: list_all_iff pair_json_def)

lemma kv_snapshot_json_ok: "json_ok (kv_snapshot_json rank vs)"
  by (simp add: kv_snapshot_json_def js_def pairs_json_ok)

lemma kv_decode_snapshot:
  "codec_decode validateSnapshot (kv_createSnapshot rank vs) = Inr (sort_key (by_key rank) vs)"
proof -
  have "validateSnapshot (kv_snapshot_json rank vs) = Inr (sort_key (by_key rank) vs)"
    by (simp add: validateSnapshot_def kv_snapshot_json_def get_property_def js_def is_one_def read_pairs_pairs)
  then show ?thesis
    using json_text_round_trip [OF kv_snapshot_json_ok [of rank vs]]
    by (simp add: codec_decode_def kv_createSnapshot_def)
qed

lemma kv_restores:
  assumes "kv_ok vs"
  shows "kv_restoreSnapshot (kv_createSnapshot rank vs) old = (sort_key (by_key rank) vs, Inr ())"
    and "kv_ok (sort_key (by_key rank) vs)"
proof -
  have "mset (map fst (sort_key (by_key rank) vs)) = mset (map fst vs)" by simp
  then show d: "kv_ok (sort_key (by_key rank) vs)" using assms mset_eq_imp_distinct_iff by blast
  show "kv_restoreSnapshot (kv_createSnapshot rank vs) old = (sort_key (by_key rank) vs, Inr ())"
    using set_all_distinct [of "[]" "sort_key (by_key rank) vs"] d
    by (simp add: kv_restoreSnapshot_def kv_decode_snapshot)
qed

interpretation kv: replicated_machine kv_apply "kv_createSnapshot rank" kv_restoreSnapshot kv_ok "kv_same rank"
  for rank :: "js_string \<Rightarrow> 'k::linorder"
proof
  show "kv_ok (fst (kv_apply c s))" if "kv_ok s" for c s
    using that by (simp add: kv_apply_def map_set_distinct map_delete_distinct split: kv_command.split)
  show "\<exists>s'. kv_restoreSnapshot (kv_createSnapshot rank s) t = (s', Inr ()) \<and> kv_ok s' \<and> kv_same rank s s'"
    if "kv_ok s" for s t
    using kv_restores(1) [OF that, of rank t] kv_restores(2) [OF that, of rank] by (simp add: kv_same_def sort_key_again)
  show "kv_same rank (fst (kv_apply c s)) (fst (kv_apply c t)) \<and> snd (kv_apply c s) = snd (kv_apply c t)"
    if "kv_same rank s t" "kv_ok s" "kv_ok t" for c s t
    using that kv_same_map [OF that] kv_same_set [OF that] kv_same_delete [OF that(1)]
    by (simp add: kv_apply_def split: kv_command.split)
  show "kv_createSnapshot rank s = kv_createSnapshot rank t" if "kv_same rank s t" for s t
    using that by (simp add: kv_same_def kv_createSnapshot_def kv_snapshot_json_def)
qed

section \<open>The machine of the visualizer\<close>

lemma viz_set_pairs: "viz_set_entries (map pair_json ps @ es) vs = viz_set_entries es (set_all ps vs)"
  by (induction ps arbitrary: vs) (simp_all add: set_all_def string_pair_def pair_json_def split: prod.split)

lemma viz_restores:
  assumes "kv_ok vs"
  shows "viz_restoreSnapshot (viz_createSnapshot vs) old = (vs, Inr ())"
proof -
  have "json_ok (JArray (map pair_json vs))" by (simp add: pairs_json_ok)
  note rt = json_text_round_trip [OF this]
  show ?thesis
    using rt viz_set_pairs [of vs "[]" "[]"] set_all_distinct [of "[]" vs] assms
    by (simp add: viz_restoreSnapshot_def viz_createSnapshot_def)
qed

interpretation viz: replicated_machine viz_apply viz_createSnapshot viz_restoreSnapshot kv_ok "(=)"
proof
  show "kv_ok (fst (viz_apply c s))" if "kv_ok s" for c s
    using that by (simp add: viz_apply_def Let_def map_set_distinct map_delete_distinct split: viz_command.split)
qed (use viz_restores in auto)

section \<open>Properties\<close>

lemma json_codec:
  assumes "json_ok (to_json c)"
  shows "codec_decode validate (codec_encode to_json c) = validate (to_json c)"
  using json_text_round_trip [OF assms] by (simp add: codec_decode_def codec_encode_def)

lemma kv_json_ok: "json_ok (kv_json c)"
  by (cases c rule: kv_json.cases) (simp_all add: js_def split: option.split)

lemma kv_json_fields:
  "isRecord (kv_json c)"
  "string_prop ''key'' (kv_json c) = Some (case c of Put k v \<Rightarrow> k | Delete k \<Rightarrow> k | CompareAndSet k x v \<Rightarrow> k)"
  "string_prop ''type'' (kv_json c) = Some (case c of Put k v \<Rightarrow> js ''put'' | Delete k \<Rightarrow> js ''delete''
     | CompareAndSet k x v \<Rightarrow> js ''compare-and-set'')"
  by (cases c rule: kv_json.cases; simp add: isRecord_def string_prop_def get_property_def js_def)+

definition kv_key :: "kv_command \<Rightarrow> js_string" where
  "kv_key c = (case c of Put k v \<Rightarrow> k | Delete k \<Rightarrow> k | CompareAndSet k x v \<Rightarrow> k)"

text \<open>C19: A key-value command survives the codec: what \<open>JsonCommandCodec\<close> encodes it decodes to the same
  command, for every key and value, lone surrogates, control characters and quotes included, except that a key
  that is empty or longer than 1024 code units is refused.\<close>

theorem kv_command_round_trip:
  "codec_decode validateKvCommand (codec_encode kv_json c) =
    (if length (kv_key c) = 0 \<or> 1024 < length (kv_key c) then Inl (PlainError ''invalid KV key length'') else Inr c)"
proof -
  have "validateKvCommand (kv_json c) =
      (if length (kv_key c) = 0 \<or> 1024 < length (kv_key c) then Inl (PlainError ''invalid KV key length'') else Inr c)"
    unfolding validateKvCommand_def kv_json_fields kv_key_def
    by (cases c rule: kv_json.cases)
      (simp_all add: isRecord_def string_prop_def get_property_def js_def split: option.split)
  then show ?thesis using json_codec [of kv_json c validateKvCommand] kv_json_ok [of c] by simp
qed

text \<open>C20: A snapshot is as good as the machine: restoring the snapshot of either key-value machine succeeds,
  whatever the restored instance held before, and from then on every sequence of commands has the same
  results and ends in the same snapshot as on the original, although the example machine sorts its entries
  by a collation that may identify different keys.\<close>

theorem snapshot_restart_transparent:
  assumes "distinct (map fst vs)"
  shows "(\<exists>vs'. kv_restoreSnapshot (kv_createSnapshot rank vs) old = (vs', Inr ()) \<and>
      snd (run_all kv_apply cs vs') = snd (run_all kv_apply cs vs) \<and>
      kv_createSnapshot rank (fst (run_all kv_apply cs vs')) = kv_createSnapshot rank (fst (run_all kv_apply cs vs))) \<and>
    (\<exists>vs'. viz_restoreSnapshot (viz_createSnapshot vs) old = (vs', Inr ()) \<and>
      snd (run_all viz_apply ds vs') = snd (run_all viz_apply ds vs) \<and>
      viz_createSnapshot (fst (run_all viz_apply ds vs')) = viz_createSnapshot (fst (run_all viz_apply ds vs)))"
  using kv.restart_transparent [OF assms] viz.restart_transparent [OF assms] by blast

definition ex_values :: kv_values where
  "ex_values = [(js ''beta'', js ''1''), (js ''Alpha'', [0xD800]), (js ''alpha'', js ''3'')]"

theorem snapshot_restart_transparent_witness:
  "(\<exists>vs'. kv_restoreSnapshot (kv_createSnapshot length ex_values) [] = (vs', Inr ()) \<and>
    snd (run_all kv_apply [Delete (js ''beta''), CompareAndSet (js ''alpha'') None (js ''4'')] vs') =
      [Applied (Some (js ''1'')), Conflict (Some (js ''3''))])"
proof -
  have "distinct (map fst ex_values)" by code_simp
  moreover have "snd (run_all kv_apply [Delete (js ''beta''), CompareAndSet (js ''alpha'') None (js ''4'')] ex_values) =
      [Applied (Some (js ''1'')), Conflict (Some (js ''3''))]" by code_simp
  ultimately show ?thesis using snapshot_restart_transparent by metis
qed

text \<open>Restoring the visualizer's machine is not atomic: a snapshot whose last entry is malformed throws after
  the old values were dropped and the entries before it were taken over, where the example machine
  keeps what it had.\<close>

theorem viz_restore_partial:
  "viz_restoreSnapshot (text_encode (stringify (JArray (map pair_json ps @ [JNull])))) vs =
     (set_all ps [], Inl (PlainError ''invalid visualizer KV entry'')) \<and>
   (case kv_restoreSnapshot bs vs of (vs', Inl err) \<Rightarrow> vs' = vs | (vs', Inr _) \<Rightarrow> True)"
proof
  have "json_ok (JArray (map pair_json ps @ [JNull]))" by (simp add: pairs_json_ok)
  note rt = json_text_round_trip [OF this]
  show "viz_restoreSnapshot (text_encode (stringify (JArray (map pair_json ps @ [JNull])))) vs =
     (set_all ps [], Inl (PlainError ''invalid visualizer KV entry''))"
    unfolding viz_restoreSnapshot_def rt by (simp add: viz_set_pairs string_pair_def)
  show "case kv_restoreSnapshot bs vs of (vs', Inl err) \<Rightarrow> vs' = vs | (vs', Inr _) \<Rightarrow> True"
    by (simp add: kv_restoreSnapshot_def split: sum.split)
qed

end
