(* ===== verification/KvDemo.thy ===== *)
theory KvDemo
  imports Timeouts KvMachine LiveClusterCalls
begin

text \<open>
  The script \<open>examples/replicated-kv/src/demo.ts\<close>: three nodes with key-value machines over in-memory storages and
  one in-memory network, an election, three proposals and the comparison of the replicas.  The network is copied
  into a node before a call and back after it.  What the script prints is its report; SHA-256 and the order of
  \<open>localeCompare\<close> are parameters.
\<close>

section \<open>The replicas\<close>

type_synonym demo_node = "(memory_storage, kv_values, memory_transport \<times> memory_network, kv_result) raft_node"

type_synonym kv_replicas = "(node_id \<times> demo_node) list"

record kv_demo =
  kd_network :: memory_network
  kd_replicas :: kv_replicas

definition demo_members :: "node_id list" where
  "demo_members = [''kv-0'', ''kv-1'', ''kv-2'']"

definition demo_env :: "(bytes \<Rightarrow> string)
    \<Rightarrow> (memory_storage, kv_values, memory_transport \<times> memory_network, kv_command, kv_result) node_env" where
  "demo_env sha256 = \<lparr>ne_persist = memory_persist, ne_load = memory_load, ne_close = memory_close,
     ne_start = transport_start, ne_send = transport_send, ne_stop = transport_stop,
     ne_apply = (\<lambda>command ctx vs. case kv_apply command vs of (vs1, r) \<Rightarrow> (vs1, Inr r)),
     ne_restore = (\<lambda>bs ctx vs. kv_restoreSnapshot bs vs),
     ne_encode = (\<lambda>command. Inr (codec_encode kv_json command)), ne_decode = codec_decode validateKvCommand,
     ne_hash = sha256, ne_retention = 10000\<rparr>"

definition replica_options :: "node_id \<Rightarrow> node_options" where
  "replica_options m = \<lparr>no_nodeId = m, no_clusterId = ''kv-demo'', no_members = demo_members,
     no_heartbeatInterval = 2, no_electionTimeoutMinMs = 10, no_electionTimeoutMaxMs = 20,
     no_maxMessageBytes = None\<rparr>"

text \<open>Create and start one replica.\<close>

definition replica_start :: "(bytes \<Rightarrow> string) \<Rightarrow> node_id \<Rightarrow> kv_demo \<Rightarrow> (kv_demo, unit) run" where
  "replica_start sha256 m d =
     (case create_node (demo_env sha256) (replica_options m) (net_endpoint m, kd_network d) new_memory_storage [] of
        (_, Inl err) \<Rightarrow> Some (d, Inl err)
      | (_, Inr nd) \<Rightarrow>
          (case node_start (demo_env sha256) nd of
             (nd1, Inl err) \<Rightarrow> Some (d\<lparr>kd_network := snd (nd_net nd1)\<rparr>, Inl err)
           | (nd1, Inr _) \<Rightarrow> Some (d\<lparr>kd_network := snd (nd_net nd1),
                 kd_replicas := map_set m nd1 (kd_replicas d)\<rparr>, Inr ())))"

text \<open>Call an operation of a replica.\<close>

definition demo_call :: "node_id \<Rightarrow> (demo_node \<Rightarrow> (demo_node, 'a) run) \<Rightarrow> kv_demo \<Rightarrow> (kv_demo, 'a) run" where
  "demo_call m f d =
     (case map_of (kd_replicas d) m of
        None \<Rightarrow> Some (d, Inl (PlainError ''demo cluster has no leader candidate''))
      | Some nd \<Rightarrow>
          (case f (nd\<lparr>nd_net := (fst (nd_net nd), kd_network d)\<rparr>) of
             None \<Rightarrow> None
           | Some (nd1, r) \<Rightarrow> Some (d\<lparr>kd_network := snd (nd_net nd1),
                 kd_replicas := map_set m nd1 (kd_replicas d)\<rparr>, r)))"

text \<open>\<open>deliver\<close> of the network with the handlers the replicas have registered, and \<open>drain\<close>; nothing else sends
  while it yields.\<close>

definition demo_deliver :: "(bytes \<Rightarrow> string) \<Rightarrow> kv_demo \<Rightarrow> (kv_demo, unit) run" where
  "demo_deliver sha256 d =
     (case net_deliver 0 (kd_network d) of
        (net, None) \<Rightarrow> Some (d\<lparr>kd_network := net\<rparr>, Inr ())
      | (net, Some m) \<Rightarrow>
          demo_call (m_to m) (process (demo_env sha256) (MessageEvent m)) (d\<lparr>kd_network := net\<rparr>))"

function demo_drain :: "(bytes \<Rightarrow> string) \<Rightarrow> int \<Rightarrow> kv_demo \<Rightarrow> (kv_demo, unit) run" where
  "demo_drain sha256 delivered d =
     (if mn_queue (kd_network d) = [] then Some (d, Inr ())
      else if 10000 < delivered + 1 then Some (d, Inl (PlainError ''network drain limit exceeded''))
      else case demo_deliver sha256 d of
        None \<Rightarrow> None
      | Some (d1, Inl err) \<Rightarrow> Some (d1, Inl err)
      | Some (d1, Inr _) \<Rightarrow> demo_drain sha256 (delivered + 1) d1)"
  by pat_completeness auto
termination
  by (relation "measure (\<lambda>(sha256, delivered, d). nat (10000 - delivered))") auto

declare demo_drain.simps [simp del]

section \<open>The steps of the script\<close>

text \<open>\<open>waitForPending\<close> of the script.  The leader has processed the proposal when it is called, and nothing else
  runs while it waits: it returns at once or is rejected.\<close>

definition demo_wait :: "kv_demo \<Rightarrow> (kv_demo, unit) run" where
  "demo_wait d = Some (d, if mn_queue (kd_network d) \<noteq> [] then Inr () else Inl (pending_timeout 1000))"

text \<open>What happens to the promise of a proposal before its timer fires.\<close>

definition demo_settlement :: "'r proposal \<Rightarrow> (nat \<times> (raft_error + 'r)) list \<Rightarrow> 'r race_event list" where
  "demo_settlement p settled =
     (case p of
        Settled r \<Rightarrow> []
      | Joined t \<Rightarrow> (case map_of settled t of None \<Rightarrow> [Timers 5000] | Some r \<Rightarrow> [Settles r])
      | Registered t payload \<Rightarrow> (case map_of settled t of None \<Rightarrow> [Timers 5000] | Some r \<Rightarrow> [Settles r]))"

definition proposeAndDrain :: "(bytes \<Rightarrow> string) \<Rightarrow> node_id \<Rightarrow> kv_command \<Rightarrow> string \<Rightarrow> kv_demo
    \<Rightarrow> (kv_demo, kv_result) run" where
  "proposeAndDrain sha256 m command commandId d =
     run_bind (demo_call m (\<lambda>nd. map_option (\<lambda>(nd1, p). (nd1, Inr p))
         (propose_node (demo_env sha256) command commandId nd)) d)
       (\<lambda>d1 p. run_bind (demo_wait d1)
         (\<lambda>d2 _. run_bind (demo_drain sha256 0 d2)
           (\<lambda>d3 _. demo_call m (\<lambda>nd. Some (nd,
               case propose_result (Some 5000) p (demo_settlement p (nd_settled nd)) of
                 None \<Rightarrow> Inl (PlainError ''pending'') | Some r \<Rightarrow> r)) d3)))"

fun role_string :: "role \<Rightarrow> string" where
  "role_string Follower = ''follower''"
| "role_string Candidate = ''candidate''"
| "role_string Leader = ''leader''"

definition printableStatus :: "raft_status \<Rightarrow> (string \<times> string) list" where
  "printableStatus st =
     [(''nodeId'', st_nodeId st), (''role'', role_string (st_role st)),
      (''term'', bigint_to_string (st_currentTerm st)),
      (''leaderId'', case st_leaderId st of None \<Rightarrow> ''unknown'' | Some l \<Rightarrow> l),
      (''lastLogIndex'', bigint_to_string (st_lastLogIndex st)),
      (''commitIndex'', bigint_to_string (st_commitIndex st)),
      (''appliedIndex'', bigint_to_string (st_appliedIndex st))]"

record demo_report =
  dr_results :: "kv_result list"
  dr_values :: "js_string option list"
  dr_hashes :: "string list"
  dr_statuses :: "(string \<times> string) list list"

definition demo_elect :: "(bytes \<Rightarrow> string) \<Rightarrow> kv_demo \<Rightarrow> (kv_demo, unit) run" where
  "demo_elect sha256 d =
     run_bind (demo_call ''kv-0'' (campaign (demo_env sha256) 10) d)
       (\<lambda>d1 _. run_bind (demo_drain sha256 0 d1)
         (\<lambda>d2 _. demo_call ''kv-0'' (\<lambda>nd. Some (nd, if rc_role (nd_core nd) \<noteq> Leader
             then Inl (PlainError ''kv-0 did not win the election'') else Inr ())) d2))"

definition demo_inspect :: "(bytes \<Rightarrow> string) \<Rightarrow> (js_string \<Rightarrow> 'k::linorder) \<Rightarrow> kv_result list \<Rightarrow> kv_demo
    \<Rightarrow> (kv_demo, demo_report) run" where
  "demo_inspect sha256 rank results d =
     (let nodes = map snd (kd_replicas d);
          values = map (\<lambda>nd. kv_get (js ''counter'') (nd_machine nd)) nodes;
          hashes = map (\<lambda>nd. kv_stateHash sha256 rank (nd_machine nd)) nodes;
          statuses = map (\<lambda>nd. printableStatus (status (nd_core nd))) nodes
      in Some (d, if \<not> list_all (\<lambda>v. v = Some (js ''2'')) values then Inl (PlainError ''replica values diverged'')
           else if \<not> list_all (\<lambda>h. h = hd hashes) hashes then Inl (PlainError ''replica hashes diverged'')
           else Inr \<lparr>dr_results = results, dr_values = values, dr_hashes = hashes, dr_statuses = statuses\<rparr>))"

text \<open>The body of the \<open>try\<close> block.\<close>

definition demo_body :: "(bytes \<Rightarrow> string) \<Rightarrow> (js_string \<Rightarrow> 'k::linorder) \<Rightarrow> kv_demo \<Rightarrow> (kv_demo, demo_report) run" where
  "demo_body sha256 rank d =
     run_bind (demo_elect sha256 d) (\<lambda>d1 _.
     run_bind (proposeAndDrain sha256 ''kv-0'' (Put (js ''counter'') (js ''1'')) ''demo-put-1'' d1) (\<lambda>d2 r1.
     run_bind (proposeAndDrain sha256 ''kv-0'' (CompareAndSet (js ''counter'') (Some (js ''1'')) (js ''2'')) ''demo-cas-2'' d2) (\<lambda>d3 r2.
     run_bind (proposeAndDrain sha256 ''kv-0'' (CompareAndSet (js ''counter'') (Some (js ''1'')) (js ''3'')) ''demo-cas-conflict'' d3) (\<lambda>d4 r3.
     run_bind (demo_call ''kv-0'' (heartbeat (demo_env sha256)) d4) (\<lambda>d5 _.
     run_bind (demo_drain sha256 0 d5) (\<lambda>d6 _.
     demo_inspect sha256 rank [r1, r2, r3] d6))))))"

text \<open>The \<open>finally\<close> block stops the replicas, whatever happened.\<close>

definition demo_stop :: "(bytes \<Rightarrow> string) \<Rightarrow> kv_demo \<Rightarrow> kv_demo" where
  "demo_stop sha256 d = fold (\<lambda>m d1. case demo_call m (\<lambda>nd. Some (node_stop (demo_env sha256) nd, Inr ())) d1 of
     None \<Rightarrow> d1 | Some (d2, _) \<Rightarrow> d2) (map fst (kd_replicas d)) d"

definition demo_replicas :: "(bytes \<Rightarrow> string) \<Rightarrow> (kv_demo, unit) run" where
  "demo_replicas sha256 = fold (\<lambda>m r. run_bind r (\<lambda>d _. replica_start sha256 m d)) demo_members
     (Some (\<lparr>kd_network = new_network, kd_replicas = []\<rparr>, Inr ()))"

definition demo_main :: "(bytes \<Rightarrow> string) \<Rightarrow> (js_string \<Rightarrow> 'k::linorder) \<Rightarrow> (kv_demo, demo_report) run" where
  "demo_main sha256 rank =
     run_bind (demo_replicas sha256) (\<lambda>d _. map_option (\<lambda>(d1, r). (demo_stop sha256 d1, r)) (demo_body sha256 rank d))"

section \<open>The script returns\<close>

lemma demo_process_returns: "returns (process (demo_env sha256) ev nd)"
  using process_ends [of "demo_env sha256" ev nd] by (simp add: returns_def demo_env_def)

lemma demo_call_returns: "(\<And>nd. returns (f nd)) \<Longrightarrow> returns (demo_call m f d)"
proof (cases "map_of (kd_replicas d) m")
  case (Some nd)
  assume "\<And>nd. returns (f nd)"
  then obtain nd1 r where "f (nd\<lparr>nd_net := (fst (nd_net nd), kd_network d)\<rparr>) = Some (nd1, r)"
    by (fastforce simp: returns_def)
  then show ?thesis using Some by (simp add: demo_call_def returns_def)
qed (simp add: demo_call_def returns_def)

lemma demo_drain_returns: "returns (demo_drain sha256 delivered d)"
proof (induction sha256 delivered d rule: demo_drain.induct)
  case (1 sha256 delivered d)
  have "returns (demo_deliver sha256 d)"
    by (auto simp: demo_deliver_def intro: demo_call_returns demo_process_returns split: prod.split option.split)
  then obtain d1 x where "demo_deliver sha256 d = Some (d1, x)" by (auto simp: returns_def)
  then show ?case using 1 by (subst demo_drain.simps) (auto simp: returns_def split: sum.split)
qed

lemma demo_propose_returns:
  "returns (map_option (\<lambda>(nd1, p). (nd1, Inr p)) (propose_node (demo_env sha256) command cid nd))"
proof -
  obtain nd1 p where b: "propose_begin (demo_env sha256) command cid nd = (nd1, p)" by fastforce
  have "propose_run (demo_env sha256) cid t payload nd1 \<noteq> None" for t payload
    using demo_process_returns [of sha256 "Propose cid payload" nd1]
    by (auto simp: propose_run_def returns_def split: option.split sum.split)
  then show ?thesis using b by (cases p) (auto simp: propose_node_def returns_def)
qed

lemma proposeAndDrain_returns: "returns (proposeAndDrain sha256 m command cid d)"
  unfolding proposeAndDrain_def
  by (intro returns_bind demo_call_returns demo_propose_returns demo_drain_returns) (simp_all add: demo_wait_def returns_def)

lemma demo_body_returns: "returns (demo_body sha256 rank d)"
proof -
  have calls: "returns (campaign (demo_env sha256) t nd)" "returns (heartbeat (demo_env sha256) nd)" for t nd
    using demo_process_returns by (auto simp: campaign_def heartbeat_def returns_def split: option.split)
  show ?thesis unfolding demo_body_def demo_elect_def
    by (intro returns_bind demo_call_returns demo_drain_returns proposeAndDrain_returns calls)
      (simp_all add: returns_def demo_inspect_def Let_def)
qed

text \<open>The script always comes to its end, with a report or an error, and its first step works: the node that
  campaigns becomes leader.\<close>

theorem demo_returns: "demo_main sha256 rank \<noteq> None"
proof -
  have "returns (replica_start sha256 m d)" for m d
    by (simp add: replica_start_def returns_def split: prod.split sum.split)
  then have "returns (fold (\<lambda>m r. run_bind r (\<lambda>d _. replica_start sha256 m d)) ms r)" if "returns r" for ms r
    using that by (induction ms arbitrary: r) (simp_all add: returns_bind)
  then have "returns (demo_replicas sha256)" by (simp add: demo_replicas_def)
  then have "returns (demo_main sha256 rank)"
    unfolding demo_main_def using demo_body_returns by (intro returns_bind) (simp_all add: returns_def)
  then show ?thesis by (simp add: returns_def)
qed

definition demo_first_status :: "(bytes \<Rightarrow> string) \<Rightarrow> (string \<times> string) list" where
  "demo_first_status sha256 =
     (case run_bind (demo_replicas sha256) (\<lambda>d _. demo_elect sha256 d) of
        Some (d, Inr _) \<Rightarrow> printableStatus (status (nd_core (snd (hd (kd_replicas d))))) | _ \<Rightarrow> [])"

theorem demo_elects:
  "demo_first_status sha256 = [(''nodeId'', ''kv-0''), (''role'', ''leader''), (''term'', ''1''),
     (''leaderId'', ''kv-0''), (''lastLogIndex'', ''1''), (''commitIndex'', ''1''), (''appliedIndex'', ''1'')]"
  by code_simp

end
