(* ===== verification/SimulationController.thy ===== *)
theory SimulationController
  imports LiveCluster Primitives KvMachine
begin

text \<open>
  The simulation behind the visualizer, class \<open>SimulationController\<close> of
  \<open>packages/raft-visualizer/src/server/simulation-controller.ts\<close>, with the types of
  \<open>shared/protocol.ts\<close>.  Its state extends \<open>live_cluster\<close>: a replica that is online is a live node, of one that is
  offline only the machine is read again.

  An awaited call is completed before the next begins.  The callbacks of a proposal run when the node call that
  settles its promise is over: a fulfilled one before the role change of the call is reported when
  its entry is not the last of the batch, and then with the applied index before the call, otherwise after
  it.  A snapshot that such a callback publishes shows the state at the end of the call.  A timer of 60 seconds
  that fires is the operation \<open>sim_expire\<close>.

  The host supplies SHA-256, the collation of \<open>localeCompare\<close> and the time at which an event is recorded.
\<close>

section \<open>Types of the protocol\<close>

datatype node_role = RoleOf role | Offline

record node_snapshot =
  ns_id :: node_id
  ns_online :: bool
  ns_role :: node_role
  ns_term :: string
  ns_leaderId :: "node_id option"
  ns_lastLogIndex :: string
  ns_commitIndex :: string
  ns_appliedIndex :: string
  ns_values :: kv_values

record message_snapshot =
  ms_id :: int
  ms_type :: string
  ms_from :: node_id
  ms_to :: node_id
  ms_term :: string
  ms_detail :: string

datatype event_kind = SystemEvent | ElectionEvent | CommandEvent | NetworkEvent | NodeEvent | ErrorEvent

record timeline_event =
  te_id :: int
  te_at :: string
  te_kind :: event_kind
  te_message :: js_string

record cluster_snapshot =
  cs_revision :: int
  cs_seed :: int
  cs_nodes :: "node_snapshot list"
  cs_messages :: "message_snapshot list"
  cs_blockedEdges :: "(node_id \<times> node_id) list"
  cs_events :: "timeline_event list"

text \<open>The declared type of the key and the value of a proposal is \<open>string\<close>; nothing checks it at run time, so the
  model also admits an integer (in the range that doubles hold exactly).\<close>

datatype action_value = AText js_string | ANumber int

datatype kv_verb = VerbPut | VerbDelete

datatype sim_action =
    ActReset int int
  | ActCampaign string
  | ActHeartbeat string
  | ActPropose string kv_verb action_value "action_value option"
  | ActPartition "string list"
  | ActHeal
  | ActDisable string
  | ActRestart string
  | ActDeliver int
  | ActDrop int
  | ActDuplicate int
  | ActReorder
  | ActStep
  | ActDrain

section \<open>State\<close>

text \<open>A proposal whose promise has callbacks waiting.\<close>

record sim_watch =
  sw_member :: node_id
  sw_ticket :: nat
  sw_commandId :: string
  sw_description :: js_string

record sim = "(kv_values, viz_result) live_cluster" +
  sm_seed :: int
  sm_random :: seeded_random
  sm_offline :: "(node_id \<times> kv_values) list"
  sm_listeners :: "nat list"
  sm_events :: "timeline_event list"
  sm_revision :: int
  sm_eventId :: int
  sm_commandId :: int
  sm_watches :: "sim_watch list"
  sm_calls :: "(nat \<times> cluster_snapshot) list"

record 'k sim_host =
  ho_sha256 :: "bytes \<Rightarrow> string"
  ho_rank :: "js_string \<Rightarrow> 'k"
  ho_now :: "int \<Rightarrow> string"

text \<open>What a call throws: an error of a node, or one with a message of the controller.\<close>

datatype sim_error = Rejected js_string | Failed raft_error

type_synonym ('s, 'a) sim_run = "('s \<times> (sim_error + 'a)) option"

definition sim_bind :: "('s, 'a) sim_run \<Rightarrow> ('s \<Rightarrow> 'a \<Rightarrow> ('s, 'b) sim_run) \<Rightarrow> ('s, 'b) sim_run" where
  "sim_bind r k = (case r of None \<Rightarrow> None
     | Some (s, x) \<Rightarrow> (case x of Inl e \<Rightarrow> Some (s, Inl e) | Inr y \<Rightarrow> k s y))"

definition rejected :: "string \<Rightarrow> sim_error + 'a" where
  "rejected msg = Inl (Rejected (js msg))"

section \<open>Timeline\<close>

definition record_event :: "'k sim_host \<Rightarrow> event_kind \<Rightarrow> js_string \<Rightarrow> sim \<Rightarrow> sim" where
  "record_event host kind msg s =
     (let i = sm_eventId s + 1;
          events = sm_events s @ [\<lparr>te_id = i, te_at = ho_now host i, te_kind = kind, te_message = msg\<rparr>]
      in s\<lparr>sm_eventId := i,
           sm_events := (if 200 < length events then drop (length events - 200) events else events)\<rparr>)"

definition middot :: js_string where
  "middot = [0x20, 0xB7, 0x20]"

definition arrow :: js_string where
  "arrow = [0x20, 0x2192, 0x20]"

definition term_text :: "int \<Rightarrow> js_string" where
  "term_text t = js (''term '' @ bigint_to_string t)"

text \<open>\<open>onEvent\<close> of a node.\<close>

definition note_event :: "'k sim_host \<Rightarrow> node_id \<Rightarrow> node_event \<Rightarrow> sim \<Rightarrow> sim" where
  "note_event host m ev s = (case ev of
     RoleChanged st \<Rightarrow>
       if st_role st \<noteq> Candidate
       then record_event host ElectionEvent
              (js (m @ (if st_role st = Leader then '' elected leader'' else '' became follower'')) @ middot @
               term_text (st_currentTerm st)) s
       else s
   | StorageFailed err \<Rightarrow> record_event host ErrorEvent (js (m @ '': '' @ error_message err)) s
   | TransportFailed err \<Rightarrow> record_event host ErrorEvent (js (m @ '': '' @ error_message err)) s
   | ApplyFailed index err \<Rightarrow> record_event host ErrorEvent (js (m @ '': '' @ error_message err)) s)"

section \<open>Snapshots\<close>

definition statusSnapshot :: "raft_status \<Rightarrow> kv_values \<Rightarrow> node_snapshot" where
  "statusSnapshot st vals = \<lparr>ns_id = st_nodeId st, ns_online = True, ns_role = RoleOf (st_role st),
     ns_term = bigint_to_string (st_currentTerm st), ns_leaderId = st_leaderId st,
     ns_lastLogIndex = bigint_to_string (st_lastLogIndex st),
     ns_commitIndex = bigint_to_string (st_commitIndex st),
     ns_appliedIndex = bigint_to_string (st_appliedIndex st), ns_values = vals\<rparr>"

definition offlineSnapshot :: "node_id \<Rightarrow> persisted_raft_state \<Rightarrow> kv_values \<Rightarrow> node_snapshot" where
  "offlineSnapshot m p vals = \<lparr>ns_id = m, ns_online = False, ns_role = Offline,
     ns_term = bigint_to_string (hs_currentTerm (ps_hardState p)), ns_leaderId = None,
     ns_lastLogIndex = bigint_to_string (if ps_entries p = [] then snapshot_index (ps_snapshot p)
       else le_index (last (ps_entries p))),
     ns_commitIndex = bigint_to_string (hs_commitIndex (ps_hardState p)),
     ns_appliedIndex = bigint_to_string (ps_appliedIndex p), ns_values = vals\<rparr>"

definition nodeSnapshot :: "'k::linorder sim_host \<Rightarrow> sim \<Rightarrow> node_id \<Rightarrow> sim_error + node_snapshot" where
  "nodeSnapshot host s m =
     (case map_of (lc_live s) m of
        Some nd \<Rightarrow> Inr (statusSnapshot (status (nd_core nd)) (viz_inspect (ho_rank host) (nd_machine nd)))
      | None \<Rightarrow>
          (case map_of (sm_offline s) m of
             None \<Rightarrow> rejected (''unknown member '' @ m)
           | Some vals \<Rightarrow>
               (case map_of (lc_storage s) m of
                  None \<Rightarrow> rejected (''missing storage for '' @ m)
                | Some d \<Rightarrow> Inr (offlineSnapshot m (durable_inspect d) (viz_inspect (ho_rank host) vals)))))"

fun nodeSnapshots :: "'k::linorder sim_host \<Rightarrow> sim \<Rightarrow> node_id list \<Rightarrow> sim_error + node_snapshot list" where
  "nodeSnapshots host s [] = Inr []"
| "nodeSnapshots host s (m # ms) =
     (case nodeSnapshot host s m of
        Inl err \<Rightarrow> Inl err
      | Inr x \<Rightarrow> (case nodeSnapshots host s ms of Inl err \<Rightarrow> Inl err | Inr xs \<Rightarrow> Inr (x # xs)))"

definition message_detail :: "message_body \<Rightarrow> string" where
  "message_detail body = (case body of
     RequestVoteRequest lastIndex lastTerm \<Rightarrow>
       ''last log '' @ bigint_to_string lastIndex @ ''/'' @ bigint_to_string lastTerm
   | RequestVoteResponse granted \<Rightarrow> if granted then ''vote granted'' else ''vote rejected''
   | AppendEntriesRequest prevIndex prevTerm entries commit \<Rightarrow>
       bigint_to_string (int (length entries)) @ '' entries, commit '' @ bigint_to_string commit
   | AppendEntriesResponse ok matchIndex hint \<Rightarrow>
       if ok then ''matched '' @ bigint_to_string matchIndex else ''rejected at '' @ bigint_to_string hint)"

definition messageSnapshot :: "pending_message \<Rightarrow> message_snapshot" where
  "messageSnapshot p = (let m = pm_message p in
     \<lparr>ms_id = pm_id p, ms_type = message_type (m_body m), ms_from = m_from m, ms_to = m_to m,
      ms_term = bigint_to_string (m_term m), ms_detail = message_detail (m_body m)\<rparr>)"

definition sim_snapshot :: "'k::linorder sim_host \<Rightarrow> sim \<Rightarrow> sim_error + cluster_snapshot" where
  "sim_snapshot host s =
     (case nodeSnapshots host s (lc_members s) of
        Inl err \<Rightarrow> Inl err
      | Inr nodes \<Rightarrow> Inr \<lparr>cs_revision = sm_revision s, cs_seed = sm_seed s, cs_nodes = nodes,
          cs_messages = map messageSnapshot (mn_queue (lc_network s)),
          cs_blockedEdges = net_blockedEdges (lc_network s), cs_events = sm_events s\<rparr>)"

text \<open>The calls of the listeners, in order.\<close>

definition sim_publish :: "'k::linorder sim_host \<Rightarrow> sim \<Rightarrow> sim \<times> (sim_error + unit)" where
  "sim_publish host s =
     (let s1 = s\<lparr>sm_revision := sm_revision s + 1\<rparr> in
      case sim_snapshot host s1 of
        Inl err \<Rightarrow> (s1, Inl err)
      | Inr snap \<Rightarrow> (s1\<lparr>sm_calls := sm_calls s1 @ map (\<lambda>l. (l, snap)) (sm_listeners s1)\<rparr>, Inr ()))"

definition sim_subscribe :: "'k::linorder sim_host \<Rightarrow> nat \<Rightarrow> sim \<Rightarrow> sim \<times> (sim_error + unit)" where
  "sim_subscribe host l s =
     (let s1 = s\<lparr>sm_listeners := (if l \<in> set (sm_listeners s) then sm_listeners s else sm_listeners s @ [l])\<rparr> in
      case sim_snapshot host s1 of
        Inl err \<Rightarrow> (s1, Inl err)
      | Inr snap \<Rightarrow> (s1\<lparr>sm_calls := sm_calls s1 @ [(l, snap)]\<rparr>, Inr ()))"

definition sim_unsubscribe :: "nat \<Rightarrow> sim \<Rightarrow> sim" where
  "sim_unsubscribe l s = s\<lparr>sm_listeners := filter (\<lambda>x. x \<noteq> l) (sm_listeners s)\<rparr>"

section \<open>Calls of a replica\<close>

text \<open>A command is the object that is encoded; a decoded one has been validated.\<close>

definition viz_object :: "json \<Rightarrow> viz_command" where
  "viz_object v =
     (let key = (case string_prop ''key'' v of Some k \<Rightarrow> k | None \<Rightarrow> []) in
      if string_prop ''type'' v = Some (js ''put'')
      then VizPut key (case string_prop ''value'' v of Some x \<Rightarrow> x | None \<Rightarrow> []) else VizDelete key)"

definition viz_validate :: "json \<Rightarrow> raft_error + json" where
  "viz_validate v = map_sum id viz_json (viz_validateKvCommand v)"

definition sim_env :: "'k sim_host \<Rightarrow> (kv_values, json, viz_result) live_env" where
  "sim_env host = \<lparr>ne_persist = handle_persist, ne_load = handle_load, ne_close = handle_close,
     ne_start = transport_start, ne_send = transport_send, ne_stop = transport_stop,
     ne_apply = (\<lambda>command ctx vs. case viz_apply (viz_object command) vs of (vs1, r) \<Rightarrow> (vs1, Inr r)),
     ne_restore = (\<lambda>bs ctx vs. viz_restoreSnapshot bs vs),
     ne_encode = (\<lambda>command. Inr (codec_encode id command)), ne_decode = codec_decode viz_validate,
     ne_hash = ho_sha256 host, ne_retention = 10000\<rparr>"

definition sim_node_options :: "node_id list \<Rightarrow> node_id \<Rightarrow> node_options" where
  "sim_node_options members m = \<lparr>no_nodeId = m, no_clusterId = ''raft-visualizer'',
     no_members = members, no_heartbeatInterval = 500, no_electionTimeoutMinMs = 1500,
     no_electionTimeoutMaxMs = 3000, no_maxMessageBytes = None\<rparr>"

text \<open>The callbacks of a proposal.\<close>

definition run_callback :: "'k::linorder sim_host \<Rightarrow> int \<Rightarrow> sim_watch \<Rightarrow> raft_error + viz_result \<Rightarrow> sim \<Rightarrow> sim"
  where
  "run_callback host applied w outcome s =
     fst (sim_publish host (case outcome of
       Inr _ \<Rightarrow> record_event host CommandEvent (sw_description w @ js '' committed and applied'' @ middot @
           js (''index '' @ bigint_to_string applied)) s
     | Inl err \<Rightarrow> record_event host ErrorEvent (js (sw_commandId w @ '' failed: '' @ error_message err)) s))"

definition is_watch :: "node_id \<Rightarrow> nat \<Rightarrow> sim_watch \<Rightarrow> bool" where
  "is_watch m t w \<longleftrightarrow> sw_member w = m \<and> sw_ticket w = t"

definition settle_watch :: "'k::linorder sim_host \<Rightarrow> node_id \<Rightarrow> int \<Rightarrow> nat \<times> (raft_error + viz_result) \<Rightarrow> sim \<Rightarrow> sim"
  where
  "settle_watch host m applied x s =
     (case find (is_watch m (fst x)) (sm_watches s) of
        None \<Rightarrow> s
      | Some w \<Rightarrow> run_callback host applied w (snd x)
          (s\<lparr>sm_watches := filter (\<lambda>v. \<not> is_watch m (fst x) v) (sm_watches s)\<rparr>))"

text \<open>A promise fulfilled by an entry that is not the last of its batch.\<close>

definition settled_early :: "node_id \<Rightarrow> (kv_values, viz_result) live_node \<Rightarrow> sim_watch list
    \<Rightarrow> nat \<times> (raft_error + viz_result) \<Rightarrow> bool" where
  "settled_early m nd watches x =
     (case (snd x, find (is_watch m (fst x)) watches, entryAt (nd_core nd) (rc_appliedIndex (nd_core nd))) of
        (Inr _, Some w, Some e) \<Rightarrow> le_commandId e \<noteq> Some (sw_commandId w)
      | _ \<Rightarrow> False)"

text \<open>What happens around a call that has turned the node \<open>nd\<close> into \<open>nd1\<close>.\<close>

definition absorb :: "'k::linorder sim_host \<Rightarrow> node_id \<Rightarrow> (kv_values, viz_result) live_node
    \<Rightarrow> (kv_values, viz_result) live_node \<Rightarrow> sim \<Rightarrow> sim" where
  "absorb host m nd nd1 s =
     (let settled = drop (length (nd_settled nd)) (nd_settled nd1);
          events = drop (length (nd_events nd)) (nd_events nd1);
          early = filter (settled_early m nd1 (sm_watches s)) settled;
          late = filter (\<lambda>x. \<not> settled_early m nd1 (sm_watches s) x) settled
      in fold (settle_watch host m (rc_appliedIndex (nd_core nd1))) late
           (fold (note_event host m) events
             (fold (settle_watch host m (rc_appliedIndex (nd_core nd))) early s)))"

definition absorb_run :: "'k::linorder sim_host \<Rightarrow> node_id \<Rightarrow> sim \<Rightarrow> (sim, 'a) run \<Rightarrow> (sim, 'a) sim_run" where
  "absorb_run host m s r =
     (case r of
        None \<Rightarrow> None
      | Some (s1, x) \<Rightarrow>
          Some (case (map_of (lc_live s) m, map_of (lc_live s1) m) of
                  (Some nd, Some nd1) \<Rightarrow> absorb host m nd nd1 s1 | _ \<Rightarrow> s1, map_sum Failed id x))"

section \<open>Access\<close>

definition member_of :: "string \<Rightarrow> sim \<Rightarrow> sim_error + node_id" where
  "member_of val s =
     (case nodeId val of
        Inl err \<Rightarrow> Inl (Failed err)
      | Inr m \<Rightarrow> if m \<notin> set (lc_members s) then rejected (''unknown member '' @ val) else Inr m)"

fun members_of :: "string list \<Rightarrow> sim \<Rightarrow> sim_error + node_id list" where
  "members_of [] s = Inr []"
| "members_of (v # vs) s =
     (case member_of v s of
        Inl err \<Rightarrow> Inl err
      | Inr m \<Rightarrow> (case members_of vs s of Inl err \<Rightarrow> Inl err | Inr ms \<Rightarrow> Inr (m # ms)))"

definition online :: "node_id \<Rightarrow> sim \<Rightarrow> sim_error + (kv_values, viz_result) live_node" where
  "online m s = (case map_of (lc_live s) m of None \<Rightarrow> rejected (m @ '' is offline'') | Some nd \<Rightarrow> Inr nd)"

definition on_replica :: "'k::linorder sim_host \<Rightarrow> node_id
    \<Rightarrow> ((kv_values, viz_result) live_node \<Rightarrow> ((kv_values, viz_result) live_node, 'a) run)
    \<Rightarrow> sim \<Rightarrow> (sim, 'a) sim_run" where
  "on_replica host m f s =
     (case online m s of
        Inl err \<Rightarrow> Some (s, Inl err)
      | Inr nd \<Rightarrow> absorb_run host m s (node_call m f nd s))"

section \<open>Starting, stopping, proposing\<close>

definition sim_start :: "'k sim_host \<Rightarrow> node_id \<Rightarrow> sim \<Rightarrow> sim \<times> (sim_error + unit)" where
  "sim_start host m s =
     (case map_of (lc_storage s) m of
        None \<Rightarrow> (s, rejected (''missing storage for '' @ m))
      | Some d \<Rightarrow>
          (case node_launch (sim_env host) (sim_node_options (lc_members s) m) [] m d s of
             (s1, Inl err) \<Rightarrow> (s1, Inl (Failed err))
           | (s1, Inr _) \<Rightarrow> (s1\<lparr>sm_offline := map_delete m (sm_offline s1)\<rparr>, Inr ())))"

fun sim_start_all :: "'k sim_host \<Rightarrow> node_id list \<Rightarrow> sim \<Rightarrow> sim \<times> (sim_error + unit)" where
  "sim_start_all host [] s = (s, Inr ())"
| "sim_start_all host (m # ms) s =
     (case sim_start host m s of
        (s1, Inl err) \<Rightarrow> (s1, Inl err)
      | (s1, Inr _) \<Rightarrow> sim_start_all host ms s1)"

definition validateNodeCount :: "int \<Rightarrow> js_string option" where
  "validateNodeCount nodeCount =
     (if nodeCount < 1 \<or> 9 < nodeCount then Some (js ''node count must be an integer from 1 to 9'') else None)"

definition member_name :: "nat \<Rightarrow> node_id" where
  "member_name index = ''node-'' @ bigint_to_string (int index + 1)"

definition new_simulation :: "int \<Rightarrow> int \<Rightarrow> sim_error + sim" where
  "new_simulation seed nodeCount =
     (case validateNodeCount nodeCount of
        Some msg \<Rightarrow> Inl (Rejected msg)
      | None \<Rightarrow>
          let members = map member_name [0..<nat nodeCount]
          in Inr \<lparr>lc_network = new_network, lc_members = members,
               lc_storage = map (\<lambda>m. (m, new_durable_state)) members, lc_live = [],
               sm_seed = seed, sm_random = new_random seed, sm_offline = [], sm_listeners = [],
               sm_events = [], sm_revision = 0, sm_eventId = 0, sm_commandId = 0, sm_watches = [],
               sm_calls = []\<rparr>)"

definition sim_create :: "'k::linorder sim_host \<Rightarrow> int \<Rightarrow> int \<Rightarrow> sim_error + sim" where
  "sim_create host nodeCount seed =
     (case new_simulation seed nodeCount of
        Inl err \<Rightarrow> Inl err
      | Inr s \<Rightarrow>
          (case sim_start_all host (lc_members s) s of
             (s1, Inl err) \<Rightarrow> Inl err
           | (s1, Inr _) \<Rightarrow>
               (case sim_publish host (record_event host SystemEvent
                       (js (''Started '' @ bigint_to_string nodeCount @ ''-node cluster with seed '' @
                            bigint_to_string seed)) s1) of
                  (s2, Inl err) \<Rightarrow> Inl err | (s2, Inr _) \<Rightarrow> Inr s2)))"

text \<open>The rejected proposals of a node that stops are reported before it counts as disabled.\<close>

definition sim_disable :: "'k::linorder sim_host \<Rightarrow> node_id \<Rightarrow> sim \<Rightarrow> sim \<times> (sim_error + unit)" where
  "sim_disable host m s =
     (case online m s of
        Inl err \<Rightarrow> (s, Inl err)
      | Inr nd \<Rightarrow>
          let s1 = node_halt (sim_env host) m nd (absorb host m nd (node_stop (sim_env host) nd) s)
          in (record_event host NodeEvent (js (''Disabled '' @ m @ ''; durable state was retained''))
                (s1\<lparr>sm_offline := map_set m (nd_machine nd) (sm_offline s1)\<rparr>), Inr ()))"

definition sim_restart :: "'k sim_host \<Rightarrow> node_id \<Rightarrow> sim \<Rightarrow> sim \<times> (sim_error + unit)" where
  "sim_restart host m s =
     (if map_of (lc_live s) m \<noteq> None then (s, rejected (m @ '' is already online''))
      else if map_of (sm_offline s) m = None then (s, rejected (''unknown member '' @ m))
      else case sim_start host m s of
          (s1, Inl err) \<Rightarrow> (s1, Inl err)
        | (s1, Inr _) \<Rightarrow>
            (record_event host NodeEvent (js (''Restarted '' @ m @ '' from durable state'')) s1, Inr ()))"

text \<open>\<open>stop\<close> stops the nodes but leaves them in place, marked as online.\<close>

definition stop_replica :: "'k::linorder sim_host \<Rightarrow> node_id \<Rightarrow> sim \<Rightarrow> sim" where
  "stop_replica host m s =
     (case map_of (lc_live s) m of
        None \<Rightarrow> s
      | Some nd \<Rightarrow>
          let nd1 = node_stop (sim_env host) (nd\<lparr>nd_net := (fst (nd_net nd), lc_network s)\<rparr>)
          in absorb host m nd nd1 (put_live m nd1 s))"

definition sim_stop :: "'k::linorder sim_host \<Rightarrow> sim \<Rightarrow> sim" where
  "sim_stop host s = fold (stop_replica host) (lc_members s) s"

text \<open>A template with a value, and the value as JSON.\<close>

fun value_text :: "action_value \<Rightarrow> js_string" where
  "value_text (AText t) = t"
| "value_text (ANumber n) = js (bigint_to_string n)"

fun value_json :: "action_value \<Rightarrow> json" where
  "value_json (AText t) = JString t"
| "value_json (ANumber n) = JNumber n 0"

text \<open>\<open>key.length\<close> is undefined for a number, and then both comparisons are false.\<close>

fun bad_key :: "action_value \<Rightarrow> bool" where
  "bad_key (AText t) = (length t = 0 \<or> 128 < length t)"
| "bad_key (ANumber n) = False"

definition proposed_value :: "action_value option \<Rightarrow> action_value" where
  "proposed_value v = or_else v (AText [])"

definition proposed_command :: "kv_verb \<Rightarrow> action_value \<Rightarrow> action_value option \<Rightarrow> json" where
  "proposed_command verb key v = (case verb of
     VerbPut \<Rightarrow> JObject [(js ''type'', JString (js ''put'')), (js ''key'', value_json key),
       (js ''value'', value_json (proposed_value v))]
   | VerbDelete \<Rightarrow> JObject [(js ''type'', JString (js ''delete'')), (js ''key'', value_json key)])"

definition proposal_text :: "kv_verb \<Rightarrow> action_value \<Rightarrow> action_value option \<Rightarrow> js_string" where
  "proposal_text verb key v = (case verb of
     VerbPut \<Rightarrow> js ''PUT '' @ value_text key @ js '' = '' @ value_text (proposed_value v)
   | VerbDelete \<Rightarrow> js ''DELETE '' @ value_text key)"

text \<open>The proposal up to its first \<open>await\<close>, the callbacks it gets, and its processing.\<close>

definition watch_proposal :: "'k::linorder sim_host \<Rightarrow> node_id \<Rightarrow> json \<Rightarrow> string \<Rightarrow> js_string \<Rightarrow> sim
    \<Rightarrow> (sim, unit) sim_run" where
  "watch_proposal host m command cid description s =
     (let watch = (\<lambda>t. \<lparr>sw_member = m, sw_ticket = t, sw_commandId = cid, sw_description = description\<rparr>) in
      case online m s of
        Inl err \<Rightarrow> Some (s, Inl err)
      | Inr nd \<Rightarrow>
          (case propose_begin (sim_env host) command cid nd of
             (nd1, p) \<Rightarrow>
               let s1 = s\<lparr>lc_live := map_set m nd1 (lc_live s)\<rparr> in
               case p of
                 Settled r \<Rightarrow> Some (run_callback host (rc_appliedIndex (nd_core nd1)) (watch 0) r s1, Inr ())
               | Joined t \<Rightarrow> Some (s1\<lparr>sm_watches := sm_watches s1 @ [watch t]\<rparr>, Inr ())
               | Registered t payload \<Rightarrow>
                   on_replica host m (\<lambda>x. map_option (\<lambda>x1. (x1, Inr ())) (propose_run (sim_env host) cid t payload x))
                     (s1\<lparr>sm_watches := sm_watches s1 @ [watch t]\<rparr>)))"

definition sim_propose :: "'k::linorder sim_host \<Rightarrow> string \<Rightarrow> kv_verb \<Rightarrow> action_value \<Rightarrow> action_value option
    \<Rightarrow> sim \<Rightarrow> (sim, unit) sim_run" where
  "sim_propose host n verb key v s =
     (case member_of n s of
        Inl err \<Rightarrow> Some (s, Inl err)
      | Inr m \<Rightarrow>
          (case online m s of
             Inl err \<Rightarrow> Some (s, Inl err)
           | Inr nd \<Rightarrow>
               if rc_role (nd_core nd) \<noteq> Leader
               then Some (s, rejected (m @ '' is not the leader; campaign a node or select the current leader''))
               else if bad_key key
               then Some (s, Inl (Rejected (js ''key must be 1'' @ [0x2013] @ js ''128 characters'')))
               else let cid = ''visualizer-'' @ bigint_to_string (sm_commandId s + 1);
                        description = proposal_text verb key v
                    in watch_proposal host m (proposed_command verb key v) cid description
                         (record_event host CommandEvent (description @ js ('' proposed to '' @ m))
                           (s\<lparr>sm_commandId := sm_commandId s + 1\<rparr>))))"

definition sim_expire :: "'k::linorder sim_host \<Rightarrow> sim_watch \<Rightarrow> sim \<Rightarrow> sim" where
  "sim_expire host w s =
     (if w \<in> set (sm_watches s)
      then run_callback host 0 w
             (Inl (ProposalTimeoutError ''proposal outcome is ambiguous; retry with the same command ID''))
             (s\<lparr>sm_watches := filter (\<lambda>v. v \<noteq> w) (sm_watches s)\<rparr>)
      else s)"

section \<open>Messages\<close>

text \<open>The rest of \<open>deliver\<close> after the queue has been cut.\<close>

definition sim_delivered :: "'k::linorder sim_host \<Rightarrow> memory_network \<times> raft_message option \<Rightarrow> sim
    \<Rightarrow> (sim, bool) sim_run" where
  "sim_delivered host x s =
     (case x of
        (net, None) \<Rightarrow> Some (s\<lparr>lc_network := net\<rparr>, Inr False)
      | (net, Some m) \<Rightarrow>
          sim_bind (absorb_run host (m_to m) s (handle_message (sim_env host) m (s\<lparr>lc_network := net\<rparr>)))
            (\<lambda>s1 _. Some (s1, Inr True)))"

definition sim_step :: "'k::linorder sim_host \<Rightarrow> sim \<Rightarrow> (sim, unit) sim_run" where
  "sim_step host s =
     (case mn_queue (lc_network s) of
        [] \<Rightarrow> Some (s, Inr ())
      | p # ps \<Rightarrow> sim_bind (sim_delivered host (net_deliverById (pm_id p) (lc_network s)) s)
          (\<lambda>s1 _. Some (s1, Inr ())))"

function sim_drain_from :: "'k::linorder sim_host \<Rightarrow> int \<Rightarrow> sim \<Rightarrow> (sim, unit) sim_run" where
  "sim_drain_from host delivered s =
     (if net_pending (lc_network s) = 0 then Some (s, Inr ())
      else if 10000 < delivered + 1 then Some (s, rejected ''network drain limit exceeded'')
      else case sim_delivered host (net_deliver 0 (lc_network s)) s of
          None \<Rightarrow> None
        | Some (s1, Inl err) \<Rightarrow> Some (s1, Inl err)
        | Some (s1, Inr _) \<Rightarrow> sim_drain_from host (delivered + 1) s1)"
  by pat_completeness auto
termination
  by (relation "measure (\<lambda>(host, delivered, s). nat (10000 - delivered))") auto

declare sim_drain_from.simps [simp del]

section \<open>Actions\<close>

definition comma_join :: "string list \<Rightarrow> string" where
  "comma_join xs = concat (map (\<lambda>(i, x). (if i = 0 then '''' else '', '') @ x) (enumerate 0 xs))"

definition sim_partition :: "'k sim_host \<Rightarrow> string list \<Rightarrow> sim \<Rightarrow> sim \<times> (sim_error + unit)" where
  "sim_partition host names s =
     (case members_of names s of
        Inl err \<Rightarrow> (s, Inl err)
      | Inr left \<Rightarrow>
          let right = filter (\<lambda>m. m \<notin> set left) (lc_members s) in
          if left = [] \<or> right = []
          then (s, rejected ''a partition must split the cluster into two non-empty groups'')
          else (record_event host NetworkEvent
                  (js (''Partitioned ['' @ comma_join left @ ''] from ['' @ comma_join right @ '']''))
                  (s\<lparr>lc_network := net_partition left right (net_heal (lc_network s))\<rparr>), Inr ()))"

definition sim_campaign :: "'k::linorder sim_host \<Rightarrow> string \<Rightarrow> sim \<Rightarrow> (sim, unit) sim_run" where
  "sim_campaign host n s =
     (case member_of n s of
        Inl err \<Rightarrow> Some (s, Inl err)
      | Inr m \<Rightarrow>
          (case online m s of
             Inl err \<Rightarrow> Some (s, Inl err)
           | Inr _ \<Rightarrow>
               (case random_integer 10 21 (sm_random s) of
                  (r, Inl err) \<Rightarrow> Some (s\<lparr>sm_random := r\<rparr>, Inl (Failed err))
                | (r, Inr timeout) \<Rightarrow>
                    sim_bind (on_replica host m (campaign (sim_env host) timeout) (s\<lparr>sm_random := r\<rparr>))
                      (\<lambda>s1 _. case online m s1 of
                          Inl err \<Rightarrow> Some (s1, Inl err)
                        | Inr nd \<Rightarrow> Some (record_event host ElectionEvent (js (''Election started by '' @ m) @ middot @
                            term_text (rc_currentTerm (nd_core nd))) s1, Inr ())))))"

definition sim_heartbeat :: "'k::linorder sim_host \<Rightarrow> string \<Rightarrow> sim \<Rightarrow> (sim, unit) sim_run" where
  "sim_heartbeat host n s =
     (case member_of n s of
        Inl err \<Rightarrow> Some (s, Inl err)
      | Inr m \<Rightarrow> on_replica host m (heartbeat (sim_env host)) s)"

definition sim_deliver :: "'k::linorder sim_host \<Rightarrow> int \<Rightarrow> sim \<Rightarrow> (sim, unit) sim_run" where
  "sim_deliver host i s =
     (let found = find (\<lambda>p. pm_id p = i) (mn_queue (lc_network s)) in
      sim_bind (sim_delivered host (net_deliverById i (lc_network s)) s)
        (\<lambda>s1 delivered. case found of
            None \<Rightarrow> Some (s1, rejected ''message is no longer pending'')
          | Some p \<Rightarrow> Some (record_event host NetworkEvent
              (js ((if delivered then ''Delivered '' else ''Discarded '') @ message_type (m_body (pm_message p)) @ '' '' @
                m_from (pm_message p)) @ arrow @ js (m_to (pm_message p))) s1, Inr ())))"

definition note_or_reject :: "'k sim_host \<Rightarrow> memory_network \<times> bool \<Rightarrow> string \<Rightarrow> sim \<Rightarrow> sim \<times> (sim_error + unit)"
  where
  "note_or_reject host x msg s =
     (case x of (net, ok) \<Rightarrow>
        if \<not> ok then (s\<lparr>lc_network := net\<rparr>, rejected ''message is no longer pending'')
        else (record_event host NetworkEvent (js msg) (s\<lparr>lc_network := net\<rparr>), Inr ()))"

definition on_member :: "string \<Rightarrow> (node_id \<Rightarrow> sim \<Rightarrow> sim \<times> (sim_error + unit)) \<Rightarrow> sim \<Rightarrow> sim \<times> (sim_error + unit)"
  where
  "on_member n f s = (case member_of n s of Inl err \<Rightarrow> (s, Inl err) | Inr m \<Rightarrow> f m s)"

fun sim_act :: "'k::linorder sim_host \<Rightarrow> sim_action \<Rightarrow> sim \<Rightarrow> (sim, unit) sim_run" where
  "sim_act host (ActReset count seed) s = Some (s, rejected ''reset is handled by the simulation server'')"
| "sim_act host (ActCampaign n) s = sim_campaign host n s"
| "sim_act host (ActHeartbeat n) s = sim_heartbeat host n s"
| "sim_act host (ActPropose n verb key v) s = sim_propose host n verb key v s"
| "sim_act host (ActPartition names) s = Some (sim_partition host names s)"
| "sim_act host ActHeal s = Some (record_event host NetworkEvent (js ''Healed all network partitions'')
     (s\<lparr>lc_network := net_heal (lc_network s)\<rparr>), Inr ())"
| "sim_act host (ActDisable n) s = Some (on_member n (sim_disable host) s)"
| "sim_act host (ActRestart n) s = Some (on_member n (sim_restart host) s)"
| "sim_act host (ActDeliver i) s = sim_deliver host i s"
| "sim_act host (ActDrop i) s = Some (note_or_reject host (net_dropById i (lc_network s))
     (''Dropped message #'' @ bigint_to_string i) s)"
| "sim_act host (ActDuplicate i) s = Some (note_or_reject host (net_duplicateById i (lc_network s))
     (''Duplicated message #'' @ bigint_to_string i) s)"
| "sim_act host ActReorder s = Some (record_event host NetworkEvent (js ''Reversed the pending message queue'')
     (s\<lparr>lc_network := net_reorder (lc_network s)\<rparr>), Inr ())"
| "sim_act host ActStep s = sim_step host s"
| "sim_act host ActDrain s = sim_drain_from host 0 s"

definition sim_execute :: "'k::linorder sim_host \<Rightarrow> sim_action \<Rightarrow> sim \<Rightarrow> (sim, unit) sim_run" where
  "sim_execute host action s = sim_bind (sim_act host action s) (\<lambda>s1 _. Some (sim_publish host s1))"

text \<open>A sequence of actions, whatever they answer.\<close>

fun sim_script :: "'k::linorder sim_host \<Rightarrow> sim_action list \<Rightarrow> sim \<Rightarrow> sim option" where
  "sim_script host [] s = Some s"
| "sim_script host (a # as) s = (case sim_execute host a s of None \<Rightarrow> None | Some (s1, _) \<Rightarrow> sim_script host as s1)"

end
