(* ===== verification/VisualizerServer.thy ===== *)
theory VisualizerServer
  imports SimulationController
begin

text \<open>
  The server of the visualizer (\<open>packages/raft-visualizer/src/server/index.ts\<close>): the requests it answers, the body of
  an action, and the streams of events.  A task of the queue is completed before the next begins; a body is kept
  as the value that \<open>JSON.stringify\<close> prints.

  The host supplies the path that the class \<open>URL\<close> finds in a request and the files below the public directory.
  An action whose fields have other types than \<open>protocol.ts\<close> declares (apart from numbers as key and value) is
  outside the model: \<open>handle_request\<close> is \<open>None\<close>.
\<close>

section \<open>Requests and responses\<close>

datatype http_method = GET | HEAD | POST | OtherMethod string

record http_request =
  rq_id :: nat
  rq_method :: http_method
  rq_url :: string
  rq_body :: "bytes list"

datatype http_body = SnapshotBody cluster_snapshot | ErrorBody js_string | AssetBody bytes | EmptyBody | EventStream

record http_response =
  rs_status :: int
  rs_type :: string
  rs_body :: http_body

record 'k server_host =
  vh_sim :: "'k sim_host"
  vh_pathname :: "string \<Rightarrow> string"
  vh_file :: "string \<Rightarrow> js_string + bytes"

text \<open>The state: the simulation, the responses of the open event streams, and what has been written to them.  The
  server subscribes one listener, number 0.\<close>

record server =
  sv_simulation :: sim
  sv_clients :: "nat list"
  sv_streams :: "(nat \<times> cluster_snapshot) list"

definition sendJson :: "int \<Rightarrow> http_body \<Rightarrow> http_response" where
  "sendJson code body = \<lparr>rs_status = code, rs_type = ''application/json; charset=utf-8'', rs_body = body\<rparr>"

definition send_error :: "js_string \<Rightarrow> http_response" where
  "send_error msg = sendJson 400 (ErrorBody msg)"

fun sim_error_text :: "sim_error \<Rightarrow> js_string" where
  "sim_error_text (Rejected msg) = msg"
| "sim_error_text (Failed err) = js (error_message err)"

definition send_snapshot :: "'k::linorder server_host \<Rightarrow> server \<Rightarrow> http_response" where
  "send_snapshot host sv = (case sim_snapshot (vh_sim host) (sv_simulation sv) of
     Inl err \<Rightarrow> send_error (sim_error_text err)
   | Inr snap \<Rightarrow> sendJson 200 (SnapshotBody snap))"

section \<open>The body of a request\<close>

fun read_chunks :: "nat \<Rightarrow> bytes list \<Rightarrow> js_string + bytes" where
  "read_chunks n [] = Inr []"
| "read_chunks n (chunk # chunks) =
     (let n1 = n + length chunk in
      if 64 * 1024 < n1 then Inl (js ''request body is too large'')
      else case read_chunks n1 chunks of Inl err \<Rightarrow> Inl err | Inr rest \<Rightarrow> Inr (chunk @ rest))"

text \<open>\<open>Buffer.toString\<close> keeps a byte order mark.\<close>

definition buffer_text :: "bytes \<Rightarrow> js_string" where
  "buffer_text bs = concat (map (\<lambda>c. units_of (or_else c REPLACEMENT)) (utf8_run utf8_start (map unat bs)))"

definition readJson :: "bytes list \<Rightarrow> js_string + json" where
  "readJson chunks = (case read_chunks 0 chunks of
     Inl err \<Rightarrow> Inl err
   | Inr bs \<Rightarrow> (case json_parse (buffer_text bs) of
        None \<Rightarrow> Inl (js ''request body must be valid JSON'') | Some v \<Rightarrow> Inr v))"

definition validateAction :: "json \<Rightarrow> js_string + json" where
  "validateAction v =
     (if get_property ''type'' v = None then Inl (js ''action must be an object with a type'') else Inr v)"

section \<open>Actions\<close>

text \<open>What the switch of \<open>execute\<close> makes of the value: an action of the protocol, a type it has no case for, or
  fields of other types than declared.\<close>

datatype server_action = Declared sim_action | UnknownType | Undeclared

text \<open>A text with other than ASCII characters is no node ID, and neither is the empty one that stands for it.\<close>

definition name_of :: "js_string \<Rightarrow> string" where
  "name_of u = (if \<forall>x \<in> set u. x < 0x80 then map (\<lambda>x. char_of (unat x)) u else [])"

definition int_prop :: "string \<Rightarrow> int option \<Rightarrow> json \<Rightarrow> int option" where
  "int_prop name dflt v = (case get_property name v of
     None \<Rightarrow> dflt
   | Some (JNumber m e) \<Rightarrow> if e = 0 \<and> \<bar>m\<bar> < 2 ^ 53 then Some m else None
   | Some _ \<Rightarrow> None)"

definition value_prop :: "string \<Rightarrow> json \<Rightarrow> action_value option" where
  "value_prop name v = (case get_property name v of
     Some (JString t) \<Rightarrow> Some (AText t)
   | Some (JNumber m e) \<Rightarrow> if e = 0 \<and> \<bar>m\<bar> < 2 ^ 53 then Some (ANumber m) else None
   | _ \<Rightarrow> None)"

definition read_names :: "json option \<Rightarrow> string list option" where
  "read_names v = (case v of
     Some (JArray xs) \<Rightarrow>
       if \<forall>x \<in> set xs. (case x of JString _ \<Rightarrow> True | _ \<Rightarrow> False)
       then Some (map (\<lambda>x. case x of JString t \<Rightarrow> name_of t | _ \<Rightarrow> []) xs) else None
   | _ \<Rightarrow> None)"

definition declared :: "('a \<Rightarrow> sim_action) \<Rightarrow> 'a option \<Rightarrow> server_action" where
  "declared f x = (case x of None \<Rightarrow> Undeclared | Some y \<Rightarrow> Declared (f y))"

definition read_propose :: "json \<Rightarrow> server_action" where
  "read_propose v =
     (let verb = (if string_prop ''command'' v = Some (js ''put'') then VerbPut else VerbDelete);
          absent = get_property ''value'' v \<in> {None, Some JNull} \<or> verb = VerbDelete in
      case (string_prop ''nodeId'' v, value_prop ''key'' v) of
        (Some n, Some key) \<Rightarrow>
          if absent then Declared (ActPropose (name_of n) verb key None)
          else declared (\<lambda>x. ActPropose (name_of n) verb key (Some x)) (value_prop ''value'' v)
      | _ \<Rightarrow> Undeclared)"

definition read_action :: "json \<Rightarrow> server_action" where
  "read_action v =
     (let member = map_option name_of (string_prop ''nodeId'' v);
          message = int_prop ''messageId'' None v in
      case string_prop ''type'' v of
        None \<Rightarrow> UnknownType
      | Some t \<Rightarrow>
          if t = js ''reset''
          then (case (int_prop ''nodeCount'' (Some 3) v, int_prop ''seed'' (Some 1) v) of
              (Some n, Some seed) \<Rightarrow> Declared (ActReset n seed) | _ \<Rightarrow> Undeclared)
          else if t = js ''campaign'' then declared ActCampaign member
          else if t = js ''heartbeat'' then declared ActHeartbeat member
          else if t = js ''propose'' then read_propose v
          else if t = js ''partition'' then declared ActPartition (read_names (get_property ''left'' v))
          else if t = js ''heal'' then Declared ActHeal
          else if t = js ''disable'' then declared ActDisable member
          else if t = js ''restart'' then declared ActRestart member
          else if t = js ''deliver'' then declared ActDeliver message
          else if t = js ''drop'' then declared ActDrop message
          else if t = js ''duplicate'' then declared ActDuplicate message
          else if t = js ''reorder'' then Declared ActReorder
          else if t = js ''step'' then Declared ActStep
          else if t = js ''drain'' then Declared ActDrain
          else UnknownType)"

section \<open>Events\<close>

text \<open>The calls of the listener since \<open>n\<close>, each written to every client.\<close>

definition broadcast :: "cluster_snapshot \<Rightarrow> server \<Rightarrow> server" where
  "broadcast snap sv = sv\<lparr>sv_streams := sv_streams sv @ map (\<lambda>c. (c, snap)) (sv_clients sv)\<rparr>"

definition put_simulation :: "nat \<Rightarrow> sim \<Rightarrow> server \<Rightarrow> server" where
  "put_simulation n s sv =
     fold (\<lambda>(l, snap). if l = 0 then broadcast snap else id) (drop n (sm_calls s)) (sv\<lparr>sv_simulation := s\<rparr>)"

definition openEventStream :: "'k::linorder server_host \<Rightarrow> nat \<Rightarrow> server \<Rightarrow> server \<times> http_response" where
  "openEventStream host c sv =
     (let sv1 = sv\<lparr>sv_clients := (if c \<in> set (sv_clients sv) then sv_clients sv else sv_clients sv @ [c])\<rparr>;
          response = \<lparr>rs_status = 200, rs_type = ''text/event-stream'', rs_body = EventStream\<rparr> in
      case sim_snapshot (vh_sim host) (sv_simulation sv1) of
        Inl err \<Rightarrow> (sv1, response)
      | Inr snap \<Rightarrow> (sv1\<lparr>sv_streams := sv_streams sv1 @ [(c, snap)]\<rparr>, response))"

definition close_client :: "nat \<Rightarrow> server \<Rightarrow> server" where
  "close_client c sv = sv\<lparr>sv_clients := filter (\<lambda>x. x \<noteq> c) (sv_clients sv)\<rparr>"

section \<open>The API\<close>

definition server_reset :: "'k::linorder server_host \<Rightarrow> int \<Rightarrow> int \<Rightarrow> server \<Rightarrow> server \<times> (sim_error + unit)" where
  "server_reset host nodeCount seed sv =
     (let old = sim_stop (vh_sim host) (sim_unsubscribe 0 (sv_simulation sv));
          sv1 = put_simulation (length (sm_calls (sv_simulation sv))) old sv in
      case sim_create (vh_sim host) nodeCount seed of
        Inl err \<Rightarrow> (sv1, Inl err)
      | Inr s \<Rightarrow>
          (case sim_subscribe (vh_sim host) 0 s of
             (s1, Inl err) \<Rightarrow> (put_simulation (length (sm_calls s)) s1 sv1, Inl err)
           | (s1, Inr _) \<Rightarrow> (put_simulation (length (sm_calls s)) s1 sv1, Inr ())))"

definition server_execute :: "'k::linorder server_host \<Rightarrow> (sim \<Rightarrow> (sim, unit) sim_run) \<Rightarrow> server
    \<Rightarrow> (server \<times> (sim_error + unit)) option" where
  "server_execute host f sv =
     (case f (sv_simulation sv) of
        None \<Rightarrow> None
      | Some (s, r) \<Rightarrow> Some (put_simulation (length (sm_calls (sv_simulation sv))) s sv, r))"

definition run_action :: "'k::linorder server_host \<Rightarrow> server_action \<Rightarrow> server
    \<Rightarrow> (server \<times> (sim_error + unit)) option" where
  "run_action host a sv = (case a of
     Undeclared \<Rightarrow> None
   | UnknownType \<Rightarrow> server_execute host (\<lambda>s. Some (sim_publish (vh_sim host) s)) sv
   | Declared act \<Rightarrow> (case act of
        ActReset nodeCount seed \<Rightarrow> Some (server_reset host nodeCount seed sv)
      | _ \<Rightarrow> server_execute host (sim_execute (vh_sim host) act) sv))"

definition post_action :: "'k::linorder server_host \<Rightarrow> server_action \<Rightarrow> server \<Rightarrow> (server \<times> http_response) option"
  where
  "post_action host a sv =
     map_option (\<lambda>(sv1, r). (sv1, case r of Inl err \<Rightarrow> send_error (sim_error_text err) | Inr _ \<Rightarrow> send_snapshot host sv1))
       (run_action host a sv)"

definition handleApi :: "'k::linorder server_host \<Rightarrow> http_request \<Rightarrow> server \<Rightarrow> (server \<times> http_response) option" where
  "handleApi host rq sv =
     (let path = vh_pathname host (rq_url rq) in
      if rq_method rq = GET \<and> path = ''/api/snapshot'' then Some (sv, send_snapshot host sv)
      else if rq_method rq = GET \<and> path = ''/api/events'' then Some (openEventStream host (rq_id rq) sv)
      else if rq_method rq = POST \<and> path = ''/api/action''
      then (case readJson (rq_body rq) of
          Inl err \<Rightarrow> Some (sv, send_error err)
        | Inr v \<Rightarrow> (case validateAction v of
            Inl err \<Rightarrow> Some (sv, send_error err)
          | Inr w \<Rightarrow> post_action host (read_action w) sv))
      else Some (sv, sendJson 404 (ErrorBody (js ''API route not found''))))"

section \<open>Files\<close>

definition last_segment :: "string \<Rightarrow> string" where
  "last_segment path = rev (takeWhile (\<lambda>c. c \<noteq> CHR ''/'') (dropWhile (\<lambda>c. c = CHR ''/'') (rev path)))"

definition extname :: "string \<Rightarrow> string" where
  "extname path =
     (let seg = last_segment path; tail = takeWhile (\<lambda>c. c \<noteq> CHR ''.'') (rev seg) in
      if length seg \<le> length tail + 1 \<or> seg = ''..'' then '''' else CHR ''.'' # rev tail)"

definition contentType :: "string \<Rightarrow> string" where
  "contentType path =
     (let ext = extname path in
      if ext = ''.html'' then ''text/html; charset=utf-8''
      else if ext = ''.js'' then ''text/javascript; charset=utf-8''
      else if ext = ''.css'' then ''text/css; charset=utf-8''
      else if ext = ''.svg'' then ''image/svg+xml''
      else ''application/octet-stream'')"

fun has_dots :: "string \<Rightarrow> bool" where
  "has_dots (a # b # cs) = (a = CHR ''.'' \<and> b = CHR ''.'' \<or> has_dots (b # cs))"
| "has_dots cs = False"

definition serve_file :: "'k server_host \<Rightarrow> http_method \<Rightarrow> string \<Rightarrow> http_response" where
  "serve_file host meth path =
     (let relative = (if path = ''/'' then ''index.html'' else drop 1 path);
          answer = (\<lambda>served asset. \<lparr>rs_status = 200, rs_type = contentType served,
             rs_body = (if meth = HEAD then EmptyBody else AssetBody asset)\<rparr>) in
      if has_dots relative then send_error (js ''invalid asset path'')
      else case vh_file host relative of
          Inr asset \<Rightarrow> answer relative asset
        | Inl _ \<Rightarrow> (case vh_file host ''index.html'' of
              Inr asset \<Rightarrow> answer ''index.html'' asset
            | Inl err \<Rightarrow> send_error err))"

definition handleRequest :: "'k::linorder server_host \<Rightarrow> http_request \<Rightarrow> server \<Rightarrow> (server \<times> http_response) option"
  where
  "handleRequest host rq sv =
     (if take 5 (rq_url rq) = ''/api/'' then handleApi host rq sv
      else if rq_method rq \<noteq> GET \<and> rq_method rq \<noteq> HEAD
      then Some (sv, sendJson 405 (ErrorBody (js ''method not allowed'')))
      else Some (sv, serve_file host (rq_method rq) (vh_pathname host (rq_url rq))))"

section \<open>Start and end\<close>

definition server_start :: "'k::linorder server_host \<Rightarrow> sim_error + server" where
  "server_start host =
     (case sim_create (vh_sim host) 3 1 of
        Inl err \<Rightarrow> Inl err
      | Inr s \<Rightarrow>
          (case sim_subscribe (vh_sim host) 0 s of
             (s1, Inl err) \<Rightarrow> Inl err
           | (s1, Inr _) \<Rightarrow> Inr \<lparr>sv_simulation = s1, sv_clients = [], sv_streams = []\<rparr>))"

definition server_shutdown :: "'k::linorder server_host \<Rightarrow> server \<Rightarrow> server" where
  "server_shutdown host sv =
     sv\<lparr>sv_simulation := sim_stop (vh_sim host) (sim_unsubscribe 0 (sv_simulation sv)), sv_clients := []\<rparr>"

end
