(* ===== verification/SimulationSteps.thy ===== *)
theory SimulationSteps
  imports SimulationController LiveClusterCalls
begin

text \<open>
  Every operation of the simulation is a sequence of small moves; what each move keeps, every operation keeps.
\<close>

section \<open>Moves\<close>

inductive sim_move :: "'k::linorder sim_host \<Rightarrow> sim \<Rightarrow> sim \<Rightarrow> bool" for host where
  recorded: "sim_move host s (record_event host kind msg s)"
| published: "sim_move host s (fst (sim_publish host s))"
| listened: "sim_move host s (s\<lparr>sm_listeners := ls\<rparr>)"
| heard: "sim_snapshot host s = Inr snap \<Longrightarrow> sim_move host s (s\<lparr>sm_calls := sm_calls s @ [(l, snap)]\<rparr>)"
| drawn: "sim_move host s (s\<lparr>sm_random := r\<rparr>)"
| numbered: "sim_move host s (s\<lparr>sm_commandId := i\<rparr>)"
| watched: "sim_move host s (s\<lparr>sm_watches := ws\<rparr>)"
| noted: "map_of (lc_live s) m = Some nd \<Longrightarrow> same_run nd nd1 \<Longrightarrow>
    sim_move host s (s\<lparr>lc_live := map_set m nd1 (lc_live s)\<rparr>)"
| called: "map_of (lc_live s) m = Some nd \<Longrightarrow> local_call (sim_env host) f \<Longrightarrow>
    node_call m f nd s = Some (s', r :: raft_error + unit) \<Longrightarrow> sim_move host s s'"
| network: "net_step (lc_network s) net \<Longrightarrow> sim_move host s (s\<lparr>lc_network := net\<rparr>)"
| delivered: "net_deliver i (lc_network s) = (net, Some msg) \<Longrightarrow>
    handle_message (sim_env host) msg (s\<lparr>lc_network := net\<rparr>) = Some (s', r) \<Longrightarrow> sim_move host s s'"
| halted: "map_of (lc_live s) m = Some nd \<Longrightarrow>
    sim_move host s ((node_halt (sim_env host) m nd s)\<lparr>sm_offline := map_set m (nd_machine nd) (sm_offline s)\<rparr>)"
| launched: "map_of (lc_live s) m = None \<Longrightarrow> map_of (lc_storage s) m = Some d \<Longrightarrow>
    node_launch (sim_env host) (sim_node_options (lc_members s) m) [] m d s = (s', Inr ()) \<Longrightarrow>
    sim_move host s (s'\<lparr>sm_offline := map_delete m (sm_offline s')\<rparr>)"
| launch_fails: "map_of (lc_live s) m = None \<Longrightarrow> map_of (lc_storage s) m = Some d \<Longrightarrow>
    node_launch (sim_env host) (sim_node_options (lc_members s) m) [] m d s = (s', Inl err) \<Longrightarrow>
    sim_move host s s'"

inductive_cases sim_moveE: "sim_move host s s'"

abbreviation sim_moves :: "'k::linorder sim_host \<Rightarrow> sim \<Rightarrow> sim \<Rightarrow> bool" where
  "sim_moves host \<equiv> rtranclp (sim_move host)"

lemma moves_one: "sim_move host s s' \<Longrightarrow> sim_moves host s s'"
  by (rule r_into_rtranclp)

lemma moves_trans [trans]: "sim_moves host s t \<Longrightarrow> sim_moves host t u \<Longrightarrow> sim_moves host s u"
  by (rule rtranclp_trans)

text \<open>All states a call that starts in \<open>s\<close> can leave are reached by moves.\<close>

abbreviation by_moves :: "'k::linorder sim_host \<Rightarrow> sim \<Rightarrow> (sim \<times> 'x) option \<Rightarrow> bool" where
  "by_moves host s \<equiv> leaves (sim_moves host s)"

lemma by_moves_bind:
  assumes "by_moves host s r" and "\<And>s1 x. by_moves host s1 (k s1 x)"
  shows "by_moves host s (sim_bind r k)"
proof (cases r)
  case (Some p)
  obtain s1 x where p: "p = (s1, x)" by fastforce
  have first: "sim_moves host s s1" using assms(1) Some p by simp
  have "sim_moves host s t" if "k s1 y = Some (t, z)" for t y z
    using moves_trans [OF first] assms(2) [of s1 y] that by (simp add: leaves_def)
  then show ?thesis using Some p first by (cases x) (auto simp: sim_bind_def leaves_def)
qed (simp add: sim_bind_def)

lemma by_moves_from: "sim_moves host s t \<Longrightarrow> by_moves host t r \<Longrightarrow> by_moves host s r"
  by (auto simp: leaves_def intro: moves_trans)

lemma by_moves_map: "by_moves host s (map_option (\<lambda>(t, x). (t, f x)) r) = by_moves host s r"
  by (cases r) (auto simp: leaves_def)

section \<open>Callbacks\<close>

lemma callback_moves: "sim_moves host s (run_callback host applied w outcome s)"
proof -
  let ?s1 = "case outcome of
       Inr _ \<Rightarrow> record_event host CommandEvent (sw_description w @ js '' committed and applied'' @ middot @
           js (''index '' @ bigint_to_string applied)) s
     | Inl err \<Rightarrow> record_event host ErrorEvent (js (sw_commandId w @ '' failed: '' @ error_message err)) s"
  have "sim_move host s ?s1" by (cases outcome) (simp_all only: sum.case sim_move.recorded)
  then show ?thesis
    unfolding run_callback_def by (meson moves_one moves_trans sim_move.published)
qed

lemma settle_moves: "sim_moves host s (settle_watch host m applied x s)"
proof (cases "find (is_watch m (fst x)) (sm_watches s)")
  case (Some w)
  let ?s1 = "s\<lparr>sm_watches := filter (\<lambda>v. \<not> is_watch m (fst x) v) (sm_watches s)\<rparr>"
  have "sim_moves host s ?s1" by (rule moves_one [OF sim_move.watched])
  then show ?thesis
    using moves_trans [OF _ callback_moves] Some by (simp add: settle_watch_def)
qed (simp add: settle_watch_def)

lemma note_moves: "sim_moves host s (note_event host m ev s)"
  by (cases ev) (simp_all add: note_event_def moves_one sim_move.recorded)

text \<open>A relation that holds along each callback holds along all of them.\<close>

lemma fold_rule:
  assumes "\<And>s. R s s" and "\<And>s t u. R s t \<Longrightarrow> R t u \<Longrightarrow> R s u" and "\<And>x s. R s (f x s)"
  shows "R s (fold f xs s)"
proof (induction xs arbitrary: s)
  case (Cons x xs)
  show ?case using assms(2) [OF assms(3) Cons.IH] by simp
qed (simp add: assms(1))

lemma absorb_rule:
  assumes rel: "\<And>s. R s s" "\<And>s t u. R s t \<Longrightarrow> R t u \<Longrightarrow> R s u"
    and settle: "\<And>k x s. R s (settle_watch host m k x s)" and noting: "\<And>ev s. R s (note_event host m ev s)"
  shows "R s (absorb host m nd nd1 s)"
proof -
  have settles: "R t (fold (settle_watch host m k) xs t)" for k xs t by (rule fold_rule [of R, OF rel settle])
  have noted: "R t (fold (note_event host m) evs t)" for evs t by (rule fold_rule [of R, OF rel noting])
  show ?thesis
    unfolding absorb_def Let_def by (rule rel(2) [OF rel(2) [OF settles noted] settles])
qed

lemma absorb_moves: "sim_moves host s (absorb host m nd nd1 s)"
  by (rule absorb_rule [OF _ moves_trans settle_moves note_moves]) simp_all

lemma absorb_run_moves:
  assumes "by_moves host s r"
  shows "by_moves host s (absorb_run host m s0 r)"
proof (cases r)
  case (Some p)
  obtain s1 x where p: "p = (s1, x)" by fastforce
  then have "sim_moves host s s1" using assms Some by simp
  then have "sim_moves host s (absorb host m nd nd1 s1)" for nd nd1
    by (rule moves_trans [OF _ absorb_moves])
  then show ?thesis
    using Some p \<open>sim_moves host s s1\<close> by (auto simp: absorb_run_def leaves_def split: option.splits)
qed (simp add: absorb_run_def)

section \<open>Calls of replicas\<close>

lemma on_replica_moves:
  fixes f :: "(kv_values, viz_result) live_node \<Rightarrow> ((kv_values, viz_result) live_node, unit) run"
  assumes "local_call (sim_env host) f"
  shows "by_moves host s (on_replica host m f s)"
proof (cases "map_of (lc_live s) m")
  case (Some nd)
  have "by_moves host s (node_call m f nd s)"
    using sim_move.called [OF Some assms] by (auto simp: leaves_def moves_one)
  then show ?thesis using Some absorb_run_moves by (simp add: on_replica_def online_def)
qed (simp add: on_replica_def online_def rejected_def)

lemma propose_run_local:
  "local_call env (\<lambda>x. map_option (\<lambda>x1. (x1, Inr ())) (propose_run env cid t payload x))"
  unfolding local_call_def
proof (intro allI impI, goal_cases)
  case (1 nd nd' r)
  then obtain nd2 y where "process env (Propose cid payload) nd = Some (nd2, y)" "same_run nd2 nd'"
    "snd (nd_net nd') = snd (nd_net nd2)"
    by (auto simp: propose_run_def same_run_def split: option.splits sum.splits)
  moreover have "is_local (Propose cid payload)" by simp
  ultimately show ?case using same_run_refl by blast
qed

lemma propose_begin_moves:
  assumes "map_of (lc_live s) m = Some nd" and "propose_begin env command cid nd = (nd1, p)"
  shows "sim_move host s (s\<lparr>lc_live := map_set m nd1 (lc_live s)\<rparr>)"
  using sim_move.noted [OF assms(1)] propose_begin_same [OF assms(2)] by blast

lemma watch_proposal_moves: "by_moves host s (watch_proposal host m command cid description s)"
proof (cases "map_of (lc_live s) m")
  case (Some nd)
  obtain nd1 p where b: "propose_begin (sim_env host) command cid nd = (nd1, p)" by fastforce
  let ?s1 = "s\<lparr>lc_live := map_set m nd1 (lc_live s)\<rparr>"
  let ?w = "\<lambda>t. \<lparr>sw_member = m, sw_ticket = t, sw_commandId = cid, sw_description = description\<rparr>"
  let ?s2 = "\<lambda>t. ?s1\<lparr>sm_watches := sm_watches ?s1 @ [?w t]\<rparr>"
  have one: "sim_moves host s ?s1" by (rule moves_one [OF propose_begin_moves [OF Some b]])
  have two: "sim_moves host s (?s2 t)" for t
    by (rule moves_trans [OF one moves_one [OF sim_move.watched]])
  show ?thesis
  proof (cases p)
    case (Settled r)
    then show ?thesis using Some b moves_trans [OF one callback_moves]
      by (simp add: watch_proposal_def online_def)
  next
    case (Joined t)
    then show ?thesis using Some b two [of t] by (simp add: watch_proposal_def online_def)
  next
    case (Registered t payload)
    have "by_moves host s (on_replica host m
        (\<lambda>x. map_option (\<lambda>x1. (x1, Inr ())) (propose_run (sim_env host) cid t payload x)) (?s2 t))"
      by (rule by_moves_from [OF two on_replica_moves [OF propose_run_local]])
    then show ?thesis using Some b Registered by (simp add: watch_proposal_def online_def Let_def)
  qed
qed (simp add: watch_proposal_def online_def rejected_def)

lemma sim_propose_moves: "by_moves host s (sim_propose host n verb key v s)"
proof -
  have "by_moves host s (watch_proposal host m command cid description
      (record_event host CommandEvent msg (s\<lparr>sm_commandId := i\<rparr>)))" for m command cid description msg i
    by (rule by_moves_from [OF _ watch_proposal_moves])
      (rule moves_trans [OF moves_one [OF sim_move.numbered] moves_one [OF sim_move.recorded]])
  then show ?thesis
    by (auto simp: sim_propose_def rejected_def Let_def split: sum.split)
qed

lemma sim_campaign_moves: "by_moves host s (sim_campaign host n s)"
proof -
  have drawn: "sim_moves host s (s\<lparr>sm_random := r\<rparr>)" for r by (rule moves_one [OF sim_move.drawn])
  have "by_moves host s (sim_bind (on_replica host m (campaign (sim_env host) timeout) (s\<lparr>sm_random := r\<rparr>))
      (\<lambda>s1 _. case online m s1 of
          Inl err \<Rightarrow> Some (s1, Inl err)
        | Inr nd \<Rightarrow> Some (record_event host ElectionEvent (js (''Election started by '' @ m) @ middot @
            term_text (rc_currentTerm (nd_core nd))) s1, Inr ())))" for m timeout r
    by (rule by_moves_bind [OF by_moves_from [OF drawn on_replica_moves [OF campaign_local]]])
      (auto intro: moves_one sim_move.recorded split: sum.split)
  then show ?thesis
    using drawn by (auto simp: sim_campaign_def split: sum.split prod.split)
qed

lemma sim_heartbeat_moves: "by_moves host s (sim_heartbeat host n s)"
  using on_replica_moves [OF heartbeat_local] by (auto simp: sim_heartbeat_def split: sum.split)

section \<open>Messages\<close>

lemma sim_delivered_moves: "by_moves host s (sim_delivered host (net_deliver i (lc_network s)) s)"
proof -
  obtain net x where d: "net_deliver i (lc_network s) = (net, x)" by fastforce
  show ?thesis
  proof (cases x)
    case None
    then show ?thesis
      using d sim_move.network [where host = host, OF net_step.lost] by (auto simp: sim_delivered_def moves_one)
  next
    case (Some msg)
    have "by_moves host s (handle_message (sim_env host) msg (s\<lparr>lc_network := net\<rparr>))"
      using sim_move.delivered [OF d [unfolded Some]] by (auto simp: leaves_def moves_one)
    then have "by_moves host s (absorb_run host (m_to msg) s
        (handle_message (sim_env host) msg (s\<lparr>lc_network := net\<rparr>)))" by (rule absorb_run_moves)
    then show ?thesis
      using d Some by (simp add: sim_delivered_def by_moves_bind)
  qed
qed

lemma deliverById_moves: "by_moves host s (sim_delivered host (net_deliverById i (lc_network s)) s)"
proof (cases "index_of_id i (lc_network s) = -1")
  case True
  then show ?thesis by (simp add: net_deliverById_def sim_delivered_def)
next
  case False
  then show ?thesis using sim_delivered_moves by (simp add: net_deliverById_def)
qed

lemma sim_step_moves: "by_moves host s (sim_step host s)"
  by (auto simp: sim_step_def intro: by_moves_bind deliverById_moves split: list.split)

lemma sim_drain_moves: "by_moves host s (sim_drain_from host delivered s)"
proof (induction host delivered s rule: sim_drain_from.induct)
  case (1 host delivered s)
  note mv = sim_delivered_moves [of host s 0]
  show ?case
  proof (cases "net_pending (lc_network s) = 0 \<or> 10000 < delivered + 1")
    case True
    then show ?thesis by (subst sim_drain_from.simps) (auto simp: rejected_def)
  next
    case False
    show ?thesis
    proof (cases "sim_delivered host (net_deliver 0 (lc_network s)) s")
      case None
      then show ?thesis using False by (subst sim_drain_from.simps) simp
    next
      case (Some p)
      obtain s1 y where p: "p = (s1, y)" by fastforce
      have first: "sim_moves host s s1" using mv Some p by simp
      show ?thesis
      proof (cases y)
        case (Inl err)
        then show ?thesis using False Some p first by (subst sim_drain_from.simps) simp
      next
        case (Inr b)
        have "by_moves host s1 (sim_drain_from host (delivered + 1) s1)"
          using False "1.IH" [OF _ _ Some p [symmetric] Inr] by simp
        then have "by_moves host s (sim_drain_from host (delivered + 1) s1)" by (rule by_moves_from [OF first])
        then show ?thesis using False Some p Inr by (subst sim_drain_from.simps) simp
      qed
    qed
  qed
qed

lemma sim_deliver_moves: "by_moves host s (sim_deliver host i s)"
  unfolding sim_deliver_def Let_def
  by (rule by_moves_bind [OF deliverById_moves])
    (auto simp: rejected_def intro: moves_one sim_move.recorded split: option.split)

lemma note_or_reject_moves:
  assumes "x = (lc_network s, b) \<or> net_step (lc_network s) (fst x)"
  shows "by_moves host s (Some (note_or_reject host x msg s))"
proof -
  obtain net ok where x: "x = (net, ok)" by fastforce
  have "sim_moves host s (s\<lparr>lc_network := net\<rparr>)"
    using assms x sim_move.network [of s net] by (auto simp: moves_one)
  then show ?thesis
    using moves_trans [OF _ moves_one [OF sim_move.recorded]] x
    by (auto simp: note_or_reject_def rejected_def)
qed

lemma dropById_step:
  "net_dropById i net = (net, False) \<or> net_step net (fst (net_dropById i net))"
proof (cases "index_of_id i net = -1")
  case False
  obtain n b where "net_drop (index_of_id i net) net = (n, b)" by fastforce
  then show ?thesis using False net_step.dropped by (auto simp: net_dropById_def)
qed (simp add: net_dropById_def)

lemma duplicateById_step:
  "net_duplicateById i net = (net, False) \<or> net_step net (fst (net_duplicateById i net))"
  using net_step.duplicate by (auto simp: net_duplicateById_def)

section \<open>Actions\<close>

lemma network_moves:
  "net_step (lc_network s) net \<Longrightarrow> sim_moves host s (record_event host kind msg (s\<lparr>lc_network := net\<rparr>))"
  by (rule moves_trans [OF moves_one [OF sim_move.network] moves_one [OF sim_move.recorded]])

lemma sim_partition_moves: "by_moves host s (Some (sim_partition host names s))"
proof -
  have "sim_moves host s (s\<lparr>lc_network := net_heal (lc_network s)\<rparr>)"
    by (rule moves_one [OF sim_move.network [OF net_step.heal]])
  moreover have "sim_moves host (s\<lparr>lc_network := net_heal (lc_network s)\<rparr>)
      (record_event host kind msg (s\<lparr>lc_network := net_partition left right (net_heal (lc_network s))\<rparr>))"
    for left right kind msg
    using network_moves [where host = host and s = "s\<lparr>lc_network := net_heal (lc_network s)\<rparr>"] net_step.partition by simp
  ultimately have "sim_moves host s
      (record_event host kind msg (s\<lparr>lc_network := net_partition left right (net_heal (lc_network s))\<rparr>))"
    for left right kind msg by (rule moves_trans)
  then show ?thesis
    by (auto simp: sim_partition_def rejected_def Let_def split: sum.split)
qed

text \<open>\<open>absorb\<close> leaves the nodes alone.\<close>

lemma record_frame [simp]:
  "lc_network (record_event host kind msg s) = lc_network s" "lc_live (record_event host kind msg s) = lc_live s"
  "lc_storage (record_event host kind msg s) = lc_storage s" "lc_members (record_event host kind msg s) = lc_members s"
  "sm_offline (record_event host kind msg s) = sm_offline s"
  by (simp_all add: record_event_def Let_def)

lemma publish_frame [simp]:
  "lc_network (fst (sim_publish host s)) = lc_network s" "lc_live (fst (sim_publish host s)) = lc_live s"
  "lc_storage (fst (sim_publish host s)) = lc_storage s" "lc_members (fst (sim_publish host s)) = lc_members s"
  "sm_offline (fst (sim_publish host s)) = sm_offline s"
  by (simp_all add: sim_publish_def Let_def split: sum.split)

definition same_nodes :: "sim \<Rightarrow> sim \<Rightarrow> bool" where
  "same_nodes s t \<longleftrightarrow> lc_network t = lc_network s \<and> lc_live t = lc_live s \<and> lc_storage t = lc_storage s \<and>
     lc_members t = lc_members s \<and> sm_offline t = sm_offline s"

lemma absorb_same_nodes: "same_nodes s (absorb host m nd nd1 s)"
proof (rule absorb_rule)
  show "same_nodes s (settle_watch host m applied x s)" for applied x s
    by (auto simp: same_nodes_def settle_watch_def run_callback_def split: option.split sum.split)
  show "same_nodes s (note_event host m ev s)" for ev s
    by (auto simp: same_nodes_def note_event_def split: node_event.split)
qed (simp_all add: same_nodes_def)

lemma sim_disable_moves: "by_moves host s (Some (sim_disable host m s))"
proof (cases "map_of (lc_live s) m")
  case (Some nd)
  let ?s1 = "absorb host m nd (node_stop (sim_env host) nd) s"
  have "map_of (lc_live ?s1) m = Some nd" using absorb_same_nodes [where host = host] Some by (simp add: same_nodes_def)
  note halt = sim_move.halted [OF this, of host]
  have "sm_offline (node_halt (sim_env host) m nd ?s1) = sm_offline ?s1" by (simp add: node_halt_def Let_def)
  then have "sim_moves host s (fst (sim_disable host m s))"
    using moves_trans [OF absorb_moves moves_trans [OF moves_one [OF halt] moves_one [OF sim_move.recorded]]] Some
    by (simp add: sim_disable_def online_def Let_def)
  then show ?thesis by (cases "sim_disable host m s") simp
qed (simp add: sim_disable_def online_def rejected_def)

lemma sim_start_moves:
  assumes "map_of (lc_live s) m = None"
  shows "by_moves host s (Some (sim_start host m s))"
  using sim_move.launched [where host = host, OF assms] sim_move.launch_fails [where host = host, OF assms]
  by (auto simp: sim_start_def rejected_def moves_one split: option.split prod.split sum.split)

lemma sim_restart_moves: "by_moves host s (Some (sim_restart host m s))"
proof (cases "map_of (lc_live s) m = None")
  case True
  note mv = sim_start_moves [OF True, of host]
  then show ?thesis
    using moves_trans [OF _ moves_one [OF sim_move.recorded]]
    by (cases "sim_start host m s") (auto simp: sim_restart_def rejected_def split: sum.split)
qed (simp add: sim_restart_def rejected_def)

lemma on_member_moves:
  assumes "\<And>m. by_moves host s (Some (f m s))"
  shows "by_moves host s (Some (on_member n f s))"
  using assms by (auto simp: on_member_def split: sum.split)

lemma sim_act_moves: "by_moves host s (sim_act host a s)"
proof (cases a)
  case (ActDrop i)
  then show ?thesis using note_or_reject_moves [OF dropById_step] by (simp del: leaves_Some)
next
  case (ActDuplicate i)
  then show ?thesis using note_or_reject_moves [OF duplicateById_step] by (simp del: leaves_Some)
qed (simp_all add: rejected_def sim_campaign_moves sim_heartbeat_moves sim_propose_moves sim_partition_moves
    network_moves net_step.heal net_step.reorder on_member_moves sim_disable_moves sim_restart_moves sim_deliver_moves
    sim_step_moves sim_drain_moves del: leaves_Some, simp_all add: network_moves net_step.heal net_step.reorder)

theorem sim_execute_moves:
  assumes "sim_execute host a s = Some (s', r)"
  shows "sim_moves host s s'"
proof -
  have "by_moves host s1 (Some (sim_publish host s1))" for s1
    using sim_move.published [of host s1] by (cases "sim_publish host s1") (simp add: moves_one)
  then have "by_moves host s (sim_execute host a s)"
    unfolding sim_execute_def by (rule by_moves_bind [OF sim_act_moves])
  then show ?thesis using assms by simp
qed

text \<open>A timer that fires.\<close>

lemma sim_expire_moves: "sim_moves host s (sim_expire host w s)"
  using moves_trans [OF moves_one [OF sim_move.watched] callback_moves] by (auto simp: sim_expire_def)

lemma sim_subscribe_moves: "sim_moves host s (fst (sim_subscribe host l s))"
proof -
  let ?s1 = "s\<lparr>sm_listeners := (if l \<in> set (sm_listeners s) then sm_listeners s else sm_listeners s @ [l])\<rparr>"
  have one: "sim_moves host s ?s1" by (rule moves_one [OF sim_move.listened])
  show ?thesis
  proof (cases "sim_snapshot host ?s1")
    case (Inl err)
    then show ?thesis using one by (simp add: sim_subscribe_def Let_def)
  next
    case (Inr snap)
    have "sim_moves host ?s1 (?s1\<lparr>sm_calls := sm_calls ?s1 @ [(l, snap)]\<rparr>)"
      by (rule moves_one [OF sim_move.heard [OF Inr]])
    then show ?thesis using moves_trans [OF one] Inr by (simp add: sim_subscribe_def Let_def)
  qed
qed

lemma sim_unsubscribe_moves: "sim_moves host s (sim_unsubscribe l s)"
  unfolding sim_unsubscribe_def by (rule moves_one [OF sim_move.listened])

end
