(* ===== verification/SimulationFacts.thy ===== *)
theory SimulationFacts
  imports SimulationSteps
begin

text \<open>
  What every operation of the simulation keeps: it is a live cluster (the locale \<open>live_config\<close> is interpreted on
  its replicas), every member is online or offline, and the timeline holds the newest events.
\<close>

section \<open>Reachable states\<close>

text \<open>An action of a type that \<open>execute\<close> does not know is only published.\<close>

inductive sim_reachable :: "'k::linorder sim_host \<Rightarrow> sim \<Rightarrow> bool" for host where
  created: "sim_create host nodeCount seed = Inr s \<Longrightarrow> sim_reachable host s"
| executed: "sim_reachable host s \<Longrightarrow> sim_execute host a s = Some (s', r) \<Longrightarrow> sim_reachable host s'"
| expired: "sim_reachable host s \<Longrightarrow> sim_reachable host (sim_expire host w s)"
| subscribed: "sim_reachable host s \<Longrightarrow> sim_reachable host (fst (sim_subscribe host l s))"
| unsubscribed: "sim_reachable host s \<Longrightarrow> sim_reachable host (sim_unsubscribe l s)"
| published: "sim_reachable host s \<Longrightarrow> sim_reachable host (fst (sim_publish host s))"

lemma sim_reachable_moves:
  assumes "sim_reachable host s"
  shows "\<exists>nodeCount seed s0. sim_create host nodeCount seed = Inr s0 \<and> sim_moves host s0 s"
  using assms
proof (induction rule: sim_reachable.induct)
  case (created nodeCount seed s)
  then show ?case by blast
next
  case (executed s a s' r)
  then show ?case using sim_execute_moves moves_trans by blast
next
  case (expired s w)
  then show ?case using sim_expire_moves moves_trans by blast
next
  case (subscribed s l)
  then show ?case using sim_subscribe_moves moves_trans by blast
next
  case (unsubscribed s l)
  then show ?case using sim_unsubscribe_moves moves_trans by blast
next
  case (published s)
  then show ?case using moves_trans [OF _ moves_one [OF sim_move.published]] by blast
qed

lemma sim_script_reachable: "sim_script host as s = Some s' \<Longrightarrow> sim_reachable host s \<Longrightarrow> sim_reachable host s'"
  by (induction as arbitrary: s) (auto split: option.splits prod.splits dest: sim_reachable.executed)

text \<open>An invariant of the moves that holds after creation.\<close>

lemma moves_keep:
  assumes "sim_moves host s t" and "P s" and "\<And>u v. sim_move host u v \<Longrightarrow> P u \<Longrightarrow> P v"
  shows "P t"
  using assms(1)
proof (induction rule: rtranclp_induct)
  case base
  show ?case by (rule assms(2))
next
  case (step u v)
  then show ?case using assms(3) by blast
qed

section \<open>The live cluster\<close>

interpretation simulation: live_config "sim_env host" sim_node_options "\<lambda>m. []" for host :: "'k sim_host"
  by unfold_locales (simp_all add: env_ok_def sim_env_def options_ok_def sim_node_options_def validateOptions_def)

abbreviation world_ok :: "'k sim_host \<Rightarrow> sim \<Rightarrow> bool" where
  "world_ok host s \<equiv> lc_ok (sim_env host) sim_node_options (\<lambda>m. []) (\<lambda>m. (0, 0, 0)) s"

lemma world_ok_same:
  "same_nodes s t \<Longrightarrow> world_ok host s \<Longrightarrow> world_ok host t"
  using lc_ok_cong [of t s "sim_env host" sim_node_options "\<lambda>m. []" "\<lambda>m. (0, 0, 0)"] by (simp add: same_nodes_def)

lemma note_ok:
  assumes ok: "lc_ok env opts machine low lc" and nd: "map_of (lc_live lc) m = Some nd" and same: "same_run nd nd1"
  shows "lc_ok env opts machine low (lc\<lparr>lc_live := map_set m nd1 (lc_live lc)\<rparr>)"
proof -
  let ?lc' = "lc\<lparr>lc_live := map_set m nd1 (lc_live lc)\<rparr>"
  obtain cl where rel: "lc_rel env opts machine low lc cl" using ok by (auto simp: lc_ok_def)
  note m = live_keys [OF rel nd]
  have "member_ok env machine low ?lc' m (cl_member cl m)"
    using live_member [OF rel m nd] live_ok_same [OF _ same] same by (simp add: member_ok_def same_run_def)
  moreover have "same_frame m lc ?lc'"
    using rel map_set_distinct [of "lc_live lc" m nd1] map_set_keys [of m nd1 "lc_live lc"]
    by (auto simp: same_frame_def lc_rel_def)
  moreover have cl: "put_member m (cl_member cl m) (cl\<lparr>cl_net := lc_network ?lc'\<rparr>) = cl"
    using rel by (simp add: lc_rel_def put_member_def)
  ultimately have "lc_rel env opts machine low ?lc' (put_member m (cl_member cl m) (cl\<lparr>cl_net := lc_network ?lc'\<rparr>))"
    by (intro lc_rel_member [OF rel m]) (simp only: rtranclp.rtrancl_refl)
  then show ?thesis by (auto simp: lc_ok_def)
qed

lemma sim_move_ok:
  assumes "sim_move host s t" and ok: "world_ok host s"
  shows "world_ok host t"
  using assms(1)
proof cases
  case (noted m nd nd1)
  then show ?thesis using note_ok [OF ok] by simp
next
  case (called m nd f r)
  then show ?thesis using simulation.call_ok [OF ok called(2,1)] by simp
next
  case (network net)
  then show ?thesis using lc_ok_network [OF ok] by simp
next
  case (delivered i net msg r)
  then show ?thesis using simulation.deliver_ok [OF ok delivered(1)] by simp
next
  case (halted m nd)
  have "world_ok host t = world_ok host (node_halt (sim_env host) m nd s)"
    unfolding halted(1) by (rule lc_ok_cong) simp_all
  then show ?thesis using simulation.halt_ok [OF ok halted(2)] by simp
next
  case (launched m d s')
  have "world_ok host s'" using simulation.launch_ok [OF ok launched(2,3,4)] .
  moreover have "world_ok host t = world_ok host s'"
    unfolding launched(1) by (rule lc_ok_cong) simp_all
  ultimately show ?thesis by simp
next
  case (launch_fails m d err)
  then show ?thesis using simulation.launch_ok [OF ok] by blast
qed (use ok in \<open>auto intro: world_ok_same [of s] simp: same_nodes_def\<close>)

section \<open>Every member has a replica\<close>

definition known :: "sim \<Rightarrow> node_id \<Rightarrow> bool" where
  "known s m \<longleftrightarrow> map_of (lc_storage s) m \<noteq> None \<and> (map_of (lc_live s) m \<noteq> None \<or> map_of (sm_offline s) m \<noteq> None)"

text \<open>A move keeps the members and every replica, and no replica is online and offline at once.\<close>

definition apart :: "sim \<Rightarrow> bool" where
  "apart s \<longleftrightarrow> (\<forall>m. map_of (lc_live s) m = None \<or> map_of (sm_offline s) m = None)"

definition keeps_replicas :: "sim \<Rightarrow> sim \<Rightarrow> bool" where
  "keeps_replicas s t \<longleftrightarrow> lc_members t = lc_members s \<and> (\<forall>m. known s m \<longrightarrow> known t m) \<and> (apart s \<longrightarrow> apart t)"

lemma same_nodes_replicas: "same_nodes s t \<Longrightarrow> keeps_replicas s t"
  by (simp add: same_nodes_def keeps_replicas_def known_def apart_def)

lemma put_live_replicas:
  assumes "map_of (lc_live s) m = Some nd"
  shows "keeps_replicas s (put_live m nd1 s)"
proof -
  have "apart s \<Longrightarrow> map_of (sm_offline s) m = None" using assms by (metis apart_def option.distinct(1))
  then show ?thesis using assms by (auto simp: keeps_replicas_def known_def apart_def put_live_def)
qed

lemma launch_frame:
  assumes "node_launch env no sm0 m d lc = (lc', r)" and "map_of (lc_live lc) m = None"
  shows "lc_members lc' = lc_members lc \<and> dom (map_of (lc_storage lc)) \<subseteq> dom (map_of (lc_storage lc')) \<and>
    (r \<noteq> Inr () \<longrightarrow> lc_live lc' = lc_live lc)"
  using assms by (auto simp: node_launch_def split: prod.splits sum.splits)

lemma move_keeps_replicas:
  assumes "sim_move host s t"
  shows "keeps_replicas s t"
  using assms
proof cases
  case (called m nd f r)
  then show ?thesis using call_frame [of m f nd s] put_live_replicas [of s m nd] by auto
next
  case (delivered i net msg r)
  let ?s1 = "s\<lparr>lc_network := net\<rparr>"
  have one: "keeps_replicas s ?s1" by (simp add: keeps_replicas_def known_def apart_def)
  show ?thesis
  proof (cases "map_of (lc_live s) (m_to msg)")
    case None
    then show ?thesis using delivered one by (simp add: handle_message_def)
  next
    case (Some nd)
    then obtain nd' where "t = put_live (m_to msg) nd' ?s1"
      using delivered call_frame [of "m_to msg" _ nd ?s1] by (fastforce simp: handle_message_def)
    then show ?thesis using put_live_replicas [of ?s1 "m_to msg" nd nd'] Some one by (simp add: keeps_replicas_def)
  qed
next
  case (halted m nd)
  then show ?thesis
    by (auto simp: keeps_replicas_def known_def apart_def node_halt_def Let_def)
next
  case (launched m d s')
  obtain nd where s': "s' = put_live m nd s" using launch_Inr(2) [OF launched(4)] by blast
  have "lc_storage s' = lc_storage s" by (simp add: s' put_live_def)
  then show ?thesis
    using launched s' by (auto simp: keeps_replicas_def known_def apart_def put_live_def)
next
  case (launch_fails m d err)
  have "sm_offline t = sm_offline s"
    using launch_fails(3) by (auto simp: node_launch_def split: prod.splits sum.splits)
  then show ?thesis
    using launch_frame [OF launch_fails(3,1)] by (auto simp: keeps_replicas_def known_def apart_def dom_def)
next
  case (noted m nd nd1)
  have "apart s \<Longrightarrow> map_of (sm_offline s) m = None" using noted(2) by (metis apart_def option.distinct(1))
  then show ?thesis using noted by (auto simp: keeps_replicas_def known_def apart_def)
next
  case (network net)
  then show ?thesis by (simp add: keeps_replicas_def known_def apart_def)
qed (auto intro!: same_nodes_replicas simp: same_nodes_def)

lemma moves_keep_replicas: "sim_moves host s t \<Longrightarrow> keeps_replicas s t"
proof (induction rule: rtranclp_induct)
  case (step t u)
  then show ?case using move_keeps_replicas [of host t u] by (simp add: keeps_replicas_def)
qed (simp add: keeps_replicas_def)

section \<open>The timeline\<close>

text \<open>The numbers of the events are consecutive, and at most the newest 200 are kept.\<close>

definition timeline_ok :: "sim \<Rightarrow> bool" where
  "timeline_ok s \<longleftrightarrow> 0 \<le> sm_eventId s \<and> map te_id (sm_events s) = [max 1 (sm_eventId s - 199) .. sm_eventId s]"

lemma upto_snoc: "i \<le> j + 1 \<Longrightarrow> [i .. j] @ [j + 1] = [i .. j + 1]" for i j :: int
  using upto_rec2 [of i "j + 1"] by simp

lemma upto_drop: "i \<le> j \<Longrightarrow> drop 1 [i .. j] = [i + 1 .. j]" for i j :: int
  by (simp add: upto_rec1)

lemma record_timeline:
  assumes "timeline_ok s"
  shows "timeline_ok (record_event host kind msg s)"
proof -
  let ?i = "sm_eventId s" and ?es = "sm_events s @ [\<lparr>te_id = sm_eventId s + 1, te_at = ho_now host (sm_eventId s + 1),
    te_kind = kind, te_message = msg\<rparr>]"
  let ?lo = "max 1 (?i - 199)"
  have i: "0 \<le> ?i" and ids: "map te_id (sm_events s) = [?lo .. ?i]" using assms by (simp_all add: timeline_ok_def)
  have new: "map te_id ?es = [?lo .. ?i + 1]" using ids i upto_snoc [of ?lo ?i] by simp
  have "length ?es = length (map te_id ?es)" by simp
  then have len: "int (length ?es) = ?i + 2 - ?lo" using i unfolding new by simp
  show ?thesis
  proof (cases "?i < 200")
    case True
    then have "\<not> 200 < length ?es" using len by simp
    then show ?thesis using new i True by (simp add: record_event_def timeline_ok_def Let_def)
  next
    case False
    then have "length ?es = 201" using len by simp
    moreover have "map te_id (drop 1 ?es) = [?i - 198 .. ?i + 1]"
      unfolding drop_map [symmetric] new using False upto_drop [of "?i - 199" "?i + 1"] by simp
    ultimately show ?thesis using False by (simp add: record_event_def timeline_ok_def Let_def)
  qed
qed

text \<open>What the timeline reads.\<close>

definition same_timeline :: "sim \<Rightarrow> sim \<Rightarrow> bool" where
  "same_timeline s t \<longleftrightarrow> sm_events t = sm_events s \<and> sm_eventId t = sm_eventId s"

lemma move_timeline:
  assumes "sim_move host s t"
  shows "same_timeline s t \<or> (\<exists>kind msg. t = record_event host kind msg s)"
  using assms
proof cases
  case (called m nd f r)
  then show ?thesis using call_frame [of m f nd s] by (auto simp: same_timeline_def put_live_def)
next
  case (delivered i net msg r)
  then show ?thesis
    using call_frame [of "m_to msg" _ _ "s\<lparr>lc_network := net\<rparr>"]
    by (fastforce simp: same_timeline_def handle_message_def put_live_def split: option.splits)
next
  case published
  then show ?thesis by (simp add: same_timeline_def sim_publish_def Let_def split: sum.split)
next
  case (halted m nd)
  then show ?thesis by (simp add: same_timeline_def node_halt_def Let_def)
next
  case (launched m d s')
  then show ?thesis by (auto simp: same_timeline_def put_live_def dest!: launch_Inr(2))
next
  case (launch_fails m d err)
  then show ?thesis by (auto simp: same_timeline_def node_launch_def split: prod.splits sum.splits)
qed (auto simp: same_timeline_def)

lemma moves_timeline: "sim_moves host s t \<Longrightarrow> timeline_ok s \<Longrightarrow> timeline_ok t"
proof (rule moves_keep [of host s t timeline_ok])
  fix u v assume mv: "sim_move host u v" and ok: "timeline_ok u"
  show "timeline_ok v"
    using move_timeline [OF mv] record_timeline [OF ok] ok by (auto simp: same_timeline_def timeline_ok_def)
qed

section \<open>Creation\<close>

lemma start_moves: "map_of (lc_live s) m = None \<Longrightarrow> sim_start host m s = (s', r) \<Longrightarrow> sim_moves host s s'"
  using sim_start_moves [of s m host] by simp

lemma sim_start_Inr:
  assumes "sim_start host m s = (s', Inr ())"
  shows "\<exists>nd. lc_live s' = map_set m nd (lc_live s) \<and> lc_members s' = lc_members s \<and> lc_storage s' = lc_storage s"
  using assms launch_Inr(2) by (fastforce simp: sim_start_def put_live_def rejected_def split: option.splits prod.splits sum.splits)

lemma start_all_moves:
  "sim_start_all host ms s = (s', Inr ()) \<Longrightarrow> distinct ms \<Longrightarrow> \<forall>m \<in> set ms. map_of (lc_live s) m = None \<Longrightarrow>
    sim_moves host s s' \<and> (\<forall>m. map_of (lc_live s') m \<noteq> None \<longleftrightarrow> m \<in> set ms \<or> map_of (lc_live s) m \<noteq> None) \<and>
    lc_storage s' = lc_storage s"
proof (induction host ms s rule: sim_start_all.induct)
  case (2 host m ms s)
  obtain s1 where s: "sim_start host m s = (s1, Inr ())" and rest: "sim_start_all host ms s1 = (s', Inr ())"
    using "2.prems"(1) by (auto split: prod.splits sum.splits)
  obtain nd where nd: "lc_live s1 = map_set m nd (lc_live s)" "lc_storage s1 = lc_storage s" using sim_start_Inr [OF s] by blast
  have "sim_moves host s s1" using start_moves [OF _ s] "2.prems"(3) by simp
  moreover have "\<forall>q \<in> set ms. map_of (lc_live s1) q = None" using "2.prems"(2,3) nd(1) by auto
  note IH = "2.IH" [OF s [symmetric] refl rest _ this]
  ultimately show ?case using IH "2.prems"(2) nd moves_trans by auto
qed simp

lemma member_name_inj: "member_name i = member_name j \<Longrightarrow> i < 9 \<Longrightarrow> j < 9 \<Longrightarrow> i = j"
proof -
  assume "member_name i = member_name j" "i < 9" "j < 9"
  moreover have "\<forall>i \<in> set [0..<9]. \<forall>j \<in> set [0..<9]. member_name i = member_name j \<longrightarrow> i = j" by code_simp
  ultimately show "i = j" by simp
qed

lemma new_simulation_facts:
  assumes "new_simulation seed nodeCount = Inr s"
  shows "1 \<le> nodeCount \<and> nodeCount \<le> 9" and "lc_members s = map member_name [0..<nat nodeCount]"
    and "distinct (lc_members s)" and "lc_live s = []" and "sm_offline s = []" and "sm_events s = []"
    and "sm_eventId s = 0" and "lc_network s = new_network" and "sm_watches s = []"
    and "lc_storage s = map (\<lambda>m. (m, new_durable_state)) (lc_members s)"
proof -
  show c: "1 \<le> nodeCount \<and> nodeCount \<le> 9"
    using assms by (auto simp: new_simulation_def validateNodeCount_def split: if_splits)
  show ms: "lc_members s = map member_name [0..<nat nodeCount]"
    using assms by (auto simp: new_simulation_def Let_def split: option.splits)
  show "distinct (lc_members s)"
    unfolding ms using c by (auto simp: distinct_map inj_on_def intro: member_name_inj)
qed (use assms in \<open>auto simp: new_simulation_def Let_def split: option.splits\<close>)

lemma storage_new: "map_of (map (\<lambda>m. (m, d)) ms) m = (if m \<in> set ms then Some d else None)"
  by (induction ms) auto

lemma create_facts:
  assumes "sim_create host nodeCount seed = Inr s"
  shows "world_ok host s" and "\<forall>m \<in> set (lc_members s). known s m" and "timeline_ok s" and "apart s"
    and "distinct (lc_members s)" and "\<forall>m \<in> set (lc_members s). valid_id m"
    and "lc_members s = map member_name [0..<nat nodeCount]"
proof -
  obtain s0 s1 where n: "new_simulation seed nodeCount = Inr s0"
    and st: "sim_start_all host (lc_members s0) s0 = (s1, Inr ())"
    and s: "s = fst (sim_publish host (record_event host SystemEvent
                       (js (''Started '' @ bigint_to_string nodeCount @ ''-node cluster with seed '' @
                            bigint_to_string seed)) s1))"
    using assms by (auto simp: sim_create_def split: sum.splits prod.splits)
  note f = new_simulation_facts [OF n]
  have all: "sim_moves host s0 s1" "\<forall>m. map_of (lc_live s1) m \<noteq> None \<longleftrightarrow> m \<in> set (lc_members s0)"
    "lc_storage s1 = lc_storage s0"
    using start_all_moves [OF st f(3)] f(4) by auto
  have "sim_moves host s1 s"
    unfolding s by (rule moves_trans [OF moves_one [OF sim_move.recorded] moves_one [OF sim_move.published]])
  then have mv: "sim_moves host s0 s" by (rule moves_trans [OF all(1)])
  have ms: "lc_members s = lc_members s0" using moves_keep_replicas [OF mv] by (simp add: keeps_replicas_def)
  have "world_ok host s0"
    using f by (intro new_cluster_ok) (auto simp: storage_new comp_def above_def)
  then show "world_ok host s" using moves_keep [OF mv, of "world_ok host"] sim_move_ok by blast
  show "\<forall>m \<in> set (lc_members s). known s m"
    using all(2,3) f(10) ms by (auto simp: known_def s storage_new)
  have "timeline_ok s0" using f by (simp add: timeline_ok_def)
  then show "timeline_ok s" by (rule moves_timeline [OF mv])
  show "apart s" using moves_keep_replicas [OF mv] f(4,5) by (simp add: keeps_replicas_def apart_def)
  show "distinct (lc_members s)" using ms f(3) by simp
  show "lc_members s = map member_name [0..<nat nodeCount]" using ms f(2) by simp
  have "\<forall>i \<in> set [0..<9]. valid_id (member_name i)" by code_simp
  then show "\<forall>m \<in> set (lc_members s). valid_id m" using f(1,2) ms by auto
qed

text \<open>What holds in every reachable state.\<close>

lemma reachable_facts:
  assumes "sim_reachable host s"
  shows "world_ok host s" and "\<forall>m \<in> set (lc_members s). known s m" and "timeline_ok s" and "apart s"
    and "distinct (lc_members s)" and "\<forall>m \<in> set (lc_members s). valid_id m"
proof -
  obtain nodeCount seed s0 where c: "sim_create host nodeCount seed = Inr s0" and mv: "sim_moves host s0 s"
    using sim_reachable_moves [OF assms] by blast
  note f = create_facts [OF c] and k = moves_keep_replicas [OF mv]
  show "world_ok host s" using moves_keep [OF mv, of "world_ok host"] f(1) sim_move_ok by blast
  show "timeline_ok s" using moves_timeline [OF mv f(3)] .
  show "\<forall>m \<in> set (lc_members s). known s m" and "apart s" and "distinct (lc_members s)"
    and "\<forall>m \<in> set (lc_members s). valid_id m"
    using f k by (simp_all add: keeps_replicas_def)
qed

end
