(* ===== verification/SimulationSnapshots.thy ===== *)
theory SimulationSnapshots
  imports SimulationFacts JsonFacts
begin

text \<open>
  What the simulation shows: in every state it can be described completely, the description is consistent, and
  so is everything the listeners have been told.
\<close>

section \<open>Snapshots\<close>

lemma bigint_text_inject: "bigint_to_string i = bigint_to_string j \<Longrightarrow> i = j"
  using parse_int_text [of "[]" i] parse_int_text [of "[]" j] by (simp add: no_number_def)

lemma nodeSnapshot_known:
  assumes "known s m"
  shows "\<exists>x. nodeSnapshot host s m = Inr x"
  using assms by (auto simp: known_def nodeSnapshot_def split: option.split)

lemma nodeSnapshots_known:
  "\<forall>m \<in> set ms. known s m \<Longrightarrow>
    \<exists>xs. nodeSnapshots host s ms = Inr xs \<and> list_all2 (\<lambda>m x. nodeSnapshot host s m = Inr x) ms xs"
proof (induction ms)
  case (Cons m ms)
  then show ?case using nodeSnapshot_known [of s m host] by auto
qed simp

text \<open>What the picture of a node says of the node.\<close>

lemma nodeSnapshot_online:
  assumes "nodeSnapshot host s m = Inr x" and "ns_online x"
  shows "\<exists>nd. map_of (lc_live s) m = Some nd \<and>
    x = statusSnapshot (status (nd_core nd)) (viz_inspect (ho_rank host) (nd_machine nd))"
  using assms by (auto simp: nodeSnapshot_def offlineSnapshot_def rejected_def split: option.splits)

lemma nodeSnapshot_role:
  assumes "nodeSnapshot host s m = Inr x"
  shows "ns_online x \<longleftrightarrow> map_of (lc_live s) m \<noteq> None" and "ns_online x \<longleftrightarrow> ns_role x \<noteq> Offline"
  using assms
  by (auto simp: nodeSnapshot_def statusSnapshot_def offlineSnapshot_def rejected_def split: option.splits)

lemma nodeSnapshot_id:
  assumes ok: "world_ok host s" and x: "nodeSnapshot host s m = Inr x"
  shows "ns_id x = m"
proof (cases "map_of (lc_live s) m")
  case (Some nd)
  obtain cl where rel: "lc_rel (sim_env host) sim_node_options (\<lambda>m. []) (\<lambda>m. (0, 0, 0)) s cl"
    using ok by (auto simp: lc_ok_def)
  show ?thesis
    using simulation.live_facts(4) [OF rel Some] x Some by (auto simp: nodeSnapshot_def statusSnapshot_def status_def)
next
  case None
  then show ?thesis using x by (auto simp: nodeSnapshot_def offlineSnapshot_def rejected_def split: option.splits)
qed

text \<open>A consistent picture: one entry per member, one leader per term, equal values where equally much has been
  applied, and the newest events without a gap.\<close>

definition snapshot_ok :: "node_id list \<Rightarrow> cluster_snapshot \<Rightarrow> bool" where
  "snapshot_ok ms snap \<longleftrightarrow> map ns_id (cs_nodes snap) = ms \<and>
     (\<forall>x \<in> set (cs_nodes snap). ns_online x \<longleftrightarrow> ns_role x \<noteq> Offline) \<and>
     (\<forall>x \<in> set (cs_nodes snap). \<forall>y \<in> set (cs_nodes snap).
        (ns_role x = RoleOf Leader \<and> ns_role y = RoleOf Leader \<and> ns_term x = ns_term y \<longrightarrow> x = y) \<and>
        (ns_online x \<and> ns_online y \<and> ns_appliedIndex x = ns_commitIndex x \<and> ns_appliedIndex y = ns_commitIndex y \<and>
         ns_appliedIndex x = ns_appliedIndex y \<longrightarrow> ns_values x = ns_values y)) \<and>
     (\<exists>n \<ge> 0. map te_id (cs_events snap) = [max 1 (n - 199) .. n])"

lemma two_nodes_ok:
  assumes ok: "world_ok host s" and x: "nodeSnapshot host s a = Inr x" and y: "nodeSnapshot host s b = Inr y"
  shows "ns_role x = RoleOf Leader \<Longrightarrow> ns_role y = RoleOf Leader \<Longrightarrow> ns_term x = ns_term y \<Longrightarrow> x = y"
    and "ns_online x \<Longrightarrow> ns_online y \<Longrightarrow> ns_appliedIndex x = ns_commitIndex x \<Longrightarrow>
      ns_appliedIndex y = ns_commitIndex y \<Longrightarrow> ns_appliedIndex x = ns_appliedIndex y \<Longrightarrow> ns_values x = ns_values y"
proof -
  note on = nodeSnapshot_online [OF x] nodeSnapshot_online [OF y]
  note simps = statusSnapshot_def status_def
  { assume l: "ns_role x = RoleOf Leader" "ns_role y = RoleOf Leader" "ns_term x = ns_term y"
    then have "ns_online x" "ns_online y" using nodeSnapshot_role(2) [OF x] nodeSnapshot_role(2) [OF y] by simp_all
    then obtain p q where p: "map_of (lc_live s) a = Some p"
        "x = statusSnapshot (status (nd_core p)) (viz_inspect (ho_rank host) (nd_machine p))"
      and q: "map_of (lc_live s) b = Some q"
        "y = statusSnapshot (status (nd_core q)) (viz_inspect (ho_rank host) (nd_machine q))"
      using on by blast
    have "rc_currentTerm (nd_core p) = rc_currentTerm (nd_core q)"
      using l(3) bigint_text_inject by (simp add: p(2) q(2) simps)
    then have "a = b"
      using simulation.live_leaders [OF ok p(1) _ q(1)] l(1,2) by (simp add: p(2) q(2) simps)
    then show "x = y" using p q by simp }
  { assume c: "ns_online x" "ns_online y" "ns_appliedIndex x = ns_commitIndex x" "ns_appliedIndex y = ns_commitIndex y"
      "ns_appliedIndex x = ns_appliedIndex y"
    then obtain p q where p: "map_of (lc_live s) a = Some p"
        "x = statusSnapshot (status (nd_core p)) (viz_inspect (ho_rank host) (nd_machine p))"
      and q: "map_of (lc_live s) b = Some q"
        "y = statusSnapshot (status (nd_core q)) (viz_inspect (ho_rank host) (nd_machine q))"
      using on by blast
    obtain cl where rel: "lc_rel (sim_env host) sim_node_options (\<lambda>m. []) (\<lambda>m. (0, 0, 0)) s cl"
      using ok by (auto simp: lc_ok_def)
    have "nd_machine p = nd_machine q"
      using c(3-5) bigint_text_inject
      by (intro simulation.same_applied_same_machine [OF rel refl p(1) _ q(1)]) (simp_all add: p(2) q(2) simps)
    then show "ns_values x = ns_values y" using p(2) q(2) by (simp add: simps) }
qed

lemma snapshot_total:
  assumes ok: "world_ok host s" and kn: "\<forall>m \<in> set (lc_members s). known s m" and tl: "timeline_ok s"
  shows "\<exists>snap. sim_snapshot host s = Inr snap \<and> snapshot_ok (lc_members s) snap \<and> cs_revision snap = sm_revision s"
proof -
  obtain xs where xs: "nodeSnapshots host s (lc_members s) = Inr xs"
    and all: "list_all2 (\<lambda>m x. nodeSnapshot host s m = Inr x) (lc_members s) xs"
    using nodeSnapshots_known [OF kn] by blast
  have "map ns_id xs = lc_members s"
    using all nodeSnapshot_id [OF ok] by (induction rule: list_all2_induct) auto
  moreover have from_node: "\<forall>x \<in> set xs. \<exists>m. nodeSnapshot host s m = Inr x"
    using all by (fastforce simp: list_all2_conv_all_nth in_set_conv_nth)
  moreover have "\<forall>x \<in> set xs. ns_online x \<longleftrightarrow> ns_role x \<noteq> Offline"
    using from_node nodeSnapshot_role(2) by blast
  moreover have "\<exists>n \<ge> 0. map te_id (sm_events s) = [max 1 (n - 199) .. n]" using tl by (auto simp: timeline_ok_def)
  moreover have "\<forall>x \<in> set xs. \<forall>y \<in> set xs.
      (ns_role x = RoleOf Leader \<and> ns_role y = RoleOf Leader \<and> ns_term x = ns_term y \<longrightarrow> x = y) \<and>
      (ns_online x \<and> ns_online y \<and> ns_appliedIndex x = ns_commitIndex x \<and> ns_appliedIndex y = ns_commitIndex y \<and>
       ns_appliedIndex x = ns_appliedIndex y \<longrightarrow> ns_values x = ns_values y)"
    using from_node two_nodes_ok [OF ok] by meson
  ultimately have "snapshot_ok (lc_members s) \<lparr>cs_revision = sm_revision s, cs_seed = sm_seed s, cs_nodes = xs,
      cs_messages = map messageSnapshot (mn_queue (lc_network s)),
      cs_blockedEdges = net_blockedEdges (lc_network s), cs_events = sm_events s\<rparr>"
    unfolding snapshot_ok_def cluster_snapshot.simps by (intro conjI)
  then show ?thesis by (simp add: sim_snapshot_def xs)
qed

section \<open>What the listeners are told\<close>

definition healthy :: "'k sim_host \<Rightarrow> sim \<Rightarrow> bool" where
  "healthy host s \<longleftrightarrow> world_ok host s \<and> (\<forall>m \<in> set (lc_members s). known s m) \<and> timeline_ok s"

lemma healthy_same:
  assumes "healthy host s" and "same_nodes s t" and "same_timeline s t"
  shows "healthy host t"
proof -
  have "world_ok host t" by (rule world_ok_same [OF assms(2)]) (use assms(1) in \<open>simp add: healthy_def\<close>)
  then show ?thesis
    using assms by (simp add: healthy_def same_nodes_def known_def timeline_ok_def same_timeline_def)
qed

definition told_ok :: "sim \<Rightarrow> bool" where
  "told_ok s \<longleftrightarrow> (\<forall>(l, snap) \<in> set (sm_calls s). snapshot_ok (lc_members s) snap \<and> cs_revision snap \<le> sm_revision s) \<and>
     sorted (map (\<lambda>(l, snap). cs_revision snap) (sm_calls s))"

lemma healthy_move:
  assumes "sim_move host s t" and "healthy host s"
  shows "healthy host t"
  using assms sim_move_ok [OF assms(1)] move_keeps_replicas [OF assms(1)] moves_timeline [OF moves_one [OF assms(1)]]
  by (simp add: healthy_def keeps_replicas_def)

lemma told_more:
  assumes told: "told_ok s" and snap: "snapshot_ok (lc_members s) snap" and rev: "cs_revision snap = r" "sm_revision s \<le> r"
    and t: "sm_calls t = sm_calls s @ map (\<lambda>l. (l, snap)) ls" "sm_revision t = r" "lc_members t = lc_members s"
  shows "told_ok t"
proof -
  have "sorted (map (\<lambda>(l, snap). cs_revision snap) (map (\<lambda>l. (l, snap)) ls))"
    by (induction ls) auto
  then show ?thesis
    using told snap rev unfolding told_ok_def t map_append sorted_append by fastforce
qed

definition same_calls :: "sim \<Rightarrow> sim \<Rightarrow> bool" where
  "same_calls s t \<longleftrightarrow> sm_calls t = sm_calls s \<and> sm_revision t = sm_revision s \<and> sm_listeners t = sm_listeners s"

lemma launch_calls:
  "node_launch env no sm0 m d s = (s', r) \<Longrightarrow> same_calls s s'"
  by (auto simp: same_calls_def node_launch_def put_live_def split: prod.splits sum.splits)

lemma told_same: "told_ok s \<Longrightarrow> lc_members t = lc_members s \<Longrightarrow> sm_calls t = sm_calls s \<Longrightarrow>
    sm_revision t = sm_revision s \<Longrightarrow> told_ok t"
  by (simp add: told_ok_def)

lemma told_move:
  assumes mv: "sim_move host s t" and h: "healthy host s" and told: "told_ok s"
  shows "told_ok t"
proof -
  have ms: "lc_members t = lc_members s" using move_keeps_replicas [OF mv] by (simp add: keeps_replicas_def)
  note same = told_same [OF told ms]
  show ?thesis
    using mv
  proof cases
    case published
    let ?s1 = "s\<lparr>sm_revision := sm_revision s + 1\<rparr>"
    have "healthy host ?s1" by (rule healthy_same [OF h]) (simp_all add: same_nodes_def same_timeline_def)
    then obtain snap where "sim_snapshot host ?s1 = Inr snap" "snapshot_ok (lc_members s) snap"
      "cs_revision snap = sm_revision s + 1"
      using snapshot_total [of host ?s1] by (auto simp: healthy_def)
    then show ?thesis
      using told_more [OF told, of snap "sm_revision s + 1" t "sm_listeners s"] published
      by (simp add: sim_publish_def Let_def)
  next
    case (heard snap l)
    then have "snapshot_ok (lc_members s) snap" "cs_revision snap = sm_revision s"
      using snapshot_total [of host s] h by (auto simp: healthy_def)
    then show ?thesis
      using told_more [OF told, of snap "sm_revision s" t "[l]"] heard by simp
  next
    case (called m nd f r)
    then show ?thesis using call_frame [of m f nd s] by (intro same) (auto simp: put_live_def)
  next
    case (delivered i net msg r)
    then show ?thesis
      using call_frame [of "m_to msg" _ _ "s\<lparr>lc_network := net\<rparr>"]
      by (intro same; fastforce simp: handle_message_def put_live_def split: option.splits)
  next
    case (launched m d s')
    then show ?thesis using launch_calls [of "sim_env host" _ "[]" m d s s'] by (intro same) (auto simp: same_calls_def)
  next
    case (launch_fails m d err)
    then show ?thesis using launch_calls [of "sim_env host" _ "[]" m d s t] by (intro same) (auto simp: same_calls_def)
  qed (auto intro!: told_same [OF told] simp: record_event_def node_halt_def Let_def)
qed

section \<open>Reachable states\<close>

lemma start_calls: "sim_start host m s = (s', r) \<Longrightarrow> same_calls s s'"
  using launch_calls [of "sim_env host" "sim_node_options (lc_members s) m" "[]" m _ s]
  by (fastforce simp: sim_start_def same_calls_def split: option.splits prod.splits sum.splits)

lemma start_all_calls: "sim_start_all host ms s = (s', r) \<Longrightarrow> same_calls s s'"
proof (induction host ms s rule: sim_start_all.induct)
  case (2 host m ms s)
  obtain s1 x where s1: "sim_start host m s = (s1, x)" by fastforce
  then show ?case
    using "2.prems" "2.IH" [OF s1 [symmetric]] start_calls [OF s1] by (cases x) (auto simp: same_calls_def)
qed (simp add: same_calls_def)

lemma create_told:
  assumes "sim_create host nodeCount seed = Inr s"
  shows "sm_calls s = []"
proof -
  obtain s0 s1 where n: "new_simulation seed nodeCount = Inr s0"
    and st: "sim_start_all host (lc_members s0) s0 = (s1, Inr ())"
    and s: "s = fst (sim_publish host (record_event host SystemEvent
                       (js (''Started '' @ bigint_to_string nodeCount @ ''-node cluster with seed '' @
                            bigint_to_string seed)) s1))"
    using assms by (auto simp: sim_create_def split: sum.splits prod.splits)
  have "sm_calls s0 = []" "sm_listeners s0 = []"
    using n by (auto simp: new_simulation_def Let_def split: option.splits)
  then have "sm_calls s1 = []" "sm_listeners s1 = []" using start_all_calls [OF st] by (simp_all add: same_calls_def)
  then show ?thesis by (simp add: s sim_publish_def record_event_def Let_def split: sum.split)
qed

lemma reachable_told:
  assumes "sim_reachable host s"
  shows "told_ok s"
proof -
  obtain nodeCount seed s0 where c: "sim_create host nodeCount seed = Inr s0" and mv: "sim_moves host s0 s"
    using sim_reachable_moves [OF assms] by blast
  have "healthy host s0 \<and> told_ok s0"
    using create_facts [OF c] create_told [OF c] by (simp add: healthy_def told_ok_def)
  then have "healthy host s \<and> told_ok s"
    using moves_keep [OF mv, of "\<lambda>s. healthy host s \<and> told_ok s"] healthy_move told_move by blast
  then show ?thesis ..
qed

text \<open>The nodes of a picture.\<close>

lemma nodeSnapshots_Inr:
  "nodeSnapshots host s ms = Inr xs \<Longrightarrow> x \<in> set xs \<Longrightarrow> \<exists>m. nodeSnapshot host s m = Inr x"
  by (induction ms arbitrary: xs) (auto split: sum.splits)

lemma snapshot_nodes:
  assumes "world_ok host s" and "sim_snapshot host s = Inr snap" and "x \<in> set (cs_nodes snap)"
  shows "nodeSnapshot host s (ns_id x) = Inr x"
proof -
  obtain m where "nodeSnapshot host s m = Inr x"
    using assms(2,3) nodeSnapshots_Inr [of host s "lc_members s"] by (force simp: sim_snapshot_def split: sum.splits)
  then show ?thesis using nodeSnapshot_id [OF assms(1)] by simp
qed

end
