(* ===== verification/SimulationTheorems.thy ===== *)
theory SimulationTheorems
  imports SimulationSnapshots NetworkTheorems CoreLaws
begin

text \<open>
  The properties of the simulation: its replicas are a Raft cluster, what it shows is complete and consistent, its
  actions return, and what its inputs may be.
\<close>

section \<open>Creation\<close>

text \<open>A new storage is empty.\<close>

lemma new_storage:
  "handle_load (handle_open new_durable_state) = (handle_open new_durable_state, Inr (durable_inspect new_durable_state))"
  "du_snapshot new_durable_state = None" "du_entries new_durable_state = []"
  "settle_applied persist load (durable_inspect new_durable_state) st = (st, Inr (durable_inspect new_durable_state))"
  "persisted_ok (durable_inspect new_durable_state)"
  by (simp_all add: handle_load_def handle_guarded_def handle_open_def durable_inspect_def new_durable_state_def
      settle_applied_def persisted_ok_def snapshot_index_def tip_index_def)

lemma start_new:
  assumes "map_of (lc_storage s) m = Some new_durable_state" and "m \<in> set (lc_members s)"
    and "distinct (lc_members s)"
  shows "length (lc_members s) \<notin> {1, 3, 5} \<Longrightarrow>
      \<exists>s'. sim_start host m s = (s', Inl (Failed (PlainError ''cluster size must be 1, 3, or 5'')))"
    and "length (lc_members s) \<in> {1, 3, 5} \<Longrightarrow> m \<notin> set (mn_handlers (lc_network s)) \<Longrightarrow>
      \<exists>s'. sim_start host m s = (s', Inr ()) \<and> mn_handlers (lc_network s') = mn_handlers (lc_network s) @ [m]"
proof -
  let ?no = "sim_node_options (lc_members s) m" and ?p = "durable_inspect new_durable_state"
  have create: "create_node (sim_env host) ?no net (handle_open new_durable_state) [] =
      (case new_RaftCore (core_options ?no ?p) of
         Inl err \<Rightarrow> ((handle_open new_durable_state, []), Inl err)
       | Inr c \<Rightarrow> ((handle_open new_durable_state, []), Inr (new_node c (handle_open new_durable_state) [] net)))" for net
    by (simp add: create_node_def simulation.opts_valid simulation.persist_load restore_machine_def new_storage
      snapshot_index_def)
  show "length (lc_members s) \<notin> {1, 3, 5} \<Longrightarrow>
      \<exists>s'. sim_start host m s = (s', Inl (Failed (PlainError ''cluster size must be 1, 3, or 5'')))"
    using assms(1) create
    by (simp add: sim_start_def node_launch_def new_RaftCore_def core_options_def sim_node_options_def del: insert_iff)
  assume n: "length (lc_members s) \<in> {1, 3, 5}" and h: "m \<notin> set (mn_handlers (lc_network s))"
  then obtain c where c: "new_RaftCore (core_options ?no ?p) = Inr c"
    using new_RaftCore_accepts [of "core_options ?no ?p"] new_storage(5) assms(2,3) by (auto simp: core_options_def sim_node_options_def)
  show "\<exists>s'. sim_start host m s = (s', Inr ()) \<and> mn_handlers (lc_network s') = mn_handlers (lc_network s) @ [m]"
    using assms(1) create c h
    by (simp add: sim_start_def node_launch_def node_start_def new_node_def simulation.transport transport_start_def
      net_register_def net_endpoint_def)
qed

lemma start_all_new:
  "length (lc_members s) \<in> {1, 3, 5} \<Longrightarrow> distinct (lc_members s) \<Longrightarrow> distinct ms \<Longrightarrow>
    \<forall>m \<in> set ms. map_of (lc_storage s) m = Some new_durable_state \<and> m \<in> set (lc_members s) \<and>
      m \<notin> set (mn_handlers (lc_network s)) \<Longrightarrow>
    \<exists>s'. sim_start_all host ms s = (s', Inr ())"
proof (induction ms arbitrary: s)
  case (Cons m ms)
  obtain s1 where s1: "sim_start host m s = (s1, Inr ())" "mn_handlers (lc_network s1) = mn_handlers (lc_network s) @ [m]"
    using start_new(2) [of s m host] Cons.prems by auto
  have same: "lc_members s1 = lc_members s" "lc_storage s1 = lc_storage s" using sim_start_Inr [OF s1(1)] by auto
  have "\<exists>s'. sim_start_all host ms s1 = (s', Inr ())"
    using Cons.prems by (intro Cons.IH) (auto simp: same s1(2))
  then show ?case using s1(1) by simp
qed simp

lemma create_all:
  assumes "nodeCount \<in> {1, 3, 5}"
  shows "\<exists>s. sim_create host nodeCount seed = Inr s"
proof -
  obtain s0 where s0: "new_simulation seed nodeCount = Inr s0"
    using assms by (auto simp: new_simulation_def validateNodeCount_def Let_def)
  note f = new_simulation_facts [OF s0]
  have n: "length (lc_members s0) \<in> {1, 3, 5}" using assms f(2) by auto
  obtain s1 where s1: "sim_start_all host (lc_members s0) s0 = (s1, Inr ())"
    using start_all_new [OF n f(3,3), of host] f(8,10) by (auto simp: storage_new new_network_def)
  have mv: "sim_moves host s0 s1" and live: "\<forall>m. map_of (lc_live s1) m \<noteq> None \<longleftrightarrow> m \<in> set (lc_members s0)"
    and st: "lc_storage s1 = lc_storage s0"
    using start_all_moves [OF s1 f(3)] f(4) by auto
  have ms: "lc_members s1 = lc_members s0" using moves_keep_replicas [OF mv] by (simp add: keeps_replicas_def)
  let ?s2 = "record_event host SystemEvent (js (''Started '' @ bigint_to_string nodeCount @ ''-node cluster with seed '' @
    bigint_to_string seed)) s1"
  have "known (?s2\<lparr>sm_revision := r\<rparr>) m" if "m \<in> set (lc_members s0)" for m r
    using that live st f(10) by (simp add: known_def storage_new)
  then obtain xs where "nodeSnapshots host (?s2\<lparr>sm_revision := sm_revision ?s2 + 1\<rparr>) (lc_members s0) = Inr xs"
    using nodeSnapshots_known [of "lc_members s0"] by meson
  then show ?thesis
    using s0 s1 ms by (simp add: sim_create_def sim_publish_def sim_snapshot_def Let_def)
qed

lemma create_size:
  assumes "1 \<le> nodeCount" and "nodeCount \<le> 9" and "nodeCount \<notin> {1, 3, 5}"
  shows "sim_create host nodeCount seed = Inl (Failed (PlainError ''cluster size must be 1, 3, or 5''))"
proof -
  obtain s0 where s0: "new_simulation seed nodeCount = Inr s0"
    using assms by (auto simp: new_simulation_def validateNodeCount_def Let_def)
  note f = new_simulation_facts [OF s0]
  have n: "length (lc_members s0) \<notin> {1, 3, 5}" using assms f(2) by auto
  obtain m ms where ms: "lc_members s0 = m # ms"
    using f(2) assms(1) by (cases "lc_members s0") auto
  have "map_of (lc_storage s0) m = Some new_durable_state" "m \<in> set (lc_members s0)"
    using f(10) ms by (simp_all add: storage_new)
  then obtain s' where "sim_start host m s0 = (s', Inl (Failed (PlainError ''cluster size must be 1, 3, or 5'')))"
    using start_new(1) [OF _ _ f(3) n, of m host] by blast
  then show ?thesis using s0 ms by (simp add: sim_create_def)
qed

section \<open>Calls return\<close>

lemma returns_sim_bind: "returns r \<Longrightarrow> (\<And>s x. returns (k s x)) \<Longrightarrow> returns (sim_bind r k)"
  by (auto simp: returns_def sim_bind_def split: option.splits sum.splits)

lemma returns_absorb: "returns r \<Longrightarrow> returns (absorb_run host m s r)"
  by (auto simp: returns_def absorb_run_def)

lemma returns_on_replica: "(\<And>nd. returns (f nd)) \<Longrightarrow> returns (on_replica host m f s)"
  by (auto simp: on_replica_def intro: returns_absorb simulation.returns_call split: sum.split)

lemma returns_delivered: "returns (sim_delivered host x s)"
proof -
  have "returns (sim_bind (absorb_run host m s (handle_message (sim_env host) msg s1)) (\<lambda>s1 _. Some (s1, Inr True)))"
    for m msg s1
    by (rule returns_sim_bind [OF returns_absorb [OF simulation.returns_handle]]) simp
  then show ?thesis by (auto simp: sim_delivered_def split: option.split prod.split)
qed

lemma sim_drain_returns: "returns (sim_drain_from host delivered s)"
proof (induction host delivered s rule: sim_drain_from.induct)
  case (1 host delivered s)
  show ?case
  proof (cases "net_pending (lc_network s) = 0 \<or> 10000 < delivered + 1")
    case True
    then show ?thesis by (subst sim_drain_from.simps) auto
  next
    case False
    obtain s1 y where d: "sim_delivered host (net_deliver 0 (lc_network s)) s = Some (s1, y)"
      using returns_delivered [of host] by (fastforce simp: returns_def)
    show ?thesis
      using False d "1.IH" [OF _ _ d refl] by (cases y) (subst sim_drain_from.simps, simp)+
  qed
qed

lemma drain_Inr:
  "sim_drain_from host delivered s = Some (s', Inr ()) \<Longrightarrow> mn_queue (lc_network s') = []"
proof (induction host delivered s rule: sim_drain_from.induct)
  case (1 host delivered s)
  then show ?case
    by (subst (asm) (2) sim_drain_from.simps)
      (fastforce simp: rejected_def net_pending_def split: if_splits option.splits prod.splits sum.splits)
qed

lemma returns_propose_run:
  "returns (map_option (\<lambda>x1. (x1, Inr ())) (propose_run (sim_env host) cid t payload nd))"
  using simulation.process_returns [of host "Propose cid payload" nd]
  by (auto simp: returns_def propose_run_def split: option.split sum.split)

lemma returns_watch: "returns (watch_proposal host m command cid description s)"
  by (auto simp: watch_proposal_def Let_def intro: returns_on_replica returns_propose_run
      split: sum.split prod.split proposal.split)

lemma returns_act: "returns (sim_act host a s)"
proof (cases a)
  case (ActCampaign n)
  then show ?thesis
    by (auto simp: sim_campaign_def intro!: returns_sim_bind returns_on_replica simulation.returns_node_calls
        split: sum.split prod.split)
next
  case (ActHeartbeat n)
  then show ?thesis
    by (auto simp: sim_heartbeat_def intro!: returns_on_replica simulation.returns_node_calls split: sum.split)
next
  case (ActPropose n verb key v)
  then show ?thesis
    by (auto simp: sim_propose_def Let_def intro: returns_watch split: sum.split)
next
  case (ActDeliver i)
  then show ?thesis
    by (auto simp: sim_deliver_def Let_def intro!: returns_sim_bind returns_delivered split: option.split)
next
  case ActStep
  then show ?thesis
    by (auto simp: sim_step_def intro!: returns_sim_bind returns_delivered split: list.split)
qed (simp_all add: sim_drain_returns)

lemma returns_execute: "returns (sim_execute host a s)"
  unfolding sim_execute_def by (rule returns_sim_bind [OF returns_act]) simp

lemma sim_script_returns: "sim_script host as s \<noteq> None"
proof (induction as arbitrary: s)
  case (Cons a as)
  obtain s1 r where "sim_execute host a s = Some (s1, r)" using returns_execute [of host a s] by (auto simp: returns_def)
  then show ?case using Cons by simp
qed simp

section \<open>Members named by an action\<close>

lemma member_of_Inr: "member_of n s = Inr m \<longleftrightarrow> m = n \<and> valid_id n \<and> n \<in> set (lc_members s)"
  by (auto simp: member_of_def nodeId_def rejected_def)

lemma members_of_Inr:
  "members_of ns s = Inr ms \<longleftrightarrow> ms = ns \<and> (\<forall>n \<in> set ns. valid_id n \<and> n \<in> set (lc_members s))"
proof (induction ns arbitrary: ms)
  case (Cons n ns)
  then show ?case
    using member_of_Inr [of n s] by (cases "member_of n s") (auto split: sum.splits)
qed auto

section \<open>A laboratory\<close>

definition lab_host :: "nat sim_host" where
  "lab_host = \<lparr>ho_sha256 = (\<lambda>bs. bigint_to_string (int (length bs))), ho_rank = length, ho_now = bigint_to_string\<rparr>"

definition lab :: "int \<Rightarrow> sim" where
  "lab n = (case sim_create lab_host n 42 of Inr s \<Rightarrow> s)"

definition lab_script :: "sim_action list" where
  "lab_script = [ActCampaign ''node-1'', ActDrain, ActPropose ''node-1'' VerbPut (AText (js ''counter'')) (Some (AText (js ''1''))),
     ActDrain, ActPartition [''node-3''], ActHeartbeat ''node-1'', ActDisable ''node-2'', ActHeal, ActRestart ''node-2'', ActDrain]"

definition lab_end :: sim where
  "lab_end = the (sim_script lab_host lab_script (fst (sim_subscribe lab_host 7 (lab 3))))"

lemma lab_created: "n \<in> {1, 3, 5} \<Longrightarrow> sim_create lab_host n 42 = Inr (lab n)"
  using create_all [of n lab_host 42] by (auto simp: lab_def)

lemma lab_reachable: "sim_reachable lab_host lab_end"
proof (rule sim_script_reachable)
  show "sim_script lab_host lab_script (fst (sim_subscribe lab_host 7 (lab 3))) = Some lab_end"
    using sim_script_returns [of lab_host lab_script] by (auto simp: lab_end_def)
qed (intro sim_reachable.subscribed sim_reachable.created [OF lab_created] insertI1 insertI2)

section \<open>Properties\<close>

text \<open>C10: The simulation is a Raft cluster: every state its actions, timers and subscriptions can reach is a
  reachable state of the fine-grained cluster with the same network, the same cores of the online replicas and the
  same durable states, so that what is proved of the cluster holds of everything the visualizer shows.\<close>

theorem simulation_refines_cluster:
  assumes "sim_reachable host s"
  shows "\<exists>cl. reachable (lc_members s) (sim_node_options (lc_members s)) cl \<and> cl_net cl = lc_network s \<and>
    (\<forall>m nd. map_of (lc_live s) m = Some nd \<longrightarrow>
       core_of cl m = nd_core nd \<and> mb_store (cl_member cl m) = nd_storage nd) \<and>
    (\<forall>m \<in> set (lc_members s). \<exists>d. member_storage m s = Some d \<and> durable_inspect d = stored cl m)"
proof -
  obtain cl where rel: "lc_rel (sim_env host) sim_node_options (\<lambda>m. []) (\<lambda>m. (0, 0, 0)) s cl"
    using reachable_facts(1) [OF assms] by (auto simp: lc_ok_def)
  have "core_of cl m = nd_core nd \<and> mb_store (cl_member cl m) = nd_storage nd"
    if "map_of (lc_live s) m = Some nd" for m nd
    using live_member(1) [OF rel live_keys [OF rel that] that] by (simp add: live_ok_def core_of_def)
  then show ?thesis
    using rel simulation.member_storage_stored [OF rel] by (intro exI [of _ cl]) (simp add: lc_rel_def)
qed

theorem simulation_refines_cluster_witness:
  "\<exists>cl. cl_net cl = lc_network lab_end \<and>
    reachable (lc_members lab_end) (sim_node_options (lc_members lab_end)) cl"
  using simulation_refines_cluster [OF lab_reachable] by blast

text \<open>C12: Every reachable state has a picture, so that neither a subscription nor the publication at the end of an
  action throws: the nodes are the members in their order, a node is shown as online exactly when it is not shown as
  offline, and online exactly when a replica of it is running.\<close>

theorem snapshot_defined:
  assumes "sim_reachable host s"
  shows "\<exists>snap. sim_snapshot host s = Inr snap \<and> map ns_id (cs_nodes snap) = lc_members s \<and>
    cs_revision snap = sm_revision s \<and>
    (\<forall>x \<in> set (cs_nodes snap). (ns_online x \<longleftrightarrow> ns_role x \<noteq> Offline) \<and>
       (ns_online x \<longleftrightarrow> map_of (lc_live s) (ns_id x) \<noteq> None))"
proof -
  note f = reachable_facts [OF assms]
  obtain snap where snap: "sim_snapshot host s = Inr snap" "snapshot_ok (lc_members s) snap" "cs_revision snap = sm_revision s"
    using snapshot_total [OF f(1-3)] by blast
  have "ns_online x \<longleftrightarrow> map_of (lc_live s) (ns_id x) \<noteq> None" if "x \<in> set (cs_nodes snap)" for x
    using snapshot_nodes [OF f(1) snap(1) that] nodeSnapshot_role(1) by blast
  then show ?thesis using snap by (auto simp: snapshot_ok_def)
qed

theorem snapshot_defined_witness:
  "\<exists>snap. sim_snapshot lab_host lab_end = Inr snap \<and> map ns_id (cs_nodes snap) = lc_members lab_end"
  using snapshot_defined [OF lab_reachable] by blast



text \<open>The partition action succeeds exactly for a choice of members that is neither empty nor everything,
  refuses every other without a change, and then blocks exactly the pairs between the two sides, in both
  directions, whatever was blocked before.\<close>

theorem partition_action_cuts:
  assumes "sim_reachable host s"
  shows "(snd (sim_partition host names s) = Inr () \<longleftrightarrow>
       names \<noteq> [] \<and> set names \<subset> set (lc_members s)) \<and>
    (snd (sim_partition host names s) \<noteq> Inr () \<longrightarrow> fst (sim_partition host names s) = s) \<and>
    (snd (sim_partition host names s) = Inr () \<longrightarrow>
       set (net_blockedEdges (lc_network (fst (sim_partition host names s)))) =
         set names \<times> (set (lc_members s) - set names) \<union> (set (lc_members s) - set names) \<times> set names)"
proof -
  have valid: "\<forall>m \<in> set (lc_members s). valid_id m" by (rule reachable_facts(6) [OF assms])
  let ?right = "filter (\<lambda>m. m \<notin> set names) (lc_members s)"
  have empty: "?right = [] \<longleftrightarrow> set (lc_members s) \<subseteq> set names" by (auto simp: filter_empty_conv)
  show ?thesis
  proof (cases "\<forall>n \<in> set names. valid_id n \<and> n \<in> set (lc_members s)")
    case True
    then have ms: "members_of names s = Inr names" by (simp add: members_of_Inr)
    have "set (net_blockedEdges (net_partition names ?right (net_heal (lc_network s)))) =
        set names \<times> set ?right \<union> set ?right \<times> set names"
      using True valid by (intro blockedEdges_roundtrip) auto
    moreover have "set ?right = set (lc_members s) - set names" by auto
    ultimately have blocked: "set (net_blockedEdges (net_partition names ?right (net_heal (lc_network s)))) =
        set names \<times> (set (lc_members s) - set names) \<union> (set (lc_members s) - set names) \<times> set names" by simp
    show ?thesis
    proof (cases "names = [] \<or> ?right = []")
      case refused: True
      then have "\<not> (names \<noteq> [] \<and> set names \<subset> set (lc_members s))" using empty by auto
      then show ?thesis using refused ms by (simp add: sim_partition_def rejected_def)
    next
      case accepted: False
      then have "names \<noteq> [] \<and> set names \<subset> set (lc_members s)" using empty True by auto
      then show ?thesis using accepted ms blocked by (simp add: sim_partition_def Let_def del: filter_empty_conv)
    qed
  next
    case False
    then obtain err where "members_of names s = Inl err"
      by (metis members_of_Inr obj_sumE)
    moreover have "\<not> set names \<subset> set (lc_members s)" using False valid by auto
    ultimately show ?thesis by (simp add: sim_partition_def)
  qed
qed

theorem partition_action_cuts_witness:
  "set (net_blockedEdges (lc_network (fst (sim_partition lab_host [''node-2''] (lab 3))))) =
    {''node-2''} \<times> {''node-1'', ''node-3''} \<union> {''node-1'', ''node-3''} \<times> {''node-2''}"
proof -
  have r: "sim_reachable lab_host (lab 3)" by (intro sim_reachable.created [OF lab_created] insertI1 insertI2)
  have ms: "lc_members (lab 3) = [''node-1'', ''node-2'', ''node-3'']"
  proof -
    have "map member_name [0..<3] = [''node-1'', ''node-2'', ''node-3'']" by code_simp
    then show ?thesis using create_facts(7) [OF lab_created [of 3]] by simp
  qed
  have split: "[''node-2''] \<noteq> [] \<and> set [''node-2''] \<subset> set (lc_members (lab 3))" unfolding ms by auto
  have sides: "set (lc_members (lab 3)) - set [''node-2''] = {''node-1'', ''node-3''}" unfolding ms by auto
  note cuts = partition_action_cuts [OF r, of "[''node-2'']", unfolded sides]
  then have "snd (sim_partition lab_host [''node-2''] (lab 3)) = Inr ()" using split by blast
  then have "set (net_blockedEdges (lc_network (fst (sim_partition lab_host [''node-2''] (lab 3))))) =
      set [''node-2''] \<times> {''node-1'', ''node-3''} \<union> {''node-1'', ''node-3''} \<times> set [''node-2'']" using cuts by blast
  then show ?thesis by (simp only: list.set)
qed

text \<open>Creation: a simulation of 1, 3 or 5 nodes is always created; another number from 1 to 9 passes the check
  of the controller and is then refused by the first core; every other number is refused by the check.\<close>

theorem create_exactly:
  "(nodeCount \<in> {1, 3, 5} \<longrightarrow> (\<exists>s. sim_create host nodeCount seed = Inr s)) \<and>
   (nodeCount \<notin> {1, 3, 5} \<longrightarrow> sim_create host nodeCount seed =
      (if 1 \<le> nodeCount \<and> nodeCount \<le> 9 then Inl (Failed (PlainError ''cluster size must be 1, 3, or 5''))
       else Inl (Rejected (js ''node count must be an integer from 1 to 9''))))"
proof (cases "nodeCount \<in> {1, 3, 5}")
  case True
  then show ?thesis using create_all by blast
next
  case False
  show ?thesis
  proof (cases "1 \<le> nodeCount \<and> nodeCount \<le> 9")
    case True
    then show ?thesis using False create_size [of nodeCount host seed] by (simp del: insert_iff)
  next
    case out: False
    then have "sim_create host nodeCount seed = Inl (Rejected (js ''node count must be an integer from 1 to 9''))"
      by (auto simp: sim_create_def new_simulation_def validateNodeCount_def)
    then show ?thesis using False out by (simp only: if_False simp_thms)
  qed
qed

theorem create_exactly_witness:
  "sim_create lab_host 4 7 = Inl (Failed (PlainError ''cluster size must be 1, 3, or 5''))"
  using create_exactly [of 4 lab_host 7] by simp

text \<open>Every action returns, whatever state the simulation is in, and a drain that does not fail has delivered
  everything.\<close>

theorem actions_return:
  "(\<exists>s' r. sim_execute host a s = Some (s', r)) \<and>
    (a = ActDrain \<longrightarrow> sim_execute host a s = Some (s', Inr ()) \<longrightarrow> mn_queue (lc_network s') = [])"
proof -
  have "mn_queue (lc_network s') = []" if ran: "sim_execute host ActDrain s = Some (s', Inr ())"
  proof -
    obtain s1 where d: "sim_drain_from host 0 s = Some (s1, Inr ())" and p: "sim_publish host s1 = (s', Inr ())"
      using ran by (cases "sim_drain_from host 0 s") (auto simp: sim_execute_def sim_bind_def split: sum.splits)
    have "lc_network s' = lc_network s1" using publish_frame(1) [of host s1] p by simp
    then show ?thesis using drain_Inr [OF d] by simp
  qed
  then show ?thesis using returns_execute [of host a s] by (auto simp: returns_def)
qed

definition lab_campaign :: sim where
  "lab_campaign = fst (the (sim_execute lab_host (ActCampaign ''node-1'') (lab 3)))"

theorem actions_return_witness:
  "mn_queue (lc_network lab_campaign) \<noteq> [] \<and>
    mn_queue (lc_network (fst (the (sim_execute lab_host ActDrain lab_campaign)))) = []"
proof
  show "mn_queue (lc_network lab_campaign) \<noteq> []" by code_simp
  have "map_option snd (sim_execute lab_host ActDrain lab_campaign) = Some (Inr ())" by code_simp
  then obtain s' where "sim_execute lab_host ActDrain lab_campaign = Some (s', Inr ())"
    by (cases "sim_execute lab_host ActDrain lab_campaign") auto
  then show "mn_queue (lc_network (fst (the (sim_execute lab_host ActDrain lab_campaign)))) = []"
    using actions_return [of lab_host ActDrain lab_campaign s'] by simp
qed



end
