(* ===== verification/ServerTheorems.thy ===== *)
theory ServerTheorems
  imports VisualizerServer SimulationTheorems
begin

text \<open>
  The properties of the server: what it streams is consistent, how much it reads, and what a reset that fails leaves
  behind.
\<close>

section \<open>Streams\<close>

definition consistent :: "cluster_snapshot \<Rightarrow> bool" where
  "consistent snap \<longleftrightarrow> snapshot_ok (map ns_id (cs_nodes snap)) snap"

lemma snapshot_ok_consistent: "snapshot_ok ms snap \<Longrightarrow> consistent snap"
proof -
  assume ok: "snapshot_ok ms snap"
  then have "map ns_id (cs_nodes snap) = ms" by (simp only: snapshot_ok_def)
  then show ?thesis using ok by (simp only: consistent_def)
qed

lemma told_consistent: "told_ok s \<Longrightarrow> (l, snap) \<in> set (sm_calls s) \<Longrightarrow> consistent snap"
  by (auto simp: told_ok_def intro: snapshot_ok_consistent)

lemma broadcast_all:
  fixes w :: server
  shows "sv_simulation (fold (\<lambda>(l, snap). if l = 0 then broadcast snap else id) calls w) = sv_simulation w"
    and "sv_clients (fold (\<lambda>(l, snap). if l = 0 then broadcast snap else id) calls w) = sv_clients w"
    and "(c, snap) \<in> set (sv_streams (fold (\<lambda>(l, snap). if l = 0 then broadcast snap else id) calls w)) \<Longrightarrow>
      (c, snap) \<in> set (sv_streams w) \<or> (0, snap) \<in> set calls"
proof (induction calls arbitrary: w)
  case (Cons x calls)
  obtain l snp where x: "x = (l, snp)" by fastforce
  { case 1 then show ?case using Cons.IH(1) x by (simp add: broadcast_def) }
  { case 2 then show ?case using Cons.IH(2) x by (simp add: broadcast_def) }
  { case 3 then show ?case using Cons.IH(3) x by (fastforce simp: broadcast_def split: if_splits) }
qed simp_all

lemma put_simulation_simps [simp]:
  "sv_simulation (put_simulation n s sv) = s" "sv_clients (put_simulation n s sv) = sv_clients sv"
  by (simp_all add: put_simulation_def broadcast_all)

lemma put_simulation_streams:
  "(c, snap) \<in> set (sv_streams (put_simulation n s sv)) \<Longrightarrow>
    (c, snap) \<in> set (sv_streams sv) \<or> (0, snap) \<in> set (drop n (sm_calls s))"
  unfolding put_simulation_def using broadcast_all(3) by fastforce

lemma put_simulation_told:
  assumes "told_ok s" and "\<forall>(c, snap) \<in> set (sv_streams sv). consistent snap"
  shows "\<forall>(c, snap) \<in> set (sv_streams (put_simulation n s sv)). consistent snap"
proof -
  have "consistent snap" if "(c, snap) \<in> set (sv_streams (put_simulation n s sv))" for c snap
    using put_simulation_streams [OF that] assms(2) told_consistent [OF assms(1)] in_set_dropD by fast
  then show ?thesis by blast
qed

section \<open>Callbacks call the listeners\<close>

definition calls_listeners :: "sim \<Rightarrow> sim \<Rightarrow> bool" where
  "calls_listeners s t \<longleftrightarrow> sm_listeners t = sm_listeners s \<and>
     (\<exists>new. sm_calls t = sm_calls s @ new \<and> fst ` set new \<subseteq> set (sm_listeners s))"

lemma calls_listeners_refl: "calls_listeners s s"
  by (simp add: calls_listeners_def)

lemma calls_listeners_trans: "calls_listeners s t \<Longrightarrow> calls_listeners t u \<Longrightarrow> calls_listeners s u"
  by (fastforce simp: calls_listeners_def)

lemma publish_listeners: "calls_listeners s (fst (sim_publish host s))"
  by (fastforce simp: calls_listeners_def sim_publish_def Let_def split: sum.split)

lemma record_listeners: "calls_listeners s (record_event host kind msg s)"
  by (simp add: calls_listeners_def record_event_def Let_def)

lemma settle_listeners: "calls_listeners s (settle_watch host m applied x s)"
proof (cases "find (is_watch m (fst x)) (sm_watches s)")
  case (Some w)
  let ?s1 = "s\<lparr>sm_watches := filter (\<lambda>v. \<not> is_watch m (fst x) v) (sm_watches s)\<rparr>"
  have "calls_listeners s ?s1" by (simp add: calls_listeners_def)
  moreover have "calls_listeners ?s1 (run_callback host applied w (snd x) ?s1)"
    unfolding run_callback_def
    by (rule calls_listeners_trans [OF _ publish_listeners]) (simp split: sum.split add: record_listeners)
  ultimately show ?thesis using Some by (simp add: settle_watch_def calls_listeners_trans)
qed (simp add: settle_watch_def calls_listeners_refl)

lemma absorb_listeners: "calls_listeners s (absorb host m nd nd1 s)"
  by (rule absorb_rule [OF calls_listeners_refl calls_listeners_trans settle_listeners])
    (auto simp: note_event_def calls_listeners_refl record_listeners split: node_event.split)

lemma stop_replica_listeners: "calls_listeners s (stop_replica host m s)"
proof (cases "map_of (lc_live s) m")
  case (Some nd)
  have "calls_listeners s (absorb host m nd nd1 (put_live m nd1 s))" for nd1
    by (rule calls_listeners_trans [OF _ absorb_listeners]) (simp add: calls_listeners_def put_live_def)
  then show ?thesis using Some by (simp add: stop_replica_def Let_def)
qed (simp add: stop_replica_def calls_listeners_refl)

lemma sim_stop_listeners: "calls_listeners s (sim_stop host s)"
  unfolding sim_stop_def
  by (rule fold_rule [where R = calls_listeners, OF calls_listeners_refl calls_listeners_trans stop_replica_listeners])

section \<open>A stopped simulation\<close>

lemma stop_replica_live:
  "map_of (lc_live (stop_replica host m s)) q =
     (if q = m then map_option (\<lambda>nd. node_stop (sim_env host) (nd\<lparr>nd_net := (fst (nd_net nd), lc_network s)\<rparr>)) (map_of (lc_live s) m)
      else map_of (lc_live s) q)"
  using absorb_same_nodes [where host = host]
  by (auto simp: stop_replica_def same_nodes_def Let_def split: option.split)

lemma stop_replica_members: "lc_members (stop_replica host m s) = lc_members s"
  using absorb_same_nodes [where host = host]
  by (auto simp: stop_replica_def same_nodes_def Let_def split: option.split)

lemma node_stop_stopped [simp]: "\<not> nd_started (node_stop env nd)"
  by (simp add: node_stop_def Let_def reject_pending_def)

lemma stop_fold_live:
  "lc_members (fold (stop_replica host) ms s) = lc_members s \<and>
   (\<forall>q. map_of (lc_live (fold (stop_replica host) ms s)) q = None \<longleftrightarrow> map_of (lc_live s) q = None) \<and>
   (\<forall>q nd. map_of (lc_live (fold (stop_replica host) ms s)) q = Some nd \<longrightarrow> nd_started nd \<longrightarrow>
      q \<notin> set ms \<and> map_of (lc_live s) q = Some nd)"
proof (induction ms arbitrary: s)
  case (Cons m ms)
  let ?s1 = "stop_replica host m s"
  have "map_of (lc_live ?s1) q = None \<longleftrightarrow> map_of (lc_live s) q = None" for q by (simp add: stop_replica_live)
  moreover have "q \<noteq> m \<and> map_of (lc_live s) q = Some nd" if "map_of (lc_live ?s1) q = Some nd" "nd_started nd" for q nd
    using that by (auto simp: stop_replica_live split: if_splits)
  ultimately show ?case
    using Cons.IH [of ?s1] stop_replica_members [of host m s] unfolding list.set fold_simps by (metis insert_iff)
qed simp

lemma stopped_nodes:
  assumes "map_of (lc_live (sim_stop host s)) m = Some nd" and "m \<in> set (lc_members s)"
  shows "\<not> nd_started nd"
  using stop_fold_live [of host "lc_members s" s] assms unfolding sim_stop_def by blast

section \<open>Reachable servers\<close>

definition is_reset :: "http_request \<Rightarrow> bool" where
  "is_reset rq = (case readJson (rq_body rq) of
     Inr v \<Rightarrow> (case read_action v of Declared (ActReset n seed) \<Rightarrow> True | _ \<Rightarrow> False) | Inl _ \<Rightarrow> False)"

text \<open>The states that requests lead to as long as no reset fails.\<close>

inductive server_reachable :: "'k::linorder server_host \<Rightarrow> server \<Rightarrow> bool" for host where
  started: "server_start host = Inr sv \<Longrightarrow> server_reachable host sv"
| answered: "server_reachable host sv \<Longrightarrow> handleRequest host rq sv = Some (sv', response) \<Longrightarrow>
    rs_status response = 200 \<or> \<not> is_reset rq \<Longrightarrow> server_reachable host sv'"
| closed: "server_reachable host sv \<Longrightarrow> server_reachable host (close_client c sv)"

definition server_ok :: "'k::linorder server_host \<Rightarrow> server \<Rightarrow> bool" where
  "server_ok host sv \<longleftrightarrow> sim_reachable (vh_sim host) (sv_simulation sv) \<and>
     (\<forall>(c, snap) \<in> set (sv_streams sv). consistent snap)"

lemma reachable_snapshot:
  assumes "sim_reachable host s"
  shows "\<exists>snap. sim_snapshot host s = Inr snap \<and> consistent snap"
  using snapshot_total [OF reachable_facts(1-3) [OF assms]] snapshot_ok_consistent by blast

lemma put_simulation_ok:
  assumes "sim_reachable (vh_sim host) s" and "\<forall>(c, snap) \<in> set (sv_streams sv). consistent snap"
  shows "server_ok host (put_simulation n s sv)"
  using assms put_simulation_told [OF reachable_told [OF assms(1)] assms(2)] by (simp add: server_ok_def)

lemma subscribe_Inr:
  assumes "sim_reachable host s"
  shows "\<exists>s'. sim_subscribe host l s = (s', Inr ()) \<and> sim_reachable host s'"
proof -
  let ?s1 = "s\<lparr>sm_listeners := (if l \<in> set (sm_listeners s) then sm_listeners s else sm_listeners s @ [l])\<rparr>"
  note f = reachable_facts [OF assms]
  have "healthy host s" using f(1-3) by (simp add: healthy_def)
  then have "healthy host ?s1" by (rule healthy_same) (simp_all add: same_nodes_def same_timeline_def)
  then obtain snap where "sim_snapshot host ?s1 = Inr snap"
    using snapshot_total [of host ?s1] by (auto simp: healthy_def)
  then show ?thesis
    using sim_reachable.subscribed [OF assms, of l] by (simp add: sim_subscribe_def Let_def)
qed

lemma stop_streams:
  fixes sv :: server
  shows "sv_streams (put_simulation (length (sm_calls (sv_simulation sv)))
    (sim_stop host (sim_unsubscribe 0 (sv_simulation sv))) sv) = sv_streams sv"
proof -
  let ?s = "sim_unsubscribe 0 (sv_simulation sv)"
  obtain new where new: "sm_calls (sim_stop host ?s) = sm_calls ?s @ new" "fst ` set new \<subseteq> set (sm_listeners ?s)"
    using sim_stop_listeners [of ?s host] by (auto simp: calls_listeners_def)
  have calls: "sm_calls ?s = sm_calls (sv_simulation sv)" "0 \<notin> set (sm_listeners ?s)" by (simp_all add: sim_unsubscribe_def)
  have "fold (\<lambda>(l, snap). if l = 0 then broadcast snap else id) new w = w" if "0 \<notin> fst ` set new" for w :: server
    using that by (induction new) auto
  moreover have "0 \<notin> fst ` set new" using new(2) calls(2) by blast
  ultimately show ?thesis using new(1) calls(1) by (simp add: put_simulation_def)
qed

lemma server_reset_cases:
  assumes "server_ok host sv" and "server_reset host n seed sv = (sv1, r)"
  shows "(\<exists>err. sim_create (vh_sim host) n seed = Inl err \<and> r = Inl err \<and>
      sv_simulation sv1 = sim_stop (vh_sim host) (sim_unsubscribe 0 (sv_simulation sv)) \<and>
      sv_streams sv1 = sv_streams sv \<and> sv_clients sv1 = sv_clients sv) \<or>
    (\<exists>s. sim_create (vh_sim host) n seed = Inr s \<and> r = Inr () \<and> server_ok host sv1)"
proof (cases "sim_create (vh_sim host) n seed")
  case (Inl err)
  then show ?thesis using assms(2) stop_streams [of sv "vh_sim host"] by (auto simp: server_reset_def Let_def)
next
  case (Inr s)
  then obtain s1 where s1: "sim_subscribe (vh_sim host) 0 s = (s1, Inr ())" "sim_reachable (vh_sim host) s1"
    using subscribe_Inr [OF sim_reachable.created] by blast
  let ?old = "put_simulation (length (sm_calls (sv_simulation sv)))
    (sim_stop (vh_sim host) (sim_unsubscribe 0 (sv_simulation sv))) sv"
  have "sv1 = put_simulation (length (sm_calls s)) s1 ?old" "r = Inr ()"
    using assms(2) Inr s1(1) by (simp_all add: server_reset_def Let_def)
  moreover have "server_ok host (put_simulation (length (sm_calls s)) s1 ?old)"
    by (rule put_simulation_ok [OF s1(2)]) (use assms(1) in \<open>simp add: stop_streams server_ok_def\<close>)
  ultimately show ?thesis using Inr by blast
qed

lemma server_execute_ok:
  assumes "server_ok host sv" and "server_execute host f sv = Some (sv1, r)"
    and "\<And>s' x. f (sv_simulation sv) = Some (s', x) \<Longrightarrow> sim_reachable (vh_sim host) s'"
  shows "server_ok host sv1"
proof -
  obtain s' where s': "f (sv_simulation sv) = Some (s', r)"
    and sv1: "sv1 = put_simulation (length (sm_calls (sv_simulation sv))) s' sv"
    using assms(2) by (auto simp: server_execute_def split: option.splits prod.splits)
  show ?thesis
    unfolding sv1 by (rule put_simulation_ok [OF assms(3) [OF s']]) (use assms(1) in \<open>simp add: server_ok_def\<close>)
qed

lemma run_action_ok:
  assumes ok: "server_ok host sv" and run: "run_action host a sv = Some (sv1, r)"
    and good: "\<And>n seed. a = Declared (ActReset n seed) \<Longrightarrow> r = Inr ()"
  shows "server_ok host sv1"
proof -
  have reach: "sim_reachable (vh_sim host) (sv_simulation sv)" using ok by (simp add: server_ok_def)
  have exec: "server_ok host sv1" if "server_execute host (sim_execute (vh_sim host) act) sv = Some (sv1, r)" for act
    using server_execute_ok [OF ok that] sim_reachable.executed [OF reach] by blast
  have pub: "sim_reachable (vh_sim host) s'" if "sim_publish (vh_sim host) (sv_simulation sv) = (s', x)" for s' x
    using sim_reachable.published [OF reach] that by (metis fst_conv)
  show ?thesis
  proof (cases a)
    case UnknownType
    then show ?thesis using run server_execute_ok [OF ok] pub by (fastforce simp: run_action_def)
  next
    case (Declared act)
    show ?thesis
    proof (cases "\<exists>n seed. act = ActReset n seed")
      case True
      then obtain n seed where act: "act = ActReset n seed" by blast
      then have "server_reset host n seed sv = (sv1, r)" using run Declared by (simp add: run_action_def)
      then show ?thesis using server_reset_cases [OF ok] good Declared act by fastforce
    next
      case False
      then have "server_execute host (sim_execute (vh_sim host) act) sv = Some (sv1, r)"
        using run Declared by (cases act) (simp_all add: run_action_def)
      then show ?thesis by (rule exec)
    qed
  qed (use run in \<open>simp add: run_action_def\<close>)
qed

lemma events_ok:
  assumes "server_ok host sv"
  shows "server_ok host (fst (openEventStream host c sv))"
proof -
  obtain snap where "sim_snapshot (vh_sim host) (sv_simulation sv) = Inr snap" "consistent snap"
    using reachable_snapshot [of "vh_sim host" "sv_simulation sv"] assms by (auto simp: server_ok_def)
  then show ?thesis using assms by (auto simp: server_ok_def openEventStream_def Let_def)
qed

lemma handleRequest_ok:
  assumes ok: "server_ok host sv" and h: "handleRequest host rq sv = Some (sv', response)"
    and good: "rs_status response = 200 \<or> \<not> is_reset rq"
  shows "server_ok host sv'"
proof (cases "\<exists>v. readJson (rq_body rq) = Inr v \<and> validateAction v = Inr v \<and> post_action host (read_action v) sv = Some (sv', response)")
  case True
  then obtain v r where v: "readJson (rq_body rq) = Inr v" and run: "run_action host (read_action v) sv = Some (sv', r)"
    and resp: "response = (case r of Inl err \<Rightarrow> send_error (sim_error_text err) | Inr _ \<Rightarrow> send_snapshot host sv')"
    by (auto simp: post_action_def)
  show ?thesis
  proof (rule run_action_ok [OF ok run])
    fix n seed assume "read_action v = Declared (ActReset n seed)"
    then have "is_reset rq" using v by (simp add: is_reset_def)
    then show "r = Inr ()" using good resp by (cases r) (simp_all add: send_error_def sendJson_def)
  qed
next
  case False
  then have "sv' = sv \<or> sv' = fst (openEventStream host (rq_id rq) sv)"
    using h by (auto simp: handleRequest_def handleApi_def Let_def validateAction_def split: if_splits sum.splits)
  then show ?thesis using ok events_ok [OF ok] by auto
qed

lemma server_reachable_ok: "server_reachable host sv \<Longrightarrow> server_ok host sv"
proof (induction rule: server_reachable.induct)
  case (started sv)
  then obtain s s1 where s: "sim_create (vh_sim host) 3 1 = Inr s" "sim_subscribe (vh_sim host) 0 s = (s1, Inr ())"
    and sv: "sv = \<lparr>sv_simulation = s1, sv_clients = [], sv_streams = []\<rparr>"
    by (auto simp: server_start_def split: sum.splits prod.splits)
  have "sim_reachable (vh_sim host) s1"
    using sim_reachable.subscribed [OF sim_reachable.created [OF s(1)], of 0] s(2) by simp
  then show ?case by (simp add: server_ok_def sv)
next
  case (answered sv rq sv' response)
  then show ?case using handleRequest_ok by blast
next
  case (closed sv c)
  then show ?case by (simp add: server_ok_def close_client_def)
qed

text \<open>The server starts.\<close>

lemma server_starts: "\<exists>sv. server_start host = Inr sv"
proof -
  obtain s where s: "sim_create (vh_sim host) 3 1 = Inr s" using create_all [of 3 "vh_sim host" 1] by auto
  then show ?thesis
    using subscribe_Inr [OF sim_reachable.created [OF s], of 0] by (auto simp: server_start_def)
qed

section \<open>Properties\<close>

definition lab_web :: "nat server_host" where
  "lab_web = \<lparr>vh_sim = lab_host, vh_pathname = id, vh_file = (\<lambda>f. Inl (js ''no such file''))\<rparr>"

definition lab_server :: server where
  "lab_server = (case server_start lab_web of Inr sv \<Rightarrow> sv)"

lemma lab_server_reachable: "server_reachable lab_web lab_server"
  using server_starts [of lab_web] by (auto simp: lab_server_def intro: server_reachable.started)

text \<open>What the browsers are sent is consistent: as long as no reset fails, every picture on every event
  stream shows at most one leader of a term and equal values where equally much has been applied, whatever
  requests are made and in whatever order, and the API answers with a picture of the current state.\<close>

theorem streams_are_consistent:
  assumes "server_reachable host sv"
  shows "(\<forall>(c, snap) \<in> set (sv_streams sv). \<forall>x \<in> set (cs_nodes snap). \<forall>y \<in> set (cs_nodes snap).
      (ns_role x = RoleOf Leader \<and> ns_role y = RoleOf Leader \<and> ns_term x = ns_term y \<longrightarrow> x = y) \<and>
      (ns_online x \<and> ns_online y \<and> ns_appliedIndex x = ns_commitIndex x \<and> ns_appliedIndex y = ns_commitIndex y \<and>
       ns_appliedIndex x = ns_appliedIndex y \<longrightarrow> ns_values x = ns_values y)) \<and>
    (\<exists>snap. send_snapshot host sv = sendJson 200 (SnapshotBody snap) \<and>
      map ns_id (cs_nodes snap) = lc_members (sv_simulation sv))"
proof
  note ok = server_reachable_ok [OF assms]
  show "\<forall>(c, snap) \<in> set (sv_streams sv). \<forall>x \<in> set (cs_nodes snap). \<forall>y \<in> set (cs_nodes snap).
      (ns_role x = RoleOf Leader \<and> ns_role y = RoleOf Leader \<and> ns_term x = ns_term y \<longrightarrow> x = y) \<and>
      (ns_online x \<and> ns_online y \<and> ns_appliedIndex x = ns_commitIndex x \<and> ns_appliedIndex y = ns_commitIndex y \<and>
       ns_appliedIndex x = ns_appliedIndex y \<longrightarrow> ns_values x = ns_values y)"
    using ok unfolding server_ok_def consistent_def snapshot_ok_def by fast
  have "sim_reachable (vh_sim host) (sv_simulation sv)" using ok by (simp add: server_ok_def)
  note f = snapshot_total [OF reachable_facts(1-3) [OF this]]
  then show "\<exists>snap. send_snapshot host sv = sendJson 200 (SnapshotBody snap) \<and>
      map ns_id (cs_nodes snap) = lc_members (sv_simulation sv)"
    unfolding snapshot_ok_def by (auto simp: send_snapshot_def)
qed

theorem streams_are_consistent_witness:
  "\<exists>snap. send_snapshot lab_web lab_server = sendJson 200 (SnapshotBody snap)"
  using streams_are_consistent [OF lab_server_reachable] by blast

text \<open>C15: A reset that fails leaves a dead server: for a number of nodes the core does not accept, the simulation
  is stopped and unsubscribed before the error is found, and stays in place: the event streams get no more
  publications, and a campaign of any node that was online is refused, until a reset succeeds.\<close>

theorem failed_reset_kills:
  assumes "server_reachable host sv" and "nodeCount \<notin> {1, 3, 5}"
  shows "\<exists>sv1 response. post_action host (Declared (ActReset nodeCount seed)) sv = Some (sv1, response) \<and>
    rs_status response = 400 \<and> 0 \<notin> set (sm_listeners (sv_simulation sv1)) \<and>
    (\<forall>m \<in> set (lc_members (sv_simulation sv)). map_of (lc_live (sv_simulation sv)) m \<noteq> None \<longrightarrow>
      (\<exists>sv2. post_action host (Declared (ActCampaign m)) sv1 =
        Some (sv2, send_error (js ''node is stopped or unhealthy''))))"
proof -
  note ok = server_reachable_ok [OF assms(1)]
  then have reach: "sim_reachable (vh_sim host) (sv_simulation sv)" by (simp add: server_ok_def)
  obtain err where err: "sim_create (vh_sim host) nodeCount seed = Inl err"
    using create_exactly [of nodeCount "vh_sim host" seed] assms(2) by (cases "1 \<le> nodeCount \<and> nodeCount \<le> 9") auto
  obtain sv1 r where reset: "server_reset host nodeCount seed sv = (sv1, r)" by fastforce
  let ?old = "sim_unsubscribe 0 (sv_simulation sv)" and ?s = "sv_simulation sv1"
  have s: "?s = sim_stop (vh_sim host) ?old" and r: "r = Inl err"
    using server_reset_cases [OF ok reset] err by auto
  have post: "post_action host (Declared (ActReset nodeCount seed)) sv = Some (sv1, send_error (sim_error_text err))"
    using reset r by (simp add: post_action_def run_action_def)
  have "sm_listeners ?s = sm_listeners ?old" using sim_stop_listeners [of ?old "vh_sim host"] by (simp add: calls_listeners_def s)
  then have quiet: "0 \<notin> set (sm_listeners ?s)" by (simp add: sim_unsubscribe_def)
  have "\<exists>sv2. post_action host (Declared (ActCampaign m)) sv1 = Some (sv2, send_error (js ''node is stopped or unhealthy''))"
    if m: "m \<in> set (lc_members (sv_simulation sv))" and up: "map_of (lc_live (sv_simulation sv)) m \<noteq> None" for m
  proof -
    have fold: "lc_members ?s = lc_members (sv_simulation sv)" "map_of (lc_live ?s) m \<noteq> None"
      using stop_fold_live [of "vh_sim host" "lc_members ?old" ?old] up by (auto simp: s sim_stop_def sim_unsubscribe_def)
    then obtain nd where nd: "map_of (lc_live ?s) m = Some nd" by blast
    have stopped: "\<not> nd_started nd" using stopped_nodes [of "vh_sim host" ?old m nd] nd m by (simp add: s sim_unsubscribe_def)
    have "member_of m ?s = Inr m" using m fold(1) reachable_facts(6) [OF reach] by (simp add: member_of_Inr)
    moreover obtain r timeout where "random_integer 10 21 (sm_random ?s) = (r, Inr timeout)"
      by (cases "random_next (sm_random ?s)") (simp add: random_integer_def safe_integer_def MAX_SAFE_def)
    ultimately obtain s2 where "sim_campaign (vh_sim host) m ?s =
        Some (s2, Inl (Failed (NodeStoppedError ''node is stopped or unhealthy'')))"
      using nd stopped
      by (simp add: sim_campaign_def online_def on_replica_def node_call_def campaign_def assertRunning_def
          absorb_run_def sim_bind_def)
    then show ?thesis
      by (simp add: post_action_def run_action_def server_execute_def sim_execute_def sim_bind_def)
  qed
  then show ?thesis using post quiet by (auto simp: send_error_def sendJson_def)
qed

theorem failed_reset_kills_witness:
  "\<exists>sv1 response. post_action lab_web (Declared (ActReset 4 1)) lab_server = Some (sv1, response) \<and>
    rs_status response = 400 \<and> 0 \<notin> set (sm_listeners (sv_simulation sv1))"
  using failed_reset_kills [OF lab_server_reachable, of 4 1] by auto

text \<open>The body of a request is read up to 64 KiB and no further.\<close>

lemma read_chunks_limit:
  "read_chunks n chunks = (if chunks = [] \<or> n + length (concat chunks) \<le> 65536 then Inr (concat chunks)
     else Inl (js ''request body is too large''))"
proof (induction n chunks rule: read_chunks.induct)
  case (2 n chunk chunks)
  show ?case
  proof (cases "64 * 1024 < n + length chunk")
    case False
    then show ?thesis using "2.IH" [OF refl False] by (cases "chunks = []") simp_all
  qed simp
qed simp

end
