(* ===== verification/ServerLife.thy ===== *)
theory ServerLife
  imports ServerTheorems Timeouts
begin

text \<open>
  The process around the request handlers of \<open>packages/raft-visualizer/src/server/index.ts\<close>: the chain of promises that
  runs the actions one after the other (\<open>enqueue\<close>), the keep-alive comments of an open event stream, the signals and
  \<open>shutdown\<close>.  A request has a number; an action is a task that runs to its end, and its answer is written before
  the next task begins.  Times are milliseconds.
\<close>

section \<open>The process\<close>

record http_process =
  hp_server :: server
  hp_queue :: "(nat \<times> server_action) list"
  hp_timers :: "(nat \<times> int) list"
  hp_comments :: "(nat \<times> int) list"
  hp_answers :: "(nat \<times> http_response) list"
  hp_signals :: "string list"
  hp_shut :: bool
  hp_now :: int
  hp_next :: nat

definition process_start :: "'k::linorder server_host \<Rightarrow> int \<Rightarrow> sim_error + http_process" where
  "process_start host now =
     (case server_start host of
        Inl err \<Rightarrow> Inl err
      | Inr sv \<Rightarrow> Inr \<lparr>hp_server = sv, hp_queue = [], hp_timers = [], hp_comments = [], hp_answers = [],
          hp_signals = [''SIGINT'', ''SIGTERM''], hp_shut = False, hp_now = now, hp_next = 0\<rparr>)"

text \<open>The action a request enqueues, if its body is one.\<close>

definition enqueued_action :: "'k server_host \<Rightarrow> http_request \<Rightarrow> server_action option" where
  "enqueued_action host rq =
     (if take 5 (rq_url rq) = ''/api/'' \<and> rq_method rq = POST \<and> vh_pathname host (rq_url rq) = ''/api/action''
      then (case readJson (rq_body rq) of
          Inl err \<Rightarrow> None
        | Inr v \<Rightarrow> (case validateAction v of Inl err \<Rightarrow> None | Inr w \<Rightarrow> Some (read_action w)))
      else None)"

definition enqueue :: "nat \<Rightarrow> server_action \<Rightarrow> http_process \<Rightarrow> http_process" where
  "enqueue c a p = p\<lparr>hp_queue := hp_queue p @ [(c, a)]\<rparr>"

definition opens_stream :: "'k::linorder server_host \<Rightarrow> http_request \<Rightarrow> server \<Rightarrow> bool" where
  "opens_stream host rq sv \<longleftrightarrow> take 5 (rq_url rq) = ''/api/'' \<and> rq_method rq = GET \<and>
     vh_pathname host (rq_url rq) = ''/api/events'' \<and> \<not> isl (sim_snapshot (vh_sim host) (sv_simulation sv))"

text \<open>The interval of a stream begins when its first picture has been written.\<close>

definition keep_alive_from :: "nat \<Rightarrow> http_process \<Rightarrow> http_process" where
  "keep_alive_from c p = p\<lparr>hp_timers := hp_timers p @ [(c, hp_now p + timer_delay 15000)]\<rparr>"

definition receive :: "'k::linorder server_host \<Rightarrow> http_request \<Rightarrow> http_process \<Rightarrow> http_process option" where
  "receive host rq p =
     (let p1 = p\<lparr>hp_next := Suc (hp_next p)\<rparr> in
      case enqueued_action host rq of
        Some a \<Rightarrow> Some (enqueue (rq_id rq) a p1)
      | None \<Rightarrow>
          (case handleRequest host rq (hp_server p) of
             None \<Rightarrow> None
           | Some (sv, response) \<Rightarrow>
               (let p2 = p1\<lparr>hp_server := sv, hp_answers := hp_answers p @ [(rq_id rq, response)]\<rparr> in
                Some (if opens_stream host rq (hp_server p) then keep_alive_from (rq_id rq) p2 else p2))))"

text \<open>The first task of the chain.  A task that fails is answered with its error, and the chain goes on.\<close>

definition run_task :: "'k::linorder server_host \<Rightarrow> http_process \<Rightarrow> http_process option" where
  "run_task host p =
     (case hp_queue p of
        [] \<Rightarrow> Some p
      | (c, a) # tasks \<Rightarrow>
          map_option (\<lambda>(sv, response). p\<lparr>hp_server := sv, hp_queue := tasks, hp_answers := hp_answers p @ [(c, response)]\<rparr>)
            (post_action host a (hp_server p)))"

text \<open>The event loop turns to its timers: every interval that is due writes a comment and begins anew.\<close>

definition write_comments :: "int \<Rightarrow> http_process \<Rightarrow> http_process" where
  "write_comments now p =
     p\<lparr>hp_comments := hp_comments p @ map (\<lambda>(c, t). (c, now)) (filter (\<lambda>(c, t). t \<le> now) (hp_timers p)),
       hp_timers := map (\<lambda>(c, t). (c, if t \<le> now then now + timer_delay 15000 else t)) (hp_timers p),
       hp_now := now\<rparr>"

text \<open>The connection of a stream closes; the handler is there once the stream is open.\<close>

definition hang_up :: "nat \<Rightarrow> http_process \<Rightarrow> http_process" where
  "hang_up c p =
     (if c \<in> fst ` set (hp_timers p)
      then p\<lparr>hp_timers := filter (\<lambda>(d, t). d \<noteq> c) (hp_timers p), hp_server := close_client c (hp_server p)\<rparr>
      else p)"

text \<open>A handler of a signal runs once.  A signal without a handler ends the process.\<close>

definition process_signal :: "'k::linorder server_host \<Rightarrow> string \<Rightarrow> http_process \<Rightarrow> http_process" where
  "process_signal host name p =
     (if name \<in> set (hp_signals p)
      then p\<lparr>hp_signals := filter (\<lambda>x. x \<noteq> name) (hp_signals p), hp_shut := True,
             hp_server := server_shutdown host (hp_server p)\<rparr>
      else p)"

inductive process_step :: "'k::linorder server_host \<Rightarrow> http_process \<Rightarrow> http_process \<Rightarrow> bool" for host where
  received: "rq_id rq = hp_next p \<Longrightarrow> receive host rq p = Some p' \<Longrightarrow> process_step host p p'"
| ran: "run_task host p = Some p' \<Longrightarrow> process_step host p p'"
| fired: "hp_now p \<le> now \<Longrightarrow> process_step host p (write_comments now p)"
| hung_up: "process_step host p (hang_up c p)"
| signalled: "name \<in> set (hp_signals p) \<Longrightarrow> process_step host p (process_signal host name p)"

inductive process_reachable :: "'k::linorder server_host \<Rightarrow> http_process \<Rightarrow> bool" for host where
  launched: "process_start host now = Inr p \<Longrightarrow> process_reachable host p"
| stepped: "process_reachable host p \<Longrightarrow> process_step host p p' \<Longrightarrow> process_reachable host p'"

section \<open>Keep-alive comments\<close>

text \<open>The comments of each stream are at least fifteen seconds apart, and a running interval is due no earlier.\<close>

fun spaced :: "(nat \<times> int) list \<Rightarrow> bool" where
  "spaced [] = True"
| "spaced ((c, s) # comments) = ((\<forall>(d, t) \<in> set comments. d = c \<longrightarrow> s + 15000 \<le> t) \<and> spaced comments)"

lemma spaced_append:
  "spaced (xs @ ys) \<longleftrightarrow> spaced xs \<and> spaced ys \<and>
     (\<forall>(c, s) \<in> set xs. \<forall>(d, t) \<in> set ys. d = c \<longrightarrow> s + 15000 \<le> t)"
  by (induction xs rule: spaced.induct) auto

lemma spaced_distinct: "distinct (map fst xs) \<Longrightarrow> spaced xs"
  by (induction xs rule: spaced.induct) force+

definition well_timed :: "nat \<Rightarrow> (nat \<times> int) list \<Rightarrow> (nat \<times> int) list \<Rightarrow> bool" where
  "well_timed n timers comments \<longleftrightarrow> distinct (map fst timers) \<and> spaced comments \<and>
     (\<forall>c t. (c, t) \<in> set timers \<longrightarrow> c < n \<and> (\<forall>s. (c, s) \<in> set comments \<longrightarrow> s + 15000 \<le> t)) \<and>
     (\<forall>c s. (c, s) \<in> set comments \<longrightarrow> c < n)"

definition intervals_ok :: "http_process \<Rightarrow> bool" where
  "intervals_ok p \<longleftrightarrow> well_timed (hp_next p) (hp_timers p) (hp_comments p) \<and>
     (\<not> hp_shut p \<longrightarrow> fst ` set (hp_timers p) \<subseteq> set (sv_clients (hp_server p)))"

lemma well_timed_fire:
  assumes ok: "well_timed n timers comments"
  shows "well_timed n (map (\<lambda>(c, t). (c, if t \<le> now then now + 15000 else t)) timers)
    (comments @ map (\<lambda>(c, t). (c, now)) (filter (\<lambda>(c, t). t \<le> now) timers))"
proof -
  have d: "distinct (map fst timers)" and sp: "spaced comments"
    and gap: "\<And>c t s. (c, t) \<in> set timers \<Longrightarrow> (c, s) \<in> set comments \<Longrightarrow> s + 15000 \<le> t"
    and less: "\<And>c t. (c, t) \<in> set timers \<Longrightarrow> c < n" "\<And>c s. (c, s) \<in> set comments \<Longrightarrow> c < n"
    using ok by (auto simp: well_timed_def)
  let ?timers = "map (\<lambda>(c, t). (c, if t \<le> now then now + 15000 else t)) timers"
  let ?new = "map (\<lambda>(c, t). (c, now)) (filter (\<lambda>(c, t). t \<le> now) timers)"
  have one: "t = u" if "(c, t) \<in> set timers" "(c, u) \<in> set timers" for c t u
    using d that by (metis eq_key_imp_eq_value)
  have "distinct (map fst (filter (\<lambda>(c, t). t \<le> now) timers))" using d by (auto simp: distinct_map intro: inj_on_subset)
  then have "spaced ?new" by (intro spaced_distinct) (simp add: comp_def case_prod_unfold)
  moreover have "\<forall>(c, s) \<in> set comments. \<forall>(e, t) \<in> set ?new. e = c \<longrightarrow> s + 15000 \<le> t" using gap by fastforce
  ultimately have "spaced (comments @ ?new)" using sp by (simp add: spaced_append)
  moreover have "s + 15000 \<le> t" if t: "(c, t) \<in> set ?timers" and s: "(c, s) \<in> set (comments @ ?new)" for c t s
  proof -
    obtain u where u: "(c, u) \<in> set timers" "t = (if u \<le> now then now + 15000 else u)" using t by auto
    from s consider "(c, s) \<in> set comments" | "s = now" "\<exists>v. (c, v) \<in> set timers \<and> v \<le> now" by auto
    then show ?thesis
    proof cases
      case 1
      then show ?thesis using gap [OF u(1)] u(2) by fastforce
    next
      case 2
      then show ?thesis using one u by fastforce
    qed
  qed
  moreover have "distinct (map fst ?timers)" using d by (simp add: comp_def case_prod_unfold)
  moreover have "c < n" if "(c, t) \<in> set ?timers" for c t using that less(1) by auto
  moreover have "c < n" if "(c, s) \<in> set (comments @ ?new)" for c s using that less by auto
  ultimately show ?thesis unfolding well_timed_def by blast
qed

lemma well_timed_new:
  assumes "well_timed n timers comments" and "c = n" and "n < k"
  shows "well_timed k (timers @ [(c, t)]) comments"
proof -
  have "c \<notin> fst ` set timers" using assms(1,2) by (fastforce simp: well_timed_def)
  then show ?thesis using assms unfolding well_timed_def by (auto intro: less_trans)
qed

lemma well_timed_filter:
  "well_timed n timers comments \<Longrightarrow> well_timed n (filter (\<lambda>(d, t). d \<noteq> c) timers) comments"
  unfolding well_timed_def by (auto simp: distinct_map intro: inj_on_subset)

lemma well_timed_more: "well_timed n timers comments \<Longrightarrow> n \<le> k \<Longrightarrow> well_timed k timers comments"
  unfolding well_timed_def by fastforce

lemma run_action_clients: "run_action host a sv = Some (sv1, r) \<Longrightarrow> sv_clients sv1 = sv_clients sv"
  by (auto simp: run_action_def server_execute_def server_reset_def Let_def
      split: server_action.splits sim_action.splits option.splits prod.splits sum.splits)

lemma post_action_clients: "post_action host a sv = Some (sv1, r) \<Longrightarrow> sv_clients sv1 = sv_clients sv"
  by (auto simp: post_action_def dest: run_action_clients)

lemma handleRequest_clients:
  assumes "handleRequest host rq sv = Some (sv1, r)"
  shows "set (sv_clients sv) \<subseteq> set (sv_clients sv1)"
    and "opens_stream host rq sv \<Longrightarrow> rq_id rq \<in> set (sv_clients sv1)"
  using assms
  by (auto simp: handleRequest_def handleApi_def openEventStream_def opens_stream_def Let_def
      split: if_splits sum.splits dest: post_action_clients)

lemma write_comments_ok: "intervals_ok p \<Longrightarrow> intervals_ok (write_comments now p)"
  using well_timed_fire [of "hp_next p" "hp_timers p" "hp_comments p" now]
  by (simp add: intervals_ok_def write_comments_def image_image case_prod_unfold cong: if_cong)

lemma process_start_ok: "process_start host now = Inr p \<Longrightarrow> intervals_ok p"
  by (auto simp: process_start_def intervals_ok_def well_timed_def split: sum.splits)

lemma receive_ok:
  assumes ok: "intervals_ok p" and new: "rq_id rq = hp_next p" and r: "receive host rq p = Some p'"
  shows "intervals_ok p'"
proof (cases "enqueued_action host rq")
  case (Some a)
  then have "p' = enqueue (rq_id rq) a (p\<lparr>hp_next := Suc (hp_next p)\<rparr>)" using r by (simp add: receive_def Let_def)
  then show ?thesis using ok by (auto simp: intervals_ok_def enqueue_def intro: well_timed_more)
next
  case None
  then obtain sv response where h: "handleRequest host rq (hp_server p) = Some (sv, response)"
    using r by (auto simp: receive_def Let_def split: option.splits)
  define p2 where "p2 = p\<lparr>hp_next := Suc (hp_next p), hp_server := sv, hp_answers := hp_answers p @ [(rq_id rq, response)]\<rparr>"
  have p': "p' = (if opens_stream host rq (hp_server p) then keep_alive_from (rq_id rq) p2 else p2)"
    using r None h by (auto simp: receive_def p2_def Let_def)
  have w: "well_timed (hp_next p) (hp_timers p) (hp_comments p)" using ok by (simp add: intervals_ok_def)
  have more: "well_timed (Suc (hp_next p)) (hp_timers p @ [(rq_id rq, t)]) (hp_comments p)" for t
    by (rule well_timed_new [OF w new]) simp
  have "intervals_ok p2" using ok handleRequest_clients(1) [OF h] well_timed_more [OF w]
    by (auto simp: intervals_ok_def p2_def)
  moreover have "intervals_ok (keep_alive_from (rq_id rq) p2)" if "opens_stream host rq (hp_server p)"
    using calculation handleRequest_clients(2) [OF h that] more by (simp add: intervals_ok_def p2_def keep_alive_from_def)
  ultimately show ?thesis using p' by simp
qed

lemma hang_up_ok: "intervals_ok p \<Longrightarrow> intervals_ok (hang_up c p)"
  by (auto simp: intervals_ok_def hang_up_def close_client_def well_timed_filter)

lemma process_step_ok: "process_step host p p' \<Longrightarrow> intervals_ok p \<Longrightarrow> intervals_ok p'"
proof (induction rule: process_step.induct)
  case (ran p p')
  show ?case
  proof (cases "hp_queue p")
    case Nil
    then show ?thesis using ran by (simp add: run_task_def)
  next
    case (Cons x tasks)
    then obtain c a sv response where "post_action host a (hp_server p) = Some (sv, response)"
      and p': "p' = p\<lparr>hp_server := sv, hp_queue := tasks, hp_answers := hp_answers p @ [(c, response)]\<rparr>"
      using ran(1) by (auto simp: run_task_def split: prod.splits)
    then have "sv_clients sv = sv_clients (hp_server p)" using post_action_clients by blast
    then show ?thesis using ran(2) by (simp add: intervals_ok_def p')
  qed
next
  case (signalled p name)
  then show ?case by (auto simp: process_signal_def intervals_ok_def)
qed (simp_all add: receive_ok write_comments_ok hang_up_ok)

lemma process_reachable_ok: "process_reachable host p \<Longrightarrow> intervals_ok p"
  by (induction rule: process_reachable.induct) (auto intro: process_start_ok process_step_ok)

lemma hang_up_timers: "c \<notin> fst ` set (hp_timers (hang_up c p)) \<and> hp_comments (hang_up c p) = hp_comments p"
  by (auto simp: hang_up_def)

text \<open>A stream that has hung up gets no more comments; before the shutdown every stream that gets them also
  gets the pictures.\<close>

theorem comments_spaced:
  assumes "process_reachable host p"
  shows "spaced (hp_comments p)"
    and "\<not> hp_shut p \<Longrightarrow> fst ` set (hp_timers p) \<subseteq> set (sv_clients (hp_server p))"
    and "hp_comments (write_comments now (hang_up c p)) = hp_comments p @ new \<Longrightarrow> c \<notin> fst ` set new"
proof -
  note ok = process_reachable_ok [OF assms]
  show "spaced (hp_comments p)" and "\<not> hp_shut p \<Longrightarrow> fst ` set (hp_timers p) \<subseteq> set (sv_clients (hp_server p))"
    using ok by (auto simp: intervals_ok_def well_timed_def)
  show "c \<notin> fst ` set new" if "hp_comments (write_comments now (hang_up c p)) = hp_comments p @ new"
    using that hang_up_timers [of c p] by (force simp: write_comments_def)
qed

section \<open>The chain of actions\<close>

fun run_tasks :: "'k::linorder server_host \<Rightarrow> nat \<Rightarrow> http_process \<Rightarrow> http_process option" where
  "run_tasks host 0 p = Some p"
| "run_tasks host (Suc n) p = (case run_task host p of None \<Rightarrow> None | Some p1 \<Rightarrow> run_tasks host n p1)"

lemma post_action_answers:
  assumes "a \<noteq> Undeclared"
  shows "\<exists>sv1 response. post_action host a sv = Some (sv1, response) \<and> rs_status response \<in> {200, 400}"
proof -
  have "\<exists>sv1 r. server_execute host (sim_execute (vh_sim host) act) sv = Some (sv1, r)" for act
  proof -
    obtain s r where "sim_execute (vh_sim host) act (sv_simulation sv) = Some (s, r)"
      using returns_execute [of "vh_sim host" act "sv_simulation sv"] by (auto simp: returns_def)
    then show ?thesis by (simp add: server_execute_def)
  qed
  then have "\<exists>sv1 r. run_action host (Declared act) sv = Some (sv1, r)" for act
    by (cases act) (simp_all add: run_action_def)
  moreover have "\<exists>sv1 r. run_action host UnknownType sv = Some (sv1, r)"
    by (cases "sim_publish (vh_sim host) (sv_simulation sv)") (simp add: run_action_def server_execute_def)
  ultimately obtain sv1 r where "run_action host a sv = Some (sv1, r)" using assms by (cases a) fastforce+
  then show ?thesis
    by (cases r) (simp_all add: post_action_def send_error_def send_snapshot_def sendJson_def split: sum.split)
qed

text \<open>Every action that has been enqueued is answered, in the order of their arrival: an action that fails is
  answered with its error and does not break the chain.\<close>

theorem chain_answers_all:
  assumes "\<forall>(c, a) \<in> set (hp_queue p). a \<noteq> Undeclared"
  shows "\<exists>p' new. run_tasks host (length (hp_queue p)) p = Some p' \<and> hp_queue p' = [] \<and>
    hp_answers p' = hp_answers p @ new \<and> map fst new = map fst (hp_queue p) \<and>
    (\<forall>(c, response) \<in> set new. rs_status response \<in> {200, 400})"
  using assms
proof (induction "hp_queue p" arbitrary: p)
  case (Cons x tasks)
  obtain c a where x: "x = (c, a)" by fastforce
  then have "a \<noteq> Undeclared" using Cons by (metis list.set_intros(1) case_prodD)
  then obtain sv response where post: "post_action host a (hp_server p) = Some (sv, response)" "rs_status response \<in> {200, 400}"
    using post_action_answers by blast
  define p1 where "p1 = p\<lparr>hp_server := sv, hp_queue := tasks, hp_answers := hp_answers p @ [(c, response)]\<rparr>"
  have run: "run_task host p = Some p1" using Cons(2) post(1) by (simp add: run_task_def p1_def x flip: Cons(2))
  have "\<forall>(c, a) \<in> set tasks. a \<noteq> Undeclared" using Cons by (metis list.set_intros(2))
  then obtain p' new where "run_tasks host (length tasks) p1 = Some p'" "hp_queue p' = []"
    "hp_answers p' = hp_answers p1 @ new" "map fst new = map fst tasks"
    "\<forall>(c, response) \<in> set new. rs_status response \<in> {200, 400}"
    using Cons(1) [of p1] by (auto simp: p1_def)
  then show ?case using run post(2)
    by (intro exI [of _ p'] exI [of _ "(c, response) # new"]) (simp add: p1_def x flip: Cons(2))
qed simp

section \<open>Shutdown\<close>

lemma create_fresh:
  assumes "sim_create host nodeCount seed = Inr s"
  shows "map_of (lc_live s) m \<noteq> None \<longleftrightarrow> m \<in> set (lc_members s)" and "sm_listeners s = []"
proof -
  obtain s0 s1 where n: "new_simulation seed nodeCount = Inr s0"
    and st: "sim_start_all host (lc_members s0) s0 = (s1, Inr ())"
    and s: "s = fst (sim_publish host (record_event host SystemEvent
              (js (''Started '' @ bigint_to_string nodeCount @ ''-node cluster with seed '' @ bigint_to_string seed)) s1))"
    using assms by (auto simp: sim_create_def split: sum.splits prod.splits)
  note f = new_simulation_facts [OF n]
  have all: "sim_moves host s0 s1" "\<forall>m. map_of (lc_live s1) m \<noteq> None \<longleftrightarrow> m \<in> set (lc_members s0)"
    using start_all_moves [OF st f(3)] f(4) by auto
  have "lc_members s1 = lc_members s0" using moves_keep_replicas [OF all(1)] by (simp add: keeps_replicas_def)
  then show "map_of (lc_live s) m \<noteq> None \<longleftrightarrow> m \<in> set (lc_members s)" using all(2) by (simp add: s)
  have "sm_listeners s0 = []" using n by (auto simp: new_simulation_def Let_def split: option.splits)
  moreover have "sm_listeners s1 = sm_listeners s0" using start_all_calls [OF st] by (simp add: same_calls_def)
  moreover have "sm_listeners s = sm_listeners s1"
    using publish_listeners [of "record_event host k msg s1" host for k msg] record_listeners [of s1 host]
    by (simp add: s calls_listeners_def)
  ultimately show "sm_listeners s = []" by simp
qed

text \<open>A shutdown does not wait for the chain: a reset that is still enqueued when the signal comes builds a new
  simulation, subscribes to it and starts its nodes, and nothing stops them unless another signal comes.\<close>

theorem late_reset_outlives_shutdown:
  assumes q: "hp_queue p = [(c, Declared (ActReset nodeCount seed))]" and n: "nodeCount \<in> {1, 3, 5}"
    and sig: "name \<in> set (hp_signals p)"
  shows "\<exists>p'. run_task host (process_signal host name p) = Some p' \<and> hp_shut p' \<and> hp_queue p' = [] \<and>
    sm_listeners (sv_simulation (hp_server p')) = [0] \<and>
    length (lc_members (sv_simulation (hp_server p'))) = nat nodeCount \<and>
    (\<forall>m \<in> set (lc_members (sv_simulation (hp_server p'))). map_of (lc_live (sv_simulation (hp_server p'))) m \<noteq> None)"
proof -
  obtain s where s: "sim_create (vh_sim host) nodeCount seed = Inr s" using create_all [OF n] by blast
  obtain s1 where s1: "sim_subscribe (vh_sim host) 0 s = (s1, Inr ())"
    using subscribe_Inr [OF sim_reachable.created [OF s]] by blast
  note fresh = create_fresh [OF s]
  have same: "sm_listeners s1 = [0]" "lc_members s1 = lc_members s" "lc_live s1 = lc_live s"
    using s1 fresh(2) by (auto simp: sim_subscribe_def Let_def split: sum.splits)
  have "length (lc_members s) = nat nodeCount" using create_facts(7) [OF s] by simp
  then show ?thesis
    using q sig s s1 same fresh(1)
    by (simp add: run_task_def process_signal_def post_action_def run_action_def server_reset_def Let_def)
qed

end
