(* ===== verification/VisualizerClient.thy ===== *)
theory VisualizerClient
  imports VisualizerServer
begin

text \<open>
  The logic of the page of the visualizer (\<open>packages/raft-visualizer/src/client/App.tsx\<close> and \<open>api.ts\<close>): the state that
  answers and events change, the graph it draws, what its buttons send.  Rendering, the layout on the circle
  (the function \<open>place\<close>) and the gestures are not modelled.
\<close>

section \<open>Answers\<close>

text \<open>\<open>parseResponse\<close>; \<open>None\<close> for a body that the API does not send.\<close>

definition parseResponse :: "http_response \<Rightarrow> (js_string + cluster_snapshot) option" where
  "parseResponse response =
     (if 200 \<le> rs_status response \<and> rs_status response \<le> 299
      then (case rs_body response of SnapshotBody snap \<Rightarrow> Some (Inr snap) | _ \<Rightarrow> None)
      else (case rs_body response of
          ErrorBody msg \<Rightarrow> Some (Inl msg)
        | SnapshotBody snap \<Rightarrow>
            Some (Inl (js (''request failed ('' @ bigint_to_string (rs_status response) @ '')'')))
        | _ \<Rightarrow> None))"

record page =
  ui_snapshot :: "cluster_snapshot option"
  ui_error :: "js_string option"
  ui_selected :: string
  ui_partition :: "string list"
  ui_key :: js_string
  ui_value :: js_string

definition ui_answer :: "js_string + cluster_snapshot \<Rightarrow> page \<Rightarrow> page" where
  "ui_answer r ui = (case r of
     Inr snap \<Rightarrow> ui\<lparr>ui_snapshot := Some snap, ui_error := None\<rparr>
   | Inl msg \<Rightarrow> ui\<lparr>ui_error := Some msg\<rparr>)"

text \<open>The first fetch leaves an error in place.\<close>

definition ui_fetched :: "js_string + cluster_snapshot \<Rightarrow> page \<Rightarrow> page" where
  "ui_fetched r ui = (case r of
     Inr snap \<Rightarrow> ui\<lparr>ui_snapshot := Some snap\<rparr> | Inl msg \<Rightarrow> ui\<lparr>ui_error := Some msg\<rparr>)"

definition ui_event :: "cluster_snapshot \<Rightarrow> page \<Rightarrow> page" where
  "ui_event snap ui = ui\<lparr>ui_snapshot := Some snap, ui_error := None\<rparr>"

section \<open>The graph\<close>

record 'p flow_node =
  fn_id :: string
  fn_position :: 'p
  fn_snapshot :: node_snapshot
  fn_selected :: bool

record flow_edge =
  fe_id :: string
  fe_source :: string
  fe_target :: string
  fe_animated :: bool
  fe_label :: "string option"
  fe_class :: string

definition edge_key :: "string \<Rightarrow> string \<Rightarrow> string" where
  "edge_key from to = from @ '':'' @ to"

definition graph_edge :: "cluster_snapshot \<Rightarrow> node_snapshot \<Rightarrow> node_snapshot \<Rightarrow> flow_edge" where
  "graph_edge snap from to =
     (let partitioned = edge_key (ns_id from) (ns_id to) \<in> set (map (\<lambda>(f, t). edge_key f t) (cs_blockedEdges snap));
          pending = length (filter (\<lambda>m. ms_from m = ns_id from \<and> ms_to m = ns_id to \<or>
            ms_from m = ns_id to \<and> ms_to m = ns_id from) (cs_messages snap))
      in \<lparr>fe_id = ns_id from @ ''-'' @ ns_id to, fe_source = ns_id from, fe_target = ns_id to,
          fe_animated = (0 < pending \<and> \<not> partitioned),
          fe_label = (if 0 < pending then Some (bigint_to_string (int pending)) else None),
          fe_class = (if partitioned then ''partitioned-edge'' else ''healthy-edge'')\<rparr>)"

fun graph_edges :: "cluster_snapshot \<Rightarrow> node_snapshot list \<Rightarrow> flow_edge list" where
  "graph_edges snap [] = []"
| "graph_edges snap (x # xs) = map (graph_edge snap x) xs @ graph_edges snap xs"

definition graph_nodes :: "(nat \<Rightarrow> nat \<Rightarrow> 'p) \<Rightarrow> string \<Rightarrow> cluster_snapshot \<Rightarrow> 'p flow_node list" where
  "graph_nodes place selected snap =
     map (\<lambda>(i, node). \<lparr>fn_id = ns_id node, fn_position = place i (length (cs_nodes snap)), fn_snapshot = node,
            fn_selected = (ns_id node = selected)\<rparr>)
       (enumerate 0 (cs_nodes snap))"

definition buildGraph :: "(nat \<Rightarrow> nat \<Rightarrow> 'p) \<Rightarrow> cluster_snapshot option \<Rightarrow> string \<Rightarrow> 'p flow_node list \<times> flow_edge list"
  where
  "buildGraph place snapshot selected = (case snapshot of
     None \<Rightarrow> ([], [])
   | Some snap \<Rightarrow> (graph_nodes place selected snap, graph_edges snap (cs_nodes snap)))"

text \<open>A node that is already drawn stays where it is.\<close>

definition merge_nodes :: "'p flow_node list \<Rightarrow> 'p flow_node list \<Rightarrow> 'p flow_node list" where
  "merge_nodes next current =
     map (\<lambda>n. case find (\<lambda>x. fn_id x = fn_id n) current of
            None \<Rightarrow> n | Some x \<Rightarrow> n\<lparr>fn_position := fn_position x\<rparr>) next"

definition move_node :: "string \<Rightarrow> 'p \<Rightarrow> 'p flow_node list \<Rightarrow> 'p flow_node list" where
  "move_node i pos nodes = map (\<lambda>n. if fn_id n = i then n\<lparr>fn_position := pos\<rparr> else n) nodes"

section \<open>Buttons\<close>

definition toggle :: "string list \<Rightarrow> string \<Rightarrow> string list" where
  "toggle values val = (if val \<in> set values then filter (\<lambda>x. x \<noteq> val) values else values @ [val])"

definition shown_node :: "page \<Rightarrow> node_snapshot option" where
  "shown_node ui = (case ui_snapshot ui of
     None \<Rightarrow> None | Some snap \<Rightarrow> find (\<lambda>n. ns_id n = ui_selected ui) (cs_nodes snap))"

definition shown_leader :: "page \<Rightarrow> node_snapshot option" where
  "shown_leader ui = (case ui_snapshot ui of
     None \<Rightarrow> None | Some snap \<Rightarrow> find (\<lambda>n. ns_role n = RoleOf Leader) (cs_nodes snap))"

definition put_button :: "page \<Rightarrow> sim_action option" where
  "put_button ui = map_option (\<lambda>l. ActPropose (ns_id l) VerbPut (AText (ui_key ui)) (Some (AText (ui_value ui)))) (shown_leader ui)"

definition delete_button :: "page \<Rightarrow> sim_action option" where
  "delete_button ui = map_option (\<lambda>l. ActPropose (ns_id l) VerbDelete (AText (ui_key ui)) None) (shown_leader ui)"

definition disable_button :: "page \<Rightarrow> sim_action option" where
  "disable_button ui = (case shown_node ui of
     Some n \<Rightarrow> if ns_online n then Some (ActDisable (ui_selected ui)) else None | None \<Rightarrow> None)"

definition restart_button :: "page \<Rightarrow> sim_action option" where
  "restart_button ui = (case shown_node ui of
     Some n \<Rightarrow> if ns_online n then None else Some (ActRestart (ui_selected ui)) | None \<Rightarrow> None)"

section \<open>Sending an action\<close>

text \<open>The object of an action, as the page builds it and \<open>JSON.stringify\<close> prints it.\<close>

definition typed :: "string \<Rightarrow> (string \<times> json) list \<Rightarrow> json" where
  "typed t members = JObject ((js ''type'', JString (js t)) # map (\<lambda>(k, v). (js k, v)) members)"

definition name_json :: "string \<Rightarrow> json" where
  "name_json n = JString (js n)"

fun action_json :: "sim_action \<Rightarrow> json" where
  "action_json (ActReset n seed) = typed ''reset'' [(''nodeCount'', JNumber n 0), (''seed'', JNumber seed 0)]"
| "action_json (ActCampaign n) = typed ''campaign'' [(''nodeId'', name_json n)]"
| "action_json (ActHeartbeat n) = typed ''heartbeat'' [(''nodeId'', name_json n)]"
| "action_json (ActPropose n verb key v) = typed ''propose''
     ([(''nodeId'', name_json n), (''command'', name_json (case verb of VerbPut \<Rightarrow> ''put'' | VerbDelete \<Rightarrow> ''delete'')),
       (''key'', value_json key)] @ (case v of None \<Rightarrow> [] | Some x \<Rightarrow> [(''value'', value_json x)]))"
| "action_json (ActPartition left) = typed ''partition'' [(''left'', JArray (map name_json left))]"
| "action_json ActHeal = typed ''heal'' []"
| "action_json (ActDisable n) = typed ''disable'' [(''nodeId'', name_json n)]"
| "action_json (ActRestart n) = typed ''restart'' [(''nodeId'', name_json n)]"
| "action_json (ActDeliver i) = typed ''deliver'' [(''messageId'', JNumber i 0)]"
| "action_json (ActDrop i) = typed ''drop'' [(''messageId'', JNumber i 0)]"
| "action_json (ActDuplicate i) = typed ''duplicate'' [(''messageId'', JNumber i 0)]"
| "action_json ActReorder = typed ''reorder'' []"
| "action_json ActStep = typed ''step'' []"
| "action_json ActDrain = typed ''drain'' []"

definition sendAction :: "nat \<Rightarrow> sim_action \<Rightarrow> http_request" where
  "sendAction i a = \<lparr>rq_id = i, rq_method = POST, rq_url = ''/api/action'', rq_body = [text_encode (stringify (action_json a))]\<rparr>"

definition fetchSnapshot :: "nat \<Rightarrow> http_request" where
  "fetchSnapshot i = \<lparr>rq_id = i, rq_method = GET, rq_url = ''/api/snapshot'', rq_body = []\<rparr>"

section \<open>Texts\<close>

text \<open>\<open>replace\<close> with a string changes the first occurrence only.\<close>

fun replace_first :: "string \<Rightarrow> string \<Rightarrow> string \<Rightarrow> string" where
  "replace_first pat new [] = (if pat = [] then new else [])"
| "replace_first pat new (c # cs) =
     (if take (length pat) (c # cs) = pat then new @ drop (length pat) (c # cs) else c # replace_first pat new cs)"

definition shortType :: "string \<Rightarrow> string" where
  "shortType val = map (\<lambda>c. if c = CHR ''-'' then CHR '' '' else c)
     (replace_first ''-response'' '' res'' (replace_first ''-request'' '' req'' val))"

fun eventLabel :: "event_kind \<Rightarrow> string" where
  "eventLabel SystemEvent = ''System''"
| "eventLabel ElectionEvent = ''Consensus''"
| "eventLabel CommandEvent = ''Command''"
| "eventLabel NetworkEvent = ''Network''"
| "eventLabel NodeEvent = ''Node''"
| "eventLabel ErrorEvent = ''Error''"

end
