(* ===== verification/PageView.thy ===== *)
theory PageView
  imports VisualizerClient Timeouts
begin

text \<open>
  What the page of the visualizer shows and what its controls do: the elements the components \<open>App\<close>,
  \<open>RaftNodeCard\<close>, \<open>PanelTitle\<close> and \<open>Empty\<close> of \<open>packages/raft-visualizer/src/client/App.tsx\<close> return, and the state
  behind the controls.  A child that React leaves out (\<open>null\<close>, \<open>undefined\<close>) is left out; the keys that React uses
  to match elements are not part of the picture.  The drawing of nodes and edges by \<open>ReactFlow\<close> is the constructor
  \<open>Flow\<close>; how the host prints the time of an event (\<open>toLocaleTimeString\<close>) is a parameter.  The values of a node are listed in the order of the picture; keys that
  look like integers, which JavaScript would list first, are not told apart.
\<close>

section \<open>State behind the controls\<close>

record 'p page_app =
  pa_page :: page
  pa_nodeCount :: int
  pa_seed :: int
  pa_running :: bool
  pa_speed :: int
  pa_timer :: "int option"
  pa_nodes :: "'p flow_node list"
  pa_edges :: "flow_edge list"

definition new_page :: page where
  "new_page = \<lparr>ui_snapshot = None, ui_error = None, ui_selected = ''node-1'', ui_partition = [],
     ui_key = js ''counter'', ui_value = js ''1''\<rparr>"

definition new_app :: "'p page_app" where
  "new_app = \<lparr>pa_page = new_page, pa_nodeCount = 3, pa_seed = 1, pa_running = False, pa_speed = 500,
     pa_timer = None, pa_nodes = [], pa_edges = []\<rparr>"

datatype page_event =
    SetNodeCount int
  | SetSeed int
  | SelectNode string
  | SetKey js_string
  | SetValue js_string
  | TogglePartition string
  | ToggleRunning
  | SetSpeed int

text \<open>The stream of events has been interrupted.\<close>

definition ui_interrupted :: "page \<Rightarrow> page" where
  "ui_interrupted ui = ui\<lparr>ui_error := Some (js ''Live update connection interrupted; reconnecting'' @ [0x2026])\<rparr>"

text \<open>The effect that starts, restarts and stops the interval of automatic steps.\<close>

definition run_effect :: "int \<Rightarrow> 'p page_app \<Rightarrow> 'p page_app" where
  "run_effect now app = app\<lparr>pa_timer := (if pa_running app then Some (now + timer_delay (pa_speed app)) else None)\<rparr>"

fun app_event :: "int \<Rightarrow> page_event \<Rightarrow> 'p page_app \<Rightarrow> 'p page_app" where
  "app_event now (SetNodeCount n) app = app\<lparr>pa_nodeCount := n\<rparr>"
| "app_event now (SetSeed n) app = app\<lparr>pa_seed := n\<rparr>"
| "app_event now (SelectNode n) app = app\<lparr>pa_page := (pa_page app)\<lparr>ui_selected := n\<rparr>\<rparr>"
| "app_event now (SetKey t) app = app\<lparr>pa_page := (pa_page app)\<lparr>ui_key := t\<rparr>\<rparr>"
| "app_event now (SetValue t) app = app\<lparr>pa_page := (pa_page app)\<lparr>ui_value := t\<rparr>\<rparr>"
| "app_event now (TogglePartition n) app =
     app\<lparr>pa_page := (pa_page app)\<lparr>ui_partition := toggle (ui_partition (pa_page app)) n\<rparr>\<rparr>"
| "app_event now ToggleRunning app = run_effect now (app\<lparr>pa_running := \<not> pa_running app\<rparr>)"
| "app_event now (SetSpeed ms) app = run_effect now (app\<lparr>pa_speed := ms\<rparr>)"

text \<open>A turn of the event loop: a due interval sends a step and is armed again.\<close>

definition run_tick :: "int \<Rightarrow> 'p page_app \<Rightarrow> 'p page_app \<times> sim_action option" where
  "run_tick now app =
     (case pa_timer app of
        None \<Rightarrow> (app, None)
      | Some due \<Rightarrow> if now < due then (app, None)
                    else (app\<lparr>pa_timer := Some (now + timer_delay (pa_speed app))\<rparr>, Some ActStep))"

text \<open>The effect that follows a change of the picture or of the selection.\<close>

definition graph_effect :: "(nat \<Rightarrow> nat \<Rightarrow> 'p) \<Rightarrow> 'p page_app \<Rightarrow> 'p page_app" where
  "graph_effect place app =
     (case buildGraph place (ui_snapshot (pa_page app)) (ui_selected (pa_page app)) of
        (nodes, edges) \<Rightarrow> app\<lparr>pa_nodes := merge_nodes nodes (pa_nodes app), pa_edges := edges\<rparr>)"

section \<open>Elements\<close>

text \<open>What a click, a choice or an edit of an element does.\<close>

datatype handler =
    Act sim_action
  | Cause page_event
  | EditNodeCount
  | EditSeed
  | EditKey
  | EditValue
  | ChooseTarget
  | ChooseSpeed

datatype view =
    Txt js_string
  | Elem string "(string \<times> js_string) list" bool "handler option" "view list"
  | Flow "view list" "flow_edge list"

definition el :: "string \<Rightarrow> string \<Rightarrow> view list \<Rightarrow> view" where
  "el tag cls kids = Elem tag [(''className'', js cls)] False None kids"

definition plain :: "string \<Rightarrow> view list \<Rightarrow> view" where
  "plain tag kids = Elem tag [] False None kids"

definition txt_js :: "string \<Rightarrow> view" where
  "txt_js s = Txt (js s)"

definition button :: "string \<Rightarrow> bool \<Rightarrow> handler \<Rightarrow> string \<Rightarrow> view" where
  "button cls disabled h label =
     Elem ''button'' (if cls = '''' then [] else [(''className'', js cls)]) disabled (Some h) [txt_js label]"

definition number_text :: "int \<Rightarrow> js_string" where
  "number_text n = js (bigint_to_string n)"

definition bool_text :: "bool \<Rightarrow> js_string" where
  "bool_text b = js (if b then ''true'' else ''false'')"

definition PanelTitle :: "string \<Rightarrow> js_string \<Rightarrow> view" where
  "PanelTitle eyebrow title = el ''div'' ''panel-title'' [plain ''span'' [txt_js eyebrow], plain ''h2'' [Txt title]]"

definition EmptyNote :: "string \<Rightarrow> view" where
  "EmptyNote t = el ''p'' ''empty'' [txt_js t]"

definition field :: "string \<Rightarrow> (string \<times> js_string) list \<Rightarrow> handler \<Rightarrow> view" where
  "field label attrs h = plain ''label'' [txt_js label, Elem ''input'' attrs False (Some h) []]"

section \<open>The parts of the page\<close>

definition topbar :: "'p page_app \<Rightarrow> view" where
  "topbar app = el ''header'' ''topbar''
     [plain ''div'' [el ''p'' ''eyebrow'' [txt_js ''NODE RAFT RSM''], plain ''h1'' [txt_js ''Raft laboratory'']],
      el ''div'' ''cluster-setup''
        [field ''Nodes'' [(''type'', js ''number''), (''min'', js ''1''), (''max'', js ''9''),
            (''value'', number_text (pa_nodeCount app))] EditNodeCount,
         field ''Seed'' [(''type'', js ''number''), (''value'', number_text (pa_seed app))] EditSeed,
         button ''primary'' False (Act (ActReset (pa_nodeCount app) (pa_seed app))) ''New cluster'']]"

definition error_banner :: "page \<Rightarrow> view list" where
  "error_banner ui = (case ui_error ui of
     None \<Rightarrow> [] | Some msg \<Rightarrow> [el ''div'' ''error-banner'' [Txt msg]])"

definition shown_nodes :: "page \<Rightarrow> node_snapshot list" where
  "shown_nodes ui = (case ui_snapshot ui of None \<Rightarrow> [] | Some snap \<Rightarrow> cs_nodes snap)"

definition shown_messages :: "page \<Rightarrow> message_snapshot list" where
  "shown_messages ui = (case ui_snapshot ui of None \<Rightarrow> [] | Some snap \<Rightarrow> cs_messages snap)"

definition shown_events :: "page \<Rightarrow> timeline_event list" where
  "shown_events ui = (case ui_snapshot ui of None \<Rightarrow> [] | Some snap \<Rightarrow> cs_events snap)"

definition node_controls :: "page \<Rightarrow> view list" where
  "node_controls ui =
     [PanelTitle ''CONTROL'' (js ''Simulation''),
      plain ''label'' [txt_js ''Target node'',
        Elem ''select'' [(''value'', js (ui_selected ui))] False (Some ChooseTarget)
          (map (\<lambda>n. plain ''option'' [txt_js (ns_id n)]) (shown_nodes ui))],
      el ''div'' ''button-grid''
        [Elem ''button'' [(''title'', js ''Immediately start a Raft leader election on the selected node'')] False
           (Some (Act (ActCampaign (ui_selected ui)))) [txt_js ''Start election''],
         button '''' False (Act (ActHeartbeat (ui_selected ui))) ''Heartbeat'',
         button '''' (disable_button ui = None) (Act (ActDisable (ui_selected ui))) ''Disable'',
         button '''' (restart_button ui = None) (Act (ActRestart (ui_selected ui))) ''Restart'']] @
     (if shown_leader ui = None
      then [el ''p'' ''control-hint'' [txt_js ''Start an election and deliver the vote messages first.'']] else [])"

text \<open>A button that needs a leader is disabled without one, and its handler then does nothing.\<close>

definition leader_button :: "string \<Rightarrow> sim_action option \<Rightarrow> string \<Rightarrow> view" where
  "leader_button cls action label =
     Elem ''button'' (if cls = '''' then [] else [(''className'', js cls)]) (action = None)
       (map_option Act action) [txt_js label]"

definition propose_controls :: "page \<Rightarrow> view list" where
  "propose_controls ui =
     [el ''div'' ''separator'' [], el ''p'' ''field-title'' [txt_js ''Propose KV command''],
      field ''Key'' [(''value'', ui_key ui)] EditKey, field ''Value'' [(''value'', ui_value ui)] EditValue,
      el ''div'' ''button-grid''
        [leader_button ''primary'' (put_button ui) ''Put'', leader_button '''' (delete_button ui) ''Delete'']]"

definition partition_controls :: "page \<Rightarrow> view list" where
  "partition_controls ui =
     [el ''div'' ''separator'' [], el ''p'' ''field-title'' [txt_js ''Partition group A''],
      el ''div'' ''check-list''
        (map (\<lambda>n. el ''label'' ''check''
            [Elem ''input'' [(''type'', js ''checkbox''), (''checked'', bool_text (ns_id n \<in> set (ui_partition ui)))]
               False (Some (Cause (TogglePartition (ns_id n)))) [], txt_js (ns_id n)]) (shown_nodes ui)),
      el ''div'' ''button-grid''
        [button '''' False (Act (ActPartition (ui_partition ui))) ''Partition'',
         button '''' False (Act ActHeal) ''Heal'']]"

definition MIDDLE_DOT :: js_string where
  "MIDDLE_DOT = [0x20, 0xB7, 0x20]"

definition stage_toolbar :: "'p page_app \<Rightarrow> view" where
  "stage_toolbar app = el ''div'' ''stage-toolbar''
     [el ''div'' ''legend''
        [el ''i'' ''leader'' [], txt_js '' Leader '', el ''i'' ''candidate'' [], txt_js '' Candidate'', txt_js '' '',
         el ''i'' ''follower'' [], txt_js '' Follower '', el ''i'' ''offline'' [], txt_js '' Offline''],
      el ''span'' ''interaction-guide'' [Txt (js ''Click to select'' @ MIDDLE_DOT @ js ''hold to move'')],
      el ''div'' ''run-controls''
        [button '''' False (Act ActStep) ''Step'', button '''' False (Act ActDrain) ''Drain'',
         button (if pa_running app then ''danger'' else ''primary'') False (Cause ToggleRunning)
           (if pa_running app then ''Pause'' else ''Auto run''),
         Elem ''select'' [(''aria-label'', js ''Run speed''), (''value'', number_text (pa_speed app))] False (Some ChooseSpeed)
           [Elem ''option'' [(''value'', js ''1000'')] False None [Txt (js ''1'' @ [0xD7])],
            Elem ''option'' [(''value'', js ''500'')] False None [Txt (js ''2'' @ [0xD7])],
            Elem ''option'' [(''value'', js ''150'')] False None [txt_js ''Fast'']]]]"

definition message_row :: "message_snapshot \<Rightarrow> view" where
  "message_row m = el ''article'' ''message''
     [plain ''div'' [plain ''strong'' [txt_js ''#'', Txt (number_text (ms_id m)), txt_js '' '', txt_js (shortType (ms_type m))],
        plain ''span'' [txt_js ''T'', txt_js (ms_term m)]],
      plain ''p'' [txt_js (ms_from m), Txt arrow, txt_js (ms_to m)],
      plain ''small'' [txt_js (ms_detail m)],
      el ''div'' ''mini-actions''
        [button '''' False (Act (ActDeliver (ms_id m))) ''Deliver'',
         button '''' False (Act (ActDuplicate (ms_id m))) ''Copy'',
         button '''' False (Act (ActDrop (ms_id m))) ''Drop'']]"

definition count_text :: "page \<Rightarrow> (page \<Rightarrow> 'a list) \<Rightarrow> js_string" where
  "count_text ui xs = number_text (int (length (xs ui)))"

definition message_list :: "page \<Rightarrow> view list" where
  "message_list ui =
     [PanelTitle ''TRACE'' (js ''Messages'' @ MIDDLE_DOT @ count_text ui shown_messages),
      el ''div'' ''message-list'' (case ui_snapshot ui of
          None \<Rightarrow> []
        | Some snap \<Rightarrow> if cs_messages snap = [] then [EmptyNote ''Queue is empty'']
                       else map message_row (cs_messages snap)),
      button ''wide'' (length (shown_messages ui) < 2) (Act ActReorder) ''Reverse queue'']"

fun kind_class :: "event_kind \<Rightarrow> string" where
  "kind_class SystemEvent = ''system''"
| "kind_class ElectionEvent = ''election''"
| "kind_class CommandEvent = ''command''"
| "kind_class NetworkEvent = ''network''"
| "kind_class NodeEvent = ''node''"
| "kind_class ErrorEvent = ''error''"

definition timeline_row :: "(string \<Rightarrow> js_string) \<Rightarrow> timeline_event \<Rightarrow> view" where
  "timeline_row formatEventTime e = el ''div'' (''timeline-event '' @ kind_class (te_kind e))
     [plain ''i'' [], el ''div'' ''timeline-content''
       [el ''div'' ''timeline-meta''
          [plain ''strong'' [txt_js (eventLabel (te_kind e))], plain ''time'' [Txt (formatEventTime (te_at e))]],
        plain ''p'' [Txt (te_message e)]]]"

definition timeline :: "(string \<Rightarrow> js_string) \<Rightarrow> page \<Rightarrow> view list" where
  "timeline formatEventTime ui =
     [el ''div'' ''separator'' [],
      el ''div'' ''timeline-heading'' [PanelTitle ''EVENTS'' (js ''Timeline''),
        plain ''span'' [Txt (count_text ui shown_events), Txt (js '' events'' @ MIDDLE_DOT @ js ''newest first'')]],
      el ''div'' ''timeline'' (map (timeline_row formatEventTime) (rev (shown_events ui)))]"

fun role_class :: "node_role \<Rightarrow> string" where
  "role_class (RoleOf Leader) = ''leader''"
| "role_class (RoleOf Candidate) = ''candidate''"
| "role_class (RoleOf Follower) = ''follower''"
| "role_class Offline = ''offline''"

definition RaftNodeCard :: "bool \<Rightarrow> 'p flow_node \<Rightarrow> view" where
  "RaftNodeCard moving node =
     (let snap = fn_snapshot node; pair = (\<lambda>name val. plain ''div'' [plain ''dt'' [txt_js name], plain ''dd'' [txt_js val]])
      in Elem ''div''
        [(''className'', js (''raft-node nodrag nopan '' @ role_class (ns_role snap) @
            (if fn_selected node then '' selected'' else '''') @ (if moving then '' moving'' else ''''))),
         (''role'', js ''button''), (''tabIndex'', js ''0''), (''aria-pressed'', bool_text (fn_selected node)),
         (''title'', js ''Click to select. Hold to move.'')]
        False (Some (Cause (SelectNode (fn_id node))))
        [Elem ''Handle'' [(''type'', js ''target'')] False None [],
         el ''div'' ''node-head''
           [el ''span'' ''role-dot'' [], plain ''strong'' [txt_js (ns_id snap)], plain ''em'' [txt_js (role_class (ns_role snap))]],
         el ''div'' ''term'' [txt_js ''TERM '', plain ''b'' [txt_js (ns_term snap)]],
         plain ''dl'' [pair ''Log'' (ns_lastLogIndex snap), pair ''Commit'' (ns_commitIndex snap),
           pair ''Applied'' (ns_appliedIndex snap)],
         el ''div'' ''state-values''
           (if ns_values snap = [] then [Txt (js ''state: '' @ [0x2205])]
            else map (\<lambda>(k, v). plain ''span'' [Txt k, txt_js '' = '', Txt v]) (ns_values snap)),
         Elem ''Handle'' [(''type'', js ''source'')] False None []])"

definition App_view :: "(string \<Rightarrow> js_string) \<Rightarrow> (string \<Rightarrow> bool) \<Rightarrow> 'p page_app \<Rightarrow> view" where
  "App_view formatEventTime moving app =
     (let ui = pa_page app in el ''main'' ''app-shell''
       ([topbar app] @ error_banner ui @
        [el ''section'' ''workspace''
          [el ''aside'' ''panel controls-panel'' (node_controls ui @ propose_controls ui @ partition_controls ui),
           el ''section'' ''cluster-stage''
             [stage_toolbar app, Flow (map (\<lambda>n. RaftNodeCard (moving (fn_id n)) n) (pa_nodes app)) (pa_edges app)],
           el ''aside'' ''panel events-panel'' (message_list ui @ timeline formatEventTime ui)]]))"

text \<open>The actions that clicks on the enabled elements send, in the order of the page.\<close>

fun clicks :: "view \<Rightarrow> sim_action list" where
  "clicks (Txt t) = []"
| "clicks (Elem tag attrs disabled h kids) =
     (if disabled then [] else case h of Some (Act a) \<Rightarrow> [a] | _ \<Rightarrow> []) @ concat (map clicks kids)"
| "clicks (Flow cards edges) = concat (map clicks cards)"

end
