(* ===== verification/Gestures.thy ===== *)
theory Gestures
  imports PageView
begin

text \<open>
  The gestures on a node of the graph: the pointer handlers of \<open>RaftNodeCard\<close> in
  \<open>packages/raft-visualizer/src/client/App.tsx\<close>.  A press that is held still becomes a drag, one that moves does not.
  Positions are in whole units; \<open>toFlow\<close> (\<open>screenToFlowPosition\<close> of the graph library) turns a position on the screen
  into one on the graph.  The capture of the pointer by the element is not modelled.
\<close>

type_synonym point = "int \<times> int"

definition point_minus :: "point \<Rightarrow> point \<Rightarrow> point" where
  "point_minus p q = (fst p - fst q, snd p - snd q)"

text \<open>\<open>Math.hypot(dx, dy) > 6\<close>, squared.\<close>

definition moved_away :: "point \<Rightarrow> point \<Rightarrow> bool" where
  "moved_away p q \<longleftrightarrow> 36 < (fst p - fst q) * (fst p - fst q) + (snd p - snd q) * (snd p - snd q)"

record drag =
  dr_pointerId :: int
  dr_offset :: point
  dr_start :: point
  dr_active :: bool
  dr_cancelled :: bool

record card =
  cd_drag :: "drag option"
  cd_longPress :: "int option"
  cd_moving :: bool

definition new_card :: card where
  "new_card = \<lparr>cd_drag = None, cd_longPress = None, cd_moving = False\<rparr>"

text \<open>What a handler tells the page: the calls of \<open>onSelect\<close> and \<open>onMove\<close>.\<close>

datatype card_call = OnSelect | OnMove point

definition clearLongPress :: "card \<Rightarrow> card" where
  "clearLongPress cd = cd\<lparr>cd_longPress := None\<rparr>"

text \<open>\<open>position\<close> is the position of the node, if the graph has it.\<close>

definition handlePointerDown :: "(point \<Rightarrow> point) \<Rightarrow> int \<Rightarrow> int \<Rightarrow> int \<Rightarrow> point \<Rightarrow> point option \<Rightarrow> card \<Rightarrow> card" where
  "handlePointerDown toFlow now btn pointerId client position cd =
     (if btn \<noteq> 0 then cd
      else case position of
        None \<Rightarrow> cd
      | Some pos \<Rightarrow>
          (clearLongPress (cd\<lparr>cd_drag := Some \<lparr>dr_pointerId = pointerId,
              dr_offset = point_minus (toFlow client) pos, dr_start = client,
              dr_active = False, dr_cancelled = False\<rparr>\<rparr>))\<lparr>cd_longPress := Some (now + timer_delay 400)\<rparr>)"

text \<open>The callback of the timer of the long press.\<close>

definition long_press :: "card \<Rightarrow> card \<times> card_call list" where
  "long_press cd =
     (case cd_drag cd of
        None \<Rightarrow> (cd, [])
      | Some current \<Rightarrow>
          if dr_cancelled current then (cd, [])
          else (cd\<lparr>cd_drag := Some (current\<lparr>dr_active := True\<rparr>), cd_moving := True\<rparr>, [OnSelect]))"

definition card_turn :: "int \<Rightarrow> card \<Rightarrow> card \<times> card_call list" where
  "card_turn now cd =
     (case cd_longPress cd of
        None \<Rightarrow> (cd, [])
      | Some due \<Rightarrow> if now < due then (cd, []) else long_press (cd\<lparr>cd_longPress := None\<rparr>))"

definition handlePointerMove :: "(point \<Rightarrow> point) \<Rightarrow> point \<Rightarrow> card \<Rightarrow> card \<times> card_call list" where
  "handlePointerMove toFlow client cd =
     (case cd_drag cd of
        None \<Rightarrow> (cd, [])
      | Some current \<Rightarrow>
          if \<not> dr_active current
          then if moved_away client (dr_start current)
            then (clearLongPress (cd\<lparr>cd_drag := Some (current\<lparr>dr_cancelled := True\<rparr>)\<rparr>), [])
            else (cd, [])
          else (cd, [OnMove (point_minus (toFlow client) (dr_offset current))]))"

definition finishPointer :: "card \<Rightarrow> card" where
  "finishPointer cd = (clearLongPress cd)\<lparr>cd_drag := None, cd_moving := False\<rparr>"

text \<open>A click and the keys that stand for it.\<close>

definition handle_click :: "card \<Rightarrow> card \<times> card_call list" where
  "handle_click cd = (cd, [OnSelect])"

definition handle_key :: "string \<Rightarrow> card \<Rightarrow> card \<times> card_call list" where
  "handle_key key cd = (cd, if key = ''Enter'' \<or> key = '' '' then [OnSelect] else [])"

section \<open>A sequence of events on one node\<close>

datatype card_event =
    Press int int int point "point option"
  | Move point
  | Release
  | Turn int
  | Click
  | Key string

fun on_card :: "(point \<Rightarrow> point) \<Rightarrow> card_event \<Rightarrow> card \<Rightarrow> card \<times> card_call list" where
  "on_card toFlow (Press now btn pointerId client position) cd =
     (handlePointerDown toFlow now btn pointerId client position cd, [])"
| "on_card toFlow (Move client) cd = handlePointerMove toFlow client cd"
| "on_card toFlow Release cd = (finishPointer cd, [])"
| "on_card toFlow (Turn now) cd = card_turn now cd"
| "on_card toFlow Click cd = handle_click cd"
| "on_card toFlow (Key key) cd = handle_key key cd"

fun card_run :: "(point \<Rightarrow> point) \<Rightarrow> card_event list \<Rightarrow> card \<Rightarrow> card \<times> card_call list" where
  "card_run toFlow [] cd = (cd, [])"
| "card_run toFlow (e # es) cd =
     (case on_card toFlow e cd of (cd1, calls) \<Rightarrow>
       (case card_run toFlow es cd1 of (cd2, rest) \<Rightarrow> (cd2, calls @ rest)))"

text \<open>The page carries out a call.\<close>

fun call_page :: "string \<Rightarrow> card_call \<Rightarrow> point page_app \<Rightarrow> point page_app" where
  "call_page i OnSelect app = app\<lparr>pa_page := (pa_page app)\<lparr>ui_selected := i\<rparr>\<rparr>"
| "call_page i (OnMove pos) app = app\<lparr>pa_nodes := move_node i pos (pa_nodes app)\<rparr>"

definition call_all :: "string \<Rightarrow> card_call list \<Rightarrow> point page_app \<Rightarrow> point page_app" where
  "call_all i calls app = fold (call_page i) calls app"

section \<open>What holds of every card\<close>

text \<open>The timer of a long press runs only for a drag that has neither started nor been cancelled; an active drag is
  shown as moving.\<close>

definition card_ok :: "card \<Rightarrow> bool" where
  "card_ok cd \<longleftrightarrow>
     (case cd_drag cd of
        None \<Rightarrow> cd_longPress cd = None \<and> \<not> cd_moving cd
      | Some d \<Rightarrow> (dr_active d \<longrightarrow> \<not> dr_cancelled d \<and> cd_moving cd) \<and>
                  (cd_longPress cd \<noteq> None \<longrightarrow> \<not> dr_active d \<and> \<not> dr_cancelled d))"

lemma new_card_ok: "card_ok new_card"
  by (simp add: card_ok_def new_card_def)

lemma on_card_ok: "card_ok cd \<Longrightarrow> card_ok (fst (on_card toFlow e cd))"
  by (cases e; cases "cd_drag cd")
    (auto simp: card_ok_def handlePointerDown_def handlePointerMove_def finishPointer_def clearLongPress_def
      card_turn_def long_press_def handle_click_def handle_key_def split: option.splits if_splits)

lemma card_run_ok: "card_ok cd \<Longrightarrow> card_ok (fst (card_run toFlow es cd))"
proof (induction es arbitrary: cd)
  case (Cons e es)
  then have "card_ok (fst (on_card toFlow e cd))" by (intro on_card_ok)
  then show ?case using Cons.IH [of "fst (on_card toFlow e cd)"] by (simp add: case_prod_beta)
qed simp

lemma card_run_append:
  "card_run toFlow (xs @ ys) cd = (case card_run toFlow xs cd of (cd1, calls) \<Rightarrow>
     (case card_run toFlow ys cd1 of (cd2, rest) \<Rightarrow> (cd2, calls @ rest)))"
  by (induction xs arbitrary: cd) (simp_all split: prod.split)

section \<open>Press, hold, drag\<close>

definition pressed :: "(point \<Rightarrow> point) \<Rightarrow> int \<Rightarrow> point \<Rightarrow> point \<Rightarrow> card \<Rightarrow> bool" where
  "pressed toFlow due client pos cd \<longleftrightarrow> cd_longPress cd = Some due \<and>
     (case cd_drag cd of None \<Rightarrow> False
      | Some d \<Rightarrow> dr_start d = client \<and> dr_offset d = point_minus (toFlow client) pos \<and>
                  \<not> dr_active d \<and> \<not> dr_cancelled d)"

lemma press_pressed:
  "pressed toFlow (now + 400) client pos (handlePointerDown toFlow now 0 pointerId client (Some pos) cd)"
  by (simp add: handlePointerDown_def pressed_def clearLongPress_def)

text \<open>Before the long press is due, small movements and turns of the event loop change nothing.\<close>

definition still :: "int \<Rightarrow> point \<Rightarrow> card_event \<Rightarrow> bool" where
  "still due client e \<longleftrightarrow> (case e of Move p \<Rightarrow> \<not> moved_away p client | Turn t \<Rightarrow> t < due | _ \<Rightarrow> False)"

lemma still_pressed:
  "list_all (still due client) es \<Longrightarrow> pressed toFlow due client pos cd \<Longrightarrow> card_run toFlow es cd = (cd, [])"
proof (induction es)
  case (Cons e es)
  then have "on_card toFlow e cd = (cd, [])"
    by (cases e) (auto simp: still_def pressed_def handlePointerMove_def card_turn_def split: option.splits)
  then show ?case using Cons by simp
qed simp

definition dragging :: "(point \<Rightarrow> point) \<Rightarrow> point \<Rightarrow> point \<Rightarrow> card \<Rightarrow> bool" where
  "dragging toFlow client pos cd \<longleftrightarrow> cd_longPress cd = None \<and>
     (case cd_drag cd of None \<Rightarrow> False
      | Some d \<Rightarrow> dr_offset d = point_minus (toFlow client) pos \<and> dr_active d)"

lemma held_dragging:
  assumes "pressed toFlow due client pos cd" and "due \<le> now"
  shows "\<exists>cd'. card_turn now cd = (cd', [OnSelect]) \<and> dragging toFlow client pos cd'"
  using assms by (auto simp: pressed_def card_turn_def long_press_def dragging_def split: option.splits)

definition dragged_to :: "(point \<Rightarrow> point) \<Rightarrow> point \<Rightarrow> point \<Rightarrow> point \<Rightarrow> point" where
  "dragged_to toFlow client pos p = point_minus (toFlow p) (point_minus (toFlow client) pos)"

lemma dragging_moves:
  "dragging toFlow client pos cd \<Longrightarrow>
    card_run toFlow (map Move ps) cd = (cd, map (\<lambda>p. OnMove (dragged_to toFlow client pos p)) ps)"
  by (induction ps) (auto simp: dragging_def handlePointerMove_def dragged_to_def split: option.splits)

section \<open>Press, move away\<close>

definition called_off :: "card \<Rightarrow> bool" where
  "called_off cd \<longleftrightarrow> cd_longPress cd = None \<and>
     (case cd_drag cd of None \<Rightarrow> True | Some d \<Rightarrow> dr_cancelled d \<and> \<not> dr_active d)"

lemma moved_called_off:
  assumes "pressed toFlow due client pos cd" and "moved_away p client"
  shows "\<exists>cd'. handlePointerMove toFlow p cd = (cd', []) \<and> called_off cd'"
  using assms by (auto simp: pressed_def handlePointerMove_def clearLongPress_def called_off_def split: option.splits)

definition no_press :: "card_event \<Rightarrow> bool" where
  "no_press e \<longleftrightarrow> (case e of Move p \<Rightarrow> True | Turn t \<Rightarrow> True | Release \<Rightarrow> True | _ \<Rightarrow> False)"

lemma called_off_step:
  "no_press e \<Longrightarrow> called_off cd \<Longrightarrow> snd (on_card toFlow e cd) = [] \<and> called_off (fst (on_card toFlow e cd))"
  by (cases e; cases "cd_drag cd") (auto simp: no_press_def called_off_def handlePointerMove_def card_turn_def
      finishPointer_def clearLongPress_def split: option.splits)

lemma called_off_quiet:
  "list_all no_press es \<Longrightarrow> called_off cd \<Longrightarrow> snd (card_run toFlow es cd) = [] \<and> called_off (fst (card_run toFlow es cd))"
proof (induction es arbitrary: cd)
  case (Cons e es)
  then show ?case using called_off_step [of e cd toFlow] Cons.IH [of "fst (on_card toFlow e cd)"]
    by (simp add: case_prod_beta)
qed simp

end
