(* ===== verification/ClientTheorems.thy ===== *)
theory ClientTheorems
  imports VisualizerClient ServerTheorems
begin

text \<open>
  The properties of the page: the graph it draws is the network, and the node its buttons address.
\<close>

section \<open>The graph\<close>

text \<open>The pairs in the order of the two loops.\<close>

fun pairs :: "'a list \<Rightarrow> ('a \<times> 'a) list" where
  "pairs [] = []"
| "pairs (x # xs) = map (Pair x) xs @ pairs xs"

lemma edge_key_eq:
  assumes "valid_id f" and "valid_id f'"
  shows "edge_key f t = edge_key f' t' \<longleftrightarrow> f = f' \<and> t = t'"
proof -
  have colon: "CHR '':'' \<notin> set n" if "valid_id n" for n
  proof -
    have "\<not> is_id_char (CHR '':'')" "\<not> is_alnum (CHR '':'')" by code_simp+
    then show ?thesis using that by (cases n) (auto simp: list_all_iff)
  qed
  have "takeWhile (\<lambda>c. c \<noteq> CHR '':'') (edge_key n u) = n" "dropWhile (\<lambda>c. c \<noteq> CHR '':'') (edge_key n u) = CHR '':'' # u"
    if "valid_id n" for n u
    using colon [OF that] by (auto simp: edge_key_def takeWhile_append dropWhile_append)
  then show ?thesis using assms by (metis list.inject)
qed

lemma graph_edges_pairs: "graph_edges snap xs = map (\<lambda>(a, b). graph_edge snap a b) (pairs xs)"
  by (induction xs) simp_all

lemma pairs_map: "map (\<lambda>(a, b). (f a, f b)) (pairs xs) = pairs (map f xs)"
  by (induction xs) simp_all

lemma pairs_set: "(a, b) \<in> set (pairs xs) \<Longrightarrow> a \<in> set xs \<and> b \<in> set xs"
  by (induction xs) auto

lemma graph_ends:
  "map (\<lambda>e. (fe_source e, fe_target e)) (graph_edges snap (cs_nodes snap)) = pairs (map ns_id (cs_nodes snap))"
  by (simp add: graph_edges_pairs graph_edge_def Let_def comp_def case_prod_beta pairs_map [symmetric])

lemma graph_class:
  assumes "e \<in> set (graph_edges snap (cs_nodes snap))" and "\<forall>x \<in> set (cs_nodes snap). valid_id (ns_id x)"
    and "\<forall>(f, t) \<in> set (cs_blockedEdges snap). valid_id f"
  shows "fe_class e = ''partitioned-edge'' \<longleftrightarrow> (fe_source e, fe_target e) \<in> set (cs_blockedEdges snap)"
    and "fe_source e \<in> ns_id ` set (cs_nodes snap) \<and> fe_target e \<in> ns_id ` set (cs_nodes snap)"
proof -
  obtain a b where ab: "(a, b) \<in> set (pairs (cs_nodes snap))" and e: "e = graph_edge snap a b"
    using assms(1) by (auto simp: graph_edges_pairs)
  note n = pairs_set [OF ab]
  have v: "valid_id (ns_id a)" using n assms(2) by blast
  have "edge_key (ns_id a) (ns_id b) = edge_key f t \<longleftrightarrow> (ns_id a, ns_id b) = (f, t)"
    if "(f, t) \<in> set (cs_blockedEdges snap)" for f t
    using edge_key_eq [OF v, of f "ns_id b" t] assms(3) that by auto
  then have "edge_key (ns_id a) (ns_id b) \<in> set (map (\<lambda>(f, t). edge_key f t) (cs_blockedEdges snap)) \<longleftrightarrow>
      (ns_id a, ns_id b) \<in> set (cs_blockedEdges snap)"
    unfolding set_map image_iff by (metis (mono_tags, lifting) case_prod_conv surj_pair)
  then show "fe_class e = ''partitioned-edge'' \<longleftrightarrow> (fe_source e, fe_target e) \<in> set (cs_blockedEdges snap)"
    by (simp add: e graph_edge_def Let_def)
  show "fe_source e \<in> ns_id ` set (cs_nodes snap) \<and> fe_target e \<in> ns_id ` set (cs_nodes snap)"
    using n by (simp add: e graph_edge_def Let_def)
qed

section \<open>Actions on the wire\<close>

lemma unit_of_char: "unat (of_char c :: 16 word) = of_char c"
proof -
  have "(of_char c :: 16 word) = of_nat (of_char c)" by (rule of_nat_of_char [symmetric])
  then have "unat (of_char c :: 16 word) = of_char c mod 2 ^ 16" by (simp add: unat_of_nat del: of_nat_of_char)
  then show ?thesis using nat_of_char_less_256 [of c] by simp
qed

lemma js_inject [simp]: "js s = js t \<longleftrightarrow> s = t"
proof -
  have "inj (of_char :: char \<Rightarrow> 16 word)"
    by (rule injI) (metis char_of_char unit_of_char)
  then show ?thesis by (simp add: js_def inj_map_eq_map)
qed

definition ascii_name :: "string \<Rightarrow> bool" where
  "ascii_name n \<longleftrightarrow> (\<forall>c \<in> set n. (of_char c :: nat) < 0x80)"

lemma name_of_js: "ascii_name n \<Longrightarrow> name_of (js n) = n"
proof -
  assume n: "ascii_name n"
  have "(of_char c :: 16 word) < 0x80" if "c \<in> set n" for c
    using n that by (simp add: ascii_name_def word_less_nat_alt unit_of_char)
  then show ?thesis by (simp add: name_of_def js_def unit_of_char comp_def)
qed

lemma buffer_json:
  assumes "json_ok v"
  shows "json_parse (buffer_text (text_encode (stringify v))) = Some v"
proof -
  obtain u us where u: "stringify v = u # us" "u < 0x80" using stringify_ascii_start by blast
  note wf = stringify_well_formed [of v, unfolded u(1)]
  have "buffer_text (text_encode (u # us)) = concat (map units_of (scalars (u # us)))"
    using run_of_text [OF wf] by (simp add: buffer_text_def or_else_def comp_def)
  then have "buffer_text (text_encode (stringify v)) = stringify v" using well_formed_units [OF wf] u(1) by simp
  then show ?thesis using parse_stringify [OF assms] by simp
qed

fun value_ok :: "action_value \<Rightarrow> bool" where
  "value_ok (AText t) = True"
| "value_ok (ANumber n) = (\<bar>n\<bar> < 2 ^ 53)"

fun action_ok :: "sim_action \<Rightarrow> bool" where
  "action_ok (ActReset n seed) = (\<bar>n\<bar> < 2 ^ 53 \<and> \<bar>seed\<bar> < 2 ^ 53)"
| "action_ok (ActPropose n verb key v) = (ascii_name n \<and> value_ok key \<and>
     (case v of None \<Rightarrow> True | Some x \<Rightarrow> verb = VerbPut \<and> value_ok x))"
| "action_ok (ActPartition left) = (\<forall>n \<in> set left. ascii_name n)"
| "action_ok (ActCampaign n) = ascii_name n"
| "action_ok (ActHeartbeat n) = ascii_name n"
| "action_ok (ActDisable n) = ascii_name n"
| "action_ok (ActRestart n) = ascii_name n"
| "action_ok (ActDeliver i) = (\<bar>i\<bar> < 2 ^ 53)"
| "action_ok (ActDrop i) = (\<bar>i\<bar> < 2 ^ 53)"
| "action_ok (ActDuplicate i) = (\<bar>i\<bar> < 2 ^ 53)"
| "action_ok a = True"

lemma value_json_ok: "json_ok (value_json v)"
  by (cases v) simp_all

lemma action_json_ok: "json_ok (action_json a)"
  by (cases a) (auto simp: typed_def name_json_def value_json_ok list_all_iff split: option.split kv_verb.split)

lemma typed_property:
  "get_property k (typed t members) = (if k = ''type'' then Some (JString (js t)) else map_of members k)"
proof -
  have "map_of (map (\<lambda>(k, v). (js k, v)) members) (js k) = map_of members k"
    by (induction members) auto
  then show ?thesis by (simp add: get_property_def typed_def)
qed

lemma value_prop_json: "value_ok v \<Longrightarrow> get_property k j = Some (value_json v) \<Longrightarrow> value_prop k j = Some v"
  by (cases v) (simp_all add: value_prop_def)

lemma names_json: "\<forall>n \<in> set left. ascii_name n \<Longrightarrow> read_names (Some (JArray (map name_json left))) = Some left"
  by (auto simp: read_names_def name_json_def name_of_js intro!: map_idI)

lemma read_action_json: "action_ok a \<Longrightarrow> read_action (action_json a) = Declared a"
proof (cases a)
  case (ActPropose n verb key v)
  assume ok: "action_ok a"
  let ?j = "action_json a"
  have g: "get_property ''nodeId'' ?j = Some (JString (js n))" "get_property ''key'' ?j = Some (value_json key)"
    "get_property ''type'' ?j = Some (JString (js ''propose''))"
    "get_property ''command'' ?j = Some (JString (js (case verb of VerbPut \<Rightarrow> ''put'' | VerbDelete \<Rightarrow> ''delete'')))"
    "get_property ''value'' ?j = map_option value_json v"
    by (simp_all add: ActPropose typed_property name_json_def split: option.split)
  have "value_prop ''key'' ?j = Some key" using ok value_prop_json [OF _ g(2)] by (simp add: ActPropose)
  moreover have "v = Some x \<Longrightarrow> value_prop ''value'' ?j = Some x" for x
    using ok value_prop_json [of x "''value''" ?j] g(5) by (simp add: ActPropose)
  moreover have "v = Some x \<Longrightarrow> value_json x \<noteq> JNull" for x by (cases x) simp_all
  moreover have "name_of (js n) = n" using ok name_of_js by (simp add: ActPropose)
  ultimately show ?thesis
    using ok g
    by (cases verb; cases v) (simp_all add: read_action_def read_propose_def string_prop_def declared_def Let_def ActPropose del: action_json.simps)
qed (auto simp: read_action_def typed_property string_prop_def int_prop_def declared_def name_json_def name_of_js names_json Let_def)

text \<open>C14: What the page sends is what the server executes: the object of an action of the page, printed, encoded and
  cut into chunks in any way, is read back as the same action, as long as it is not longer than 64 KiB; a longer
  body is refused.\<close>

theorem action_round_trip:
  assumes "action_ok a" and "concat chunks = text_encode (stringify (action_json a))"
  shows "if length (concat chunks) \<le> 64 * 1024
    then readJson chunks = Inr (action_json a) \<and> validateAction (action_json a) = Inr (action_json a) \<and>
      read_action (action_json a) = Declared a
    else readJson chunks = Inl (js ''request body is too large'')"
proof (cases "length (concat chunks) \<le> 64 * 1024")
  case True
  have "read_chunks 0 chunks = Inr (text_encode (stringify (action_json a)))"
    using True assms(2) read_chunks_limit [of 0 chunks] by simp
  then have "readJson chunks = Inr (action_json a)" by (simp add: readJson_def buffer_json action_json_ok)
  moreover have "get_property ''type'' (action_json a) \<noteq> None" by (cases a) (simp_all add: typed_property)
  then have "validateAction (action_json a) = Inr (action_json a)" by (simp add: validateAction_def)
  ultimately show ?thesis using True read_action_json [OF assms(1)] by simp
next
  case False
  then have "chunks \<noteq> []" by auto
  then show ?thesis using False read_chunks_limit [of 0 chunks] by (simp add: readJson_def)
qed

theorem action_round_trip_witness:
  "read_action (action_json (ActPropose ''node-1'' VerbPut (AText (js ''k'')) (Some (AText [])))) =
    Declared (ActPropose ''node-1'' VerbPut (AText (js ''k'')) (Some (AText [])))"
proof -
  let ?a = "ActPropose ''node-1'' VerbPut (AText (js ''k'')) (Some (AText []))"
  have ok: "action_ok ?a" by (simp add: ascii_name_def)
  have "length (text_encode (stringify (action_json ?a))) \<le> 200" by code_simp
  then show ?thesis using action_round_trip [OF ok, of "[text_encode (stringify (action_json ?a))]"] by simp
qed

section \<open>Properties\<close>

text \<open>C16: The page draws the partition: after a partition action that succeeds, the graph of the published picture
  has one edge for each pair of members, in the order of the members, and those drawn as cut are exactly the
  ones with their ends on different sides.\<close>

theorem graph_draws_partition:
  assumes "sim_reachable host s" and "sim_execute host (ActPartition names) s = Some (s', Inr ())"
    and "sim_snapshot host s' = Inr snap"
  shows "map (\<lambda>e. (fe_source e, fe_target e)) (snd (buildGraph place (Some snap) selected)) = pairs (lc_members s) \<and>
    (\<forall>e \<in> set (snd (buildGraph place (Some snap) selected)).
      fe_class e = ''partitioned-edge'' \<longleftrightarrow> (fe_source e \<in> set names) \<noteq> (fe_target e \<in> set names))"
proof -
  obtain s1 where part: "sim_partition host names s = (s1, Inr ())" and pub: "sim_publish host s1 = (s', Inr ())"
    using assms(2) by (auto simp: sim_execute_def sim_bind_def split: prod.splits sum.splits)
  note same = publish_frame [of host s1, unfolded pub fst_conv]
  have names: "set names \<subset> set (lc_members s)" and blocked: "set (net_blockedEdges (lc_network s1)) =
      set names \<times> (set (lc_members s) - set names) \<union> (set (lc_members s) - set names) \<times> set names"
    using partition_action_cuts [OF assms(1), of names] part by simp_all
  have reach: "sim_reachable host s'" by (rule sim_reachable.executed [OF assms(1,2)])
  have ms: "lc_members s' = lc_members s"
    using moves_keep_replicas [OF sim_execute_moves [OF assms(2)]] by (simp add: keeps_replicas_def)
  obtain snp where "sim_snapshot host s' = Inr snp" "snapshot_ok (lc_members s') snp"
    using snapshot_total [OF reachable_facts(1-3) [OF reach]] by blast
  then have ids: "map ns_id (cs_nodes snap) = lc_members s" using assms(3) ms by (simp add: snapshot_ok_def)
  have edges: "cs_blockedEdges snap = net_blockedEdges (lc_network s1)"
    using assms(3) same(1) by (auto simp: sim_snapshot_def split: sum.splits)
  have valid: "\<forall>m \<in> set (lc_members s). valid_id m" by (rule reachable_facts(6) [OF assms(1)])
  have vb: "\<forall>(f, t) \<in> set (cs_blockedEdges snap). valid_id f"
    using valid names unfolding edges blocked by auto
  have vn: "\<forall>x \<in> set (cs_nodes snap). valid_id (ns_id x)" using valid ids by (metis image_eqI image_set)
  have "fe_class e = ''partitioned-edge'' \<longleftrightarrow> (fe_source e \<in> set names) \<noteq> (fe_target e \<in> set names)"
    if "e \<in> set (graph_edges snap (cs_nodes snap))" for e
  proof -
    have "fe_source e \<in> set (lc_members s)" "fe_target e \<in> set (lc_members s)"
      using graph_class(2) [OF that vn vb] ids by (metis image_set)+
    then show ?thesis using graph_class(1) [OF that vn vb] unfolding edges blocked by auto
  qed
  then show ?thesis using graph_ends [of snap] ids by (simp add: buildGraph_def)
qed

definition cut_lab :: sim where
  "cut_lab = fst (the (sim_execute lab_host (ActPartition [''node-2'']) (lab 3)))"

definition cut_picture :: cluster_snapshot where
  "cut_picture = (case sim_snapshot lab_host cut_lab of Inr snap \<Rightarrow> snap)"

theorem graph_draws_partition_witness:
  "list_all (\<lambda>e. fe_class e = ''partitioned-edge'' \<longleftrightarrow> (fe_source e \<in> {''node-2''}) \<noteq> (fe_target e \<in> {''node-2''}))
    (snd (buildGraph (\<lambda>i n. i) (Some cut_picture) ''node-1''))"
proof -
  have r: "sim_reachable lab_host (lab 3)" by (intro sim_reachable.created [OF lab_created] insertI1 insertI2)
  have "map_option snd (sim_execute lab_host (ActPartition [''node-2'']) (lab 3)) = Some (Inr ())" by code_simp
  then have x: "sim_execute lab_host (ActPartition [''node-2'']) (lab 3) = Some (cut_lab, Inr ())"
    by (auto simp: cut_lab_def)
  obtain snap where "sim_snapshot lab_host cut_lab = Inr snap"
    using snapshot_total [OF reachable_facts(1-3) [OF sim_reachable.executed [OF r x]]] by blast
  then have "sim_snapshot lab_host cut_lab = Inr cut_picture" by (simp add: cut_picture_def)
  from graph_draws_partition [OF r x this, of "\<lambda>i n. i" "''node-1''"] show ?thesis by (simp add: list_all_iff)
qed

text \<open>What a node of the graph shows, and that a node that has been moved stays where it was put when the next
  picture arrives.\<close>

lemma merge_keeps_position:
  assumes "x \<in> set (merge_nodes next (move_node i pos current))" and "fn_id x = i" and "\<exists>y \<in> set current. fn_id y = i"
  shows "fn_position x = pos"
proof -
  obtain n where n: "x = (case find (\<lambda>z. fn_id z = fn_id n) (move_node i pos current) of
      None \<Rightarrow> n | Some z \<Rightarrow> n\<lparr>fn_position := fn_position z\<rparr>)"
    using assms(1) by (auto simp: merge_nodes_def)
  have i: "fn_id n = i" using n assms(2) by (auto split: option.splits)
  have "\<exists>z. find (\<lambda>z. fn_id z = i) (move_node i pos current) = Some z \<and> fn_position z = pos"
    using assms(3)
  proof (induction current)
    case (Cons c cs)
    then show ?case by (cases "fn_id c = i") (auto simp: move_node_def)
  qed simp
  then show ?thesis using n i by auto
qed

definition split_brain :: "sim_action list" where
  "split_brain = [ActCampaign ''node-1'', ActDrain, ActPartition [''node-1''], ActCampaign ''node-2'', ActDrain]"

definition split_page :: page where
  "split_page = \<lparr>ui_snapshot = (case sim_snapshot lab_host (the (sim_script lab_host split_brain (lab 3))) of
       Inr snap \<Rightarrow> Some snap | Inl _ \<Rightarrow> None), ui_error = None, ui_selected = ''node-2'', ui_partition = [],
     ui_key = js ''k'', ui_value = js ''v''\<rparr>"

text \<open>What the put button sends, and the leader and the selected node the page shows.\<close>

definition addressed :: "page \<Rightarrow> sim_action option \<times> (string \<times> node_role \<times> string) option \<times> (string \<times> node_role \<times> string) option"
  where
  "addressed ui = (put_button ui, map_option (\<lambda>n. (ns_id n, ns_role n, ns_term n)) (shown_leader ui),
     map_option (\<lambda>n. (ns_id n, ns_role n, ns_term n)) (shown_node ui))"

text \<open>The buttons of the page can address the wrong leader: with a deposed leader that a partition has cut off,
  the put button proposes to it, the first node shown as a leader, although another node is shown as the leader
  of a newer term and is the one selected.\<close>

theorem stale_leader_addressed:
  "addressed split_page = (Some (ActPropose ''node-1'' VerbPut (AText (js ''k'')) (Some (AText (js ''v'')))),
     Some (''node-1'', RoleOf Leader, ''1''), Some (''node-2'', RoleOf Leader, ''2''))"
  by code_simp

end
