(* ===== verification/PageTheorems.thy ===== *)
theory PageTheorems
  imports Gestures ClientTheorems
begin

text \<open>
  The properties of the controls of the page: which actions it offers, that the server understands them, and what a
  gesture on a node does.
\<close>

section \<open>The actions the page offers\<close>

lemma clicks_simps [simp]:
  "clicks (el tag cls kids) = concat (map clicks kids)"
  "clicks (plain tag kids) = concat (map clicks kids)"
  "clicks (txt_js t) = []"
  "clicks (button cls dis h label) = (if dis then [] else case h of Act a \<Rightarrow> [a] | _ \<Rightarrow> [])"
  "clicks (leader_button cls action label) = (case action of None \<Rightarrow> [] | Some a \<Rightarrow> [a])"
  by (simp_all add: el_def plain_def txt_js_def button_def leader_button_def split: option.split handler.split)

lemma quiet_views [simp]:
  "clicks (PanelTitle eyebrow t) = []" "clicks (EmptyNote label) = []" "clicks (timeline_row f e) = []"
  "clicks (RaftNodeCard moving node) = []"
  by (simp_all add: PanelTitle_def EmptyNote_def timeline_row_def RaftNodeCard_def Let_def comp_def case_prod_beta)

lemma field_clicks [simp]: "\<forall>a. h \<noteq> Act a \<Longrightarrow> clicks (field label attrs h) = []"
  by (cases h) (simp_all add: field_def)


definition message_actions :: "message_snapshot \<Rightarrow> sim_action list" where
  "message_actions m = [ActDeliver (ms_id m), ActDuplicate (ms_id m), ActDrop (ms_id m)]"

lemma message_row_clicks [simp]: "clicks (message_row m) = message_actions m"
  by (simp add: message_row_def message_actions_def)









section \<open>The server understands them\<close>







text \<open>The instance: an election in the simulation of theory \<open>SimulationTheorems\<close>, its vote requests pending.\<close>

definition voting_lab :: sim where
  "voting_lab = fst (the (sim_execute lab_host (ActCampaign ''node-1'') (lab 3)))"

definition voting_picture :: cluster_snapshot where
  "voting_picture = (case sim_snapshot lab_host voting_lab of Inr snap \<Rightarrow> snap)"



section \<open>Gestures\<close>

lemma finish_new: "finishPointer cd = new_card"
  by (simp add: finishPointer_def clearLongPress_def new_card_def)

lemma call_all_moves:
  "call_all i (map OnMove qs) app = (if qs = [] then app else app\<lparr>pa_nodes := move_node i (last qs) (pa_nodes app)\<rparr>)"
proof (induction qs arbitrary: app)
  case (Cons q qs)
  have twice: "move_node i a (move_node i b ns) = move_node i a ns" for a b and ns :: "point flow_node list"
    by (simp add: move_node_def)
  show ?case using Cons by (cases "qs = []") (simp_all add: call_all_def twice)
qed (simp add: call_all_def)

text \<open>C18: Hold to move: a press that stays within six pixels for 400 ms selects the node, and from then on the node
  follows the pointer, the point it was grabbed at staying under it; the release leaves a card at rest.\<close>

theorem drag_follows_pointer:
  assumes "list_all (still (now + 400) client) wait" and "now + 400 \<le> later"
    and "card_run toFlow ([Press now 0 pointerId client (Some pos)] @ wait @ [Turn later] @ map Move ps @ [Release]) cd =
      (cd', calls)" and "ps \<noteq> []"
  shows "cd' = new_card \<and> ui_selected (pa_page (call_all i calls app)) = i \<and>
    pa_nodes (call_all i calls app) = move_node i
      (point_minus (toFlow (last ps)) (point_minus (toFlow client) pos)) (pa_nodes app)"
proof -
  let ?p = "handlePointerDown toFlow now 0 pointerId client (Some pos) cd"
  have pr: "pressed toFlow (now + 400) client pos ?p" by (rule press_pressed)
  obtain c1 where c1: "card_turn later ?p = (c1, [OnSelect])" "dragging toFlow client pos c1"
    using held_dragging [OF pr assms(2)] by blast
  have "card_run toFlow ([Press now 0 pointerId client (Some pos)] @ wait @ [Turn later] @ map Move ps @ [Release]) cd =
      (new_card, OnSelect # map OnMove (map (dragged_to toFlow client pos) ps))"
    using still_pressed [OF assms(1) pr] c1 dragging_moves [OF c1(2), of ps]
    by (simp add: card_run_append finish_new comp_def)
  then have "cd' = new_card" and calls: "calls = OnSelect # map OnMove (map (dragged_to toFlow client pos) ps)"
    using assms(3) by (simp_all del: map_map)
  moreover have "call_all i (OnSelect # rest) app = call_all i rest (app\<lparr>pa_page := (pa_page app)\<lparr>ui_selected := i\<rparr>\<rparr>)"
    for rest by (simp add: call_all_def)
  ultimately show ?thesis using assms(4) unfolding calls by (simp add: call_all_moves last_map dragged_to_def del: map_map)
qed

definition to_flow :: "point \<Rightarrow> point" where
  "to_flow p = (2 * fst p + 5, 2 * snd p)"

definition ex_drag :: "card \<times> card_call list" where
  "ex_drag = card_run to_flow [Press 0 0 1 (10, 10) (Some (20, 20)), Move (12, 9), Turn 400, Move (30, 10), Move (40, 20), Release] new_card"

definition ex_app :: "point page_app" where
  "ex_app = graph_effect (\<lambda>i n. (20, 20)) (new_app\<lparr>pa_page := ui_event voting_picture new_page\<rparr>)"

theorem drag_follows_pointer_witness:
  "fst ex_drag = new_card \<and> ui_selected (pa_page (call_all ''node-2'' (snd ex_drag) ex_app)) = ''node-2'' \<and>
   pa_nodes (call_all ''node-2'' (snd ex_drag) ex_app) = move_node ''node-2'' (80, 40) (pa_nodes ex_app)"
proof -
  have run: "card_run to_flow ([Press 0 0 1 (10, 10) (Some (20, 20))] @ [Move (12, 9)] @ [Turn 400] @
      map Move [(30, 10), (40, 20)] @ [Release]) new_card = (fst ex_drag, snd ex_drag)"
    by (simp add: ex_drag_def)
  have st: "list_all (still (0 + 400) (10, 10)) [Move (12, 9)]" by code_simp
  have "point_minus (to_flow (last [(30, 10), (40, 20)])) (point_minus (to_flow (10, 10)) (20, 20)) = (80, 40)"
    by code_simp
  then show ?thesis using drag_follows_pointer [OF st _ run, of "''node-2''" ex_app] by simp
qed

text \<open>A press that moves away by more than six pixels before the 400 ms are over is no drag: whatever the pointer
  does until the next press, the node is neither moved nor selected by it.\<close>

theorem quick_move_is_no_drag:
  assumes "list_all (still (now + 400) client) wait" and "moved_away p client" and "list_all no_press es"
  shows "snd (card_run toFlow ([Press now 0 pointerId client (Some pos)] @ wait @ [Move p] @ es) cd) = []"
proof -
  let ?p = "handlePointerDown toFlow now 0 pointerId client (Some pos) cd"
  have pr: "pressed toFlow (now + 400) client pos ?p" by (rule press_pressed)
  obtain c1 where c1: "handlePointerMove toFlow p ?p = (c1, [])" "called_off c1"
    using moved_called_off [OF pr assms(2)] by blast
  then show ?thesis using still_pressed [OF assms(1) pr] called_off_quiet [OF assms(3) c1(2), of toFlow]
    by (simp add: card_run_append case_prod_beta)
qed

theorem quick_move_is_no_drag_witness:
  "snd (card_run to_flow ([Press 0 0 1 (10, 10) (Some (20, 20))] @ [Turn 300] @ [Move (20, 10)] @
     [Turn 500, Move (90, 90), Release, Turn 900]) new_card) = []"
proof (rule quick_move_is_no_drag)
  show "list_all (still (0 + 400) (10, 10)) [Turn 300]" by code_simp
  show "moved_away (20, 10) (10, 10)" by code_simp
  show "list_all no_press [Turn 500, Move (90, 90), Release, Turn 900]" by code_simp
qed

end
