(* ===== verification/Spec2Isabelle.thy ===== *)
theory Spec2Isabelle
  imports CoreTheorems StorageTheorems NodeTheorems NetworkTheorems TimerTheorems TestClusterTheorems KvTheorems KvDemo ServerLife PageTheorems
begin

text \<open>
  A verification of \<open>node-raft-rsm\<close>, a Raft library in TypeScript (\<open>packages/\<close> under \<open>src/\<close>).

  The program.  A deterministic core (\<open>raft-core/src/raft.ts\<close>, class \<open>RaftCore\<close>) takes one event at a
  time and returns a Ready batch: hard state, truncation and entries to persist, messages to send, committed
  entries to apply.  The node runtime (\<open>raft-node/src/node.ts\<close>, class \<open>RaftNode\<close>) persists the batch, then
  sends, then applies, then calls \<open>advance\<close>; it recovers from storage, deduplicates proposals by command
  ID and turns failures into an unhealthy node.  Storage and transport are interfaces
  (\<open>raft-core/src/contracts.ts\<close>) with in-memory adapters; a restartable storage for tests models the disk.

  Theories, in import order.
    \<^item> \<open>Prelude\<close>: majorities, prefixes, decimal numbers.
    \<^item> \<open>RaftTypes\<close>: \<open>types.ts\<close>, \<open>errors.ts\<close>, the batch of \<open>contracts.ts\<close>.
    \<^item> \<open>RaftCore\<close>: every method of the class, state and exceptions explicit.  \<open>AppendLoop\<close>, \<open>CoreSteps\<close>,
      \<open>CoreFacts\<close>, \<open>CoreProps\<close>, \<open>ReadyTrack\<close>: the payload loop as an overlay, a call of \<open>step\<close> as a run of
      small moves, the class invariant and what the effects record of each move.
    \<^item> \<open>RaftProto\<close>, \<open>RaftSafety\<close>: the abstract protocol and its inductive invariant (votes, leader logs, quorums).
    \<^item> \<open>Storage\<close>: both adapters.  \<open>StorageContract\<close>: the locales \<open>raft_storage\<close> and \<open>atomic_storage\<close>, interpreted
      on them.  \<open>Durability\<close>: the Ready batch against the contract.
    \<^item> \<open>RaftNode\<close>, \<open>NodeFacts\<close>: the runtime over any storage, transport and state machine.
    \<^item> \<open>Timeouts\<close>, \<open>NodeTimers\<close>, \<open>TimerTheorems\<close>: promises that race against a timer (\<open>withTimeout\<close>,
      \<open>waitForPending\<close>), the election and heartbeat timers of a node as a step relation over a clock, local reads;
      the locale \<open>timer_source\<close> is what the timers need from their random integers.
    \<^item> \<open>Refinement\<close>: a call of \<open>step\<close> refines the protocol.
    \<^item> \<open>Network\<close>: \<open>MemoryNetwork\<close> and its transport.
    \<^item> \<open>Cluster\<close>: members, durable storages and the network as one step relation with crashes, restarts, message
      loss, duplication, reordering, partitions and storage failures between any two steps of \<open>#processReady\<close>.
      \<open>Schedule\<close>: an executable reading of it and the run \<open>demo\<close>.  \<open>ClusterSafety\<close>: what the refinement gives.
    \<^item> \<open>Runtime\<close>: a call of \<open>process\<close> as a path of the step relation.  \<open>LiveCluster\<close>, \<open>LiveClusterFacts\<close>,
      \<open>LiveClusterCalls\<close>: live nodes over durable storages and one network, the state the test harness and the
      visualizer share, related to the cluster under the locale \<open>live_config\<close>.
    \<^item> \<open>Primitives\<close>: the random generator and the clock of the tests.  \<open>TestCluster\<close>, \<open>TestClusterFacts\<close>,
      \<open>TestClusterTheorems\<close>: the test harness (\<open>raft-testing/src/test-cluster.ts\<close>), an instance of \<open>live_config\<close>.
    \<^item> \<open>JsText\<close>, \<open>Json\<close>, \<open>JsonFacts\<close>: strings as UTF-16 code units, the UTF-8 encoder and decoder, \<open>JSON\<close>.
      \<open>KvMachine\<close>, \<open>KvTheorems\<close>: the JSON command codec and the two key-value state machines under the locale
      \<open>replicated_machine\<close>.  \<open>KvDemo\<close>: the script \<open>examples/replicated-kv/src/demo.ts\<close>, a run of three nodes over
      in-memory storages: it always comes to its end (\<open>demo_returns\<close>), its election succeeds (\<open>demo_elects\<close>).
    \<^item> \<open>SimulationController\<close>: the simulation of the visualizer
      (\<open>raft-visualizer/src/server/simulation-controller.ts\<close>, \<open>shared/protocol.ts\<close>), every action with the events and
      snapshots it causes.  \<open>SimulationSteps\<close>, \<open>SimulationFacts\<close>: an action as a sequence of small moves and what
      they keep (another instance of \<open>live_config\<close>).  \<open>SimulationSnapshots\<close>, \<open>SimulationTheorems\<close>: what it shows,
      that its actions return, which inputs it refuses.  \<open>VisualizerServer\<close>, \<open>ServerTheorems\<close>: the HTTP server around
      it (\<open>server/index.ts\<close>); \<open>ServerLife\<close>: its process, with the chain of enqueued actions (each is answered, in
      order: \<open>chain_answers_all\<close>), keep-alive comments (\<open>comments_spaced\<close>), signals and shutdown.
      \<open>VisualizerClient\<close>, \<open>ClientTheorems\<close>: state, graph and requests of the page
      (\<open>client/App.tsx\<close>, \<open>client/api.ts\<close>).  \<open>PageView\<close>, \<open>Gestures\<close>, \<open>PageTheorems\<close>: its elements with their
      handlers, the timer of automatic steps, the pointer gestures on a node.
    \<^item> \<open>CoreLaws\<close>, \<open>CoreTheorems\<close>, \<open>StorageTheorems\<close>, \<open>NodeTheorems\<close>, \<open>NetworkTheorems\<close>: the properties of
      the parts; those of the cluster are below.

  Conventions.  A class is a record, a method that may throw returns the object as it leaves it with either the
  error or the result, an optional property is an \<open>option\<close>, a \<open>bigint\<close> is an \<^typ>\<open>int\<close>, a \<open>Uint8Array\<close> a list of
  8-bit words.  Loops are recursive functions with a termination proof; the retention loop of \<open>#apply\<close>, which
  ends only for a retention that is not negative, is \<open>partial_function (option)\<close>.  The recursive descent of the
  JSON parser has the fuel \<open>2 * length + 1\<close>, which is enough for every text (\<open>fuel_enough\<close>); the delivery loops
  have the bounds of the code (10000 deliveries).  Doubles appear where the code divides (\<open>SeededRandom\<close>): a
  quotient rounded to 53 bits.

  Time is a number of milliseconds; a timer fires at its due time or later, when the event loop turns to it.

  Not modelled: SHA-256, the order of \<open>localeCompare\<close> and the source of random timeouts (parameters), what
  \<open>ReactFlow\<close> and the browser make of the elements of the page, actions sent to the server with fields of types the
  page never sends (except numbers as key or value).
\<close>

section \<open>The cluster\<close>

text \<open>C1: Election safety: in every reachable state of a cluster (any interleaving of the members,
  message loss, duplication and reordering, partitions, storage failures, crashes and restarts) two running
  members that are leaders of the same term are the same member.\<close>

theorem election_safety:
  assumes "reachable ms opts cl" and "options_ok ms opts" and "a \<in> set ms" and "b \<in> set ms"
    and "up (cl_member cl a)" and "up (cl_member cl b)"
    and "rc_role (core_of cl a) = Leader" and "rc_role (core_of cl b) = Leader"
    and "rc_currentTerm (core_of cl a) = rc_currentTerm (core_of cl b)"
  shows "a = b"
  using reachable_rel [OF assms(1,2)] same_term_leaders assms(3-9) by blast

definition demo_leader :: node_id where
  "demo_leader = hd (filter (\<lambda>n. rc_role (core_of demo n) = Leader) trio)"

theorem election_safety_witness: "demo_leader = ''a''"
proof (rule election_safety [OF demo_reachable demo_options_ok])
  show "demo_leader \<in> set trio" by code_simp
qed code_simp+

text \<open>C2: State machine safety: the entries two members have handed to their state machines never
  diverge: one sequence is a prefix of the other, whatever happened before.\<close>

theorem state_machine_safety:
  assumes "reachable ms opts cl" and "options_ok ms opts" and "a \<in> set ms" and "b \<in> set ms"
  shows "\<exists>xs. mb_applied (cl_member cl a) = mb_applied (cl_member cl b) @ xs \<or>
    mb_applied (cl_member cl b) = mb_applied (cl_member cl a) @ xs"
proof -
  obtain s where rel: "cluster_rel ms s cl" using reachable_rel [OF assms(1,2)] by blast
  let ?a = "mb_applied (cl_member cl a)" and ?b = "mb_applied (cl_member cl b)"
  let ?j = "min (length ?a) (length ?b)"
  have "take ?j ?a = take ?j ?b" by (rule applied_agree [OF rel assms(3,4)]) simp_all
  then show ?thesis
    by (cases "length ?a \<le> length ?b") (metis append_take_drop_id min.absorb1 min.absorb2 nat_le_linear take_all order_refl)+
qed

theorem state_machine_safety_witness:
  "\<exists>xs. mb_applied (cl_member demo ''a'') = mb_applied (cl_member demo ''b'') @ xs \<or>
    mb_applied (cl_member demo ''b'') = mb_applied (cl_member demo ''a'') @ xs"
  by (rule state_machine_safety [OF demo_reachable demo_options_ok trio_members(1,2)])

text \<open>C4: Log matching: when the stored logs of two members have an entry of the same term at the same
  position, they are identical up to and including it.\<close>

theorem log_matching:
  assumes "reachable ms opts cl" and "options_ok ms opts" and "a \<in> set ms" and "b \<in> set ms"
    and "i < length (ps_entries (stored cl a))" and "i < length (ps_entries (stored cl b))"
    and "le_term (ps_entries (stored cl a) ! i) = le_term (ps_entries (stored cl b) ! i)"
  shows "take (Suc i) (ps_entries (stored cl a)) = take (Suc i) (ps_entries (stored cl b))"
  using reachable_rel [OF assms(1,2)] stored_matching assms(3-7) by blast

theorem log_matching_witness:
  "take (Suc 0) (ps_entries (stored demo ''a'')) = take (Suc 0) (ps_entries (stored demo ''b''))"
  by (rule log_matching [OF demo_reachable demo_options_ok trio_members(1,2)]) code_simp+

text \<open>C3: Leader completeness: a running leader holds, entry for entry, everything that any member
  whose stored term is not newer has recorded as committed.\<close>

theorem leader_completeness:
  assumes "reachable ms opts cl" and "options_ok ms opts" and "a \<in> set ms" and "b \<in> set ms"
    and "up (cl_member cl a)" and "rc_role (core_of cl a) = Leader"
    and "hs_currentTerm (ps_hardState (stored cl b)) \<le> rc_currentTerm (core_of cl a)"
  shows "take (commit_of cl b) (ps_entries (stored cl b)) = take (commit_of cl b) (rc_entries (core_of cl a))"
  using reachable_rel [OF assms(1,2)] leader_complete assms(3-7) by blast

theorem leader_completeness_witness:
  "take (commit_of demo ''b'') (ps_entries (stored demo ''b'')) =
    take (commit_of demo ''b'') (rc_entries (core_of demo ''a'')) \<and> commit_of demo ''b'' = 1"
proof
  show "take (commit_of demo ''b'') (ps_entries (stored demo ''b'')) =
    take (commit_of demo ''b'') (rc_entries (core_of demo ''a''))"
    by (rule leader_completeness [OF demo_reachable demo_options_ok trio_members(1,2)]) code_simp+
  show "commit_of demo ''b'' = 1" by code_simp
qed

text \<open>Committed entries agree: the durable logs of two members are equal up to every index both
  have recorded as committed.\<close>

lemma committed_agreement:
  assumes "reachable ms opts cl" and "options_ok ms opts" and "a \<in> set ms" and "b \<in> set ms"
    and "j \<le> commit_of cl a" and "j \<le> commit_of cl b"
  shows "take j (ps_entries (stored cl a)) = take j (ps_entries (stored cl b))"
  using reachable_rel [OF assms(1,2)] stored_committed_agree assms(3-6) by blast

text \<open>Only committed entries reach a state machine: what a member has applied is a prefix of its
  durable log that does not go beyond its durable commit index.\<close>

lemma applied_committed_prefix:
  assumes "reachable ms opts cl" and "options_ok ms opts" and "n \<in> set ms"
  shows "\<exists>k \<le> commit_of cl n. mb_applied (cl_member cl n) = take k (ps_entries (stored cl n))"
  using reachable_rel [OF assms(1,2)] applied_is_committed assms(3) by blast

text \<open>C5: No step takes back a promise: over every step of the cluster, crashes and restarts included,
  the stored term, commit index and applied index of a member do not decrease, its vote in an unchanged
  term stands, and its committed entries stay.\<close>

theorem durable_state_moves_forward:
  assumes "reachable ms opts cl" and "options_ok ms opts" and "cluster_step ms opts cl cl'" and "n \<in> set ms"
  shows "safe_change (stored cl n) (stored cl' n)"
  using reachable_rel [OF assms(1,2)] step_stored_safe assms(3,4) by blast

theorem durable_state_moves_forward_witness:
  "safe_change (stored demo ''a'')
    (stored (put_member ''a'' ((cl_member demo ''a'')\<lparr>mb_phase := Down\<rparr>) demo) ''a'')"
  by (rule durable_state_moves_forward [OF demo_reachable demo_options_ok _ trio_members(1)])
    (rule cluster_step.crash [OF trio_members(1) refl])

text \<open>C6: Messages of the cluster are never poison: a message that the network delivers to an idle member
  and that passes the envelope check makes \<open>step\<close> return; the errors of \<open>#handleAppendRequest\<close> (gaps,
  overwriting a committed entry) cannot occur.\<close>

theorem delivered_message_returns:
  assumes "reachable ms opts cl" and "options_ok ms opts" and "n \<in> set ms"
    and "mb_phase (cl_member cl n) = Idle" and "net_deliver i (cl_net cl) = (net, Some m)"
    and "accepts (core_of cl n) m"
  shows "\<exists>c' r. core_step (MessageEvent m) (core_of cl n) = (c', Inr r)"
  using reachable_rel [OF assms(1,2)] delivered_returns assms(3-6) by blast

theorem delivered_message_returns_witness:
  "\<exists>c' r. core_step (MessageEvent (the (snd (net_deliver 0 (cl_net demo))))) (core_of demo ''c'') = (c', Inr r)"
proof (rule delivered_message_returns [OF demo_reachable demo_options_ok trio_members(3)])
  show "net_deliver 0 (cl_net demo) =
    (fst (net_deliver 0 (cl_net demo)), Some (the (snd (net_deliver 0 (cl_net demo)))))" by code_simp
qed code_simp+

text \<open>C7: The storage of a reachable cluster never refuses a Ready batch: unless a failure was injected or the
  handle closed, persisting the batch a member has been handed succeeds and the storage then holds the image
  of its core.\<close>

theorem ready_batch_persists:
  assumes "reachable ms opts cl" and "options_ok ms opts" and "n \<in> set ms"
    and "mb_phase (cl_member cl n) = Persisting rd" and "handle_ready (mb_store (cl_member cl n))"
  shows "\<exists>h. handle_persist (ready_batch rd) (mb_store (cl_member cl n)) = (h, Inr ()) \<and>
    handle_view h = core_image (core_of cl n)"
  using reachable_rel [OF assms(1,2)] batch_accepted assms(3-5) by blast

definition demo_next :: cluster where
  "demo_next = the (exec demo_options (Local ''c'' (ElectionTimeout 5)) demo)"

definition demo_batch :: raft_ready where
  "demo_batch = (case mb_phase (cl_member demo_next ''c'') of Persisting rd \<Rightarrow> rd)"

theorem ready_batch_persists_witness:
  "\<exists>h. handle_persist (ready_batch demo_batch) (mb_store (cl_member demo_next ''c'')) = (h, Inr ()) \<and>
    handle_view h = core_image (core_of demo_next ''c'')"
proof (rule ready_batch_persists [OF _ demo_options_ok trio_members(3)])
  have "exec demo_options (Local ''c'' (ElectionTimeout 5)) demo \<noteq> None" by code_simp
  then have "exec demo_options (Local ''c'' (ElectionTimeout 5)) demo = Some demo_next"
    by (auto simp: demo_next_def)
  then show "reachable trio demo_options demo_next"
    using exec_all_reachable [OF _ demo_reachable, of "[Local ''c'' (ElectionTimeout 5)]" demo_next]
      trio_members by simp
  show "mb_phase (cl_member demo_next ''c'') = Persisting demo_batch" by code_simp
  show "handle_ready (mb_store (cl_member demo_next ''c''))" by code_simp
qed

end
